(* ===== verification/Prelude.thy ===== *)
theory Prelude
  imports Main
    "HOL-Library.Word"
    "HOL-Library.Finite_Map"
    "HOL-Library.FSet"
    "HOL-Library.Char_ord"
    "HOL-Library.List_Lexorder"
    "HOL-Library.Product_Lexorder"
begin

text \<open>
  Shared vocabulary of the development.

  \<^item> The machine types of the Rust code as words of the same width. A BLAKE3 digest
    (\<open>[u8; 32]\<close>) is a 256-bit word read big-endian, so the byte-wise order of the array is the
    order of the word.
  \<^item> \<open>BTreeMap\<close> and \<open>BTreeSet\<close> are the finite maps and finite sets of the library; iteration
    in key order is \<open>fm_entries\<close> and \<open>fs_elems\<close>.
  \<^item> \<open>anyhow::Result\<close> is the sum \<open>error + 'a\<close>, with \<open>rbind\<close> for the question-mark operator.
  \<^item> \<open>to_be_bytes\<close> and \<open>from_be_bytes\<close> of the standard library, with their round trip and the
    fact that equally long big-endian strings are ordered as the numbers they denote.
  \<^item> \<open>frame\<close> and \<open>eval_simps\<close> are the fact collections the component theories extend.
\<close>

unbundle bit_operations_syntax

named_theorems frame \<open>what an operation leaves untouched\<close>
named_theorems eval_simps \<open>equations used to evaluate closed instances\<close>

type_synonym byte = "8 word"
type_synonym bytes = "8 word list"
type_synonym u16 = "16 word"
type_synonym u32 = "32 word"
type_synonym u64 = "64 word"
type_synonym u128 = "128 word"
type_synonym hash = "256 word"

section \<open>Big-endian byte strings\<close>

fun be_nat :: "nat \<Rightarrow> nat \<Rightarrow> bytes" where
  "be_nat 0 n = []"
| "be_nat (Suc k) n = be_nat k (n div 256) @ [word_of_nat (n mod 256)]"

definition nat_of_be :: "bytes \<Rightarrow> nat" where
  "nat_of_be bs = foldl (\<lambda>acc b. acc * 256 + unat b) 0 bs"

definition to_be_bytes :: "nat \<Rightarrow> 'a::len word \<Rightarrow> bytes" where
  "to_be_bytes k w = be_nat k (unat w)"

definition from_be_bytes :: "bytes \<Rightarrow> 'a::len word" where
  "from_be_bytes bs = word_of_nat (nat_of_be bs)"

lemma length_be_nat [simp]: "length (be_nat k n) = k"
  by (induction k arbitrary: n) auto

lemma length_to_be_bytes [simp]: "length (to_be_bytes k w) = k"
  by (simp add: to_be_bytes_def)

lemma nat_of_be_snoc [simp]: "nat_of_be (bs @ [b]) = nat_of_be bs * 256 + unat b"
  by (simp add: nat_of_be_def)

lemma nat_of_be_Nil [simp]: "nat_of_be [] = 0"
  by (simp add: nat_of_be_def)

lemma unat_byte_of_mod [simp]: "unat (word_of_nat (n mod 256) :: byte) = n mod 256"
  by (simp add: unat_of_nat)

lemma nat_of_be_be_nat: "nat_of_be (be_nat k n) = n mod 256 ^ k"
proof (induction k arbitrary: n)
  case 0
  show ?case by simp
next
  case (Suc k)
  have "n mod (256 * 256 ^ k) = 256 * (n div 256 mod 256 ^ k) + n mod 256"
    by (rule mod_mult2_eq)
  then show ?case by (simp add: Suc.IH)
qed

lemma from_to_be_bytes:
  fixes w :: "'a::len word"
  assumes "LENGTH('a) \<le> 8 * k"
  shows "from_be_bytes (to_be_bytes k w) = w"
proof -
  have "unat w < 2 ^ LENGTH('a)" by (rule unsigned_less)
  also have "(2::nat) ^ LENGTH('a) \<le> 2 ^ (8 * k)"
    using assms by (intro power_increasing) auto
  also have "(2::nat) ^ (8 * k) = 256 ^ k" by (simp add: power_mult)
  finally show ?thesis
    by (simp add: from_be_bytes_def to_be_bytes_def nat_of_be_be_nat)
qed

lemma to_be_bytes_inject:
  fixes v w :: "'a::len word"
  assumes "LENGTH('a) \<le> 8 * k"
  shows "to_be_bytes k v = to_be_bytes k w \<longleftrightarrow> v = w"
  using from_to_be_bytes [OF assms, of v] from_to_be_bytes [OF assms, of w] by metis

lemma u128_be_inject [simp]: "to_be_bytes 16 v = to_be_bytes 16 w \<longleftrightarrow> v = w" for v w :: u128
  by (rule to_be_bytes_inject) simp

lemma u64_be_inject [simp]: "to_be_bytes 8 v = to_be_bytes 8 w \<longleftrightarrow> v = w" for v w :: u64
  by (rule to_be_bytes_inject) simp

lemma hash_be_inject [simp]: "to_be_bytes 32 v = to_be_bytes 32 w \<longleftrightarrow> v = w" for v w :: hash
  by (rule to_be_bytes_inject) simp

lemma u128_be_roundtrip [simp]: "from_be_bytes (to_be_bytes 16 w) = w" for w :: u128
  by (rule from_to_be_bytes) simp

lemma u64_be_roundtrip [simp]: "from_be_bytes (to_be_bytes 8 w) = w" for w :: u64
  by (rule from_to_be_bytes) simp

text \<open>Big-endian strings of one length are ordered as their numbers.\<close>

lemma nat_of_be_bound: "nat_of_be bs < 256 ^ length bs"
proof (induction bs rule: rev_induct)
  case (snoc b bs)
  have "unat b < 256" using unsigned_less [of b] by simp
  with snoc show ?case by simp
qed simp

lemma nat_of_be_Cons: "nat_of_be (b # bs) = unat b * 256 ^ length bs + nat_of_be bs"
proof (induction bs rule: rev_induct)
  case Nil
  show ?case by (simp add: nat_of_be_def)
next
  case (snoc x xs)
  have "nat_of_be (b # xs @ [x]) = nat_of_be ((b # xs) @ [x])" by simp
  also have "\<dots> = nat_of_be (b # xs) * 256 + unat x" by (simp only: nat_of_be_snoc)
  finally show ?case by (simp add: snoc algebra_simps)
qed

lemma be_less_iff:
  "length xs = length ys \<Longrightarrow> xs < ys \<longleftrightarrow> nat_of_be xs < nat_of_be ys"
proof (induction xs ys rule: list_induct2)
  case Nil
  show ?case by simp
next
  case (Cons x xs y ys)
  let ?B = "256 ^ length ys :: nat"
  have bx: "nat_of_be xs < ?B" and by': "nat_of_be ys < ?B"
    using nat_of_be_bound [of xs] nat_of_be_bound [of ys] Cons.hyps by auto
  have lt: "a < b \<Longrightarrow> a * ?B + nat_of_be u < b * ?B + nat_of_be v"
    if "nat_of_be u < ?B" for a b :: nat and u v
  proof -
    assume "a < b"
    then have "Suc a * ?B \<le> b * ?B" by (intro mult_right_mono) auto
    with that show ?thesis by simp
  qed
  have lt1: "unat x < unat y \<Longrightarrow> nat_of_be (x # xs) < nat_of_be (y # ys)"
    using lt [OF bx] Cons.hyps by (simp add: nat_of_be_Cons)
  have lt2: "unat y < unat x \<Longrightarrow> nat_of_be (y # ys) < nat_of_be (x # xs)"
    using lt [OF by'] Cons.hyps by (simp add: nat_of_be_Cons)
  show ?case
  proof (cases x y rule: linorder_cases)
    case less
    with lt1 show ?thesis by (simp add: word_less_nat_alt)
  next
    case equal
    with Cons show ?thesis by (simp add: nat_of_be_Cons)
  next
    case greater
    with lt2 show ?thesis by (auto simp: word_less_nat_alt)
  qed
qed

lemma to_be_bytes_less_iff:
  fixes v w :: "'a::len word"
  assumes "LENGTH('a) \<le> 8 * k"
  shows "to_be_bytes k v < to_be_bytes k w \<longleftrightarrow> v < w"
proof -
  have small: "unat x < 256 ^ k" for x :: "'a word"
  proof -
    have "unat x < 2 ^ LENGTH('a)" by (rule unsigned_less)
    also have "(2::nat) ^ LENGTH('a) \<le> 2 ^ (8 * k)"
      using assms by (intro power_increasing) auto
    finally show ?thesis by (simp add: power_mult)
  qed
  show ?thesis
    by (simp add: be_less_iff to_be_bytes_def nat_of_be_be_nat small word_less_nat_alt)
qed

section \<open>Results\<close>

text \<open>
  \<open>anyhow\<close> errors are values of one type. The checks of the Merkle verifier and the errors a caller
  tells apart have constructors of their own; \<open>Bail\<close> carries the constant part of the message of the
  other places that raise one, without the interpolated values. \<open>OutOfFuel\<close> is no error of the code: a walk that
  is bounded by fuel in the model would answer it, and each walk is shown never to.
\<close>

datatype error =
    TooManySteps nat
  | RootMismatch
  | IndexOutside nat nat
  | WrongShape nat
  | NotEmptyRoot
  | NotBracketing
  | NotAdjacent
  | LowerNotBelow
  | NotLastEntry
  | UpperNotAbove
  | NotFirstEntry
  | NoNeighbour
  | NotARecipient nat
  | TooNew u32
  | NeedsMigrate u32
  | StaleRecords nat
  | OutOfFuel
  | Bail string

type_synonym 'a result = "error + 'a"

definition rbind :: "'e + 'a \<Rightarrow> ('a \<Rightarrow> 'e + 'b) \<Rightarrow> 'e + 'b" where
  "rbind r f = (case r of Inl e \<Rightarrow> Inl e | Inr x \<Rightarrow> f x)"

lemma rbind_simps [simp]: "rbind (Inl e) f = Inl e" "rbind (Inr x) f = f x"
  by (simp_all add: rbind_def)

lemma rbind_cong: "r = r' \<Longrightarrow> (\<And>x. r' = Inr x \<Longrightarrow> f x = g x) \<Longrightarrow> rbind r f = rbind r' g"
  by (cases r') auto

lemma rbind_Inr_iff: "rbind r f = Inr y \<longleftrightarrow> (\<exists>x. r = Inr x \<and> f x = Inr y)"
  by (cases r) auto

lemma rbind_split_asm:
  "P (rbind r f) \<longleftrightarrow> \<not> ((\<exists>e. r = Inl e \<and> \<not> P (Inl e)) \<or> (\<exists>x. r = Inr x \<and> \<not> P (f x)))"
  by (cases r) auto

text \<open>\<open>iter().map(f).collect::<Result<Vec<_>>>()\<close>: the first error wins.\<close>

fun rmap :: "('a \<Rightarrow> 'e + 'b) \<Rightarrow> 'a list \<Rightarrow> 'e + 'b list" where
  "rmap f [] = Inr []"
| "rmap f (x # xs) = rbind (f x) (\<lambda>y. rbind (rmap f xs) (\<lambda>ys. Inr (y # ys)))"

lemma rmap_all_Inr: "(\<And>x. x \<in> set xs \<Longrightarrow> f x = Inr (g x)) \<Longrightarrow> rmap f xs = Inr (map g xs)"
  by (induction xs) auto

lemma rmap_Inr_length: "rmap f xs = Inr ys \<Longrightarrow> length ys = length xs"
  by (induction xs arbitrary: ys) (auto simp: rbind_Inr_iff)

section \<open>Fallible state-changing code\<close>

text \<open>
  A method that writes to the stores and returns a \<open>Result\<close>: what was written before an error
  stays written, as the question-mark operator rolls nothing back.
\<close>

type_synonym ('s, 'a) comp = "'s \<Rightarrow> (error + 'a) \<times> 's"

definition ret :: "'a \<Rightarrow> ('s, 'a) comp" where
  "ret x s = (Inr x, s)"

definition raise :: "error \<Rightarrow> ('s, 'a) comp" where
  "raise e s = (Inl e, s)"

definition bindE :: "('s, 'a) comp \<Rightarrow> ('a \<Rightarrow> ('s, 'b) comp) \<Rightarrow> ('s, 'b) comp" where
  "bindE m f s = (case m s of (Inl e, s') \<Rightarrow> (Inl e, s') | (Inr x, s') \<Rightarrow> f x s')"

definition reads :: "('s \<Rightarrow> 'a result) \<Rightarrow> ('s, 'a) comp" where
  "reads f s = (f s, s)"

definition upd :: "('s \<Rightarrow> 's) \<Rightarrow> ('s, unit) comp" where
  "upd f s = (Inr (), f s)"

fun for_each :: "'x list \<Rightarrow> ('x \<Rightarrow> ('s, unit) comp) \<Rightarrow> ('s, unit) comp" where
  "for_each [] f = ret ()"
| "for_each (x # xs) f = bindE (f x) (\<lambda>_. for_each xs f)"

lemma comp_simps [simp]:
  "ret x s = (Inr x, s)" "raise e s = (Inl e, s)" "reads r s = (r s, s)" "upd u s = (Inr (), u s)"
  by (simp_all add: ret_def raise_def reads_def upd_def)

lemma bindE_Inl [simp]: "m s = (Inl e, s') \<Longrightarrow> bindE m f s = (Inl e, s')"
  by (simp add: bindE_def)

lemma bindE_Inr [simp]: "m s = (Inr x, s') \<Longrightarrow> bindE m f s = f x s'"
  by (simp add: bindE_def)

lemma bindE_eq_Inr:
  "bindE m f s = (Inr y, s'') \<longleftrightarrow> (\<exists>x s'. m s = (Inr x, s') \<and> f x s' = (Inr y, s''))"
  by (auto simp: bindE_def split: prod.splits sum.splits)

lemma bindE_split:
  "P (bindE m f s) \<longleftrightarrow>
     (\<forall>e s'. m s = (Inl e, s') \<longrightarrow> P (Inl e, s')) \<and> (\<forall>x s'. m s = (Inr x, s') \<longrightarrow> P (f x s'))"
  by (auto simp: bindE_def split: prod.splits sum.splits)

lemma bindE_split_asm:
  "P (bindE m f s) \<longleftrightarrow>
     \<not> ((\<exists>e s'. m s = (Inl e, s') \<and> \<not> P (Inl e, s')) \<or> (\<exists>x s'. m s = (Inr x, s') \<and> \<not> P (f x s')))"
  by (auto simp: bindE_def split: prod.splits sum.splits)

text \<open>A relation on states that every step keeps is kept by sequences, whether or not they fail.\<close>

definition keeps :: "('s \<Rightarrow> 's \<Rightarrow> bool) \<Rightarrow> ('s, 'a) comp \<Rightarrow> bool" where
  "keeps R m \<longleftrightarrow> (\<forall>s. R s (snd (m s)))"

lemma keepsI: "(\<And>s r s'. m s = (r, s') \<Longrightarrow> R s s') \<Longrightarrow> keeps R m"
  by (auto simp: keeps_def) (metis prod.collapse)

lemma keepsD: "keeps R m \<Longrightarrow> m s = (r, s') \<Longrightarrow> R s s'"
  by (metis keeps_def snd_conv)

lemma keeps_basic:
  "reflp R \<Longrightarrow> keeps R (ret x)" "reflp R \<Longrightarrow> keeps R (raise e)" "reflp R \<Longrightarrow> keeps R (reads r)"
  "reflp R \<Longrightarrow> keeps R (Pair y)"
  by (simp_all add: keeps_def reflpD)

lemma keeps_upd: "(\<And>s. R s (u s)) \<Longrightarrow> keeps R (upd u)"
  by (simp add: keeps_def)

lemma keeps_bindE:
  "transp R \<Longrightarrow> keeps R m \<Longrightarrow> (\<And>x. keeps R (f x)) \<Longrightarrow> keeps R (bindE m f)"
  by (auto simp: keeps_def bindE_def split: prod.splits sum.splits) (metis snd_conv transpD)+

lemma keeps_for_each:
  "reflp R \<Longrightarrow> transp R \<Longrightarrow> (\<And>x. keeps R (f x)) \<Longrightarrow> keeps R (for_each xs f)"
  by (induction xs) (auto intro: keeps_basic keeps_bindE)

text \<open>
  Partial-correctness triples for such code: \<open>Q\<close> holds of the result and the state on success, \<open>E\<close> of the
  error and the state otherwise.
\<close>

definition triple :: "('s \<Rightarrow> bool) \<Rightarrow> ('s, 'a) comp \<Rightarrow> ('a \<Rightarrow> 's \<Rightarrow> bool) \<Rightarrow> (error \<Rightarrow> 's \<Rightarrow> bool) \<Rightarrow> bool" where
  "triple I m Q E \<longleftrightarrow>
     (\<forall>s. I s \<longrightarrow> (case m s of (Inr x, s') \<Rightarrow> Q x s' | (Inl e, s') \<Rightarrow> E e s'))"

lemma tripleI:
  "(\<And>s x s'. I s \<Longrightarrow> m s = (Inr x, s') \<Longrightarrow> Q x s') \<Longrightarrow> (\<And>s e s'. I s \<Longrightarrow> m s = (Inl e, s') \<Longrightarrow> E e s') \<Longrightarrow>
     triple I m Q E"
  by (auto simp: triple_def split: prod.split sum.split)

lemma tripleD: "triple I m Q E \<Longrightarrow> I s \<Longrightarrow> m s = (Inr x, s') \<Longrightarrow> Q x s'"
  by (fastforce simp: triple_def split: prod.splits sum.splits)

lemma tripleE: "triple I m Q E \<Longrightarrow> I s \<Longrightarrow> m s = (Inl e, s') \<Longrightarrow> E e s'"
  by (fastforce simp: triple_def split: prod.splits sum.splits)

lemma triple_bindE:
  assumes "triple I m R E" "\<And>x. triple (R x) (f x) Q E"
  shows "triple I (bindE m f) Q E"
proof (rule tripleI)
  fix s y s'
  assume "I s" "bindE m f s = (Inr y, s')"
  then show "Q y s'" using assms by (auto simp: bindE_eq_Inr dest: tripleD)
next
  fix s e s'
  assume "I s" "bindE m f s = (Inl e, s')"
  then show "E e s'"
    using assms by (auto simp: bindE_def split: prod.splits sum.splits dest: tripleD tripleE)
qed

lemma triple_for_each:
  "(\<And>x. x \<in> set xs \<Longrightarrow> triple I (f x) (\<lambda>_. I) E) \<Longrightarrow> triple I (for_each xs f) (\<lambda>_. I) E"
proof (induction xs)
  case Nil
  show ?case by (simp add: triple_def)
next
  case (Cons x xs)
  then show ?case by (auto intro!: triple_bindE [where R = "\<lambda>_. I"])
qed

lemma triple_keeps:
  "keeps R m \<Longrightarrow> (\<And>s s'. R s s' \<Longrightarrow> I s \<Longrightarrow> I s') \<Longrightarrow> triple I m (\<lambda>_. I) (\<lambda>_. I)"
  by (rule tripleI) (auto dest: keepsD)

lemma triple_ret: "(\<And>s. I s \<Longrightarrow> Q x s) \<Longrightarrow> triple I (ret x) Q E"
  by (simp add: triple_def)

text \<open>Two runs in step: \<open>h\<close> maps the states of the first to those of the second.\<close>

definition in_step :: "('s \<Rightarrow> bool) \<Rightarrow> ('s \<Rightarrow> 't) \<Rightarrow> ('s, 'a) comp \<Rightarrow> ('t, 'a) comp \<Rightarrow> bool" where
  "in_step S h f g \<longleftrightarrow> (\<forall>s. S s \<longrightarrow> g (h s) = (fst (f s), h (snd (f s))) \<and> S (snd (f s)))"

lemma in_stepI:
  "(\<And>s. S s \<Longrightarrow> g (h s) = (fst (f s), h (snd (f s))) \<and> S (snd (f s))) \<Longrightarrow> in_step S h f g"
  by (simp add: in_step_def)

lemma in_step_ret: "in_step S h (ret x) (ret x)"
  by (simp add: in_step_def)

lemma in_step_raise: "in_step S h (raise x) (raise x)"
  by (simp add: in_step_def)

lemma in_step_reads: "(\<And>s. S s \<Longrightarrow> r' (h s) = r s) \<Longrightarrow> in_step S h (reads r) (reads r')"
  by (simp add: in_step_def)

lemma in_step_upd: "(\<And>s. S s \<Longrightarrow> u' (h s) = h (u s) \<and> S (u s)) \<Longrightarrow> in_step S h (upd u) (upd u')"
  by (simp add: in_step_def)

lemma in_step_bindE:
  assumes "in_step S h m m'" "\<And>x. in_step S h (f x) (f' x)"
  shows "in_step S h (bindE m f) (bindE m' f')"
  unfolding in_step_def
proof (intro allI impI)
  fix s
  assume "S s"
  then have m: "m' (h s) = (fst (m s), h (snd (m s)))" "S (snd (m s))" using assms(1) by (auto simp: in_step_def)
  show "bindE m' f' (h s) = (fst (bindE m f s), h (snd (bindE m f s))) \<and> S (snd (bindE m f s))"
  proof (cases "fst (m s)")
    case (Inl e)
    then show ?thesis using m by (simp add: bindE_def case_prod_unfold)
  next
    case (Inr x)
    then show ?thesis using m assms(2) [of x] by (simp add: bindE_def case_prod_unfold in_step_def)
  qed
qed

lemma in_step_for_each:
  "(\<And>x. x \<in> set xs \<Longrightarrow> in_step S h (f x) (g x)) \<Longrightarrow> in_step S h (for_each xs f) (for_each xs g)"
  by (induction xs) (auto intro!: in_step_ret in_step_bindE)

lemma triple_conseq:
  "triple I m Q E \<Longrightarrow> (\<And>s. I' s \<Longrightarrow> I s) \<Longrightarrow> (\<And>x s. Q x s \<Longrightarrow> Q' x s) \<Longrightarrow> (\<And>e s. E e s \<Longrightarrow> E' e s) \<Longrightarrow>
     triple I' m Q' E'"
  by (fastforce simp: triple_def split: prod.splits sum.splits)

section \<open>Ordered maps and sets\<close>

definition fm_entries :: "('k::linorder, 'v) fmap \<Rightarrow> ('k \<times> 'v) list" where
  "fm_entries m = sorted_list_of_fmap m"

definition fm_keys :: "('k::linorder, 'v) fmap \<Rightarrow> 'k list" where
  "fm_keys m = sorted_list_of_fset (fmdom m)"

definition fs_elems :: "'k::linorder fset \<Rightarrow> 'k list" where
  "fs_elems s = sorted_list_of_fset s"

lemma set_fm_keys [simp]: "set (fm_keys m) = fmdom' m"
  by (simp add: fm_keys_def fmdom'_alt_def sorted_list_of_fset.rep_eq)

lemma sorted_fm_keys [simp]: "sorted (fm_keys m)"
  by (simp add: fm_keys_def sorted_list_of_fset.rep_eq)

lemma distinct_fm_keys [simp]: "distinct (fm_keys m)"
  by (simp add: fm_keys_def sorted_list_of_fset.rep_eq)

lemma fm_entries_keys: "fm_entries m = map (\<lambda>k. (k, the (fmlookup m k))) (fm_keys m)"
  by (simp add: fm_entries_def fm_keys_def sorted_list_of_fmap_def)

lemma map_fst_fm_entries [simp]: "map fst (fm_entries m) = fm_keys m"
  by (simp add: fm_entries_keys comp_def)

lemma in_fm_entries [simp]: "(k, v) \<in> set (fm_entries m) \<longleftrightarrow> fmlookup m k = Some v"
  by (auto simp: fm_entries_keys fmlookup_dom'_iff)

lemma fm_entries_empty [simp]: "fm_entries fmempty = []"
  by (simp add: fm_entries_keys fm_keys_def sorted_list_of_fset.rep_eq)

lemma fm_entries_eq_Nil [simp]: "fm_entries m = [] \<longleftrightarrow> m = fmempty"
proof
  assume "fm_entries m = []"
  then have "fmlookup m k = None" for k
    by (metis in_fm_entries empty_iff list.set(1) not_None_eq)
  then show "m = fmempty" by (intro fmap_ext) simp
qed simp

lemma fm_keys_eq_Nil [simp]: "fm_keys m = [] \<longleftrightarrow> m = fmempty"
  by (metis fm_entries_eq_Nil fm_entries_keys map_is_Nil_conv)

lemma fm_keys_empty [simp]: "fm_keys fmempty = []"
  by simp

lemma set_fs_elems [simp]: "set (fs_elems s) = fset s"
  by (simp add: fs_elems_def sorted_list_of_fset.rep_eq)

lemma sorted_fs_elems [simp]: "sorted (fs_elems s)"
  by (simp add: fs_elems_def sorted_list_of_fset.rep_eq)

lemma distinct_fs_elems [simp]: "distinct (fs_elems s)"
  by (simp add: fs_elems_def sorted_list_of_fset.rep_eq)

lemma fmap_eqI: "(\<And>k. fmlookup m k = fmlookup n k) \<Longrightarrow> m = n"
  by (rule fmap_ext)

lemma map_of_fm_entries [simp]: "map_of (fm_entries m) = fmlookup m"
proof
  fix k
  show "map_of (fm_entries m) k = fmlookup m k"
  proof (cases "fmlookup m k")
    case None
    then have "k \<notin> fst ` set (fm_entries m)" by (auto simp: image_iff)
    with None show ?thesis by (simp add: map_of_eq_None_iff)
  next
    case (Some v)
    then have "(k, v) \<in> set (fm_entries m)" by simp
    then have "map_of (fm_entries m) k = Some v" by (intro map_of_is_SomeI) auto
    with Some show ?thesis by simp
  qed
qed

lemma fm_entries_single [simp]: "fm_entries (fmupd k v fmempty) = [(k, v)]"
  by (simp add: fm_entries_keys fm_keys_def sorted_list_of_fset.rep_eq)

text \<open>A loop that rewrites the entry of every key it visits.\<close>

lemma fold_fmupd_lookup:
  "distinct (map fst es) \<Longrightarrow>
     fmlookup (fold (\<lambda>(k, v) s. fmupd k (f v (fmlookup s k)) s) es m) j =
       (case map_of es j of None \<Rightarrow> fmlookup m j | Some v \<Rightarrow> Some (f v (fmlookup m j)))"
proof (induction es arbitrary: m)
  case (Cons e es)
  obtain k v where e: "e = (k, v)" by (cases e)
  have "map_of es k = None" using Cons.prems e by (auto simp: map_of_eq_None_iff)
  with Cons e show ?case by (cases "j = k") (auto split: option.split)
qed simp

section \<open>Lists\<close>

text \<open>\<open>Iterator::position\<close> and \<open>rposition\<close>, and the bytes of an ASCII literal.\<close>

fun position :: "('a \<Rightarrow> bool) \<Rightarrow> 'a list \<Rightarrow> nat option" where
  "position P [] = None"
| "position P (x # xs) = (if P x then Some 0 else map_option Suc (position P xs))"

definition rposition :: "('a \<Rightarrow> bool) \<Rightarrow> 'a list \<Rightarrow> nat option" where
  "rposition P xs = map_option (\<lambda>k. length xs - 1 - k) (position P (rev xs))"

definition str_bytes :: "string \<Rightarrow> bytes" where
  "str_bytes s = map (\<lambda>c. word_of_nat (of_char c)) s"

lemma position_None: "position P xs = None \<longleftrightarrow> (\<forall>x \<in> set xs. \<not> P x)"
  by (induction xs) auto

lemma position_Some:
  "position P xs = Some k \<longleftrightarrow> k < length xs \<and> P (xs ! k) \<and> (\<forall>j < k. \<not> P (xs ! j))"
proof (induction xs arbitrary: k)
  case (Cons x xs)
  show ?case
  proof (cases k)
    case 0
    then show ?thesis by auto
  next
    case (Suc j)
    have "(\<forall>i < Suc j. \<not> P ((x # xs) ! i)) \<longleftrightarrow> \<not> P x \<and> (\<forall>i < j. \<not> P (xs ! i))"
      by (auto simp: All_less_Suc2)
    with Suc Cons.IH [of j] show ?thesis by auto
  qed
qed simp

lemma position_lt: "position P xs = Some k \<Longrightarrow> k < length xs"
  by (simp add: position_Some)

lemma rposition_None: "rposition P xs = None \<longleftrightarrow> (\<forall>x \<in> set xs. \<not> P x)"
  by (simp add: rposition_def position_None)

lemma rposition_Some:
  assumes "rposition P xs = Some k"
  shows "k < length xs \<and> P (xs ! k) \<and> (\<forall>j. k < j \<and> j < length xs \<longrightarrow> \<not> P (xs ! j))"
proof -
  let ?n = "length xs"
  from assms obtain m where m: "position P (rev xs) = Some m" and k: "k = ?n - 1 - m"
    by (auto simp: rposition_def)
  from m have mn: "m < ?n" and Pm: "P (rev xs ! m)" and least: "\<forall>j < m. \<not> P (rev xs ! j)"
    by (simp_all add: position_Some)
  have "\<not> P (xs ! j)" if "k < j" "j < ?n" for j
  proof -
    have "?n - 1 - j < m" using that k mn by arith
    with least have "\<not> P (rev xs ! (?n - 1 - j))" by blast
    then show ?thesis using that by (simp add: rev_nth)
  qed
  then show ?thesis using mn Pm k by (auto simp: rev_nth)
qed

text \<open>A preorder kept by every step of a loop.\<close>

lemma fold_rel:
  assumes "reflp R" "transp R" "\<And>x s. R s (f x s)"
  shows "R s (fold f xs s)"
proof (induction xs arbitrary: s)
  case (Cons x xs)
  show ?case using transpD [OF assms(2) assms(3) Cons] by simp
qed (simp add: reflpD [OF assms(1)])

lemma sorted_distinct_strict: "sorted xs \<Longrightarrow> distinct xs \<Longrightarrow> sorted_wrt (<) (xs :: 'a::linorder list)"
  by (simp add: strict_sorted_iff)

lemma strict_sorted_nth_less:
  "sorted_wrt (<) (xs :: 'a::linorder list) \<Longrightarrow> i < j \<Longrightarrow> j < length xs \<Longrightarrow> xs ! i < xs ! j"
  by (simp add: sorted_wrt_iff_nth_less)

lemma strict_sorted_assoc_unique:
  assumes "sorted_wrt (<) (map fst xs)" "set xs = set ys" "sorted_wrt (<) (map fst ys)"
  shows "(xs :: ('k::linorder \<times> 'v) list) = ys"
proof -
  have "distinct xs" "distinct ys" using assms by (auto simp: strict_sorted_iff distinct_map)
  moreover have "sorted_wrt (\<lambda>x y. fst x < fst y) xs" "sorted_wrt (\<lambda>x y. fst x < fst y) ys"
    using assms by (simp_all add: sorted_wrt_map)
  ultimately show ?thesis using assms(2)
  proof (induction xs arbitrary: ys)
    case (Cons x xs)
    then obtain y zs where ys: "ys = y # zs" by (cases ys) auto
    have "x = y"
    proof (rule ccontr)
      assume "x \<noteq> y"
      with Cons.prems ys have "x \<in> set zs" "y \<in> set xs" by auto
      with Cons.prems ys have "fst y < fst x" "fst x < fst y" by auto
      then show False by simp
    qed
    moreover have "set xs = set zs" using Cons.prems ys \<open>x = y\<close> by auto
    ultimately show ?case using Cons ys by auto
  qed simp
qed

end
