(* ===== verification/Crdt.thy ===== *)
theory Crdt
  imports Prelude
begin

text \<open>
  The replicated data types: \<open>src/crates/crdt/src/lww.rs\<close>, \<open>or_map.rs\<close> and \<open>conflicts.rs\<close>.

  The locale \<open>merge_laws\<close> is what replication asks of a merge: on the states that can occur it is
  associative, commutative and idempotent. Its lemmas say that replicas that merge the same set
  of states, in any order and any number of times, agree; the register and the observed-remove
  map are interpretations.
\<close>

section \<open>Last-writer-wins register\<close>

record 'v lww_reg =
  lww_value :: 'v
  lww_ts :: u64
  lww_writer_id :: u128
  lww_seq :: u64

definition lww_new :: "'v \<Rightarrow> u64 \<Rightarrow> u128 \<Rightarrow> u64 \<Rightarrow> 'v lww_reg" where
  "lww_new value ts writer_id seq =
     \<lparr>lww_value = value, lww_ts = ts, lww_writer_id = writer_id, lww_seq = seq\<rparr>"

definition order_key :: "'v lww_reg \<Rightarrow> u64 \<times> u128 \<times> u64" where
  "order_key r = (lww_ts r, lww_writer_id r, lww_seq r)"

text \<open>\<open>merge\<close> updates the register and says whether it did.\<close>

definition lww_merge :: "'v lww_reg \<Rightarrow> 'v lww_reg \<Rightarrow> 'v lww_reg \<times> bool" where
  "lww_merge self other =
     (if order_key other > order_key self
      then (self\<lparr>lww_value := lww_value other, lww_ts := lww_ts other,
                 lww_writer_id := lww_writer_id other, lww_seq := lww_seq other\<rparr>, True)
      else (self, False))"

section \<open>Observed-remove map\<close>

datatype dot = Dot (dot_device: u128) (dot_counter: u64)

instantiation dot :: linorder
begin

definition less_eq_dot :: "dot \<Rightarrow> dot \<Rightarrow> bool" where
  "less_eq_dot a b \<longleftrightarrow> (dot_device a, dot_counter a) \<le> (dot_device b, dot_counter b)"

definition less_dot :: "dot \<Rightarrow> dot \<Rightarrow> bool" where
  "less_dot a b \<longleftrightarrow> (dot_device a, dot_counter a) < (dot_device b, dot_counter b)"

instance
  by standard (auto simp: less_eq_dot_def less_dot_def dot.expand)

end

record ('k, 'v) or_map =
  adds :: "('k, (dot, 'v) fmap) fmap"
  removes :: "('k, dot fset) fmap"

definition or_default :: "('k, 'v) or_map" where
  "or_default = \<lparr>adds = fmempty, removes = fmempty\<rparr>"

text \<open>\<open>entry(key).or_default()\<close> on the two inner maps.\<close>

definition adds_at :: "('k, 'v) or_map \<Rightarrow> 'k \<Rightarrow> (dot, 'v) fmap" where
  "adds_at m key = (case fmlookup (adds m) key of None \<Rightarrow> fmempty | Some a \<Rightarrow> a)"

definition removes_at :: "('k, 'v) or_map \<Rightarrow> 'k \<Rightarrow> dot fset" where
  "removes_at m key = (case fmlookup (removes m) key of None \<Rightarrow> {||} | Some r \<Rightarrow> r)"

definition or_add :: "'k \<Rightarrow> dot \<Rightarrow> 'v \<Rightarrow> ('k, 'v) or_map \<Rightarrow> ('k, 'v) or_map" where
  "or_add key dot value m = m\<lparr>adds := fmupd key (fmupd dot value (adds_at m key)) (adds m)\<rparr>"

definition observed_dots :: "('k, 'v) or_map \<Rightarrow> 'k \<Rightarrow> dot list" where
  "observed_dots m key = (case fmlookup (adds m) key of None \<Rightarrow> [] | Some dots \<Rightarrow> fm_keys dots)"

definition remove_dots :: "'k \<Rightarrow> dot list \<Rightarrow> ('k, 'v) or_map \<Rightarrow> ('k, 'v) or_map" where
  "remove_dots key dots m =
     (if dots = [] then m
      else m\<lparr>removes := fmupd key (removes_at m key |\<union>| fset_of_list dots) (removes m)\<rparr>)"

definition or_remove :: "'k \<Rightarrow> ('k, 'v) or_map \<Rightarrow> ('k, 'v) or_map" where
  "or_remove key m = remove_dots key (observed_dots m key) m"

definition get_all :: "('k, 'v) or_map \<Rightarrow> 'k \<Rightarrow> (dot \<times> 'v) list" where
  "get_all m key =
     (case fmlookup (adds m) key of
        None \<Rightarrow> []
      | Some a \<Rightarrow>
          let removed = fmlookup (removes m) key in
          sort_key fst
            (filter (\<lambda>(d, _). case removed of Some r \<Rightarrow> d |\<notin>| r | None \<Rightarrow> True) (fm_entries a)))"

definition or_get :: "('k, 'v) or_map \<Rightarrow> 'k \<Rightarrow> 'v option" where
  "or_get m key = (let xs = get_all m key in if xs = [] then None else Some (snd (last xs)))"

definition live_keys :: "('k::linorder, 'v) or_map \<Rightarrow> 'k list" where
  "live_keys m = filter (\<lambda>k. get_all m k \<noteq> []) (fm_keys (adds m))"

definition or_keys :: "('k::linorder, 'v) or_map \<Rightarrow> 'k list" where
  "or_keys m = fm_keys (adds m)"

definition merge_dots :: "(dot, 'v) fmap \<Rightarrow> (dot, 'v) fmap \<Rightarrow> (dot, 'v) fmap" where
  "merge_dots vmap entry =
     fold (\<lambda>(dot, v) e. case fmlookup e dot of None \<Rightarrow> fmupd dot v e | Some _ \<Rightarrow> e)
       (fm_entries vmap) entry"

definition merge_adds :: "('k::linorder, 'v) or_map \<Rightarrow> ('k, 'v) or_map \<Rightarrow> ('k, 'v) or_map" where
  "merge_adds other m =
     fold (\<lambda>(k, vmap) s. s\<lparr>adds := fmupd k (merge_dots vmap (adds_at s k)) (adds s)\<rparr>)
       (fm_entries (adds other)) m"

definition merge_removes :: "('k::linorder, 'v) or_map \<Rightarrow> ('k, 'v) or_map \<Rightarrow> ('k, 'v) or_map" where
  "merge_removes other m =
     fold (\<lambda>(k, rset) s. s\<lparr>removes := fmupd k (removes_at s k |\<union>| rset) (removes s)\<rparr>)
       (fm_entries (removes other)) m"

definition or_merge :: "('k::linorder, 'v) or_map \<Rightarrow> ('k, 'v) or_map \<Rightarrow> ('k, 'v) or_map" where
  "or_merge self other = merge_removes other (merge_adds other self)"

section \<open>Conflict names\<close>

text \<open>\<open>{:016x}\<close> and \<open>{}\<close> of \<open>format!\<close> on 64-bit values.\<close>

definition hex_char :: "nat \<Rightarrow> char" where
  "hex_char n = ''0123456789abcdef'' ! n"

fun hex_nat :: "nat \<Rightarrow> nat \<Rightarrow> string" where
  "hex_nat 0 n = []"
| "hex_nat (Suc k) n = hex_nat k (n div 16) @ [hex_char (n mod 16)]"

fun dec_nat :: "nat \<Rightarrow> string" where
  "dec_nat n = (if n < 10 then [hex_char n] else dec_nat (n div 10) @ [hex_char (n mod 10)])"

declare dec_nat.simps [simp del]

definition conflict_name :: "string \<Rightarrow> u128 \<Rightarrow> u64 \<Rightarrow> string" where
  "conflict_name base device_id time_ms =
     base @ ''~conflict-'' @ hex_nat 16 (unat (device_id AND 0xffffffffffffffff)) @ ''-'' @ dec_nat (unat time_ms)"

section \<open>The laws of a merge\<close>

locale merge_laws =
  fixes valid :: "'s \<Rightarrow> bool" and merge :: "'s \<Rightarrow> 's \<Rightarrow> 's"
  assumes closed: "valid a \<Longrightarrow> valid b \<Longrightarrow> valid (merge a b)"
    and commute: "valid a \<Longrightarrow> valid b \<Longrightarrow> merge a b = merge b a"
    and assoc: "valid a \<Longrightarrow> valid b \<Longrightarrow> valid c \<Longrightarrow> merge (merge a b) c = merge a (merge b c)"
    and idem: "valid a \<Longrightarrow> merge a a = a"
begin

lemma fold_valid: "valid s \<Longrightarrow> (\<And>x. x \<in> set xs \<Longrightarrow> valid x) \<Longrightarrow> valid (foldl merge s xs)"
  by (induction xs arbitrary: s) (auto intro: closed)

lemma left_commute: "valid a \<Longrightarrow> valid b \<Longrightarrow> valid c \<Longrightarrow> merge (merge a b) c = merge (merge a c) b"
  by (metis assoc commute)

lemma fold_absorb:
  "valid s \<Longrightarrow> (\<And>x. x \<in> set xs \<Longrightarrow> valid x) \<Longrightarrow> y \<in> insert s (set xs) \<Longrightarrow>
     merge (foldl merge s xs) y = foldl merge s xs"
proof (induction xs arbitrary: s)
  case Nil
  then show ?case by (simp add: idem)
next
  case (Cons x xs)
  show ?case
  proof (cases "y \<in> insert (merge s x) (set xs)")
    case True
    with Cons show ?thesis by (auto intro: closed)
  next
    case False
    then have y: "y = s \<or> y = x" using Cons.prems by auto
    have v: "valid s" "valid x" using Cons.prems by auto
    with y have "merge (merge s x) y = merge s x" by (metis assoc commute idem)
    moreover have "merge (foldl merge (merge s x) xs) y = foldl merge (merge (merge s x) y) xs"
      if "\<And>z. z \<in> set xs \<Longrightarrow> valid z" "valid y"
      using that closed [OF v]
      by (induction xs arbitrary: s x rule: rev_induct)
        (simp_all, metis (no_types, lifting) Cons.prems(2) fold_valid left_commute v closed)
    ultimately show ?thesis using Cons.prems y v by auto
  qed
qed

lemma fold_absorb_fold:
  assumes "valid a" "valid t" "\<And>y. y \<in> set ys \<Longrightarrow> valid y"
    and "\<And>y. y \<in> insert t (set ys) \<Longrightarrow> merge a y = a"
  shows "merge a (foldl merge t ys) = a"
  using assms
proof (induction ys rule: rev_induct)
  case Nil
  then show ?case by simp
next
  case (snoc y ys)
  have v: "valid (foldl merge t ys)" "valid y" using snoc.prems by (auto intro: fold_valid)
  have "merge a (foldl merge t (ys @ [y])) = merge (merge a (foldl merge t ys)) y"
    using v snoc.prems(1) by (simp add: assoc)
  also have "merge a (foldl merge t ys) = a" using snoc.prems by (intro snoc.IH) auto
  finally show ?case using snoc.prems(4) [of y] by simp
qed

lemma same_states_agree:
  assumes "valid s" "valid t" "\<And>x. x \<in> set xs \<Longrightarrow> valid x" "\<And>y. y \<in> set ys \<Longrightarrow> valid y"
    and same: "insert s (set xs) = insert t (set ys)"
  shows "foldl merge s xs = foldl merge t ys"
proof -
  let ?a = "foldl merge s xs" and ?b = "foldl merge t ys"
  have "merge ?a ?b = ?a"
    using assms by (intro fold_absorb_fold fold_valid fold_absorb) auto
  moreover have "merge ?b ?a = ?b"
    using assms by (intro fold_absorb_fold fold_valid fold_absorb) auto
  ultimately show ?thesis using assms commute [OF fold_valid fold_valid] by metis
qed

end

section \<open>The register is a merge\<close>

text \<open>
  One writer never issues the same \<open>(ts, writer_id, seq)\<close> for two values: \<open>W\<close> is the value
  written under a key.
\<close>

definition lww_valid :: "(u64 \<times> u128 \<times> u64 \<Rightarrow> 'v) \<Rightarrow> 'v lww_reg \<Rightarrow> bool" where
  "lww_valid W r \<longleftrightarrow> lww_value r = W (order_key r)"

lemma lww_merge_max: "fst (lww_merge a b) = (if order_key a < order_key b then b else a)"
  by (simp add: lww_merge_def)

lemma lww_valid_eq: "lww_valid W a \<Longrightarrow> lww_valid W b \<Longrightarrow> order_key a = order_key b \<Longrightarrow> a = b"
  by (cases a; cases b) (simp add: lww_valid_def order_key_def)

interpretation lww: merge_laws "lww_valid W" "\<lambda>a b. fst (lww_merge a b)" for W
proof
  fix a b c
  show "lww_valid W a \<Longrightarrow> lww_valid W b \<Longrightarrow> lww_valid W (fst (lww_merge a b))"
    by (simp add: lww_merge_max)
  show "lww_valid W a \<Longrightarrow> lww_valid W b \<Longrightarrow> fst (lww_merge a b) = fst (lww_merge b a)"
    using lww_valid_eq [of W a b] by (auto simp: lww_merge_max)
  show "fst (lww_merge (fst (lww_merge a b)) c) = fst (lww_merge a (fst (lww_merge b c)))"
    by (auto simp: lww_merge_max)
  show "fst (lww_merge a a) = a"
    by (simp add: lww_merge_max)
qed

section \<open>The observed-remove map is a merge\<close>

lemma merge_dots_lookup [simp]:
  "fmlookup (merge_dots vmap entry) d =
     (case fmlookup entry d of Some v \<Rightarrow> Some v | None \<Rightarrow> fmlookup vmap d)"
proof -
  have "fmlookup (fold (\<lambda>(dot, v) e. case fmlookup e dot of None \<Rightarrow> fmupd dot v e | Some _ \<Rightarrow> e) es entry) d =
      (case fmlookup entry d of Some v \<Rightarrow> Some v | None \<Rightarrow> map_of es d)" for es
    by (induction es arbitrary: entry) (auto split: option.splits)
  then show ?thesis by (simp add: merge_dots_def split: option.split)
qed

lemma merge_adds_fold:
  "adds (fold (\<lambda>(k, vmap) s. s\<lparr>adds := fmupd k (merge_dots vmap (adds_at s k)) (adds s)\<rparr>) es m) =
     fold (\<lambda>(k, vmap) a. fmupd k (merge_dots vmap (case fmlookup a k of None \<Rightarrow> fmempty | Some x \<Rightarrow> x)) a) es (adds m)"
  by (induction es arbitrary: m) (auto simp: adds_at_def)

lemma merge_adds_removes [frame]: "removes (merge_adds other m) = removes m"
proof -
  have "removes (fold (\<lambda>(k, vmap) s. s\<lparr>adds := fmupd k (merge_dots vmap (adds_at s k)) (adds s)\<rparr>) es m) = removes m" for es
    by (induction es arbitrary: m) auto
  then show ?thesis by (simp add: merge_adds_def)
qed

lemma merge_removes_fold:
  "removes (fold (\<lambda>(k, rset) s. s\<lparr>removes := fmupd k (removes_at s k |\<union>| rset) (removes s)\<rparr>) es m) =
     fold (\<lambda>(k, rset) r. fmupd k ((case fmlookup r k of None \<Rightarrow> {||} | Some x \<Rightarrow> x) |\<union>| rset) r) es (removes m)"
  by (induction es arbitrary: m) (auto simp: removes_at_def)

lemma merge_removes_adds [frame]: "adds (merge_removes other m) = adds m"
proof -
  have "adds (fold (\<lambda>(k, rset) s. s\<lparr>removes := fmupd k (removes_at s k |\<union>| rset) (removes s)\<rparr>) es m) = adds m" for es
    by (induction es arbitrary: m) auto
  then show ?thesis by (simp add: merge_removes_def)
qed

lemma or_merge_adds:
  "fmlookup (adds (or_merge a b)) k =
     (case fmlookup (adds b) k of
        None \<Rightarrow> fmlookup (adds a) k
      | Some v \<Rightarrow> Some (merge_dots v (adds_at a k)))"
  unfolding or_merge_def merge_removes_adds merge_adds_def merge_adds_fold
  by (subst fold_fmupd_lookup [where f = "\<lambda>v x. merge_dots v (case x of None \<Rightarrow> fmempty | Some x \<Rightarrow> x)"])
    (simp_all add: adds_at_def split: option.split)

lemma or_merge_removes:
  "fmlookup (removes (or_merge a b)) k =
     (case fmlookup (removes b) k of
        None \<Rightarrow> fmlookup (removes a) k
      | Some v \<Rightarrow> Some (removes_at a k |\<union>| v))"
  unfolding or_merge_def merge_removes_def merge_removes_fold merge_adds_removes
  by (subst fold_fmupd_lookup [where f = "\<lambda>v x. (case x of None \<Rightarrow> {||} | Some x \<Rightarrow> x) |\<union>| v"])
    (simp_all add: removes_at_def split: option.split)

text \<open>A dot is issued once: \<open>W\<close> is the value added under a dot of a key.\<close>

definition or_valid :: "('k \<Rightarrow> dot \<Rightarrow> 'v) \<Rightarrow> ('k, 'v) or_map \<Rightarrow> bool" where
  "or_valid W m \<longleftrightarrow> (\<forall>k d v. fmlookup (adds_at m k) d = Some v \<longrightarrow> v = W k d)"

lemma or_validD: "or_valid W m \<Longrightarrow> fmlookup (adds m) k = Some x \<Longrightarrow> fmlookup x d = Some v \<Longrightarrow> v = W k d"
  by (auto simp: or_valid_def adds_at_def split: option.splits)

lemma or_merge_adds_at:
  "fmlookup (adds_at (or_merge a b) k) d =
     (case fmlookup (adds_at a k) d of Some v \<Rightarrow> Some v | None \<Rightarrow> fmlookup (adds_at b k) d)"
  by (simp add: adds_at_def or_merge_adds split: option.split)

lemma or_map_eqI:
  assumes "\<And>k. fmlookup (adds a) k = fmlookup (adds b) k"
    and "\<And>k. fmlookup (removes a) k = fmlookup (removes b) k"
  shows "a = (b :: ('k, 'v) or_map)"
proof -
  have "adds a = adds b" "removes a = removes b" using assms by (auto intro: fmap_eqI)
  then show ?thesis by simp
qed

lemma or_merge_assoc: "or_merge (or_merge a b) c = or_merge a (or_merge b c)"
  by (rule or_map_eqI)
    (auto simp: or_merge_adds or_merge_removes adds_at_def removes_at_def
      intro!: fmap_eqI fset_eqI split: option.splits)

lemma or_merge_commute:
  assumes "or_valid W a" "or_valid W b"
  shows "or_merge a b = or_merge b a"
proof (rule or_map_eqI)
  fix k
  have "fmlookup x d = Some v \<Longrightarrow> fmlookup y d = Some w \<Longrightarrow> v = w"
    if "fmlookup (adds a) k = Some x" "fmlookup (adds b) k = Some y" for x y d v w
    using or_validD [OF assms(1) that(1)] or_validD [OF assms(2) that(2)] by metis
  then show "fmlookup (adds (or_merge a b)) k = fmlookup (adds (or_merge b a)) k"
    by (auto simp: or_merge_adds adds_at_def intro!: fmap_eqI split: option.splits)
  show "fmlookup (removes (or_merge a b)) k = fmlookup (removes (or_merge b a)) k"
    by (auto simp: or_merge_removes removes_at_def intro!: fset_eqI split: option.splits)
qed

lemma or_merge_idem: "or_merge a a = a"
  by (rule or_map_eqI)
    (auto simp: or_merge_adds or_merge_removes adds_at_def removes_at_def
      intro!: fmap_eqI fset_eqI split: option.splits)

interpretation or_map: merge_laws "or_valid W" or_merge for W
  by unfold_locales
    (auto simp: or_merge_assoc or_merge_idem or_merge_adds_at or_valid_def split: option.splits
      intro: or_merge_commute [of W])

section \<open>What a map shows\<close>

lemma sorted_filter_fm_entries: "sorted (map fst (filter P (fm_entries m)))"
  by (simp add: sorted_filter)

lemma sort_filter_fm_entries: "sort_key fst (filter P (fm_entries m)) = filter P (fm_entries m)"
  by (rule sort_key_id_if_sorted [OF sorted_filter_fm_entries])

lemma get_all_filter:
  "get_all m key = filter (\<lambda>(d, _). d |\<notin>| removes_at m key) (fm_entries (adds_at m key))"
  by (simp add: get_all_def adds_at_def removes_at_def Let_def sort_filter_fm_entries split: option.split)

lemma set_get_all:
  "(d, v) \<in> set (get_all m key) \<longleftrightarrow> fmlookup (adds_at m key) d = Some v \<and> d |\<notin>| removes_at m key"
  by (auto simp: get_all_filter)

lemma sorted_get_all: "sorted (map fst (get_all m key))"
  by (simp add: get_all_filter sorted_filter)

lemma distinct_get_all: "distinct (map fst (get_all m key))"
  by (simp add: get_all_filter distinct_map_filter)

lemma get_all_eqI:
  assumes "\<And>d. fmlookup (adds_at m k) d = fmlookup (adds_at n j) d"
    and "\<And>d. d |\<in>| removes_at m k \<longleftrightarrow> d |\<in>| removes_at n j"
  shows "get_all m k = get_all n j"
proof -
  have "adds_at m k = adds_at n j" using assms(1) by (rule fmap_eqI)
  then show ?thesis using assms(2) by (simp add: get_all_filter)
qed

lemma adds_at_or_add [simp]:
  "adds_at (or_add key dot v m) k = (if k = key then fmupd dot v (adds_at m key) else adds_at m k)"
  by (simp add: or_add_def adds_at_def)

lemma removes_at_or_add [simp]: "removes_at (or_add key dot v m) k = removes_at m k"
  by (simp add: or_add_def removes_at_def)

lemma adds_at_remove_dots [simp]: "adds_at (remove_dots key ds m) k = adds_at m k"
  by (simp add: remove_dots_def adds_at_def)

lemma removes_at_remove_dots [simp]:
  "removes_at (remove_dots key ds m) k =
     (if k = key then removes_at m key |\<union>| fset_of_list ds else removes_at m k)"
  by (simp add: remove_dots_def removes_at_def)

lemma adds_at_default [simp]: "adds_at or_default k = fmempty" "removes_at or_default k = {||}"
  by (simp_all add: or_default_def adds_at_def removes_at_def)

lemma observed_dots_adds_at: "observed_dots m key = fm_keys (adds_at m key)"
  by (simp add: observed_dots_def adds_at_def split: option.split)

text \<open>The operations commute with one another, as replay in any order needs.\<close>

lemma or_add_commute:
  "(k, d) \<noteq> (k', d') \<or> v = v' \<Longrightarrow>
     or_add k d v (or_add k' d' v' m) = or_add k' d' v' (or_add k d v m)"
  by (rule or_map_eqI) (auto simp: or_add_def adds_at_def intro!: fmap_eqI)

lemma or_add_remove_commute:
  "or_add k d v (remove_dots k' ds m) = remove_dots k' ds (or_add k d v m)"
  by (simp add: or_add_def remove_dots_def adds_at_def removes_at_def)

lemma remove_dots_commute:
  "remove_dots k ds (remove_dots k' ds' m) = remove_dots k' ds' (remove_dots k ds m)"
  by (rule or_map_eqI)
    (auto simp: remove_dots_def removes_at_def funion_commute funion_left_commute intro!: fset_eqI)

lemma remove_dots_idem: "remove_dots k ds (remove_dots k ds m) = remove_dots k ds m"
  by (rule or_map_eqI) (auto simp: remove_dots_def removes_at_def intro!: fset_eqI)

lemma or_add_idem: "or_add k d v (or_add k d v m) = or_add k d v m"
  by (rule or_map_eqI) (auto simp: or_add_def adds_at_def intro!: fmap_eqI)

text \<open>
  Replicas of a register that merged the same set of written states agree, whatever the order
  and however often a state arrived, as long as no \<open>(ts, writer, seq)\<close> was issued for two values.
\<close>

theorem lww_replicas_agree:
  assumes "\<forall>r \<in> insert s (set xs). lww_valid W r" and "insert s (set xs) = insert t (set ys)"
  shows "foldl (\<lambda>a b. fst (lww_merge a b)) s xs = foldl (\<lambda>a b. fst (lww_merge a b)) t ys"
  using assms by (intro lww.same_states_agree [of W]) auto

theorem lww_replicas_agree_witness:
  "foldl (\<lambda>a b. fst (lww_merge a b)) (lww_new 7 1 2 0) [lww_new (9::nat) 1 3 0, lww_new 7 1 2 0] =
   foldl (\<lambda>a b. fst (lww_merge a b)) (lww_new 9 1 3 0) [lww_new 7 1 2 0]"
  by (rule lww_replicas_agree [where W = "\<lambda>(_, w, _). if w = 2 then 7 else 9"])
    (auto simp: lww_valid_def lww_new_def order_key_def)

text \<open>
  Replicas of an observed-remove map that merged the same set of states agree, whatever the
  order and repetition, as long as no dot was issued twice for different values.
\<close>

theorem or_map_replicas_agree:
  assumes "\<forall>m \<in> insert s (set xs). or_valid W m" and "insert s (set xs) = insert t (set ys)"
  shows "foldl or_merge s xs = foldl or_merge t ys"
  using assms by (intro or_map.same_states_agree [of W]) auto

theorem or_map_replicas_agree_witness:
  "foldl or_merge or_default [or_add (1::nat) (Dot 1 0) (5::nat) or_default, remove_dots 1 [Dot 1 0] or_default] =
   foldl or_merge (remove_dots 1 [Dot 1 0] or_default) [or_default, or_add 1 (Dot 1 0) 5 or_default, or_default]"
  by (rule or_map_replicas_agree [where W = "\<lambda>_ _. 5"])
    (auto simp: or_valid_def split: if_splits)

lemma or_get_max:
  assumes "or_get m k = Some v"
  shows "\<exists>d. (d, v) \<in> set (get_all m k) \<and> (\<forall>(d', _) \<in> set (get_all m k). d' \<le> d)"
proof -
  let ?xs = "get_all m k"
  have ne: "?xs \<noteq> []" and v: "v = snd (last ?xs)"
    using assms by (auto simp: or_get_def Let_def split: if_splits)
  have "fst x \<le> fst (last ?xs)" if "x \<in> set ?xs" for x
  proof -
    have "sorted (map fst (butlast ?xs @ [last ?xs]))" using sorted_get_all [of m k] ne by simp
    moreover have "x \<in> set (butlast ?xs @ [last ?xs])" using that ne by simp
    ultimately show ?thesis by (auto simp: sorted_append)
  qed
  with v show ?thesis using last_in_set [OF ne] by (metis case_prod_unfold prod.collapse)
qed

text \<open>
  Merging shows, for every key, the additions of either side that neither side has removed,
  and \<open>get\<close> on the merge is the surviving value with the greatest dot.
\<close>

theorem or_merge_shows:
  assumes "or_valid W a" "or_valid W b"
  shows "set (get_all (or_merge a b) k) =
           {(d, v). (fmlookup (adds_at a k) d = Some v \<or> fmlookup (adds_at b k) d = Some v)
                  \<and> d |\<notin>| removes_at a k \<and> d |\<notin>| removes_at b k} \<and>
         (\<forall>v. or_get (or_merge a b) k = Some v \<longrightarrow>
            (\<exists>d. (d, v) \<in> set (get_all (or_merge a b) k) \<and>
                 (\<forall>(d', _) \<in> set (get_all (or_merge a b) k). d' \<le> d)))"
proof -
  have r: "d |\<in>| removes_at (or_merge a b) k \<longleftrightarrow> d |\<in>| removes_at a k \<or> d |\<in>| removes_at b k" for d
    by (auto simp: removes_at_def or_merge_removes split: option.split)
  have "fmlookup (adds_at (or_merge a b) k) d = Some v \<longleftrightarrow>
      fmlookup (adds_at a k) d = Some v \<or> fmlookup (adds_at b k) d = Some v" for d v
    using assms unfolding or_valid_def or_merge_adds_at by (metis option.case_eq_if option.collapse option.inject)
  with r show ?thesis using or_get_max [of "or_merge a b" k] by (auto simp: set_get_all)
qed

theorem or_merge_shows_witness:
  "set (get_all (or_merge (or_add (1::nat) (Dot 1 0) (5::nat) or_default) (remove_dots 1 [Dot 1 0] or_default)) 1) = {}"
proof -
  have "or_valid (\<lambda>_ _. 5) (or_add (1::nat) (Dot 1 0) (5::nat) or_default)"
    and "or_valid (\<lambda>_ _. 5) (remove_dots (1::nat) [Dot 1 0] (or_default :: (nat, nat) or_map))"
    by (auto simp: or_valid_def split: if_splits)
  from or_merge_shows [OF this, of 1] show ?thesis by auto
qed

section \<open>Conflict names are distinct\<close>

lemma hex_char_eq: "m < 16 \<Longrightarrow> n < 16 \<Longrightarrow> hex_char m = hex_char n \<longleftrightarrow> m = n"
proof -
  have "\<forall>m \<in> set [0..<16]. \<forall>n \<in> set [0..<16]. hex_char m = hex_char n \<longrightarrow> m = n"
    by code_simp
  then show "m < 16 \<Longrightarrow> n < 16 \<Longrightarrow> hex_char m = hex_char n \<longleftrightarrow> m = n" by auto
qed

lemma length_hex_nat [simp]: "length (hex_nat k n) = k"
  by (induction k arbitrary: n) auto

lemma hex_nat_eq: "m < 16 ^ k \<Longrightarrow> n < 16 ^ k \<Longrightarrow> hex_nat k m = hex_nat k n \<longleftrightarrow> m = n"
proof (induction k arbitrary: m n)
  case (Suc k)
  have "m div 16 < 16 ^ k" "n div 16 < 16 ^ k" using Suc.prems by (auto simp: less_mult_imp_div_less mult.commute)
  with Suc.IH have "hex_nat (Suc k) m = hex_nat (Suc k) n \<longleftrightarrow> m div 16 = n div 16 \<and> m mod 16 = n mod 16"
    by (simp add: hex_char_eq)
  also have "\<dots> \<longleftrightarrow> m = n" by (metis div_mult_mod_eq)
  finally show ?case .
qed simp

lemma dec_nat_ne [simp]: "dec_nat n \<noteq> []"
  by (subst dec_nat.simps) simp

lemma dec_nat_inject: "dec_nat m = dec_nat n \<longleftrightarrow> m = n"
proof (induction m arbitrary: n rule: dec_nat.induct)
  case (1 m)
  have ne: "xs @ [a] = [b] \<longleftrightarrow> xs = [] \<and> a = b" "[b] = xs @ [a] \<longleftrightarrow> xs = [] \<and> a = b" for xs and a b :: char
    by auto
  have eq: "m div 10 = n div 10 \<and> m mod 10 = n mod 10 \<longleftrightarrow> m = n" by (metis div_mult_mod_eq)
  show ?case
  proof (cases "m < 10")
    case True
    then show ?thesis
      by (subst dec_nat.simps, subst (2) dec_nat.simps) (auto simp: ne hex_char_eq)
  next
    case False
    then have "dec_nat m = dec_nat n \<longleftrightarrow> \<not> n < 10 \<and> m div 10 = n div 10 \<and> m mod 10 = n mod 10"
      by (subst dec_nat.simps, subst (2) dec_nat.simps) (auto simp: ne hex_char_eq 1)
    with False eq show ?thesis by auto
  qed
qed

lemma conflict_name_inject:
  "conflict_name base d t = conflict_name base d' t' \<longleftrightarrow>
     d AND 0xffffffffffffffff = d' AND 0xffffffffffffffff \<and> t = t'"
proof -
  have low: "unat (x AND 0xffffffffffffffff) < 16 ^ 16" for x :: u128
  proof -
    have "x AND 0xffffffffffffffff \<le> 0xffffffffffffffff" by (rule word_and_le1)
    then show ?thesis by (simp add: word_le_nat_alt)
  qed
  show ?thesis
    by (auto simp: conflict_name_def hex_nat_eq [OF low low] dec_nat_inject word_unat_eq_iff)
qed

end
