(* ===== verification/Merkle.thy ===== *)
theory Merkle
  imports Prelude
begin

text \<open>
  The Merkle commitment over the inode map: \<open>src/crates/zk/src/merkle.rs\<close>.

  BLAKE3 is a parameter \<open>H\<close> of every definition. What the code relies on, that nobody finds two
  inputs with one digest, is the hypothesis \<open>inj_on H A\<close> for the set \<open>A\<close> of byte strings that the
  computation at hand really hashes (\<open>commit_inputs\<close>, \<open>proof_inputs\<close> of the next theory); a digest cannot be
  injective on all strings.

  This theory translates the file; \<open>Merkle_Tree\<close> relates the level-by-level folding of the code to a
  symbolic binary tree and derives the guarantees of the proofs.
\<close>

definition LEAF_TAG :: byte where "LEAF_TAG = 0x00"
definition NODE_TAG :: byte where "NODE_TAG = 0x01"
definition DOMAIN :: bytes where "DOMAIN = str_bytes ''nexusfs/inode-merkle/v1''"

definition empty_root :: "(bytes \<Rightarrow> hash) \<Rightarrow> hash" where
  "empty_root H = H (DOMAIN @ str_bytes ''empty'')"

definition leaf_hash :: "(bytes \<Rightarrow> hash) \<Rightarrow> u128 \<Rightarrow> hash \<Rightarrow> hash" where
  "leaf_hash H inode value = H ([LEAF_TAG] @ DOMAIN @ to_be_bytes 16 inode @ to_be_bytes 32 value)"

definition node_hash :: "(bytes \<Rightarrow> hash) \<Rightarrow> hash \<Rightarrow> hash \<Rightarrow> hash" where
  "node_hash H left right = H ([NODE_TAG] @ DOMAIN @ to_be_bytes 32 left @ to_be_bytes 32 right)"

record path_step =
  sibling :: hash
  sibling_is_left :: bool

record inclusion_proof =
  ip_inode :: u128
  ip_value :: hash
  ip_steps :: "path_step list"

definition step_hash :: "(bytes \<Rightarrow> hash) \<Rightarrow> hash \<Rightarrow> path_step \<Rightarrow> hash" where
  "step_hash H running step =
     (if sibling_is_left step then node_hash H (sibling step) running
      else node_hash H running (sibling step))"

definition compute_root :: "(bytes \<Rightarrow> hash) \<Rightarrow> inclusion_proof \<Rightarrow> hash" where
  "compute_root H p = foldl (step_hash H) (leaf_hash H (ip_inode p) (ip_value p)) (ip_steps p)"

definition ip_verify :: "(bytes \<Rightarrow> hash) \<Rightarrow> inclusion_proof \<Rightarrow> hash \<Rightarrow> bool" where
  "ip_verify H p root \<longleftrightarrow> compute_root H p = root"

text \<open>One level of the tree: adjacent nodes are paired, a lone trailing node is promoted.\<close>

fun fold_level :: "(bytes \<Rightarrow> hash) \<Rightarrow> hash list \<Rightarrow> hash list" where
  "fold_level H (x # y # zs) = node_hash H x y # fold_level H zs"
| "fold_level H xs = xs"

lemma length_fold_level: "length (fold_level H xs) = (length xs + 1) div 2"
  by (induction H xs rule: fold_level.induct) auto

function commit_loop :: "(bytes \<Rightarrow> hash) \<Rightarrow> hash list \<Rightarrow> hash" where
  "commit_loop H level = (if length level > 1 then commit_loop H (fold_level H level) else level ! 0)"
  by pat_completeness auto
termination
  by (relation "measure (\<lambda>(H, level). length level)") (auto simp: length_fold_level)

declare commit_loop.simps [simp del]

definition leaves :: "(bytes \<Rightarrow> hash) \<Rightarrow> (u128 \<times> hash) list \<Rightarrow> hash list" where
  "leaves H entries = map (\<lambda>(inode, value). leaf_hash H inode value) entries"

definition commit :: "(bytes \<Rightarrow> hash) \<Rightarrow> (u128 \<times> hash) list \<Rightarrow> hash" where
  "commit H entries =
     (if entries = [] then empty_root H else commit_loop H (leaves H entries))"

definition sibling_step :: "hash list \<Rightarrow> nat \<Rightarrow> path_step option" where
  "sibling_step level pos =
     (if pos mod 2 = 0
      then (if pos + 1 < length level
            then Some \<lparr>sibling = level ! (pos + 1), sibling_is_left = False\<rparr> else None)
      else Some \<lparr>sibling = level ! (pos - 1), sibling_is_left = True\<rparr>)"

function prove_steps :: "(bytes \<Rightarrow> hash) \<Rightarrow> hash list \<Rightarrow> nat \<Rightarrow> path_step list" where
  "prove_steps H level pos =
     (if length level > 1
      then (case sibling_step level pos of Some s \<Rightarrow> [s] | None \<Rightarrow> [])
             @ prove_steps H (fold_level H level) (pos div 2)
      else [])"
  by pat_completeness auto
termination
  by (relation "measure (\<lambda>(H, level, pos). length level)") (auto simp: length_fold_level)

declare prove_steps.simps [simp del]

definition prove :: "(bytes \<Rightarrow> hash) \<Rightarrow> (u128 \<times> hash) list \<Rightarrow> u128 \<Rightarrow> inclusion_proof option" where
  "prove H entries inode =
     (case position (\<lambda>(i, _). i = inode) entries of
        None \<Rightarrow> None
      | Some index \<Rightarrow>
          Some \<lparr>ip_inode = inode, ip_value = snd (entries ! index),
                ip_steps = prove_steps H (leaves H entries) index\<rparr>)"

definition MAX_STEPS :: nat where "MAX_STEPS = 64"

definition check :: "(bytes \<Rightarrow> hash) \<Rightarrow> inclusion_proof \<Rightarrow> hash \<Rightarrow> unit result" where
  "check H p root =
     (if length (ip_steps p) > MAX_STEPS then Inl (TooManySteps (length (ip_steps p)))
      else if compute_root H p \<noteq> root then Inl RootMismatch
      else Inr ())"

function shape_loop :: "nat \<Rightarrow> nat \<Rightarrow> bool list" where
  "shape_loop n pos =
     (if n > 1
      then (if pos mod 2 = 1 then [True] else if pos + 1 < n then [False] else [])
             @ shape_loop ((n + 1) div 2) (pos div 2)
      else [])"
  by pat_completeness auto
termination
  by (relation "measure (\<lambda>(n, pos). n)") auto

declare shape_loop.simps [simp del]

definition expected_shape :: "nat \<Rightarrow> nat \<Rightarrow> bool list option" where
  "expected_shape len index = (if index \<ge> len then None else Some (shape_loop len index))"

record neighbour =
  nb_index :: nat
  nb_proof :: inclusion_proof

record absence_proof =
  ap_inode :: u128
  ap_len :: nat
  ap_left :: "neighbour option"
  ap_right :: "neighbour option"

definition make_neighbour :: "(bytes \<Rightarrow> hash) \<Rightarrow> (u128 \<times> hash) list \<Rightarrow> nat \<Rightarrow> neighbour option" where
  "make_neighbour H entries index =
     (case prove H entries (fst (entries ! index)) of
        None \<Rightarrow> None
      | Some p \<Rightarrow> Some \<lparr>nb_index = index, nb_proof = p\<rparr>)"

definition prove_absent :: "(bytes \<Rightarrow> hash) \<Rightarrow> (u128 \<times> hash) list \<Rightarrow> u128 \<Rightarrow> absence_proof option" where
  "prove_absent H entries inode =
     (if (\<exists>e \<in> set entries. fst e = inode) then None
      else
        let below = rposition (\<lambda>(i, _). i < inode) entries;
            above = position (\<lambda>(i, _). i > inode) entries
        in Some \<lparr>ap_inode = inode, ap_len = length entries,
                 ap_left = Option.bind below (make_neighbour H entries),
                 ap_right = Option.bind above (make_neighbour H entries)\<rparr>)"

definition check_neighbour :: "(bytes \<Rightarrow> hash) \<Rightarrow> neighbour \<Rightarrow> hash \<Rightarrow> nat \<Rightarrow> unit result" where
  "check_neighbour H n root len =
     rbind (check H (nb_proof n) root) (\<lambda>_.
       case expected_shape len (nb_index n) of
         None \<Rightarrow> Inl (IndexOutside (nb_index n) len)
       | Some expected \<Rightarrow>
           if expected \<noteq> map sibling_is_left (ip_steps (nb_proof n))
           then Inl (WrongShape (nb_index n)) else Inr ())"

definition check_absent :: "(bytes \<Rightarrow> hash) \<Rightarrow> absence_proof \<Rightarrow> hash \<Rightarrow> unit result" where
  "check_absent H p root =
     (if ap_len p = 0 then (if root \<noteq> empty_root H then Inl NotEmptyRoot else Inr ())
      else case (ap_left p, ap_right p) of
        (Some left, Some right) \<Rightarrow>
          rbind (check_neighbour H left root (ap_len p)) (\<lambda>_.
          rbind (check_neighbour H right root (ap_len p)) (\<lambda>_.
            if \<not> (ip_inode (nb_proof left) < ap_inode p \<and> ap_inode p < ip_inode (nb_proof right))
            then Inl NotBracketing
            else if nb_index right \<noteq> nb_index left + 1 then Inl NotAdjacent
            else Inr ()))
      | (Some left, None) \<Rightarrow>
          rbind (check_neighbour H left root (ap_len p)) (\<lambda>_.
            if ip_inode (nb_proof left) \<ge> ap_inode p then Inl LowerNotBelow
            else if nb_index left + 1 \<noteq> ap_len p then Inl NotLastEntry
            else Inr ())
      | (None, Some right) \<Rightarrow>
          rbind (check_neighbour H right root (ap_len p)) (\<lambda>_.
            if ip_inode (nb_proof right) \<le> ap_inode p then Inl UpperNotAbove
            else if nb_index right \<noteq> 0 then Inl NotFirstEntry
            else Inr ())
      | (None, None) \<Rightarrow> Inl NoNeighbour)"

text \<open>\<open>prove_many\<close> keeps every level of the tree and reads each path off the kept levels.\<close>

function tree_levels :: "(bytes \<Rightarrow> hash) \<Rightarrow> hash list \<Rightarrow> hash list list" where
  "tree_levels H level =
     level # (if length level > 1 then tree_levels H (fold_level H level) else [])"
  by pat_completeness auto
termination
  by (relation "measure (\<lambda>(H, level). length level)") (auto simp: length_fold_level)

declare tree_levels.simps [simp del]

fun read_path :: "hash list list \<Rightarrow> nat \<Rightarrow> path_step list" where
  "read_path [] pos = []"
| "read_path (level # levels) pos =
     (case sibling_step level pos of Some s \<Rightarrow> [s] | None \<Rightarrow> []) @ read_path levels (pos div 2)"

definition prove_many ::
    "(bytes \<Rightarrow> hash) \<Rightarrow> (u128 \<times> hash) list \<Rightarrow> u128 list \<Rightarrow> inclusion_proof list" where
  "prove_many H entries inodes =
     (if entries = [] \<or> inodes = [] then []
      else
        let levels = tree_levels H (leaves H entries)
        in List.map_filter (\<lambda>inode.
             case position (\<lambda>(i, _). i = inode) entries of
               None \<Rightarrow> None
             | Some index \<Rightarrow>
                 Some \<lparr>ip_inode = inode, ip_value = snd (entries ! index),
                       ip_steps = read_path (butlast levels) index\<rparr>) inodes)"

end
