(* ===== verification/Merkle_Tree.thy ===== *)
theory Merkle_Tree
  imports Merkle
begin

text \<open>
  Why the Merkle proofs of \<open>src/crates/zk/src/merkle.rs\<close> can be believed.

  The code works on lists of digests, level by level. \<open>mtree_of\<close> is the binary tree those levels
  spell out, \<open>thash\<close> its root digest (\<open>commit_mtree\<close>). A path that hashes to the root of a tree is a
  path of that tree (\<open>path_in_tree\<close>), and the shape the verifier recomputes for adjacent, first
  and last positions forces adjacent, first and last leaves (\<open>shape_adjacent\<close>, \<open>at_adjacent\<close>).
  Soundness and completeness of inclusion and absence, and binding of the root, follow.
\<close>

section \<open>The symbolic tree\<close>

datatype mtree = MLeaf u128 hash | MNode mtree mtree

fun thash :: "(bytes \<Rightarrow> hash) \<Rightarrow> mtree \<Rightarrow> hash" where
  "thash H (MLeaf i v) = leaf_hash H i v"
| "thash H (MNode l r) = node_hash H (thash H l) (thash H r)"

fun inorder :: "mtree \<Rightarrow> (u128 \<times> hash) list" where
  "inorder (MLeaf i v) = [(i, v)]"
| "inorder (MNode l r) = inorder l @ inorder r"

text \<open>The subtree reached by a path from the root; \<open>True\<close> goes to the right child.\<close>

fun at :: "mtree \<Rightarrow> bool list \<Rightarrow> mtree option" where
  "at t [] = Some t"
| "at (MNode l r) (d # ds) = at (if d then r else l) ds"
| "at (MLeaf i v) (d # ds) = None"

fun pair_up :: "mtree list \<Rightarrow> mtree list" where
  "pair_up (x # y # zs) = MNode x y # pair_up zs"
| "pair_up xs = xs"

lemma length_pair_up: "length (pair_up ts) = (length ts + 1) div 2"
  by (induction ts rule: pair_up.induct) auto

function build :: "mtree list \<Rightarrow> mtree" where
  "build ts = (if length ts > 1 then build (pair_up ts) else ts ! 0)"
  by pat_completeness auto
termination
  by (relation "measure length") (auto simp: length_pair_up)

declare build.simps [simp del]

definition mtree_of :: "(u128 \<times> hash) list \<Rightarrow> mtree" where
  "mtree_of entries = build (map (\<lambda>(i, v). MLeaf i v) entries)"

lemma fold_level_thash: "fold_level H (map (thash H) ts) = map (thash H) (pair_up ts)"
  by (induction ts rule: pair_up.induct) auto

lemma commit_loop_thash: "ts \<noteq> [] \<Longrightarrow> commit_loop H (map (thash H) ts) = thash H (build ts)"
proof (induction ts rule: build.induct)
  case (1 ts)
  show ?case
  proof (cases "length ts > 1")
    case True
    then have "pair_up ts \<noteq> []" using length_pair_up [of ts] by (cases "pair_up ts") auto
    with 1 True show ?thesis
      by (simp add: commit_loop.simps [of H "map (thash H) ts"] build.simps [of ts] fold_level_thash)
  next
    case False
    with 1 show ?thesis
      by (simp add: commit_loop.simps [of H "map (thash H) ts"] build.simps [of ts])
  qed
qed

lemma leaves_thash: "leaves H entries = map (thash H) (map (\<lambda>(i, v). MLeaf i v) entries)"
  by (simp add: leaves_def case_prod_beta)

lemma commit_mtree: "entries \<noteq> [] \<Longrightarrow> commit H entries = thash H (mtree_of entries)"
  unfolding mtree_of_def commit_def
  by (simp add: leaves_thash commit_loop_thash del: map_map)

lemma concat_inorder_pair_up: "concat (map inorder (pair_up ts)) = concat (map inorder ts)"
  by (induction ts rule: pair_up.induct) auto

lemma inorder_build: "ts \<noteq> [] \<Longrightarrow> inorder (build ts) = concat (map inorder ts)"
proof (induction ts rule: build.induct)
  case (1 ts)
  show ?case
  proof (cases "length ts > 1")
    case True
    then have "pair_up ts \<noteq> []" using length_pair_up [of ts] by (cases "pair_up ts") auto
    with 1 True show ?thesis
      by (simp add: build.simps [of ts] concat_inorder_pair_up)
  next
    case False
    with 1 obtain a where "ts = [a]" by (cases ts) auto
    then show ?thesis by (simp add: build.simps [of "[a]"])
  qed
qed

lemma inorder_mtree_of [simp]: "entries \<noteq> [] \<Longrightarrow> inorder (mtree_of entries) = entries"
  by (simp add: mtree_of_def inorder_build comp_def case_prod_beta)

subsection \<open>Positions and shapes\<close>

lemma at_append: "at t (xs @ ys) = Option.bind (at t xs) (\<lambda>u. at u ys)"
  by (induction t xs rule: at.induct) auto

lemma pair_up_nth:
  "k < length ts \<Longrightarrow> pair_up ts ! (k div 2) =
     (if k mod 2 = 1 then MNode (ts ! (k - 1)) (ts ! k)
      else if k + 1 < length ts then MNode (ts ! k) (ts ! (k + 1)) else ts ! k)"
proof (induction ts arbitrary: k rule: pair_up.induct)
  case (1 x y zs)
  show ?case
  proof (cases "k < 2")
    case True
    then show ?thesis by (cases k) auto
  next
    case False
    then obtain j where j: "k = Suc (Suc j)" by (metis add_2_eq_Suc le_add_diff_inverse not_less)
    with 1(1) [of j] 1(2) show ?thesis by (cases j) auto
  qed
qed auto

lemma at_build_shape: "k < length ts \<Longrightarrow> at (build ts) (rev (shape_loop (length ts) k)) = Some (ts ! k)"
proof (induction ts arbitrary: k rule: build.induct)
  case (1 ts)
  show ?case
  proof (cases "length ts > 1")
    case True
    have "k div 2 < length (pair_up ts)" using 1(2) by (simp add: length_pair_up)
    with 1(1) [OF True] have IH: "at (build (pair_up ts)) (rev (shape_loop ((length ts + 1) div 2) (k div 2)))
        = Some (pair_up ts ! (k div 2))"
      by (simp add: length_pair_up)
    show ?thesis
      using True IH 1(2)
      by (auto simp: build.simps [of ts] shape_loop.simps [of "length ts" k] at_append pair_up_nth)
  next
    case False
    with 1(2) have "k = 0" by simp
    with False show ?thesis by (simp add: build.simps [of ts] shape_loop.simps [of "length ts" 0])
  qed
qed

lemma at_mtree_of:
  "k < length entries \<Longrightarrow>
     at (mtree_of entries) (rev (shape_loop (length entries) k)) =
       Some (MLeaf (fst (entries ! k)) (snd (entries ! k)))"
  using at_build_shape [of k "map (\<lambda>(i, v). MLeaf i v) entries"]
  by (simp add: mtree_of_def case_prod_beta)

lemma sibling_step_shape:
  assumes "pos < length level"
  shows "map sibling_is_left (case sibling_step level pos of Some s \<Rightarrow> [s] | None \<Rightarrow> []) =
     (if pos mod 2 = 1 then [True] else if pos + 1 < length level then [False] else [])"
  using assms by (auto simp: sibling_step_def)

lemma prove_steps_shape:
  "pos < length level \<Longrightarrow> map sibling_is_left (prove_steps H level pos) = shape_loop (length level) pos"
proof (induction H level pos rule: prove_steps.induct)
  case (1 H level pos)
  show ?case
  proof (cases "length level > 1")
    case True
    have "pos div 2 < length (fold_level H level)" using 1(2) by (simp add: length_fold_level)
    with 1(1) [OF True] have "map sibling_is_left (prove_steps H (fold_level H level) (pos div 2))
        = shape_loop ((length level + 1) div 2) (pos div 2)"
      by (simp add: length_fold_level)
    with True show ?thesis
      using sibling_step_shape [OF 1(2)]
      by (simp add: prove_steps.simps [of H level pos] shape_loop.simps [of "length level" pos])
  next
    case False
    then show ?thesis
      by (simp add: prove_steps.simps [of H level pos] shape_loop.simps [of "length level" pos])
  qed
qed

lemma fold_level_nth:
  "k < length xs \<Longrightarrow> fold_level H xs ! (k div 2) =
     (if k mod 2 = 1 then node_hash H (xs ! (k - 1)) (xs ! k)
      else if k + 1 < length xs then node_hash H (xs ! k) (xs ! (k + 1)) else xs ! k)"
proof (induction H xs arbitrary: k rule: fold_level.induct)
  case (1 H x y zs)
  show ?case
  proof (cases "k < 2")
    case True
    then show ?thesis by (cases k) auto
  next
    case False
    then obtain j where j: "k = Suc (Suc j)" by (metis add_2_eq_Suc le_add_diff_inverse not_less)
    with 1(1) [of j] 1(2) show ?thesis by (cases j) auto
  qed
qed auto

lemma foldl_sibling_step:
  assumes "pos < length level"
  shows "foldl (step_hash H) (level ! pos) (case sibling_step level pos of Some s \<Rightarrow> [s] | None \<Rightarrow> [])
       = fold_level H level ! (pos div 2)"
  using fold_level_nth [OF assms, of H] assms by (auto simp: sibling_step_def step_hash_def)

lemma prove_steps_root:
  "pos < length level \<Longrightarrow> foldl (step_hash H) (level ! pos) (prove_steps H level pos) = commit_loop H level"
proof (induction H level pos rule: prove_steps.induct)
  case (1 H level pos)
  show ?case
  proof (cases "length level > 1")
    case True
    have "pos div 2 < length (fold_level H level)" using 1(2) by (simp add: length_fold_level)
    with 1(1) [OF True] True show ?thesis
      by (simp add: prove_steps.simps [of H level pos] commit_loop.simps [of H level]
          foldl_sibling_step [OF 1(2)])
  next
    case False
    with 1(2) have "pos = 0" by simp
    with False show ?thesis
      by (simp add: prove_steps.simps [of H level 0] commit_loop.simps [of H level])
  qed
qed

text \<open>A path is no longer than the logarithm of the number of leaves.\<close>

lemma length_shape_loop: "n \<le> 2 ^ k \<Longrightarrow> length (shape_loop n pos) \<le> k"
proof (induction n pos arbitrary: k rule: shape_loop.induct)
  case (1 n pos)
  show ?case
  proof (cases "n > 1")
    case True
    with 1(2) obtain j where k: "k = Suc j" by (cases k) auto
    with 1(2) have "(n + 1) div 2 \<le> 2 ^ j" by simp
    with 1(1) [OF True] have "length (shape_loop ((n + 1) div 2) (pos div 2)) \<le> j" by blast
    with True k show ?thesis by (simp add: shape_loop.simps [of n pos])
  next
    case False
    then show ?thesis by (simp add: shape_loop.simps [of n pos])
  qed
qed

subsection \<open>First, last and adjacent leaves\<close>

lemma shape_odd:
  "n > 1 \<Longrightarrow> odd pos \<Longrightarrow> shape_loop n pos = True # shape_loop ((n + 1) div 2) (pos div 2)"
  by (subst shape_loop.simps) (simp add: odd_iff_mod_2_eq_one)

lemma shape_even_in:
  "even pos \<Longrightarrow> pos + 1 < n \<Longrightarrow> shape_loop n pos = False # shape_loop ((n + 1) div 2) (pos div 2)"
  by (subst shape_loop.simps) (simp add: even_iff_mod_2_eq_zero)

lemma shape_even_out:
  "n > 1 \<Longrightarrow> even pos \<Longrightarrow> \<not> pos + 1 < n \<Longrightarrow> shape_loop n pos = shape_loop ((n + 1) div 2) (pos div 2)"
  by (subst shape_loop.simps) (simp add: even_iff_mod_2_eq_zero)

lemma shape_small: "n \<le> 1 \<Longrightarrow> shape_loop n pos = []"
  by (subst shape_loop.simps) simp

lemma half_less: "n > 1 \<Longrightarrow> (n + 1) div 2 < n" for n :: nat
  by arith

lemma shape_first: "\<exists>m. shape_loop n 0 = replicate m False"
proof (induction n rule: less_induct)
  case (less n)
  show ?case
  proof (cases "n > 1")
    case True
    with less.IH [OF half_less] obtain m where "shape_loop ((n + 1) div 2) 0 = replicate m False"
      by blast
    with True have "shape_loop n 0 = replicate (Suc m) False"
      using shape_even_in [of 0 n] by simp
    then show ?thesis by blast
  next
    case False
    then show ?thesis using shape_small [of n 0] by auto
  qed
qed

lemma shape_last: "n > 0 \<Longrightarrow> \<exists>m. shape_loop n (n - 1) = replicate m True"
proof (induction n rule: less_induct)
  case (less n)
  show ?case
  proof (cases "n > 1")
    case True
    have half: "(n - 1) div 2 = (n + 1) div 2 - 1" and pos: "(n + 1) div 2 > 0"
      using True by arith+
    from less.IH [OF half_less [OF True] pos] obtain m
      where m: "shape_loop ((n + 1) div 2) ((n - 1) div 2) = replicate m True" unfolding half by blast
    have "shape_loop n (n - 1) = replicate (if odd (n - 1) then Suc m else m) True"
      using True m shape_odd [of n "n - 1"] shape_even_out [of n "n - 1"] by auto
    then show ?thesis by blast
  next
    case False
    then show ?thesis using shape_small [of n "n - 1"] by auto
  qed
qed

lemma shape_adjacent:
  "i + 1 < n \<Longrightarrow> \<exists>c m r. shape_loop n i = replicate m True @ False # c \<and>
                          shape_loop n (i + 1) = replicate r False @ True # c"
proof (induction n arbitrary: i rule: less_induct)
  case (less n)
  then have n: "n > 1" by simp
  show ?case
  proof (cases "even i")
    case True
    then have "odd (i + 1)" and "(i + 1) div 2 = i div 2" by presburger+
    with True n less.prems have
      "shape_loop n i = replicate 0 True @ False # shape_loop ((n + 1) div 2) (i div 2)"
      "shape_loop n (i + 1) = replicate 0 False @ True # shape_loop ((n + 1) div 2) (i div 2)"
      using shape_even_in [of i n] shape_odd [of n "i + 1"] by simp_all
    then show ?thesis by blast
  next
    case False
    then have ev: "even (i + 1)" and half: "(i + 1) div 2 = i div 2 + 1" by presburger+
    from less.prems False have "i div 2 + 1 < (n + 1) div 2" by presburger
    from less.IH [OF half_less [OF n] this] obtain c m r where
      c: "shape_loop ((n + 1) div 2) (i div 2) = replicate m True @ False # c"
         "shape_loop ((n + 1) div 2) (i div 2 + 1) = replicate r False @ True # c" by blast
    have l: "shape_loop n i = replicate (Suc m) True @ False # c"
      using shape_odd [OF n False] c by simp
    have "shape_loop n (i + 1) = replicate (if i + 2 < n then Suc r else r) False @ True # c"
      using shape_even_in [OF ev, of n] shape_even_out [OF n ev] c half by (cases "i + 2 < n") simp_all
    with l show ?thesis by blast
  qed
qed

lemma inorder_nonempty [simp]: "inorder t \<noteq> []"
  by (induction t) auto

lemma at_all_right_last: "at t (replicate m True) = Some (MLeaf i v) \<Longrightarrow> \<exists>p. inorder t = p @ [(i, v)]"
proof (induction m arbitrary: t)
  case (Suc m)
  then obtain l r where t: "t = MNode l r" by (cases t) auto
  with Suc obtain p where "inorder r = p @ [(i, v)]" by auto
  with t show ?case by auto
qed simp

lemma at_all_left_first: "at t (replicate m False) = Some (MLeaf i v) \<Longrightarrow> \<exists>s. inorder t = (i, v) # s"
proof (induction m arbitrary: t)
  case (Suc m)
  then obtain l r where t: "t = MNode l r" by (cases t) auto
  with Suc obtain s where "inorder l = (i, v) # s" by auto
  with t show ?case by auto
qed simp

lemma at_inorder: "at t ds = Some u \<Longrightarrow> \<exists>p s. inorder t = p @ inorder u @ s"
proof (induction t ds rule: at.induct)
  case (1 t)
  then show ?case by (metis append.right_neutral append_Nil at.simps(1) option.inject)
next
  case (2 l r d ds)
  then obtain p s where ps: "inorder (if d then r else l) = p @ inorder u @ s" by auto
  show ?case
  proof (cases d)
    case True
    with ps have "inorder (MNode l r) = (inorder l @ p) @ inorder u @ s" by simp
    then show ?thesis by blast
  next
    case False
    with ps have "inorder (MNode l r) = p @ inorder u @ (s @ inorder r)" by simp
    then show ?thesis by blast
  qed
qed simp

lemma at_adjacent:
  assumes "at t (c @ False # replicate m True) = Some (MLeaf i v)"
    and "at t (c @ True # replicate r False) = Some (MLeaf j w)"
  shows "\<exists>p s. inorder t = p @ [(i, v), (j, w)] @ s"
proof -
  from assms obtain u where u: "at t c = Some u"
    and l: "at u (False # replicate m True) = Some (MLeaf i v)"
    and r: "at u (True # replicate r False) = Some (MLeaf j w)"
    by (auto simp: at_append split: bind_splits)
  from l obtain a b where ab: "u = MNode a b" by (cases u) auto
  from l ab obtain p where p: "inorder a = p @ [(i, v)]" using at_all_right_last [of a m i v] by auto
  from r ab obtain s where s: "inorder b = (j, w) # s" using at_all_left_first [of b r j w] by auto
  from at_inorder [OF u] obtain p' s' where "inorder t = p' @ inorder u @ s'" by blast
  then have "inorder t = (p' @ p) @ [(i, v), (j, w)] @ (s @ s')" by (simp add: ab p s)
  then show ?thesis by blast
qed

section \<open>What is hashed\<close>

definition leaf_input :: "u128 \<Rightarrow> hash \<Rightarrow> bytes" where
  "leaf_input i v = [LEAF_TAG] @ DOMAIN @ to_be_bytes 16 i @ to_be_bytes 32 v"

definition node_input :: "hash \<Rightarrow> hash \<Rightarrow> bytes" where
  "node_input l r = [NODE_TAG] @ DOMAIN @ to_be_bytes 32 l @ to_be_bytes 32 r"

definition empty_input :: bytes where
  "empty_input = DOMAIN @ str_bytes ''empty''"

text \<open>The strings hashed by one level, by the whole of \<open>commit\<close>, and by \<open>compute_root\<close>.\<close>

fun level_inputs :: "hash list \<Rightarrow> bytes list" where
  "level_inputs (x # y # zs) = node_input x y # level_inputs zs"
| "level_inputs xs = []"

function loop_inputs :: "(bytes \<Rightarrow> hash) \<Rightarrow> hash list \<Rightarrow> bytes list" where
  "loop_inputs H level =
     (if length level > 1 then level_inputs level @ loop_inputs H (fold_level H level) else [])"
  by pat_completeness auto
termination
  by (relation "measure (\<lambda>(H, level). length level)") (auto simp: length_fold_level)

declare loop_inputs.simps [simp del]

definition commit_inputs :: "(bytes \<Rightarrow> hash) \<Rightarrow> (u128 \<times> hash) list \<Rightarrow> bytes list" where
  "commit_inputs H entries =
     empty_input # map (\<lambda>(i, v). leaf_input i v) entries @ loop_inputs H (leaves H entries)"

fun path_inputs :: "(bytes \<Rightarrow> hash) \<Rightarrow> hash \<Rightarrow> path_step list \<Rightarrow> bytes list" where
  "path_inputs H running [] = []"
| "path_inputs H running (s # ss) =
     (if sibling_is_left s then node_input (sibling s) running else node_input running (sibling s))
       # path_inputs H (step_hash H running s) ss"

definition proof_inputs :: "(bytes \<Rightarrow> hash) \<Rightarrow> inclusion_proof \<Rightarrow> bytes list" where
  "proof_inputs H p =
     leaf_input (ip_inode p) (ip_value p)
       # path_inputs H (leaf_hash H (ip_inode p) (ip_value p)) (ip_steps p)"

lemma leaf_hash_input: "leaf_hash H i v = H (leaf_input i v)"
  by (simp add: leaf_hash_def leaf_input_def)

lemma node_hash_input: "node_hash H l r = H (node_input l r)"
  by (simp add: node_hash_def node_input_def)

lemma empty_root_input: "empty_root H = H empty_input"
  by (simp add: empty_root_def empty_input_def)

lemma leaf_input_inject [simp]: "leaf_input i v = leaf_input j w \<longleftrightarrow> i = j \<and> v = w"
  by (simp add: leaf_input_def)

lemma node_input_inject [simp]: "node_input l r = node_input l' r' \<longleftrightarrow> l = l' \<and> r = r'"
  by (simp add: node_input_def)

text \<open>The tag byte keeps the three kinds of input apart.\<close>

lemma input_kinds [simp]:
  "leaf_input i v \<noteq> node_input l r" "node_input l r \<noteq> leaf_input i v"
  "leaf_input i v \<noteq> empty_input" "node_input l r \<noteq> empty_input"
  "empty_input \<noteq> leaf_input i v" "empty_input \<noteq> node_input l r"
  by (simp_all add: leaf_input_def node_input_def empty_input_def LEAF_TAG_def NODE_TAG_def
      DOMAIN_def str_bytes_def)

fun tree_inputs :: "(bytes \<Rightarrow> hash) \<Rightarrow> mtree \<Rightarrow> bytes set" where
  "tree_inputs H (MLeaf i v) = {leaf_input i v}"
| "tree_inputs H (MNode l r) =
     insert (node_input (thash H l) (thash H r)) (tree_inputs H l \<union> tree_inputs H r)"

lemma pair_up_inputs:
  "(\<Union>t \<in> set (pair_up ts). tree_inputs H t) =
   (\<Union>t \<in> set ts. tree_inputs H t) \<union> set (level_inputs (map (thash H) ts))"
  by (induction ts rule: pair_up.induct) auto

lemma tree_inputs_build:
  "ts \<noteq> [] \<Longrightarrow> tree_inputs H (build ts) =
     (\<Union>t \<in> set ts. tree_inputs H t) \<union> set (loop_inputs H (map (thash H) ts))"
proof (induction ts rule: build.induct)
  case (1 ts)
  show ?case
  proof (cases "length ts > 1")
    case True
    then have "pair_up ts \<noteq> []" using length_pair_up [of ts] by (cases "pair_up ts") auto
    with 1(1) [OF True] have "tree_inputs H (build (pair_up ts)) =
        (\<Union>t \<in> set (pair_up ts). tree_inputs H t) \<union> set (loop_inputs H (map (thash H) (pair_up ts)))"
      by blast
    with True show ?thesis
      by (simp add: build.simps [of ts] loop_inputs.simps [of H "map (thash H) ts"]
          fold_level_thash pair_up_inputs Un_assoc)
  next
    case False
    with 1(2) obtain t where "ts = [t]" by (cases ts) auto
    then show ?thesis by (simp add: build.simps [of "[t]"] loop_inputs.simps [of H "[thash H t]"])
  qed
qed

lemma commit_inputs_tree:
  assumes "entries \<noteq> []"
  shows "set (commit_inputs H entries) = insert empty_input (tree_inputs H (mtree_of entries))"
proof -
  have "tree_inputs H (mtree_of entries) =
      (\<Union>t \<in> set (map (\<lambda>(i, v). MLeaf i v) entries). tree_inputs H t) \<union> set (loop_inputs H (leaves H entries))"
    unfolding mtree_of_def leaves_thash using assms by (subst tree_inputs_build) auto
  then show ?thesis by (auto simp: commit_inputs_def)
qed

lemma path_inputs_snoc:
  "path_inputs H running (ss @ [s]) =
     path_inputs H running ss @
       [if sibling_is_left s then node_input (sibling s) (foldl (step_hash H) running ss)
        else node_input (foldl (step_hash H) running ss) (sibling s)]"
  by (induction ss arbitrary: running) auto

fun top_input :: "(bytes \<Rightarrow> hash) \<Rightarrow> mtree \<Rightarrow> bytes" where
  "top_input H (MLeaf i v) = leaf_input i v"
| "top_input H (MNode l r) = node_input (thash H l) (thash H r)"

lemma thash_top: "thash H t = H (top_input H t)"
  by (cases t) (auto simp: leaf_hash_input node_hash_input)

lemma top_in_inputs [simp]: "top_input H t \<in> tree_inputs H t"
  by (cases t) auto

lemma top_eq_leaf [simp]: "leaf_input i v = top_input H t \<longleftrightarrow> t = MLeaf i v"
  by (cases t) auto

lemma top_not_empty [simp]: "empty_input \<noteq> top_input H t"
  by (cases t) auto

text \<open>
  The central step: a path that hashes to the root of a tree is a path of that tree, and its leaf
  is the leaf found there.
\<close>

lemma path_in_tree:
  assumes "foldl (step_hash H) (leaf_hash H i v) ss = thash H t"
    and "inj_on H (tree_inputs H t \<union> insert (leaf_input i v) (set (path_inputs H (leaf_hash H i v) ss)))"
  shows "at t (rev (map sibling_is_left ss)) = Some (MLeaf i v)"
  using assms
proof (induction ss arbitrary: t rule: rev_induct)
  case Nil
  from Nil.prems(1) have "H (leaf_input i v) = H (top_input H t)"
    by (simp add: leaf_hash_input thash_top)
  then have "leaf_input i v = top_input H t"
    by (intro inj_onD [OF Nil.prems(2)]) simp_all
  then show ?case by simp
next
  case (snoc s ss)
  let ?run = "foldl (step_hash H) (leaf_hash H i v) ss"
  let ?in = "if sibling_is_left s then node_input (sibling s) ?run else node_input ?run (sibling s)"
  have top: "H ?in = thash H t"
    using snoc.prems(1) by (simp add: step_hash_def [of H ?run s] node_hash_input split: if_splits)
  have mem: "?in \<in> set (path_inputs H (leaf_hash H i v) (ss @ [s]))"
    by (simp add: path_inputs_snoc)
  show ?case
  proof (cases t)
    case (MLeaf j w)
    with top have "H ?in = H (leaf_input j w)" by (simp add: leaf_hash_input)
    then have "?in = leaf_input j w"
      using mem MLeaf by (intro inj_onD [OF snoc.prems(2)]) simp_all
    then show ?thesis by (simp split: if_splits)
  next
    case (MNode l r)
    with top have "H ?in = H (node_input (thash H l) (thash H r))" by (simp add: node_hash_input)
    then have "?in = node_input (thash H l) (thash H r)"
      using mem MNode by (intro inj_onD [OF snoc.prems(2)]) simp_all
    then have eq: "?run = thash H (if sibling_is_left s then r else l)" by (simp split: if_splits)
    have "inj_on H (tree_inputs H (if sibling_is_left s then r else l) \<union>
        insert (leaf_input i v) (set (path_inputs H (leaf_hash H i v) ss)))"
      using snoc.prems(2) by (rule inj_on_subset) (auto simp: MNode path_inputs_snoc)
    with snoc.IH [OF eq] show ?thesis by (simp add: MNode)
  qed
qed

lemma empty_not_tree:
  assumes "inj_on H (insert empty_input (tree_inputs H t))"
  shows "empty_root H \<noteq> thash H t"
proof
  assume "empty_root H = thash H t"
  then have "empty_input = top_input H t"
    by (intro inj_onD [OF assms]) (simp_all add: empty_root_input thash_top)
  then show False by simp
qed

lemma compute_root_not_empty:
  assumes "inj_on H (insert empty_input (set (proof_inputs H p)))"
  shows "compute_root H p \<noteq> empty_root H"
proof
  assume eq: "compute_root H p = empty_root H"
  have "\<exists>x \<in> set (proof_inputs H p). compute_root H p = H x \<and> x \<noteq> empty_input"
    by (cases "ip_steps p" rule: rev_cases)
      (auto simp: compute_root_def proof_inputs_def leaf_hash_input path_inputs_snoc step_hash_def
        node_hash_input)
  then obtain x where x: "x \<in> set (proof_inputs H p)" "compute_root H p = H x" "x \<noteq> empty_input"
    by blast
  then have "x = empty_input"
    using eq by (intro inj_onD [OF assms]) (simp_all add: empty_root_input)
  with x show False by simp
qed

section \<open>Properties\<close>

lemma leaves_nth: "k < length entries \<Longrightarrow> leaves H entries ! k = leaf_hash H (fst (entries ! k)) (snd (entries ! k))"
  by (simp add: leaves_def case_prod_beta)

lemma length_leaves [simp]: "length (leaves H entries) = length entries"
  by (simp add: leaves_def)

lemma prove_SomeD:
  assumes "prove H entries inode = Some p"
  obtains k where "k < length entries" "fst (entries ! k) = inode" "ip_inode p = inode"
    "ip_value p = snd (entries ! k)" "ip_steps p = prove_steps H (leaves H entries) k"
  using assms by (auto simp: prove_def position_Some case_prod_beta split: option.splits)

lemma prove_None: "prove H entries inode = None \<longleftrightarrow> inode \<notin> fst ` set entries"
proof (cases "position (\<lambda>(i, _). i = inode) entries")
  case None
  then have "inode \<notin> fst ` set entries" by (auto simp: position_None)
  with None show ?thesis by (simp add: prove_def)
next
  case (Some k)
  then have "entries ! k \<in> set entries" "fst (entries ! k) = inode"
    by (auto simp: position_Some case_prod_beta)
  with Some show ?thesis by (auto simp: prove_def)
qed

lemma compute_root_prove:
  assumes "prove H entries inode = Some p"
  shows "compute_root H p = commit H entries"
proof -
  from assms obtain k where k: "k < length entries" "fst (entries ! k) = inode" "ip_inode p = inode"
    "ip_value p = snd (entries ! k)" "ip_steps p = prove_steps H (leaves H entries) k"
    by (rule prove_SomeD)
  then have "entries \<noteq> []" by auto
  with k prove_steps_root [of k "leaves H entries" H] show ?thesis
    by (simp add: compute_root_def commit_def leaves_nth)
qed

lemma prove_shape:
  assumes "prove H entries inode = Some p"
  obtains k where "k < length entries" "fst (entries ! k) = inode"
    "map sibling_is_left (ip_steps p) = shape_loop (length entries) k"
proof -
  from assms obtain k where "k < length entries" "fst (entries ! k) = inode"
    "ip_steps p = prove_steps H (leaves H entries) k"
    by (rule prove_SomeD)
  with prove_steps_shape [of k "leaves H entries" H] that show ?thesis by simp
qed

lemma check_prove:
  assumes "prove H entries inode = Some p" "length entries \<le> 2 ^ 64"
  shows "check H p (commit H entries) = Inr ()"
proof -
  from assms(1) obtain k where "map sibling_is_left (ip_steps p) = shape_loop (length entries) k"
    by (rule prove_shape)
  with length_shape_loop [OF assms(2)] have "length (ip_steps p) \<le> 64"
    by (metis length_map)
  with compute_root_prove [OF assms(1)] show ?thesis by (simp add: check_def MAX_STEPS_def)
qed

lemma check_compute_root: "check H p root = Inr () \<Longrightarrow> compute_root H p = root"
  by (auto simp: check_def split: if_splits)

lemma accepted_path:
  assumes "compute_root H p = commit H entries"
    and "inj_on H (set (commit_inputs H entries) \<union> set (proof_inputs H p))"
  shows "entries \<noteq> []"
    and "at (mtree_of entries) (rev (map sibling_is_left (ip_steps p))) = Some (MLeaf (ip_inode p) (ip_value p))"
proof -
  show ne: "entries \<noteq> []"
  proof
    assume "entries = []"
    with assms(1) have "compute_root H p = empty_root H" by (simp add: commit_def)
    moreover have "inj_on H (insert empty_input (set (proof_inputs H p)))"
      using assms(2) by (rule inj_on_subset) (auto simp: commit_inputs_def)
    ultimately show False using compute_root_not_empty by blast
  qed
  have eq: "foldl (step_hash H) (leaf_hash H (ip_inode p) (ip_value p)) (ip_steps p) = thash H (mtree_of entries)"
    using assms(1) commit_mtree [OF ne] by (simp add: compute_root_def)
  have "inj_on H (tree_inputs H (mtree_of entries) \<union> insert (leaf_input (ip_inode p) (ip_value p))
          (set (path_inputs H (leaf_hash H (ip_inode p) (ip_value p)) (ip_steps p))))"
    using assms(2) by (rule inj_on_subset) (auto simp: commit_inputs_tree [OF ne] proof_inputs_def)
  with path_in_tree [OF eq]
  show "at (mtree_of entries) (rev (map sibling_is_left (ip_steps p))) = Some (MLeaf (ip_inode p) (ip_value p))"
    by blast
qed

lemma accepted_in_entries:
  assumes "compute_root H p = commit H entries"
    and "inj_on H (set (commit_inputs H entries) \<union> set (proof_inputs H p))"
  shows "(ip_inode p, ip_value p) \<in> set entries"
proof -
  from at_inorder [OF accepted_path(2) [OF assms]] obtain a b
    where "inorder (mtree_of entries) = a @ [(ip_inode p, ip_value p)] @ b" by auto
  with accepted_path(1) [OF assms] have "entries = a @ [(ip_inode p, ip_value p)] @ b" by simp
  then show ?thesis by (metis append_Cons in_set_conv_decomp)
qed


lemma distinct_fst_nth:
  "distinct (map fst xs) \<Longrightarrow> i < length xs \<Longrightarrow> j < length xs \<Longrightarrow> fst (xs ! i) = fst (xs ! j) \<longleftrightarrow> i = j"
  using nth_eq_iff_index_eq [of "map fst xs" i j] by simp

lemma check_neighbour_iff:
  "check_neighbour H n root len = Inr () \<longleftrightarrow>
     check H (nb_proof n) root = Inr () \<and> nb_index n < len \<and>
     map sibling_is_left (ip_steps (nb_proof n)) = shape_loop len (nb_index n)"
  by (cases "check H (nb_proof n) root") (auto simp: check_neighbour_def expected_shape_def)

lemma make_neighbour_ok:
  assumes "distinct (map fst entries)" "k < length entries" "length entries \<le> 2 ^ 64"
  obtains n where "make_neighbour H entries k = Some n" "nb_index n = k"
    "ip_inode (nb_proof n) = fst (entries ! k)"
    "check_neighbour H n (commit H entries) (length entries) = Inr ()"
proof -
  have "fst (entries ! k) \<in> fst ` set entries" using assms(2) by simp
  then obtain p where p: "prove H entries (fst (entries ! k)) = Some p"
    by (metis prove_None option.exhaust)
  from p obtain j where "j < length entries" "fst (entries ! j) = fst (entries ! k)"
    "map sibling_is_left (ip_steps p) = shape_loop (length entries) j" by (rule prove_shape)
  with assms have shape: "map sibling_is_left (ip_steps p) = shape_loop (length entries) k"
    by (metis distinct_fst_nth)
  have ino: "ip_inode p = fst (entries ! k)" using p by (rule prove_SomeD) simp
  let ?n = "\<lparr>nb_index = k, nb_proof = p\<rparr>"
  have "make_neighbour H entries k = Some ?n" by (simp add: make_neighbour_def p)
  moreover have "check_neighbour H ?n (commit H entries) (length entries) = Inr ()"
    using check_prove [OF p assms(3)] shape assms(2) by (simp add: check_neighbour_iff)
  ultimately show ?thesis using that [of ?n] ino by simp
qed

text \<open>The four ways \<open>check_absent\<close> accepts.\<close>

lemma check_absent_cases:
  assumes "check_absent H p root = Inr ()"
  obtains (empty) "ap_len p = 0" "root = empty_root H"
  | (both) l r where "ap_left p = Some l" "ap_right p = Some r"
      "check_neighbour H l root (ap_len p) = Inr ()" "check_neighbour H r root (ap_len p) = Inr ()"
      "ip_inode (nb_proof l) < ap_inode p" "ap_inode p < ip_inode (nb_proof r)"
      "nb_index r = nb_index l + 1"
  | (past) l where "ap_left p = Some l" "ap_right p = None"
      "check_neighbour H l root (ap_len p) = Inr ()"
      "ip_inode (nb_proof l) < ap_inode p" "nb_index l + 1 = ap_len p"
  | (before) r where "ap_left p = None" "ap_right p = Some r"
      "check_neighbour H r root (ap_len p) = Inr ()"
      "ap_inode p < ip_inode (nb_proof r)" "nb_index r = 0"
proof (cases "ap_len p = 0")
  case True
  with assms show ?thesis by (intro empty) (auto simp: check_absent_def split: if_splits)
next
  case False
  show ?thesis
  proof (cases "ap_left p"; cases "ap_right p")
    fix l r assume "ap_left p = Some l" "ap_right p = Some r"
    with assms False show ?thesis
      by (intro both) (auto simp: check_absent_def rbind_Inr_iff split: if_splits)
  next
    fix l assume "ap_left p = Some l" "ap_right p = None"
    with assms False show ?thesis
      by (intro past) (auto simp: check_absent_def rbind_Inr_iff split: if_splits)
  next
    fix r assume "ap_left p = None" "ap_right p = Some r"
    with assms False show ?thesis
      by (intro before) (auto simp: check_absent_def rbind_Inr_iff split: if_splits)
  next
    assume "ap_left p = None" "ap_right p = None"
    with assms False show ?thesis by (simp add: check_absent_def)
  qed
qed

definition absence_inputs :: "(bytes \<Rightarrow> hash) \<Rightarrow> absence_proof \<Rightarrow> bytes list" where
  "absence_inputs H p =
     (case ap_left p of None \<Rightarrow> [] | Some n \<Rightarrow> proof_inputs H (nb_proof n)) @
     (case ap_right p of None \<Rightarrow> [] | Some n \<Rightarrow> proof_inputs H (nb_proof n))"

lemma neighbour_at:
  assumes "check_neighbour H n (commit H entries) len = Inr ()"
    and "inj_on H (set (commit_inputs H entries) \<union> set (proof_inputs H (nb_proof n)))"
  shows "entries \<noteq> []" and "nb_index n < len"
    and "at (mtree_of entries) (rev (shape_loop len (nb_index n))) =
       Some (MLeaf (ip_inode (nb_proof n)) (ip_value (nb_proof n)))"
proof -
  from assms(1) have root: "compute_root H (nb_proof n) = commit H entries"
    and shape: "map sibling_is_left (ip_steps (nb_proof n)) = shape_loop len (nb_index n)"
    and "nb_index n < len"
    by (auto simp: check_neighbour_iff check_compute_root)
  then show "nb_index n < len" by simp
  from accepted_path [OF root assms(2)] shape show "entries \<noteq> []"
    "at (mtree_of entries) (rev (shape_loop len (nb_index n))) =
       Some (MLeaf (ip_inode (nb_proof n)) (ip_value (nb_proof n)))" by simp_all
qed

lemma sorted_gap:
  fixes x :: "'k::linorder"
  assumes "sorted_wrt (<) (map fst xs)" "xs = a @ [(i, v), (j, w)] @ b" "i < x" "x < j"
  shows "x \<notin> fst ` set xs"
  using assms by (auto simp: sorted_wrt_append)

lemma absent_sound:
  assumes sorted: "sorted_wrt (<) (map fst entries)"
    and acc: "check_absent H p (commit H entries) = Inr ()"
    and inj: "inj_on H (set (commit_inputs H entries) \<union> set (absence_inputs H p))"
  shows "ap_inode p \<notin> fst ` set entries"
  using acc
proof (cases rule: check_absent_cases)
  case empty
  have "entries = []"
  proof (rule ccontr)
    assume ne: "entries \<noteq> []"
    have "inj_on H (insert empty_input (tree_inputs H (mtree_of entries)))"
      using inj by (rule inj_on_subset) (auto simp: commit_inputs_tree [OF ne])
    with empty_not_tree [of H "mtree_of entries"] empty(2) commit_mtree [OF ne, of H] show False by simp
  qed
  then show ?thesis by simp
next
  case (both l r)
  have il: "inj_on H (set (commit_inputs H entries) \<union> set (proof_inputs H (nb_proof l)))"
    and ir: "inj_on H (set (commit_inputs H entries) \<union> set (proof_inputs H (nb_proof r)))"
    using inj by (auto simp: absence_inputs_def both elim: inj_on_subset)
  note L = neighbour_at [OF both(3) il] and R = neighbour_at [OF both(4) ir]
  from R(2) both(7) have "nb_index l + 1 < ap_len p" by simp
  from shape_adjacent [OF this] obtain c m k where
    sh: "shape_loop (ap_len p) (nb_index l) = replicate m True @ False # c"
    "shape_loop (ap_len p) (nb_index r) = replicate k False @ True # c" by (auto simp: both(7))
  from L(3) have l: "at (mtree_of entries) (rev c @ False # replicate m True) =
      Some (MLeaf (ip_inode (nb_proof l)) (ip_value (nb_proof l)))" by (simp add: sh)
  from R(3) have r: "at (mtree_of entries) (rev c @ True # replicate k False) =
      Some (MLeaf (ip_inode (nb_proof r)) (ip_value (nb_proof r)))" by (simp add: sh)
  from at_adjacent [OF l r] L(1) obtain a b where
    "entries = a @ [(ip_inode (nb_proof l), ip_value (nb_proof l)), (ip_inode (nb_proof r), ip_value (nb_proof r))] @ b"
    by auto
  from sorted_gap [OF sorted this both(5,6)] show ?thesis .
next
  case (past l)
  have il: "inj_on H (set (commit_inputs H entries) \<union> set (proof_inputs H (nb_proof l)))"
    using inj by (auto simp: absence_inputs_def past elim: inj_on_subset)
  note L = neighbour_at [OF past(3) il]
  from L(2) past(5) have "nb_index l = ap_len p - 1" "ap_len p > 0" by auto
  with shape_last obtain m where "shape_loop (ap_len p) (nb_index l) = replicate m True" by auto
  with L(3) at_all_right_last [of "mtree_of entries" m] L(1) obtain a where
    "entries = a @ [(ip_inode (nb_proof l), ip_value (nb_proof l))]" by fastforce
  with sorted past(4) show ?thesis by (auto simp: sorted_wrt_append)
next
  case (before r)
  have ir: "inj_on H (set (commit_inputs H entries) \<union> set (proof_inputs H (nb_proof r)))"
    using inj by (auto simp: absence_inputs_def before elim: inj_on_subset)
  note R = neighbour_at [OF before(3) ir]
  from shape_first obtain m where "shape_loop (ap_len p) (nb_index r) = replicate m False"
    by (auto simp: before(5))
  with R(3) at_all_left_first [of "mtree_of entries" m] R(1) obtain b where
    "entries = (ip_inode (nb_proof r), ip_value (nb_proof r)) # b" by fastforce
  with sorted before(4) show ?thesis by auto
qed

lemma sorted_fst_distinct: "sorted_wrt (<) (map fst entries) \<Longrightarrow> distinct (map fst entries)"
  for entries :: "('k::linorder \<times> 'v) list"
  by (simp add: strict_sorted_iff)

lemma below_above:
  fixes entries :: "('k::linorder \<times> 'v) list"
  assumes sorted: "sorted_wrt (<) (map fst entries)" and absent: "x \<notin> fst ` set entries"
  shows "rposition (\<lambda>(i, _). i < x) entries = Some k \<Longrightarrow>
      position (\<lambda>(i, _). i > x) entries = (if k + 1 < length entries then Some (k + 1) else None)"
    and "rposition (\<lambda>(i, _). i < x) entries = None \<Longrightarrow> entries \<noteq> [] \<Longrightarrow>
      position (\<lambda>(i, _). i > x) entries = Some 0"
proof -
  have ne: "fst (entries ! j) \<noteq> x" if "j < length entries" for j
    using absent that by auto
  have lt: "fst (entries ! i) < fst (entries ! j)" if "i < j" "j < length entries" for i j
    using strict_sorted_nth_less [OF sorted that(1)] that by simp
  {
    assume "rposition (\<lambda>(i, _). i < x) entries = Some k"
    then have k: "k < length entries" "fst (entries ! k) < x"
      and above: "\<And>j. k < j \<Longrightarrow> j < length entries \<Longrightarrow> \<not> fst (entries ! j) < x"
      using rposition_Some [of "\<lambda>(i, _). i < x" entries k] by (auto simp: case_prod_beta)
    have low: "fst (entries ! j) < x" if "j \<le> k" for j
      using lt [of j k] that k by (cases "j = k") auto
    show "position (\<lambda>(i, _). i > x) entries = (if k + 1 < length entries then Some (k + 1) else None)"
    proof (cases "k + 1 < length entries")
      case True
      then have "x < fst (entries ! (k + 1))" using above [of "k + 1"] ne [of "k + 1"] by auto
      moreover have "\<forall>j < k + 1. \<not> x < fst (entries ! j)"
        using low by (auto simp: not_less intro: less_imp_le)
      ultimately show ?thesis using True by (simp add: position_Some case_prod_beta)
    next
      case False
      have "\<not> x < fst e" if e: "e \<in> set entries" for e
      proof -
        from e obtain j where "j < length entries" "entries ! j = e" by (auto simp: in_set_conv_nth)
        with False low [of j] show ?thesis by auto
      qed
      with False show ?thesis by (simp add: position_None case_prod_beta)
    qed
  }
  assume "rposition (\<lambda>(i, _). i < x) entries = None" "entries \<noteq> []"
  then have "\<not> fst (entries ! 0) < x" by (auto simp: rposition_None case_prod_beta)
  with ne [of 0] \<open>entries \<noteq> []\<close> show "position (\<lambda>(i, _). i > x) entries = Some 0"
    by (auto simp: position_Some case_prod_beta)
qed

lemma absent_complete:
  assumes sorted: "sorted_wrt (<) (map fst entries)" and len: "length entries \<le> 2 ^ 64"
    and absent: "x \<notin> fst ` set entries"
  obtains p where "prove_absent H entries x = Some p" "ap_inode p = x"
    "check_absent H p (commit H entries) = Inr ()"
proof -
  let ?below = "rposition (\<lambda>(i, _). i < x) entries"
  let ?above = "position (\<lambda>(i, _). i > x) entries"
  let ?p = "\<lparr>ap_inode = x, ap_len = length entries,
              ap_left = Option.bind ?below (make_neighbour H entries),
              ap_right = Option.bind ?above (make_neighbour H entries)\<rparr>"
  note dist = sorted_fst_distinct [OF sorted]
  have prove: "prove_absent H entries x = Some ?p"
    using absent by (force simp: prove_absent_def)
  have "check_absent H ?p (commit H entries) = Inr ()"
  proof (cases "entries = []")
    case True
    then show ?thesis by (simp add: check_absent_def commit_def)
  next
    case False
    show ?thesis
    proof (cases ?below)
      case None
      have above: "?above = Some 0" by (rule below_above(2) [OF sorted absent None False])
      then have "x < fst (entries ! 0)" by (simp add: position_Some case_prod_beta)
      moreover from False have "0 < length entries" by simp
      then obtain n where "make_neighbour H entries 0 = Some n" "nb_index n = 0"
        "ip_inode (nb_proof n) = fst (entries ! 0)"
        "check_neighbour H n (commit H entries) (length entries) = Inr ()"
        by (rule make_neighbour_ok [OF dist _ len])
      ultimately show ?thesis using None above False by (simp add: check_absent_def)
    next
      case (Some k)
      then have k: "k < length entries" "fst (entries ! k) < x"
        using rposition_Some [OF Some] by (auto simp: case_prod_beta)
      obtain l where l: "make_neighbour H entries k = Some l" "nb_index l = k"
        "ip_inode (nb_proof l) = fst (entries ! k)"
        "check_neighbour H l (commit H entries) (length entries) = Inr ()"
        by (rule make_neighbour_ok [OF dist k(1) len])
      note above = below_above(1) [OF sorted absent Some]
      show ?thesis
      proof (cases "k + 1 < length entries")
        case True
        with above have "?above = Some (k + 1)" by simp
        then have "x < fst (entries ! (k + 1))" by (simp add: position_Some case_prod_beta)
        moreover obtain r where "make_neighbour H entries (k + 1) = Some r" "nb_index r = k + 1"
          "ip_inode (nb_proof r) = fst (entries ! (k + 1))"
          "check_neighbour H r (commit H entries) (length entries) = Inr ()"
          by (rule make_neighbour_ok [OF dist True len])
        ultimately show ?thesis using Some above True l k False by (simp add: check_absent_def)
      next
        case nolast: False
        with above have "?above = None" by simp
        with Some l k False nolast show ?thesis by (simp add: check_absent_def)
      qed
    qed
  qed
  with prove that [of ?p] show ?thesis by simp
qed

lemma read_path_levels:
  "read_path (butlast (tree_levels H level)) pos = prove_steps H level pos"
proof (induction H level pos rule: prove_steps.induct)
  case (1 H level pos)
  have ne: "tree_levels H xs \<noteq> []" for xs by (subst tree_levels.simps) simp
  show ?case
  proof (cases "length level > 1")
    case True
    with 1 [OF True] show ?thesis
      by (simp add: tree_levels.simps [of H level] prove_steps.simps [of H level pos] ne)
  next
    case False
    then show ?thesis
      by (simp add: tree_levels.simps [of H level] prove_steps.simps [of H level pos])
  qed
qed

lemma prove_many_map_filter: "prove_many H entries inodes = List.map_filter (prove H entries) inodes"
proof (cases "entries = [] \<or> inodes = []")
  case True
  then have "List.map_filter (prove H entries) inodes = []"
    by (auto simp: map_filter_simps prove_def List.map_filter_def)
  with True show ?thesis by (simp add: prove_many_def)
next
  case False
  have "(\<lambda>inode. case position (\<lambda>(i, _). i = inode) entries of None \<Rightarrow> None
      | Some index \<Rightarrow> Some \<lparr>ip_inode = inode, ip_value = snd (entries ! index),
             ip_steps = read_path (butlast (tree_levels H (leaves H entries))) index\<rparr>) = prove H entries"
    by (simp add: fun_eq_iff prove_def read_path_levels split: option.splits)
  with False show ?thesis by (simp add: prove_many_def Let_def)
qed

lemma thash_inject:
  "thash H t = thash H u \<Longrightarrow> inj_on H (tree_inputs H t \<union> tree_inputs H u) \<Longrightarrow> t = u"
proof (induction t arbitrary: u)
  case (MLeaf i v)
  then have "leaf_input i v = top_input H u"
    by (intro inj_onD [OF MLeaf.prems(2)]) (simp_all add: thash_top)
  then show ?case by simp
next
  case (MNode l r)
  then have eq: "node_input (thash H l) (thash H r) = top_input H u"
    by (intro inj_onD [OF MNode.prems(2)]) (simp_all add: thash_top)
  then obtain l' r' where u: "u = MNode l' r'" by (cases u) auto
  have "inj_on H (tree_inputs H l \<union> tree_inputs H l')" "inj_on H (tree_inputs H r \<union> tree_inputs H r')"
    using MNode.prems(2) by (auto simp: u elim: inj_on_subset)
  with eq MNode.IH u show ?case by simp
qed

lemma commit_binding:
  assumes "commit H es = commit H es'"
    and inj: "inj_on H (set (commit_inputs H es) \<union> set (commit_inputs H es'))"
  shows "es = es'"
proof (cases "es = [] \<or> es' = []")
  case True
  have "commit H xs = empty_root H \<Longrightarrow> inj_on H (set (commit_inputs H xs)) \<Longrightarrow> xs = []" for xs
    using empty_not_tree [of H "mtree_of xs"] commit_mtree [of xs H] commit_inputs_tree [of xs H] by fastforce
  moreover have "commit H [] = empty_root H" by (simp add: commit_def)
  moreover have "inj_on H (set (commit_inputs H es))" "inj_on H (set (commit_inputs H es'))"
    using inj by (auto elim: inj_on_subset)
  ultimately show ?thesis using True assms(1) by metis
next
  case False
  then have ne: "es \<noteq> []" "es' \<noteq> []" by auto
  have "inj_on H (tree_inputs H (mtree_of es) \<union> tree_inputs H (mtree_of es'))"
    using inj by (rule inj_on_subset) (auto simp: commit_inputs_tree ne)
  with assms(1) have "mtree_of es = mtree_of es'"
    by (intro thash_inject) (simp_all add: commit_mtree ne)
  with ne show ?thesis by (metis inorder_mtree_of)
qed

section \<open>The guarantees of the proofs\<close>

text \<open>A small map and a digest that tells its inputs apart, to run the code on.\<close>

definition demo_entries :: "(u128 \<times> hash) list" where
  "demo_entries = [(5, 7), (9, 8)]"

definition demo_hash :: "bytes \<Rightarrow> hash" where
  "demo_hash bs =
     (if bs = leaf_input 5 7 then 1 else if bs = leaf_input 9 8 then 2
      else if bs = empty_input then 4 else 3)"

definition demo_absence :: absence_proof where
  "demo_absence =
     \<lparr>ap_inode = 6, ap_len = 2,
      ap_left = Some \<lparr>nb_index = 0, nb_proof =
        \<lparr>ip_inode = 5, ip_value = 7, ip_steps = [\<lparr>sibling = 2, sibling_is_left = False\<rparr>]\<rparr>\<rparr>,
      ap_right = Some \<lparr>nb_index = 1, nb_proof =
        \<lparr>ip_inode = 9, ip_value = 8, ip_steps = [\<lparr>sibling = 1, sibling_is_left = True\<rparr>]\<rparr>\<rparr>\<rparr>"

lemma demo_hash_simps [simp]:
  "leaf_hash demo_hash 5 7 = 1" "leaf_hash demo_hash 9 8 = 2"
  "node_hash demo_hash l r = 3" "empty_root demo_hash = 4"
  by (simp_all add: leaf_hash_input node_hash_input empty_root_input demo_hash_def)

lemma demo_commit: "commit demo_hash demo_entries = 3"
  by (simp add: commit_def demo_entries_def leaves_def commit_loop.simps)

lemma demo_inputs:
  "set (commit_inputs demo_hash demo_entries) = {empty_input, leaf_input 5 7, leaf_input 9 8, node_input 1 2}"
  by (auto simp: commit_inputs_def demo_entries_def leaves_def loop_inputs.simps)

lemma demo_inj: "inj_on demo_hash {empty_input, leaf_input 5 7, leaf_input 9 8, node_input 1 2}"
  by (simp add: inj_on_def demo_hash_def)

text \<open>
  C6. Soundness of absence. If \<open>check_absent\<close> accepts a proof against the root of a map sorted by
  inode, the inode is not in that map: whatever length, positions, values and siblings the prover
  chose, as long as the digest does not collide on the strings hashed by the commitment and by the
  proof itself.
\<close>

theorem merkle_absence_sound:
  assumes "sorted_wrt (<) (map fst entries)"
    and "check_absent H p (commit H entries) = Inr ()"
    and "inj_on H (set (commit_inputs H entries) \<union> set (absence_inputs H p))"
  shows "ap_inode p \<notin> fst ` set entries"
  using assms by (rule absent_sound)

theorem merkle_absence_sound_witness:
  "check_absent demo_hash demo_absence (commit demo_hash demo_entries) = Inr () \<and>
   ap_inode demo_absence \<notin> fst ` set demo_entries"
proof -
  have acc: "check_absent demo_hash demo_absence (commit demo_hash demo_entries) = Inr ()"
    by (simp add: demo_commit check_absent_def demo_absence_def check_neighbour_def check_def
        expected_shape_def MAX_STEPS_def compute_root_def step_hash_def shape_loop.simps)
  have "set (absence_inputs demo_hash demo_absence) \<subseteq> {leaf_input 5 7, leaf_input 9 8, node_input 1 2}"
    by (simp add: absence_inputs_def demo_absence_def proof_inputs_def step_hash_def)
  then have "inj_on demo_hash (set (commit_inputs demo_hash demo_entries) \<union> set (absence_inputs demo_hash demo_absence))"
    by (intro inj_on_subset [OF demo_inj]) (auto simp: demo_inputs)
  with merkle_absence_sound [OF _ acc] acc show ?thesis by (simp add: demo_entries_def)
qed

text \<open>
  C7. Soundness of inclusion. A proof that \<open>check\<close> accepts against the root of a map proves an entry
  of that map: the pair of inode and value it names is there.
\<close>

theorem merkle_inclusion_sound:
  assumes "check H p (commit H entries) = Inr ()"
    and "inj_on H (set (commit_inputs H entries) \<union> set (proof_inputs H p))"
  shows "(ip_inode p, ip_value p) \<in> set entries"
  using check_compute_root [OF assms(1)] assms(2) by (rule accepted_in_entries)

theorem merkle_inclusion_sound_witness:
  "(let p = \<lparr>ip_inode = 5, ip_value = 7, ip_steps = [\<lparr>sibling = 2, sibling_is_left = False\<rparr>]\<rparr>
    in check demo_hash p (commit demo_hash demo_entries) = Inr () \<and>
       (ip_inode p, ip_value p) \<in> set demo_entries)"
proof -
  let ?p = "\<lparr>ip_inode = 5, ip_value = 7, ip_steps = [\<lparr>sibling = 2, sibling_is_left = False\<rparr>]\<rparr>"
  have acc: "check demo_hash ?p (commit demo_hash demo_entries) = Inr ()"
    by (simp add: demo_commit check_def MAX_STEPS_def compute_root_def step_hash_def)
  have "inj_on demo_hash (set (commit_inputs demo_hash demo_entries) \<union> set (proof_inputs demo_hash ?p))"
    by (intro inj_on_subset [OF demo_inj]) (auto simp: demo_inputs proof_inputs_def)
  from merkle_inclusion_sound [OF acc this] acc show ?thesis by (simp add: Let_def)
qed

text \<open>
  C8. Every entry can prove itself. For an inode of the map, \<open>prove\<close> returns a proof for an entry of
  that inode, and both \<open>verify\<close> and the length-bounded \<open>check\<close> accept it against the root, for any map
  of up to \<open>2 ^ 64\<close> entries and for odd sizes as well as even ones; for any other inode it returns
  nothing.
\<close>

theorem merkle_prove_complete:
  assumes "length entries \<le> 2 ^ 64"
  shows "case prove H entries inode of
           None \<Rightarrow> inode \<notin> fst ` set entries
         | Some p \<Rightarrow> ip_inode p = inode \<and> (inode, ip_value p) \<in> set entries \<and>
             ip_verify H p (commit H entries) \<and> check H p (commit H entries) = Inr ()"
proof (cases "prove H entries inode")
  case None
  with prove_None [of H entries inode] show ?thesis by simp
next
  case (Some p)
  then obtain k where "k < length entries" "fst (entries ! k) = inode" "ip_inode p = inode"
    "ip_value p = snd (entries ! k)" by (rule prove_SomeD)
  then have "(inode, ip_value p) \<in> set entries" by (metis nth_mem prod.collapse)
  with Some \<open>ip_inode p = inode\<close> check_prove [OF Some assms] show ?thesis
    by (simp add: ip_verify_def compute_root_prove)
qed

theorem merkle_prove_complete_witness:
  "case prove demo_hash demo_entries 9 of
     None \<Rightarrow> False
   | Some p \<Rightarrow> ip_verify demo_hash p (commit demo_hash demo_entries) \<and>
       check demo_hash p (commit demo_hash demo_entries) = Inr ()"
  using merkle_prove_complete [of demo_entries 9 demo_hash] prove_None [of demo_hash demo_entries 9]
  by (auto simp: demo_entries_def split: option.splits)

text \<open>
  Completeness of absence. For a sorted map of up to \<open>2 ^ 64\<close> entries, \<open>prove_absent\<close> refuses an
  inode that is present, and for one that is absent, before, between or after the entries or in an
  empty map, it returns a proof that \<open>check_absent\<close> accepts against the root.
\<close>

theorem merkle_absence_complete:
  assumes "sorted_wrt (<) (map fst entries)" and "length entries \<le> 2 ^ 64"
  shows "case prove_absent H entries inode of
           None \<Rightarrow> inode \<in> fst ` set entries
         | Some p \<Rightarrow> inode \<notin> fst ` set entries \<and> ap_inode p = inode \<and>
             check_absent H p (commit H entries) = Inr ()"
proof (cases "inode \<in> fst ` set entries")
  case True
  then have "prove_absent H entries inode = None" by (auto simp: prove_absent_def)
  with True show ?thesis by simp
next
  case False
  with assms obtain p where "prove_absent H entries inode = Some p" "ap_inode p = inode"
    "check_absent H p (commit H entries) = Inr ()" by (rule absent_complete)
  with False show ?thesis by simp
qed

theorem merkle_absence_complete_witness:
  "case prove_absent demo_hash demo_entries 6 of
     None \<Rightarrow> False | Some p \<Rightarrow> check_absent demo_hash p (commit demo_hash demo_entries) = Inr ()"
proof -
  have "sorted_wrt (<) (map fst demo_entries)" "length demo_entries \<le> 2 ^ 64"
    by (simp_all add: demo_entries_def)
  from merkle_absence_complete [OF this, of 6 demo_hash] show ?thesis
    by (auto simp: demo_entries_def split: option.splits)
qed

text \<open>
  C9. The root binds the whole map. Two entry lists with one root are the same list, of the same
  length: promoting a lone trailing node rather than doubling it, and tagging leaves and nodes
  apart, leaves no second list with the root of the first.
\<close>

theorem merkle_commit_binding:
  assumes "commit H entries = commit H entries'"
    and "inj_on H (set (commit_inputs H entries) \<union> set (commit_inputs H entries'))"
  shows "entries = entries'"
  using assms by (rule commit_binding)

theorem merkle_commit_binding_witness:
  "commit demo_hash demo_entries = commit demo_hash [(5, 7), (9, 8)] \<and> demo_entries = [(5, 7), (9, 8)]"
proof -
  have inj: "inj_on demo_hash (set (commit_inputs demo_hash demo_entries) \<union>
      set (commit_inputs demo_hash demo_entries))"
    by (simp only: demo_inputs Un_absorb demo_inj)
  have "demo_entries = demo_entries" by (rule merkle_commit_binding [OF refl inj])
  then show ?thesis by (simp add: demo_entries_def)
qed

text \<open>
  The batched prover agrees with the single one: \<open>prove_many\<close>, which builds the tree once and
  reads every path off the stored levels, returns exactly the proofs that \<open>prove\<close> returns for the
  inodes that are present, in the order asked.
\<close>

theorem merkle_prove_many:
  "prove_many H entries inodes = List.map_filter (prove H entries) inodes"
  by (rule prove_many_map_filter)

text \<open>
  The shape of a path does not determine the length of the map, contrary to the comment on
  \<open>AbsenceProof::len\<close>: the last leaf of two and the last leaf of three have one shape. The soundness
  theorem above does not rest on that comment.
\<close>

lemma shape_not_unique: "expected_shape 2 1 = expected_shape 3 2"
  by (simp add: expected_shape_def shape_loop.simps)

end
