(* ===== verification/Storage.thy ===== *)
theory Storage
  imports Prelude
begin

text \<open>
  The storage traits and their in-memory backend: \<open>src/crates/storage/src/lib.rs\<close> and
  \<open>mem_store.rs\<close>. The locale \<open>kv_store\<close> states what \<open>CoreState\<close> relies on in a \<open>KvStore\<close>, the locale
  \<open>blob_store\<close> what it relies on in a \<open>BlobStore\<close>; \<open>MemStore\<close> is the interpretation of both. The
  mutexes guard single calls and are not modelled; every call of this backend returns \<open>Ok\<close>.
\<close>

record mem_store =
  ms_blobs :: "(hash, bytes) fmap"
  ms_kv :: "(string \<times> bytes, bytes) fmap"

definition mem_new :: mem_store where
  "mem_new = \<lparr>ms_blobs = fmempty, ms_kv = fmempty\<rparr>"

subsection \<open>\<open>BlobStore\<close>\<close>

definition blob_put :: "hash \<Rightarrow> bytes \<Rightarrow> mem_store \<Rightarrow> mem_store" where
  "blob_put key data st = st\<lparr>ms_blobs := fmupd key data (ms_blobs st)\<rparr>"

definition blob_get :: "mem_store \<Rightarrow> hash \<Rightarrow> bytes option" where
  "blob_get st key = fmlookup (ms_blobs st) key"

definition blob_has :: "mem_store \<Rightarrow> hash \<Rightarrow> bool" where
  "blob_has st key \<longleftrightarrow> key |\<in>| fmdom (ms_blobs st)"

definition blob_delete :: "hash \<Rightarrow> mem_store \<Rightarrow> mem_store" where
  "blob_delete key st = st\<lparr>ms_blobs := fmdrop key (ms_blobs st)\<rparr>"

text \<open>\<open>v.len() as u64\<close>: a length is a \<open>usize\<close>, which fits in 64 bits.\<close>

definition blob_list :: "mem_store \<Rightarrow> (hash \<times> u64) list" where
  "blob_list st = map (\<lambda>(h, v). (h, word_of_nat (length v))) (fm_entries (ms_blobs st))"

definition blob_stats :: "mem_store \<Rightarrow> nat \<times> u64" where
  "blob_stats st =
     (length (fm_entries (ms_blobs st)),
      sum_list (map (\<lambda>(_, v). word_of_nat (length v)) (fm_entries (ms_blobs st))))"

definition all_blobs :: "mem_store \<Rightarrow> (hash \<times> bytes) list" where
  "all_blobs st = fm_entries (ms_blobs st)"

subsection \<open>\<open>KvStore\<close>\<close>

definition starts_with :: "bytes \<Rightarrow> bytes \<Rightarrow> bool" where
  "starts_with key pre \<longleftrightarrow> take (length pre) key = pre"

definition put_kv :: "string \<Rightarrow> bytes \<Rightarrow> bytes \<Rightarrow> mem_store \<Rightarrow> mem_store" where
  "put_kv cf key val st = st\<lparr>ms_kv := fmupd (cf, key) val (ms_kv st)\<rparr>"

definition get_kv :: "mem_store \<Rightarrow> string \<Rightarrow> bytes \<Rightarrow> bytes option" where
  "get_kv st cf key = fmlookup (ms_kv st) (cf, key)"

definition delete_kv :: "string \<Rightarrow> bytes \<Rightarrow> mem_store \<Rightarrow> mem_store" where
  "delete_kv cf key st = st\<lparr>ms_kv := fmdrop (cf, key) (ms_kv st)\<rparr>"

definition scan_prefix :: "mem_store \<Rightarrow> string \<Rightarrow> bytes \<Rightarrow> (bytes \<times> bytes) list" where
  "scan_prefix st cf pre =
     map (\<lambda>((_, k), v). (k, v))
       (filter (\<lambda>((c, k), _). c = cf \<and> starts_with k pre) (fm_entries (ms_kv st)))"

definition scan_prefix_keys :: "mem_store \<Rightarrow> string \<Rightarrow> bytes \<Rightarrow> bytes list" where
  "scan_prefix_keys st cf pre =
     map (\<lambda>((_, k), _). k)
       (filter (\<lambda>((c, k), _). c = cf \<and> starts_with k pre) (fm_entries (ms_kv st)))"

definition count_prefix :: "mem_store \<Rightarrow> string \<Rightarrow> bytes \<Rightarrow> nat" where
  "count_prefix st cf pre =
     length (filter (\<lambda>(c, k). c = cf \<and> starts_with k pre) (fm_keys (ms_kv st)))"

section \<open>What the core asks of a key-value store\<close>

locale kv_store =
  fixes put :: "string \<Rightarrow> bytes \<Rightarrow> bytes \<Rightarrow> 's \<Rightarrow> 's"
    and get :: "'s \<Rightarrow> string \<Rightarrow> bytes \<Rightarrow> bytes option"
    and del :: "string \<Rightarrow> bytes \<Rightarrow> 's \<Rightarrow> 's"
    and scan :: "'s \<Rightarrow> string \<Rightarrow> bytes \<Rightarrow> (bytes \<times> bytes) list"
  assumes get_put: "get (put cf k v s) cf' k' = (if (cf', k') = (cf, k) then Some v else get s cf' k')"
    and get_del: "get (del cf k s) cf' k' = (if (cf', k') = (cf, k) then None else get s cf' k')"
    and scan_set: "(k, v) \<in> set (scan s cf pre) \<longleftrightarrow> get s cf k = Some v \<and> starts_with k pre"
    and scan_sorted: "sorted_wrt (<) (map fst (scan s cf pre))"
begin

lemma scan_distinct: "distinct (map fst (scan s cf pre))"
  using scan_sorted by (rule strict_sorted_iff [THEN iffD1, THEN conjunct2])

text \<open>A scan is determined by what \<open>get\<close> answers under the prefix.\<close>

lemma scan_cong:
  assumes "\<And>k. starts_with k pre \<Longrightarrow> get s cf k = get t cf k"
  shows "scan s cf pre = scan t cf pre"
  using scan_sorted [of s cf pre] _ scan_sorted [of t cf pre]
proof (rule strict_sorted_assoc_unique)
  show "set (scan s cf pre) = set (scan t cf pre)"
    using assms by (auto simp: scan_set)
qed

lemma scan_put_other: "cf \<noteq> cf' \<or> \<not> starts_with k pre \<Longrightarrow> scan (put cf k v s) cf' pre = scan s cf' pre"
  by (rule scan_cong) (auto simp: get_put)

lemma scan_del_other: "cf \<noteq> cf' \<or> \<not> starts_with k pre \<Longrightarrow> scan (del cf k s) cf' pre = scan s cf' pre"
  by (rule scan_cong) (auto simp: get_del)

text \<open>Deleting a row under the prefix removes exactly that row.\<close>

lemma scan_del:
  "scan (del cf k s) cf pre = filter (\<lambda>(k', _). k' \<noteq> k) (scan s cf pre)"
proof -
  let ?f = "filter (\<lambda>(k', _). k' \<noteq> k) (scan s cf pre)"
  have "sorted_wrt (<) (map fst ?f)"
    using scan_sorted [of s cf pre] by (simp add: sorted_wrt_map sorted_wrt_filter)
  moreover have "set (scan (del cf k s) cf pre) = set ?f"
    by (auto simp: scan_set get_del split: if_splits)
  ultimately show ?thesis
    using scan_sorted [of "del cf k s" cf pre] strict_sorted_assoc_unique by metis
qed

end

locale blob_store =
  fixes put :: "hash \<Rightarrow> bytes \<Rightarrow> 's \<Rightarrow> 's"
    and get :: "'s \<Rightarrow> hash \<Rightarrow> bytes option"
    and has :: "'s \<Rightarrow> hash \<Rightarrow> bool"
    and del :: "hash \<Rightarrow> 's \<Rightarrow> 's"
    and list :: "'s \<Rightarrow> (hash \<times> u64) list"
  assumes get_put: "get (put h d s) h' = (if h' = h then Some d else get s h')"
    and get_del: "get (del h s) h' = (if h' = h then None else get s h')"
    and has_get: "has s h \<longleftrightarrow> get s h \<noteq> None"
    and list_set: "(h, n) \<in> set (list s) \<longleftrightarrow> (\<exists>d. get s h = Some d \<and> n = word_of_nat (length d))"
begin

text \<open>Writing only what is absent keeps every blob that was there.\<close>

lemma put_if_absent_keeps:
  "get s h' = Some d' \<Longrightarrow> get (if has s h then s else put h d s) h' = Some d'"
  by (auto simp: has_get get_put)

lemma sweep_get:
  "get (fold (\<lambda>(h, _) s. del h s) garbage s) h =
     (if h \<in> fst ` set garbage then None else get s h)"
  by (induction garbage arbitrary: s) (auto simp: get_del)

lemma list_hashes: "fst ` set (list s) = {h. has s h}"
proof
  show "fst ` set (list s) \<subseteq> {h. has s h}" by (auto simp: has_get list_set)
  show "{h. has s h} \<subseteq> fst ` set (list s)"
  proof
    fix h
    assume "h \<in> {h. has s h}"
    then obtain d where "get s h = Some d" by (auto simp: has_get)
    then have "(h, word_of_nat (length d)) \<in> set (list s)" by (auto simp: list_set)
    then show "h \<in> fst ` set (list s)" by (rule rev_image_eqI) simp
  qed
qed

end

section \<open>\<open>MemStore\<close> provides both\<close>

lemma fm_entries_strict: "sorted_wrt (<) (map fst (fm_entries m))"
  by (simp add: sorted_distinct_strict)

lemma sorted_wrt_map_snd_filter:
  "sorted_wrt (<) (map fst (es :: ((string \<times> bytes) \<times> bytes) list)) \<Longrightarrow>
     sorted_wrt (<) (map fst (map (\<lambda>((_, k), v). (k, v)) (filter (\<lambda>((c, k), _). c = cf \<and> P k) es)))"
  by (induction es) (auto simp: less_prod_def)

interpretation mem_kv: kv_store put_kv get_kv delete_kv scan_prefix
proof
  fix cf cf' :: string and k k' v pre :: bytes and s :: mem_store
  show "get_kv (put_kv cf k v s) cf' k' = (if (cf', k') = (cf, k) then Some v else get_kv s cf' k')"
    by (simp add: get_kv_def put_kv_def)
  show "get_kv (delete_kv cf k s) cf' k' = (if (cf', k') = (cf, k) then None else get_kv s cf' k')"
    by (simp add: get_kv_def delete_kv_def)
  have "(k, v) \<in> set (scan_prefix s cf pre) \<longleftrightarrow>
      (\<exists>c. ((c, k), v) \<in> set (fm_entries (ms_kv s)) \<and> c = cf \<and> starts_with k pre)"
    unfolding scan_prefix_def by (auto simp del: in_fm_entries simp: image_iff)
  then show "(k, v) \<in> set (scan_prefix s cf pre) \<longleftrightarrow> get_kv s cf k = Some v \<and> starts_with k pre"
    by (auto simp: get_kv_def)
  show "sorted_wrt (<) (map fst (scan_prefix s cf pre))"
    unfolding scan_prefix_def by (rule sorted_wrt_map_snd_filter [OF fm_entries_strict])
qed

interpretation mem_blob: blob_store blob_put blob_get blob_has blob_delete blob_list
proof
  fix h h' :: hash and d :: bytes and n :: u64 and s :: mem_store
  show "blob_get (blob_put h d s) h' = (if h' = h then Some d else blob_get s h')"
    by (simp add: blob_get_def blob_put_def)
  show "blob_get (blob_delete h s) h' = (if h' = h then None else blob_get s h')"
    by (simp add: blob_get_def blob_delete_def)
  show "blob_has s h \<longleftrightarrow> blob_get s h \<noteq> None"
    by (simp add: blob_get_def blob_has_def fmlookup_dom_iff)
  show "(h, n) \<in> set (blob_list s) \<longleftrightarrow> (\<exists>d. blob_get s h = Some d \<and> n = word_of_nat (length d))"
    by (auto simp: blob_list_def blob_get_def image_iff Bex_def)
qed

lemma scan_prefix_keys_eq: "scan_prefix_keys s cf pre = map fst (scan_prefix s cf pre)"
  by (simp add: scan_prefix_keys_def scan_prefix_def comp_def case_prod_unfold)

lemma count_prefix_eq: "count_prefix s cf pre = length (scan_prefix s cf pre)"
proof -
  have "filter (\<lambda>(c, k). c = cf \<and> starts_with k pre) (fm_keys (ms_kv s)) =
      map fst (filter (\<lambda>((c, k), _). c = cf \<and> starts_with k pre) (fm_entries (ms_kv s)))"
    by (simp add: map_fst_fm_entries [symmetric] filter_map comp_def case_prod_unfold
        del: map_fst_fm_entries)
  then show ?thesis by (simp add: count_prefix_def scan_prefix_def)
qed

lemma kv_frame [frame, simp]:
  "get_kv (blob_put h d s) cf k = get_kv s cf k"
  "get_kv (blob_delete h s) cf k = get_kv s cf k"
  "scan_prefix (blob_put h d s) cf k = scan_prefix s cf k"
  "scan_prefix (blob_delete h s) cf k = scan_prefix s cf k"
  by (simp_all add: get_kv_def blob_put_def blob_delete_def scan_prefix_def)

lemma blob_frame [frame, simp]:
  "blob_get (put_kv cf k v s) h = blob_get s h"
  "blob_get (delete_kv cf k s) h = blob_get s h"
  "blob_has (put_kv cf k v s) h = blob_has s h"
  "blob_has (delete_kv cf k s) h = blob_has s h"
  "blob_list (put_kv cf k v s) = blob_list s"
  "blob_list (delete_kv cf k s) = blob_list s"
  by (simp_all add: blob_get_def blob_has_def blob_list_def put_kv_def delete_kv_def)

lemmas store_simps = mem_kv.get_put mem_kv.get_del mem_blob.get_put mem_blob.get_del

section \<open>Keys under a prefix\<close>

lemma starts_with_append [simp]: "starts_with (pre @ k) pre"
  by (simp add: starts_with_def)

lemma starts_with_prefix: "starts_with k pre \<longleftrightarrow> (\<exists>r. k = pre @ r)"
  by (metis append_take_drop_id starts_with_append starts_with_def)

end
