(* ===== verification/Proto.thy ===== *)
theory Proto
  imports Prelude Merkle
begin

text \<open>
  The shared vocabulary of the crates: \<open>src/crates/proto/src/types.rs\<close>, \<open>op.rs\<close> and the clock summary of
  \<open>msg.rs\<close>, with the signing view of an operation. A \<open>String\<close> is the list of its UTF-8 bytes, so its
  order is the byte order of Rust; \<open>[u8; 32]\<close> is a 256-bit and \<open>[u8; 24]\<close> a 192-bit word.
\<close>

type_synonym device_id = u128
type_synonym key32 = "256 word"
type_synonym nonce24 = "192 word"

section \<open>Identifiers and references\<close>

datatype op_id = OpId (opid_device: device_id) (opid_counter: u64)

instantiation op_id :: linorder
begin

definition less_eq_op_id :: "op_id \<Rightarrow> op_id \<Rightarrow> bool" where
  "less_eq_op_id a b \<longleftrightarrow> (opid_device a, opid_counter a) \<le> (opid_device b, opid_counter b)"

definition less_op_id :: "op_id \<Rightarrow> op_id \<Rightarrow> bool" where
  "less_op_id a b \<longleftrightarrow> (opid_device a, opid_counter a) < (opid_device b, opid_counter b)"

instance
  by standard (auto simp: less_eq_op_id_def less_op_id_def op_id.expand)

end

record chunk_ref =
  cr_hash :: hash
  cr_len :: u32
  cr_plain_len :: u32
  cr_offset :: u64

record sealed_file_key =
  ephemeral_pub :: key32
  sk_nonce :: nonce24
  sk_ciphertext :: bytes

record file_encryption =
  sealed_key :: "bytes option"
  recipients :: "sealed_file_key list"
  fe_recipients_digest :: "hash option"

definition is_openable :: "file_encryption \<Rightarrow> bool" where
  "is_openable e \<longleftrightarrow> sealed_key e \<noteq> None \<or> recipients e \<noteq> []"

section \<open>Operations\<close>

datatype proof_mode = PM_None | PM_Transparent | PM_ZkCommit | PM_ZkFull

record proof_bundle =
  pb_mode :: proof_mode
  pb_bytes :: bytes

record causal_ctx =
  deps :: "op_id list"

datatype fs_op_kind =
    CreateFile (cf_parent: u128) (cf_name: string) (cf_mode: u32)
  | Mkdir (mk_parent: u128) (mk_name: string) (mk_mode: u32)
  | Write (w_inode: u128) (w_offset: u64) (w_chunks: "chunk_ref list") (w_new_size: u64)
      (w_encryption: "file_encryption option")
  | Rename (old_parent: u128) (old_name: string) (new_parent: u128) (new_name: string)
      (r_observed: "op_id list")
  | Unlink (u_parent: u128) (u_name: string) (u_observed: "op_id list")
  | SetAttr (sa_inode: u128) (sa_mode: "u32 option") (sa_uid: "u32 option") (sa_gid: "u32 option")

record fs_op =
  op_id :: op_id
  op_time :: u64
  op_ctx :: causal_ctx
  op_kind :: fs_op_kind
  op_author :: key32
  op_sig :: bytes
  op_proof :: "proof_bundle option"

record fs_op_to_sign =
  ts_id :: op_id
  ts_time :: u64
  ts_ctx :: causal_ctx
  ts_kind :: fs_op_kind
  ts_author :: key32
  ts_proof :: "proof_bundle option"

definition to_sign :: "fs_op \<Rightarrow> fs_op_to_sign" where
  "to_sign op = \<lparr>ts_id = op_id op, ts_time = op_time op, ts_ctx = op_ctx op, ts_kind = op_kind op,
                 ts_author = op_author op, ts_proof = op_proof op\<rparr>"

text \<open>Everything but the signature is covered: equal signing views mean equal operations up to \<open>sig\<close>.\<close>

lemma to_sign_eq: "to_sign a = to_sign b \<longleftrightarrow> a\<lparr>op_sig := []\<rparr> = b\<lparr>op_sig := []\<rparr>"
  by (cases a; cases b) (auto simp: to_sign_def)

section \<open>Clock summaries\<close>

record clock_summary =
  cs_entries :: "(device_id \<times> u64) list"
  cs_above :: "(device_id \<times> u64 list) list"

definition empty_summary :: clock_summary where
  "empty_summary = \<lparr>cs_entries = [], cs_above = []\<rparr>"

end
