(* ===== verification/Keys.thy ===== *)
theory Keys
  imports Storage Proto
begin

text \<open>
  The keys under which \<open>CoreState\<close> stores its records: the key functions of
  \<open>src/crates/core/src/state.rs\<close>, \<open>apply.rs\<close>, \<open>namespace.rs\<close> and \<open>peers.rs\<close>. What is shown is what
  the stores rely on: within a column family the records of different kinds never share a key, a key is
  parsed back to what it was built from, and keys of one kind sort as the ids they carry.
\<close>

definition CF_META :: string where "CF_META = ''meta''"
definition CF_OPLOG :: string where "CF_OPLOG = ''oplog''"
definition CF_STATE :: string where "CF_STATE = ''state''"

definition KEY_HEAD_CURRENT :: bytes where "KEY_HEAD_CURRENT = str_bytes ''head/current''"
definition KEY_STATE_ROOT :: bytes where "KEY_STATE_ROOT = str_bytes ''state/root''"
definition KEY_STATE_TIME :: bytes where "KEY_STATE_TIME = str_bytes ''state/time''"
definition KEY_NEXT_COUNTER :: bytes where "KEY_NEXT_COUNTER = str_bytes ''op/next_counter''"
definition KEY_FORMAT_VERSION :: bytes where "KEY_FORMAT_VERSION = str_bytes ''format/version''"

definition OP_PREFIX :: bytes where "OP_PREFIX = str_bytes ''op'' @ [0]"
definition APPLIED_PREFIX :: bytes where "APPLIED_PREFIX = str_bytes ''applied'' @ [0]"
definition PENDING_PREFIX :: bytes where "PENDING_PREFIX = str_bytes ''pending'' @ [0]"
definition DIR_PREFIX :: bytes where "DIR_PREFIX = str_bytes ''dir'' @ [0]"
definition INODE_PREFIX :: bytes where "INODE_PREFIX = str_bytes ''inode'' @ [0]"
definition IMAP_PREFIX :: bytes where "IMAP_PREFIX = str_bytes ''imap'' @ [0]"
definition PARENT_PREFIX :: bytes where "PARENT_PREFIX = str_bytes ''parent'' @ [0]"
definition PEER_PREFIX :: bytes where "PEER_PREFIX = str_bytes ''peer/key/''"
definition SEAL_PREFIX :: bytes where "SEAL_PREFIX = str_bytes ''peer/seal/''"

definition op_key :: "device_id \<Rightarrow> u64 \<Rightarrow> bytes" where
  "op_key device_id counter = OP_PREFIX @ to_be_bytes 16 device_id @ to_be_bytes 8 counter"

definition parse_op_key :: "bytes \<Rightarrow> (device_id \<times> u64) option" where
  "parse_op_key key =
     (if \<not> starts_with key OP_PREFIX \<or> length key \<noteq> length OP_PREFIX + 16 + 8 then None
      else Some (from_be_bytes (take 16 (drop (length OP_PREFIX) key)),
                 from_be_bytes (drop (length OP_PREFIX + 16) key)))"

definition applied_key :: "device_id \<Rightarrow> u64 \<Rightarrow> bytes" where
  "applied_key device_id counter = APPLIED_PREFIX @ to_be_bytes 16 device_id @ to_be_bytes 8 counter"

definition pending_key :: "op_id \<Rightarrow> bytes" where
  "pending_key i = PENDING_PREFIX @ to_be_bytes 16 (opid_device i) @ to_be_bytes 8 (opid_counter i)"

definition prefixed_key :: "bytes \<Rightarrow> u128 \<Rightarrow> bytes" where
  "prefixed_key pre inode = pre @ to_be_bytes 16 inode"

definition dir_key :: "u128 \<Rightarrow> bytes" where
  "dir_key inode = prefixed_key DIR_PREFIX inode"

definition inode_key :: "u128 \<Rightarrow> bytes" where
  "inode_key inode = prefixed_key INODE_PREFIX inode"

definition imap_key :: "u128 \<Rightarrow> bytes" where
  "imap_key inode = IMAP_PREFIX @ to_be_bytes 16 inode"

definition parent_key :: "u128 \<Rightarrow> bytes" where
  "parent_key inode = PARENT_PREFIX @ to_be_bytes 16 inode"

definition inode_from_key :: "bytes \<Rightarrow> bytes \<Rightarrow> u128 option" where
  "inode_from_key pre key =
     (if \<not> starts_with key pre \<or> length key \<noteq> length pre + 16 then None
      else Some (from_be_bytes (drop (length pre) key)))"

definition parse_imap_key :: "bytes \<Rightarrow> u128 option" where
  "parse_imap_key key = inode_from_key IMAP_PREFIX key"

definition prefixed :: "bytes \<Rightarrow> device_id \<Rightarrow> bytes" where
  "prefixed pre device = pre @ to_be_bytes 16 device"

definition peer_key_for :: "device_id \<Rightarrow> bytes" where
  "peer_key_for device = prefixed PEER_PREFIX device"

definition seal_key_for :: "device_id \<Rightarrow> bytes" where
  "seal_key_for device = prefixed SEAL_PREFIX device"

section \<open>Families are disjoint, keys are injective\<close>

lemma str_bytes_simps [simp]:
  "str_bytes [] = []" "str_bytes (c # s) = word_of_nat (of_char c) # str_bytes s"
  by (simp_all add: str_bytes_def)

lemmas prefix_defs =
  OP_PREFIX_def APPLIED_PREFIX_def PENDING_PREFIX_def DIR_PREFIX_def INODE_PREFIX_def
  IMAP_PREFIX_def PARENT_PREFIX_def PEER_PREFIX_def SEAL_PREFIX_def

lemmas key_defs =
  op_key_def applied_key_def pending_key_def dir_key_def inode_key_def imap_key_def parent_key_def
  peer_key_for_def seal_key_for_def prefixed_key_def prefixed_def
  KEY_HEAD_CURRENT_def KEY_STATE_ROOT_def KEY_STATE_TIME_def KEY_NEXT_COUNTER_def KEY_FORMAT_VERSION_def

lemma cf_distinct [simp]:
  "CF_META \<noteq> CF_OPLOG" "CF_META \<noteq> CF_STATE" "CF_OPLOG \<noteq> CF_STATE"
  "CF_OPLOG \<noteq> CF_META" "CF_STATE \<noteq> CF_META" "CF_STATE \<noteq> CF_OPLOG"
  by (simp_all add: CF_META_def CF_OPLOG_def CF_STATE_def)

lemma oplog_keys_inject [simp]:
  "op_key d c = op_key d' c' \<longleftrightarrow> d = d' \<and> c = c'"
  "applied_key d c = applied_key d' c' \<longleftrightarrow> d = d' \<and> c = c'"
  "pending_key i = pending_key j \<longleftrightarrow> i = j"
  by (auto simp: key_defs op_id.expand)

lemma oplog_keys_distinct [simp]:
  "op_key d c \<noteq> applied_key d' c'" "applied_key d' c' \<noteq> op_key d c"
  "op_key d c \<noteq> pending_key i" "pending_key i \<noteq> op_key d c"
  "applied_key d c \<noteq> pending_key i" "pending_key i \<noteq> applied_key d c"
  by (simp_all add: key_defs prefix_defs)

lemma state_keys_inject [simp]:
  "dir_key i = dir_key j \<longleftrightarrow> i = j" "inode_key i = inode_key j \<longleftrightarrow> i = j"
  "imap_key i = imap_key j \<longleftrightarrow> i = j" "parent_key i = parent_key j \<longleftrightarrow> i = j"
  by (auto simp: key_defs)

lemma state_keys_distinct [simp]:
  "dir_key i \<noteq> inode_key j" "inode_key j \<noteq> dir_key i"
  "dir_key i \<noteq> imap_key j" "imap_key j \<noteq> dir_key i"
  "dir_key i \<noteq> parent_key j" "parent_key j \<noteq> dir_key i"
  "inode_key i \<noteq> imap_key j" "imap_key j \<noteq> inode_key i"
  "inode_key i \<noteq> parent_key j" "parent_key j \<noteq> inode_key i"
  "imap_key i \<noteq> parent_key j" "parent_key j \<noteq> imap_key i"
  by (simp_all add: key_defs prefix_defs)

lemma peer_keys_inject [simp]:
  "peer_key_for d = peer_key_for e \<longleftrightarrow> d = e" "seal_key_for d = seal_key_for e \<longleftrightarrow> d = e"
  by (auto simp: key_defs)

lemma meta_keys_distinct [simp]:
  "peer_key_for d \<noteq> seal_key_for e" "seal_key_for e \<noteq> peer_key_for d"
  "KEY_HEAD_CURRENT \<noteq> peer_key_for d" "peer_key_for d \<noteq> KEY_HEAD_CURRENT"
  "KEY_HEAD_CURRENT \<noteq> seal_key_for d" "seal_key_for d \<noteq> KEY_HEAD_CURRENT"
  "KEY_STATE_ROOT \<noteq> peer_key_for d" "peer_key_for d \<noteq> KEY_STATE_ROOT"
  "KEY_STATE_ROOT \<noteq> seal_key_for d" "seal_key_for d \<noteq> KEY_STATE_ROOT"
  "KEY_STATE_TIME \<noteq> peer_key_for d" "peer_key_for d \<noteq> KEY_STATE_TIME"
  "KEY_STATE_TIME \<noteq> seal_key_for d" "seal_key_for d \<noteq> KEY_STATE_TIME"
  "KEY_NEXT_COUNTER \<noteq> peer_key_for d" "peer_key_for d \<noteq> KEY_NEXT_COUNTER"
  "KEY_NEXT_COUNTER \<noteq> seal_key_for d" "seal_key_for d \<noteq> KEY_NEXT_COUNTER"
  "KEY_FORMAT_VERSION \<noteq> peer_key_for d" "peer_key_for d \<noteq> KEY_FORMAT_VERSION"
  "KEY_FORMAT_VERSION \<noteq> seal_key_for d" "seal_key_for d \<noteq> KEY_FORMAT_VERSION"
  by (simp_all add: key_defs prefix_defs)

lemma meta_consts_distinct [simp]:
  "KEY_HEAD_CURRENT \<noteq> KEY_STATE_ROOT" "KEY_STATE_ROOT \<noteq> KEY_HEAD_CURRENT"
  "KEY_HEAD_CURRENT \<noteq> KEY_STATE_TIME" "KEY_STATE_TIME \<noteq> KEY_HEAD_CURRENT"
  "KEY_HEAD_CURRENT \<noteq> KEY_NEXT_COUNTER" "KEY_NEXT_COUNTER \<noteq> KEY_HEAD_CURRENT"
  "KEY_HEAD_CURRENT \<noteq> KEY_FORMAT_VERSION" "KEY_FORMAT_VERSION \<noteq> KEY_HEAD_CURRENT"
  "KEY_STATE_ROOT \<noteq> KEY_STATE_TIME" "KEY_STATE_TIME \<noteq> KEY_STATE_ROOT"
  "KEY_STATE_ROOT \<noteq> KEY_NEXT_COUNTER" "KEY_NEXT_COUNTER \<noteq> KEY_STATE_ROOT"
  "KEY_STATE_ROOT \<noteq> KEY_FORMAT_VERSION" "KEY_FORMAT_VERSION \<noteq> KEY_STATE_ROOT"
  "KEY_STATE_TIME \<noteq> KEY_NEXT_COUNTER" "KEY_NEXT_COUNTER \<noteq> KEY_STATE_TIME"
  "KEY_STATE_TIME \<noteq> KEY_FORMAT_VERSION" "KEY_FORMAT_VERSION \<noteq> KEY_STATE_TIME"
  "KEY_NEXT_COUNTER \<noteq> KEY_FORMAT_VERSION" "KEY_FORMAT_VERSION \<noteq> KEY_NEXT_COUNTER"
  by (simp_all add: key_defs)

lemma starts_with_own [simp]:
  "starts_with (op_key d c) OP_PREFIX" "starts_with (applied_key d c) APPLIED_PREFIX"
  "starts_with (pending_key i) PENDING_PREFIX" "starts_with (dir_key n) DIR_PREFIX"
  "starts_with (inode_key n) INODE_PREFIX" "starts_with (imap_key n) IMAP_PREFIX"
  "starts_with (parent_key n) PARENT_PREFIX" "starts_with (peer_key_for d) PEER_PREFIX"
  "starts_with (seal_key_for d) SEAL_PREFIX"
  by (simp_all add: key_defs)

lemma starts_with_other [simp]:
  "\<not> starts_with (applied_key d c) OP_PREFIX" "\<not> starts_with (pending_key i) OP_PREFIX"
  "\<not> starts_with (op_key d c) PENDING_PREFIX" "\<not> starts_with (applied_key d c) PENDING_PREFIX"
  "\<not> starts_with (op_key d c) APPLIED_PREFIX" "\<not> starts_with (pending_key i) APPLIED_PREFIX"
  "\<not> starts_with (dir_key n) IMAP_PREFIX" "\<not> starts_with (inode_key n) IMAP_PREFIX"
  "\<not> starts_with (parent_key n) IMAP_PREFIX"
  "\<not> starts_with (seal_key_for d) PEER_PREFIX" "\<not> starts_with KEY_HEAD_CURRENT PEER_PREFIX"
  "\<not> starts_with KEY_STATE_ROOT PEER_PREFIX" "\<not> starts_with KEY_STATE_TIME PEER_PREFIX"
  "\<not> starts_with KEY_NEXT_COUNTER PEER_PREFIX" "\<not> starts_with KEY_FORMAT_VERSION PEER_PREFIX"
  by (simp_all add: key_defs prefix_defs starts_with_def)

section \<open>Parsing\<close>

lemma parse_op_key_op_key [simp]: "parse_op_key (op_key d c) = Some (d, c)"
  by (simp add: parse_op_key_def op_key_def)

lemma to_from_be_bytes:
  assumes "length bs = k" "LENGTH('a::len) = 8 * k"
  shows "to_be_bytes k (from_be_bytes bs :: 'a word) = bs"
proof -
  have p: "(2::nat) ^ LENGTH('a) = 256 ^ k" using assms(2) by (simp add: power_mult)
  have "nat_of_be bs < 256 ^ k" using nat_of_be_bound [of bs] assms(1) by simp
  then have "unat (from_be_bytes bs :: 'a word) = nat_of_be bs"
    using p by (simp add: from_be_bytes_def unat_of_nat)
  moreover have "be_nat (length bs) (nat_of_be bs) = bs"
  proof (induction bs rule: rev_induct)
    case (snoc b bs)
    have "unat b < 256" using unsigned_less [of b] by simp
    with snoc show ?case by simp
  qed simp
  ultimately show ?thesis using assms(1) by (simp add: to_be_bytes_def)
qed

lemma parse_op_key_Some: "parse_op_key key = Some (d, c) \<longleftrightarrow> key = op_key d c"
proof
  assume "parse_op_key key = Some (d, c)"
  then obtain r where key: "key = OP_PREFIX @ r" and len: "length r = 24"
    and d: "d = from_be_bytes (take 16 r)" and c: "c = from_be_bytes (drop 16 r)"
    by (auto simp: parse_op_key_def starts_with_prefix split: if_splits)
  have "to_be_bytes 16 d = take 16 r" unfolding d using len by (intro to_from_be_bytes) auto
  moreover have "to_be_bytes 8 c = drop 16 r" unfolding c using len by (intro to_from_be_bytes) auto
  ultimately show "key = op_key d c" by (simp add: op_key_def key)
qed simp

lemma inode_from_key_Some: "inode_from_key pre key = Some i \<longleftrightarrow> key = pre @ to_be_bytes 16 i"
proof
  assume "inode_from_key pre key = Some i"
  then obtain r where key: "key = pre @ r" and len: "length r = 16" and i: "i = from_be_bytes r"
    by (auto simp: inode_from_key_def starts_with_prefix split: if_splits)
  then show "key = pre @ to_be_bytes 16 i" using to_from_be_bytes [of r 16, where 'a = 128] by simp
qed (simp add: inode_from_key_def)

lemma parse_imap_key_imap_key [simp]: "parse_imap_key (imap_key i) = Some i"
  by (simp add: parse_imap_key_def inode_from_key_Some imap_key_def)

lemma parse_imap_key_Some: "parse_imap_key key = Some i \<longleftrightarrow> key = imap_key i"
  by (simp add: parse_imap_key_def inode_from_key_Some imap_key_def)

text \<open>Key order is id order, so a scan returns rows by ascending device and counter, or inode.\<close>

lemma append_less_same: "length xs = length ys \<Longrightarrow>
  xs @ us < ys @ vs \<longleftrightarrow> xs < ys \<or> xs = ys \<and> us < (vs :: bytes)"
  by (induction xs ys rule: list_induct2) auto

lemma pre_less_same [simp]: "pre @ us < pre @ vs \<longleftrightarrow> us < (vs :: bytes)"
  by (induction pre) auto

lemma op_key_less: "op_key d c < op_key d' c' \<longleftrightarrow> OpId d c < OpId d' c'"
  by (auto simp: op_key_def append_less_same to_be_bytes_less_iff less_op_id_def)

lemma imap_key_less: "imap_key i < imap_key j \<longleftrightarrow> i < j"
  by (simp add: imap_key_def to_be_bytes_less_iff)

lemma pending_key_less: "pending_key i < pending_key j \<longleftrightarrow> i < j"
  by (auto simp: pending_key_def append_less_same to_be_bytes_less_iff less_op_id_def)

end
