(* ===== verification/Object.thy ===== *)
theory Object
  imports Proto Crdt "HOL-Library.Multiset"
begin

text \<open>
  The records the core stores: the content-addressed objects of \<open>src/crates/core/src/object.rs\<close>, the inode
  numbering of \<open>inode.rs\<close>, the namespace records of \<open>namespace.rs\<close> and the evidence records of
  \<open>proof.rs\<close>, with the chunker of \<open>chunker.rs\<close>.
\<close>

section \<open>Objects\<close>

record object_header =
  type_tag :: u16
  oh_version :: u16

record file_node =
  fn_header :: object_header
  fn_size :: u64
  fn_chunks :: "chunk_ref list"
  fn_mode :: u32
  fn_uid :: u32
  fn_gid :: u32
  fn_mtime :: u64
  fn_ctime :: u64
  fn_encryption :: "file_encryption option"

datatype entry_type = File | Dir

instantiation entry_type :: linorder
begin

definition less_eq_entry_type :: "entry_type \<Rightarrow> entry_type \<Rightarrow> bool" where
  "less_eq_entry_type a b \<longleftrightarrow> a = File \<or> b = Dir"

definition less_entry_type :: "entry_type \<Rightarrow> entry_type \<Rightarrow> bool" where
  "less_entry_type a b \<longleftrightarrow> a = File \<and> b = Dir"

instance
  by standard (auto simp: less_eq_entry_type_def less_entry_type_def intro: entry_type.exhaust)

end

record dir_entry =
  de_name :: string
  de_inode_id :: u128
  de_entry_type :: entry_type

record dir_node =
  dn_header :: object_header
  dn_entries :: "dir_entry list"
  dn_mode :: u32
  dn_uid :: u32
  dn_gid :: u32
  dn_mtime :: u64
  dn_ctime :: u64

text \<open>\<open>compare_dir_entries\<close> compares name, then type, then inode; the sort is stable.\<close>

definition dir_entry_key :: "dir_entry \<Rightarrow> string \<times> entry_type \<times> u128" where
  "dir_entry_key e = (de_name e, de_entry_type e, de_inode_id e)"

definition sort_dir_entries :: "dir_entry list \<Rightarrow> dir_entry list" where
  "sort_dir_entries entries = sort_key dir_entry_key entries"

definition dir_canonicalize :: "dir_node \<Rightarrow> dir_node" where
  "dir_canonicalize d = d\<lparr>dn_entries := sort_dir_entries (dn_entries d)\<rparr>"

definition dir_new_canonical :: "dir_entry list \<Rightarrow> u32 \<Rightarrow> u32 \<Rightarrow> u32 \<Rightarrow> u64 \<Rightarrow> dir_node" where
  "dir_new_canonical entries mode uid gid now_ms =
     \<lparr>dn_header = \<lparr>type_tag = 2, oh_version = 1\<rparr>, dn_entries = sort_dir_entries entries,
      dn_mode = mode, dn_uid = uid, dn_gid = gid, dn_mtime = now_ms, dn_ctime = now_ms\<rparr>"

record snapshot_root =
  sr_header :: object_header
  sr_root_dir_inode :: u128
  sr_inode_map_root :: "hash option"
  sr_timestamp :: u64
  sr_author :: device_id

datatype object =
    FileNode file_node
  | DirNode dir_node
  | SnapshotRoot snapshot_root

fun canonicalized :: "object \<Rightarrow> object" where
  "canonicalized (DirNode d) = DirNode (dir_canonicalize d)"
| "canonicalized ob = ob"

lemma dir_entry_key_inj: "dir_entry_key a = dir_entry_key b \<longleftrightarrow> a = (b :: dir_entry)"
  by (cases a; cases b) (auto simp: dir_entry_key_def)

lemma sort_dir_entries_idem [simp]: "sort_dir_entries (sort_dir_entries es) = sort_dir_entries es"
  by (simp add: sort_dir_entries_def sort_key_id_if_sorted)

lemma set_sort_dir_entries [simp]: "set (sort_dir_entries es) = set es"
  by (simp add: sort_dir_entries_def)

text \<open>A listing is determined by its entries, not by the order in which they were produced.\<close>

lemma sort_dir_entries_cong:
  assumes "mset es = mset es'"
  shows "sort_dir_entries es = sort_dir_entries es'"
  unfolding sort_dir_entries_def
proof (rule sort_key_inj_key_eq)
  show "mset es = mset (sort_key dir_entry_key es')" using assms by simp
  show "inj_on dir_entry_key (set es)" by (rule inj_onI) (simp add: dir_entry_key_inj)
qed simp

lemma canonicalized_idem [simp]: "canonicalized (canonicalized ob) = canonicalized ob"
  by (cases ob) (simp_all add: dir_canonicalize_def)

section \<open>Inode numbers and dots\<close>

definition ROOT_INODE :: u128 where "ROOT_INODE = 1"

definition INODE_DOMAIN :: bytes where "INODE_DOMAIN = str_bytes ''nexusfs/inode/v1''"

text \<open>The first sixteen bytes of the digest, read big-endian.\<close>

definition hash_prefix16 :: "hash \<Rightarrow> u128" where
  "hash_prefix16 h = from_be_bytes (take 16 (to_be_bytes 32 h))"

definition inode_for_op :: "(bytes \<Rightarrow> hash) \<Rightarrow> op_id \<Rightarrow> u128" where
  "inode_for_op H i =
     (let ino = hash_prefix16
          (H (INODE_DOMAIN @ to_be_bytes 16 (opid_device i) @ to_be_bytes 8 (opid_counter i)))
      in if ino \<le> ROOT_INODE then ino + 2 else ino)"

definition dot_for_op :: "op_id \<Rightarrow> dot" where
  "dot_for_op i = Dot (opid_device i) (opid_counter i)"

lemma dot_for_op_inject [simp]: "dot_for_op i = dot_for_op j \<longleftrightarrow> i = j"
  by (cases i; cases j) (simp add: dot_for_op_def)

lemma inode_for_op_not_reserved: "ROOT_INODE < inode_for_op H i"
proof -
  have "x \<le> 1 \<Longrightarrow> 1 < x + 2" for x :: u128
  proof -
    assume "x \<le> 1"
    then have "unat x \<le> 1" by (simp add: word_le_nat_alt)
    then have "unat x = unat (0 :: u128) \<or> unat x = unat (1 :: u128)" by auto
    then have "x = 0 \<or> x = 1" by (simp only: word_unat_eq_iff)
    then show ?thesis by auto
  qed
  then show ?thesis by (auto simp: inode_for_op_def Let_def ROOT_INODE_def)
qed

section \<open>Namespace records\<close>

record dir_entry_value =
  ev_inode_id :: u128
  ev_entry_type :: entry_type
  ev_created :: u64

type_synonym dir_map = "(string, dir_entry_value) or_map"

record content_state =
  ct_node_hash :: "hash option"
  ct_size :: u64
  ct_mtime :: u64

record attr_state =
  at_mode :: u32
  at_uid :: u32
  at_gid :: u32

record inode_record =
  ir_kind :: entry_type
  ir_content :: "content_state lww_reg"
  ir_attrs :: "attr_state lww_reg"
  ir_ctime :: u64

definition inode_record_new :: "entry_type \<Rightarrow> u32 \<Rightarrow> u64 \<Rightarrow> u128 \<Rightarrow> u64 \<Rightarrow> inode_record" where
  "inode_record_new kind mode now_ms writer_id seq =
     \<lparr>ir_kind = kind,
      ir_content = lww_new \<lparr>ct_node_hash = None, ct_size = 0, ct_mtime = now_ms\<rparr> now_ms writer_id seq,
      ir_attrs = lww_new \<lparr>at_mode = mode, at_uid = 0, at_gid = 0\<rparr> now_ms writer_id seq,
      ir_ctime = now_ms\<rparr>"

section \<open>Evidence records\<close>

record transparent_proof =
  tp_old_root :: "hash option"
  tp_new_root :: "hash option"
  tp_changed :: "hash list"

record commit_proof =
  cp_old_root :: "hash option"
  cp_new_root :: hash
  cp_entry :: inclusion_proof

datatype proof_policy = PolicyNone | PolicyTransparent | PolicyRequired | PolicyCommit

fun generates :: "proof_policy \<Rightarrow> bool" where
  "generates PolicyNone = False"
| "generates _ = True"

fun commits :: "proof_policy \<Rightarrow> bool" where
  "commits PolicyCommit = True"
| "commits _ = False"

section \<open>Chunking\<close>

text \<open>\<open>data.chunks(chunk_size.max(1))\<close>.\<close>

function chunks_of :: "nat \<Rightarrow> bytes \<Rightarrow> bytes list" where
  "chunks_of n data = (if data = [] then [] else take (max n 1) data # chunks_of n (drop (max n 1) data))"
  by pat_completeness auto
termination
  by (relation "measure (\<lambda>(n, data). length data)") auto

declare chunks_of.simps [simp del]

definition chunk_bytes :: "bytes \<Rightarrow> nat \<Rightarrow> bytes list" where
  "chunk_bytes data chunk_size = chunks_of chunk_size data"

definition chunk_and_hash :: "(bytes \<Rightarrow> hash) \<Rightarrow> bytes \<Rightarrow> nat \<Rightarrow> (hash \<times> bytes) list" where
  "chunk_and_hash H data chunk_size = map (\<lambda>c. (H c, c)) (chunk_bytes data chunk_size)"

fun refs_loop :: "(bytes \<Rightarrow> hash) \<Rightarrow> (hash \<Rightarrow> bytes \<Rightarrow> ('s, unit) comp) \<Rightarrow> u64 \<Rightarrow> bytes list
    \<Rightarrow> ('s, chunk_ref list) comp" where
  "refs_loop H put offset [] = ret []"
| "refs_loop H put offset (chunk # cs) =
     bindE (put (H chunk) chunk) (\<lambda>_.
     bindE (refs_loop H put (offset + word_of_nat (length chunk)) cs) (\<lambda>out.
     ret (\<lparr>cr_hash = H chunk, cr_len = word_of_nat (length chunk),
           cr_plain_len = word_of_nat (length chunk), cr_offset = offset\<rparr> # out)))"

definition store_chunks_with_refs ::
    "(bytes \<Rightarrow> hash) \<Rightarrow> bytes \<Rightarrow> nat \<Rightarrow> (hash \<Rightarrow> bytes \<Rightarrow> ('s, unit) comp) \<Rightarrow> ('s, chunk_ref list) comp" where
  "store_chunks_with_refs H data chunk_size put = refs_loop H put 0 (chunk_bytes data (max chunk_size 1))"

lemma concat_chunks_of [simp]: "concat (chunks_of n data) = data"
  by (induction n data rule: chunks_of.induct) (subst chunks_of.simps, simp)

lemma concat_chunk_bytes [simp]: "concat (chunk_bytes data n) = data"
  by (simp add: chunk_bytes_def)

lemma chunks_of_bound: "c \<in> set (chunks_of n data) \<Longrightarrow> c \<noteq> [] \<and> length c \<le> max n 1"
proof (induction n data rule: chunks_of.induct)
  case (1 n data)
  show ?case
  proof (cases "data = []")
    case True
    with 1(2) show ?thesis by (simp add: chunks_of.simps)
  next
    case False
    with 1(2) have "c = take (max n 1) data \<or> c \<in> set (chunks_of n (drop (max n 1) data))"
      by (subst (asm) chunks_of.simps) simp
    with False 1(1) show ?thesis by auto
  qed
qed

end
