(* ===== verification/Crypto.thy ===== *)
theory Crypto
  imports Object
begin

text \<open>
  The primitives the code calls but does not implement, and the crates built on them:
  \<open>src/crates/crypto/src/sign.rs\<close>, \<open>aead.rs\<close>, \<open>repo.rs\<close>, \<open>envelope.rs\<close>, \<open>identity.rs\<close> and the codec of
  \<open>src/crates/core/src/codec.rs\<close>, \<open>hash.rs\<close>.

  \<open>prims\<close> collects the third-party functions: BLAKE3, XChaCha20-Poly1305, X25519, Ed25519, the
  system's random source and postcard. None of them is defined here. What the code relies on is
  stated by the predicates \<open>codec_ok\<close>, \<open>aead_ok\<close>, \<open>dh_ok\<close> and \<open>ed_ok\<close>, the documented behaviour of
  those libraries. Randomness is a numbered sequence of draws.
\<close>

section \<open>Third-party primitives\<close>

record prims =
  blake3 :: "bytes \<Rightarrow> hash"
  blake3_keyed :: "key32 \<Rightarrow> bytes \<Rightarrow> hash"
  aead_enc :: "key32 \<Rightarrow> nonce24 \<Rightarrow> bytes \<Rightarrow> bytes \<Rightarrow> bytes option"
  aead_dec :: "key32 \<Rightarrow> nonce24 \<Rightarrow> bytes \<Rightarrow> bytes \<Rightarrow> bytes option"
  x_public :: "key32 \<Rightarrow> key32"
  x_dh :: "key32 \<Rightarrow> key32 \<Rightarrow> key32"
  ed_public :: "key32 \<Rightarrow> key32"
  ed_sign :: "key32 \<Rightarrow> bytes \<Rightarrow> bytes"
  ed_key_ok :: "key32 \<Rightarrow> bool"
  ed_verify :: "key32 \<Rightarrow> bytes \<Rightarrow> bytes \<Rightarrow> bool"
  rng32 :: "nat \<Rightarrow> key32"
  rng24 :: "nat \<Rightarrow> nonce24"
  enc_dir :: "dir_map \<Rightarrow> bytes"
  dec_dir :: "bytes \<Rightarrow> dir_map option"
  enc_inode :: "inode_record \<Rightarrow> bytes"
  dec_inode :: "bytes \<Rightarrow> inode_record option"
  enc_op :: "fs_op \<Rightarrow> bytes"
  dec_op :: "bytes \<Rightarrow> fs_op option"
  enc_obj :: "object \<Rightarrow> bytes"
  dec_obj :: "bytes \<Rightarrow> object option"
  enc_to_sign :: "fs_op_to_sign \<Rightarrow> bytes"
  enc_tproof :: "transparent_proof \<Rightarrow> bytes"
  dec_tproof :: "bytes \<Rightarrow> transparent_proof option"
  enc_cproof :: "commit_proof \<Rightarrow> bytes"
  dec_cproof :: "bytes \<Rightarrow> commit_proof option"

text \<open>postcard: decoding an encoding gives the value back. Encoding to a growing vector cannot fail.\<close>

definition codec_ok :: "prims \<Rightarrow> bool" where
  "codec_ok P \<longleftrightarrow>
     (\<forall>m. dec_dir P (enc_dir P m) = Some m) \<and> (\<forall>r. dec_inode P (enc_inode P r) = Some r) \<and>
     (\<forall>op. dec_op P (enc_op P op) = Some op) \<and> (\<forall>ob. dec_obj P (enc_obj P ob) = Some ob) \<and>
     (\<forall>t. dec_tproof P (enc_tproof P t) = Some t) \<and> (\<forall>t. dec_cproof P (enc_cproof P t) = Some t)"

lemma codec_okD [simp]:
  assumes "codec_ok P"
  shows "dec_dir P (enc_dir P m) = Some m" "dec_inode P (enc_inode P r) = Some r"
    "dec_op P (enc_op P op) = Some op" "dec_obj P (enc_obj P ob) = Some ob"
    "dec_tproof P (enc_tproof P t) = Some t" "dec_cproof P (enc_cproof P cp) = Some cp"
  using assms by (simp_all add: codec_ok_def)

text \<open>
  The AEAD opens what it sealed and accepts any message shorter than its limit; X25519 agrees from
  both ends; an Ed25519 signature has 64 bytes and verifies under the matching key.
\<close>

definition aead_ok :: "prims \<Rightarrow> bool" where
  "aead_ok P \<longleftrightarrow> (\<forall>k n a m c. aead_enc P k n a m = Some c \<longrightarrow> aead_dec P k n a c = Some m)"

definition aead_accepts :: "prims \<Rightarrow> nat \<Rightarrow> bool" where
  "aead_accepts P len \<longleftrightarrow> (\<forall>k n a m. length m \<le> len \<longrightarrow> aead_enc P k n a m \<noteq> None)"

definition dh_ok :: "prims \<Rightarrow> bool" where
  "dh_ok P \<longleftrightarrow> (\<forall>a b. x_dh P a (x_public P b) = x_dh P b (x_public P a))"

definition ed_ok :: "prims \<Rightarrow> bool" where
  "ed_ok P \<longleftrightarrow> (\<forall>sk m. length (ed_sign P sk m) = 64 \<and> ed_key_ok P (ed_public P sk) \<and>
                        ed_verify P (ed_public P sk) m (ed_sign P sk m))"

section \<open>Codec and hashing\<close>

definition encode_object :: "prims \<Rightarrow> object \<Rightarrow> bytes" where
  "encode_object P ob = enc_obj P (canonicalized ob)"

definition hash_object :: "prims \<Rightarrow> object \<Rightarrow> hash" where
  "hash_object P ob = blake3 P (encode_object P ob)"

definition signing_bytes :: "prims \<Rightarrow> fs_op \<Rightarrow> bytes" where
  "signing_bytes P op = enc_to_sign P (to_sign op)"

section \<open>Signatures\<close>

definition SIGNATURE_LENGTH :: nat where "SIGNATURE_LENGTH = 64"

definition sign :: "prims \<Rightarrow> key32 \<Rightarrow> bytes \<Rightarrow> bytes" where
  "sign P sk msg = ed_sign P sk msg"

definition verify :: "prims \<Rightarrow> key32 \<Rightarrow> bytes \<Rightarrow> bytes \<Rightarrow> unit result" where
  "verify P vk msg sig =
     (if length sig \<noteq> SIGNATURE_LENGTH then Inl (Bail ''invalid signature length'')
      else if \<not> ed_key_ok P vk then Inl (Bail ''invalid verifying key'')
      else if \<not> ed_verify P vk msg sig then Inl (Bail ''signature verify failed'')
      else Inr ())"

lemma verify_sign: "ed_ok P \<Longrightarrow> verify P (ed_public P sk) msg (sign P sk msg) = Inr ()"
  by (simp add: ed_ok_def verify_def sign_def SIGNATURE_LENGTH_def)

section \<open>Device identity\<close>

definition SEAL_DERIVE_DOMAIN :: bytes where "SEAL_DERIVE_DOMAIN = str_bytes ''nexusfs/seal-key/v1''"

record identity =
  id_signing :: key32
  id_sealing :: key32

definition derive_sealing_seed :: "prims \<Rightarrow> key32 \<Rightarrow> key32" where
  "derive_sealing_seed P seed = blake3_keyed P seed SEAL_DERIVE_DOMAIN"

definition from_seed :: "prims \<Rightarrow> key32 \<Rightarrow> identity" where
  "from_seed P seed = \<lparr>id_signing = seed, id_sealing = derive_sealing_seed P seed\<rparr>"

definition pubkey_bytes :: "prims \<Rightarrow> identity \<Rightarrow> key32" where
  "pubkey_bytes P i = ed_public P (id_signing i)"

definition id_sealing_pubkey :: "prims \<Rightarrow> identity \<Rightarrow> key32" where
  "id_sealing_pubkey P i = x_public P (id_sealing i)"

section \<open>AEAD with a drawn nonce\<close>

definition aead_encrypt :: "prims \<Rightarrow> nonce24 \<Rightarrow> key32 \<Rightarrow> bytes \<Rightarrow> bytes \<Rightarrow> (nonce24 \<times> bytes) result" where
  "aead_encrypt P nonce key plaintext aad =
     (case aead_enc P key nonce aad plaintext of None \<Rightarrow> Inl (Bail ''aead encrypt'') | Some ct \<Rightarrow> Inr (nonce, ct))"

definition aead_decrypt :: "prims \<Rightarrow> key32 \<Rightarrow> nonce24 \<Rightarrow> bytes \<Rightarrow> bytes \<Rightarrow> bytes result" where
  "aead_decrypt P key nonce ciphertext aad =
     (case aead_dec P key nonce aad ciphertext of None \<Rightarrow> Inl (Bail ''aead decrypt'') | Some pt \<Rightarrow> Inr pt)"

lemma aead_round_trip:
  "aead_ok P \<Longrightarrow> aead_encrypt P n k m a = Inr (n', c) \<Longrightarrow> aead_decrypt P k n' c a = Inr m"
  by (auto simp: aead_ok_def aead_encrypt_def aead_decrypt_def split: option.splits)

section \<open>Chunk content under a file key\<close>

definition NONCE_DOMAIN :: bytes where "NONCE_DOMAIN = str_bytes ''nexusfs/chunk-nonce/v1''"

definition chunk_nonce :: "prims \<Rightarrow> key32 \<Rightarrow> u64 \<Rightarrow> nonce24" where
  "chunk_nonce P file_key index =
     from_be_bytes (take 24 (to_be_bytes 32
       (blake3_keyed P file_key (NONCE_DOMAIN @ rev (to_be_bytes 8 index)))))"

definition seal_chunk :: "prims \<Rightarrow> key32 \<Rightarrow> u64 \<Rightarrow> bytes \<Rightarrow> bytes result" where
  "seal_chunk P file_key index plaintext =
     (case aead_enc P file_key (chunk_nonce P file_key index) [] plaintext of
        None \<Rightarrow> Inl (Bail ''chunk encryption failed'') | Some ct \<Rightarrow> Inr ct)"

definition open_chunk :: "prims \<Rightarrow> key32 \<Rightarrow> u64 \<Rightarrow> bytes \<Rightarrow> bytes result" where
  "open_chunk P file_key index ciphertext =
     (case aead_dec P file_key (chunk_nonce P file_key index) [] ciphertext of
        None \<Rightarrow> Inl (Bail ''chunk failed authentication'') | Some pt \<Rightarrow> Inr pt)"

lemma open_seal_chunk: "aead_ok P \<Longrightarrow> seal_chunk P k i m = Inr c \<Longrightarrow> open_chunk P k i c = Inr m"
  by (auto simp: aead_ok_def seal_chunk_def open_chunk_def split: option.splits)

lemma seal_chunk_succeeds: "aead_accepts P n \<Longrightarrow> length m \<le> n \<Longrightarrow> \<exists>c. seal_chunk P k i m = Inr c"
  by (auto simp: aead_accepts_def seal_chunk_def split: option.splits)

section \<open>File keys under the repository key\<close>

definition seal_file_key :: "prims \<Rightarrow> nonce24 \<Rightarrow> key32 \<Rightarrow> key32 \<Rightarrow> bytes result" where
  "seal_file_key P nonce key file_key =
     (case aead_enc P key nonce [] (to_be_bytes 32 file_key) of
        None \<Rightarrow> Inl (Bail ''sealing the file key failed'')
      | Some sealed \<Rightarrow> Inr (to_be_bytes 24 nonce @ sealed))"

definition open_file_key :: "prims \<Rightarrow> key32 \<Rightarrow> bytes \<Rightarrow> key32 result" where
  "open_file_key P key sealed =
     (if length sealed < 24 then Inl (Bail ''sealed file key is truncated'')
      else case aead_dec P key (from_be_bytes (take 24 sealed)) [] (drop 24 sealed) of
             None \<Rightarrow> Inl (Bail ''could not unseal the file key'')
           | Some plain \<Rightarrow> if length plain = 32 then Inr (from_be_bytes plain) else Inl (Bail ''unsealed file key has the wrong length''))"

lemma hash_be_roundtrip [simp]: "from_be_bytes (to_be_bytes 32 w) = w" for w :: key32
  by (rule from_to_be_bytes) simp

lemma nonce_be_roundtrip [simp]: "from_be_bytes (to_be_bytes 24 w) = w" for w :: nonce24
  by (rule from_to_be_bytes) simp

lemma open_seal_file_key:
  "aead_ok P \<Longrightarrow> seal_file_key P n key fk = Inr sealed \<Longrightarrow> open_file_key P key sealed = Inr fk"
  by (auto simp: aead_ok_def seal_file_key_def open_file_key_def split: option.splits)

section \<open>Envelopes\<close>

definition KDF_DOMAIN :: bytes where "KDF_DOMAIN = str_bytes ''nexusfs/envelope-key/v1''"
definition AAD_DOMAIN :: bytes where "AAD_DOMAIN = str_bytes ''nexusfs/envelope-aad/v1''"
definition RECIPIENTS_DOMAIN :: bytes where "RECIPIENTS_DOMAIN = str_bytes ''nexusfs/recipient-set/v1''"

definition kdf :: "prims \<Rightarrow> key32 \<Rightarrow> key32" where
  "kdf P shared = blake3_keyed P shared KDF_DOMAIN"

definition aad_for :: "key32 \<Rightarrow> bytes" where
  "aad_for recipient_pub = AAD_DOMAIN @ to_be_bytes 32 recipient_pub"

text \<open>\<open>sort_unstable\<close> then \<open>dedup\<close> leaves the distinct keys in ascending order.\<close>

definition recipients_digest :: "prims \<Rightarrow> key32 \<Rightarrow> key32 list \<Rightarrow> hash" where
  "recipients_digest P file_key recips =
     blake3_keyed P file_key
       (RECIPIENTS_DOMAIN @ concat (map (to_be_bytes 32) (remdups_adj (sort recips))))"

definition public_from_secret :: "prims \<Rightarrow> key32 \<Rightarrow> key32" where
  "public_from_secret P secret = x_public P secret"

definition envelope_seal :: "prims \<Rightarrow> key32 \<Rightarrow> nonce24 \<Rightarrow> key32 \<Rightarrow> bytes \<Rightarrow> sealed_file_key result" where
  "envelope_seal P eph nonce recipient_pub file_key =
     (case aead_enc P (kdf P (x_dh P eph recipient_pub)) nonce (aad_for recipient_pub) file_key of
        None \<Rightarrow> Inl (Bail ''aead encrypt'')
      | Some ct \<Rightarrow> Inr \<lparr>ephemeral_pub = x_public P eph, sk_nonce = nonce, sk_ciphertext = ct\<rparr>)"

definition envelope_open :: "prims \<Rightarrow> key32 \<Rightarrow> sealed_file_key \<Rightarrow> bytes result" where
  "envelope_open P recipient_secret env =
     (case aead_dec P (kdf P (x_dh P recipient_secret (ephemeral_pub env))) (sk_nonce env)
             (aad_for (x_public P recipient_secret)) (sk_ciphertext env) of
        None \<Rightarrow> Inl (Bail ''envelope failed authentication'')
      | Some pt \<Rightarrow> Inr pt)"

lemma envelope_open_seal:
  assumes "aead_ok P" "dh_ok P" "envelope_seal P eph n (x_public P secret) fk = Inr env"
  shows "envelope_open P secret env = Inr fk"
proof -
  have "x_dh P eph (x_public P secret) = x_dh P secret (x_public P eph)"
    using assms(2) by (auto simp: dh_ok_def)
  then show ?thesis
    using assms(1,3) by (auto simp: aead_ok_def envelope_seal_def envelope_open_def split: option.splits)
qed

lemma distinct_remdups_adj_sort: "sorted xs \<Longrightarrow> distinct (remdups_adj (xs :: 'a::linorder list))"
  by (induction xs rule: remdups_adj.induct) auto

lemma recipients_digest_set:
  assumes "set rs = set rs'"
  shows "recipients_digest P k rs = recipients_digest P k rs'"
proof -
  have "remdups_adj (sort rs) = remdups_adj (sort rs')"
    using assms by (intro sorted_distinct_set_unique) (auto simp: sorted_remdups_adj distinct_remdups_adj_sort)
  then show ?thesis by (simp add: recipients_digest_def)
qed

end
