(* ===== verification/State.thy ===== *)
theory State
  imports Keys Crypto
begin

text \<open>
  The repository state of \<open>src/crates/core/src/state.rs\<close>: the \<open>CoreState\<close> value with its stores, the
  content-addressed objects, the head and the state commitment, the oplog with its applied markers,
  and the clock summaries by which replicas compare what they hold.

  The stores are the in-memory backend. A method that only reads is a function of the state into
  \<open>result\<close>; one that only writes is a function from state to state, since no write of this backend
  fails.
\<close>

section \<open>The state\<close>

record core =
  stores :: mem_store
  core_device :: device_id
  chunk_size :: nat
  cipher :: "key32 option"
  sealing_secret :: "key32 option"
  core_proofs :: proof_policy
  local_ops :: "nat option"
  draws :: nat

text \<open>
  \<open>local_ops\<close> counts the calls of the listener when there is one, \<open>draws\<close> the values taken from the
  random source; the other fields are those of \<open>CoreState\<close>.
\<close>

definition core_new :: "mem_store \<Rightarrow> device_id \<Rightarrow> core" where
  "core_new st d = \<lparr>stores = st, core_device = d, chunk_size = 1024 * 1024, cipher = None,
     sealing_secret = None, core_proofs = PolicyNone, local_ops = None, draws = 0\<rparr>"

definition kv_put :: "string \<Rightarrow> bytes \<Rightarrow> bytes \<Rightarrow> core \<Rightarrow> core" where
  "kv_put cf k v c = c\<lparr>stores := put_kv cf k v (stores c)\<rparr>"

definition kv_del :: "string \<Rightarrow> bytes \<Rightarrow> core \<Rightarrow> core" where
  "kv_del cf k c = c\<lparr>stores := delete_kv cf k (stores c)\<rparr>"

abbreviation kv_get :: "core \<Rightarrow> string \<Rightarrow> bytes \<Rightarrow> bytes option" where
  "kv_get c \<equiv> get_kv (stores c)"

abbreviation kv_scan :: "core \<Rightarrow> string \<Rightarrow> bytes \<Rightarrow> (bytes \<times> bytes) list" where
  "kv_scan c \<equiv> scan_prefix (stores c)"

definition encryption_enabled :: "core \<Rightarrow> bool" where
  "encryption_enabled c \<longleftrightarrow> cipher c \<noteq> None"

definition sealing_pubkey :: "prims \<Rightarrow> core \<Rightarrow> key32 option" where
  "sealing_pubkey P c = map_option (public_from_secret P) (sealing_secret c)"

section \<open>Objects\<close>

definition object_hash :: "prims \<Rightarrow> object \<Rightarrow> hash" where
  "object_hash P ob = blake3 P (encode_object P ob)"

definition put_blob :: "hash \<Rightarrow> bytes \<Rightarrow> core \<Rightarrow> core" where
  "put_blob h b c = c\<lparr>stores := blob_put h b (stores c)\<rparr>"

definition put_object :: "prims \<Rightarrow> object \<Rightarrow> core \<Rightarrow> hash \<times> core" where
  "put_object P ob c =
     (let b = encode_object P ob; h = blake3 P b in
      (h, if \<not> blob_has (stores c) h then put_blob h b c else c))"

definition get_object :: "prims \<Rightarrow> core \<Rightarrow> hash \<Rightarrow> object option result" where
  "get_object P c h =
     (case blob_get (stores c) h of
        None \<Rightarrow> Inr None
      | Some b \<Rightarrow> (case dec_obj P b of None \<Rightarrow> Inl (Bail ''postcard decode'') | Some ob \<Rightarrow> Inr (Some ob)))"

section \<open>Head and state commitment\<close>

definition read_hash :: "core \<Rightarrow> bytes \<Rightarrow> hash option" where
  "read_hash c key =
     (case kv_get c CF_META key of
        Some v \<Rightarrow> if length v = 32 then Some (from_be_bytes v) else None
      | None \<Rightarrow> None)"

definition get_head :: "core \<Rightarrow> hash option" where
  "get_head c = read_hash c KEY_HEAD_CURRENT"

definition set_head :: "hash \<Rightarrow> core \<Rightarrow> core" where
  "set_head head c = kv_put CF_META KEY_HEAD_CURRENT (to_be_bytes 32 head) c"

definition get_state_root :: "core \<Rightarrow> hash option" where
  "get_state_root c = read_hash c KEY_STATE_ROOT"

definition set_state_root :: "hash \<Rightarrow> core \<Rightarrow> core" where
  "set_state_root root c = kv_put CF_META KEY_STATE_ROOT (to_be_bytes 32 root) c"

definition state_time :: "core \<Rightarrow> u64" where
  "state_time c =
     (case kv_get c CF_META KEY_STATE_TIME of
        Some v \<Rightarrow> if length v = 8 then from_be_bytes v else 0
      | None \<Rightarrow> 0)"

definition observe_time :: "u64 \<Rightarrow> core \<Rightarrow> core" where
  "observe_time time_unix_ms c =
     (if time_unix_ms > state_time c
      then kv_put CF_META KEY_STATE_TIME (to_be_bytes 8 time_unix_ms) c else c)"

section \<open>Oplog\<close>

definition append_op :: "prims \<Rightarrow> fs_op \<Rightarrow> core \<Rightarrow> core" where
  "append_op P op c =
     kv_put CF_OPLOG (op_key (opid_device (op_id op)) (opid_counter (op_id op))) (enc_op P op) c"

definition decode_op :: "prims \<Rightarrow> bytes \<Rightarrow> fs_op result" where
  "decode_op P b = (case dec_op P b of None \<Rightarrow> Inl (Bail ''postcard decode'') | Some op \<Rightarrow> Inr op)"

definition get_op :: "prims \<Rightarrow> core \<Rightarrow> op_id \<Rightarrow> fs_op option result" where
  "get_op P c i =
     (case kv_get c CF_OPLOG (op_key (opid_device i) (opid_counter i)) of
        None \<Rightarrow> Inr None
      | Some b \<Rightarrow> rbind (decode_op P b) (\<lambda>op. Inr (Some op)))"

definition all_ops :: "prims \<Rightarrow> core \<Rightarrow> fs_op list result" where
  "all_ops P c = rmap (\<lambda>(_, v). decode_op P v) (kv_scan c CF_OPLOG OP_PREFIX)"

definition recent_ops :: "prims \<Rightarrow> core \<Rightarrow> nat \<Rightarrow> fs_op list result" where
  "recent_ops P c limit = rmap (\<lambda>(_, v). decode_op P v) (take limit (rev (kv_scan c CF_OPLOG OP_PREFIX)))"

definition op_count :: "core \<Rightarrow> nat" where
  "op_count c = count_prefix (stores c) CF_OPLOG OP_PREFIX"

definition applied_count :: "core \<Rightarrow> nat" where
  "applied_count c = count_prefix (stores c) CF_OPLOG APPLIED_PREFIX"

definition is_op_applied :: "core \<Rightarrow> op_id \<Rightarrow> bool" where
  "is_op_applied c i \<longleftrightarrow> kv_get c CF_OPLOG (applied_key (opid_device i) (opid_counter i)) \<noteq> None"

definition mark_op_applied :: "op_id \<Rightarrow> core \<Rightarrow> core" where
  "mark_op_applied i c = kv_put CF_OPLOG (applied_key (opid_device i) (opid_counter i)) [1] c"

definition next_op_counter :: "core \<Rightarrow> u64 \<times> core" where
  "next_op_counter c =
     (let current = (case kv_get c CF_META KEY_NEXT_COUNTER of
                       Some v \<Rightarrow> if length v = 8 then from_be_bytes v else 0
                     | None \<Rightarrow> 0);
          next = current + 1
      in (next, kv_put CF_META KEY_NEXT_COUNTER (to_be_bytes 8 next) c))"

section \<open>Clock summaries\<close>

definition MAX_ABOVE_PER_DEVICE :: nat where "MAX_ABOVE_PER_DEVICE = 4096"

definition see_key :: "bytes \<Rightarrow> (device_id, u64 fset) fmap \<Rightarrow> (device_id, u64 fset) fmap" where
  "see_key k seen =
     (case parse_op_key k of
        Some (did, ctr) \<Rightarrow>
          fmupd did (finsert ctr (case fmlookup seen did of None \<Rightarrow> {||} | Some s \<Rightarrow> s)) seen
      | None \<Rightarrow> seen)"

text \<open>The walk up the ascending counters while each is the successor of the last.\<close>

fun contiguous :: "u64 \<Rightarrow> u64 list \<Rightarrow> u64" where
  "contiguous w [] = w"
| "contiguous w (c # cs) = (if c = w + 1 then contiguous c cs else w)"

definition extras_above :: "u64 \<Rightarrow> u64 list \<Rightarrow> u64 list" where
  "extras_above w counters = take MAX_ABOVE_PER_DEVICE (filter (\<lambda>c. c \<ge> w + 1) counters)"

definition clock_summary :: "core \<Rightarrow> clock_summary" where
  "clock_summary c =
     (let keys = scan_prefix_keys (stores c) CF_OPLOG OP_PREFIX;
          seen = fold see_key keys fmempty;
          rows = map (\<lambda>(did, counters).
                   let w = contiguous 0 (fs_elems counters)
                   in (did, w, extras_above w (fs_elems counters))) (fm_entries seen)
      in \<lparr>cs_entries = map (\<lambda>(did, w, _). (did, w)) rows,
          cs_above = map (\<lambda>(did, _, ex). (did, ex)) (filter (\<lambda>(_, _, ex). ex \<noteq> []) rows)\<rparr>)"

text \<open>\<open>collect\<close> into a \<open>BTreeMap\<close>: a later pair replaces an earlier one.\<close>

definition collect_map :: "('k \<times> 'v) list \<Rightarrow> ('k, 'v) fmap" where
  "collect_map xs = fold (\<lambda>(k, v) m. fmupd k v m) xs fmempty"

definition summary_watermarks :: "clock_summary \<Rightarrow> (device_id, u64) fmap" where
  "summary_watermarks s = collect_map (cs_entries s)"

definition summary_extras :: "clock_summary \<Rightarrow> (device_id, u64 fset) fmap" where
  "summary_extras s = collect_map (map (\<lambda>(did, cs). (did, fset_of_list cs)) (cs_above s))"

definition watermark_of :: "(device_id, u64) fmap \<Rightarrow> device_id \<Rightarrow> u64" where
  "watermark_of m d = (case fmlookup m d of None \<Rightarrow> 0 | Some w \<Rightarrow> w)"

definition extra_held :: "(device_id, u64 fset) fmap \<Rightarrow> device_id \<Rightarrow> u64 \<Rightarrow> bool" where
  "extra_held m d ctr \<longleftrightarrow> (case fmlookup m d of None \<Rightarrow> False | Some s \<Rightarrow> ctr |\<in>| s)"

definition is_behind :: "core \<Rightarrow> clock_summary \<Rightarrow> bool" where
  "is_behind c remote =
     (let mine = clock_summary c; marks = summary_watermarks mine; extras = summary_extras mine in
      list_ex (\<lambda>(d, ctr). watermark_of marks d < ctr) (cs_entries remote) \<or>
      list_ex (\<lambda>(d, ctrs). list_ex (\<lambda>ctr. ctr > watermark_of marks d \<and> \<not> extra_held extras d ctr) ctrs)
        (cs_above remote))"

fun missing_loop :: "prims \<Rightarrow> (device_id, u64) fmap \<Rightarrow> (device_id, u64 fset) fmap \<Rightarrow> nat
    \<Rightarrow> (bytes \<times> bytes) list \<Rightarrow> fs_op list \<Rightarrow> fs_op list result" where
  "missing_loop P known abv limit [] out = Inr out"
| "missing_loop P known abv limit ((k, v) # rows) out =
     (case parse_op_key k of
        None \<Rightarrow> missing_loop P known abv limit rows out
      | Some (did, ctr) \<Rightarrow>
          if ctr \<le> watermark_of known did then missing_loop P known abv limit rows out
          else if extra_held abv did ctr then missing_loop P known abv limit rows out
          else rbind (decode_op P v) (\<lambda>op.
            let out' = out @ [op] in
            if length out' \<ge> limit then Inr out' else missing_loop P known abv limit rows out'))"

definition ops_missing_for :: "prims \<Rightarrow> core \<Rightarrow> clock_summary \<Rightarrow> nat \<Rightarrow> fs_op list result" where
  "ops_missing_for P c remote limit =
     missing_loop P (summary_watermarks remote) (summary_extras remote) limit
       (kv_scan c CF_OPLOG OP_PREFIX) []"

section \<open>Plain chunk storage\<close>

definition put_chunk :: "hash \<Rightarrow> bytes \<Rightarrow> (core, unit) comp" where
  "put_chunk h b = upd (put_blob h b)"

definition store_chunks :: "prims \<Rightarrow> bytes \<Rightarrow> (core, chunk_ref list) comp" where
  "store_chunks P data c = store_chunks_with_refs (blake3 P) data (chunk_size c) put_chunk c"

definition blob_stats_of :: "core \<Rightarrow> nat \<times> u64" where
  "blob_stats_of c = blob_stats (stores c)"

section \<open>Reading back what was written\<close>

lemma core_kv_simps [simp]:
  "kv_get (kv_put cf k v c) cf' k' = (if (cf', k') = (cf, k) then Some v else kv_get c cf' k')"
  "kv_get (kv_del cf k c) cf' k' = (if (cf', k') = (cf, k) then None else kv_get c cf' k')"
  "kv_get (put_blob h b c) cf' k' = kv_get c cf' k'"
  "blob_get (stores (kv_put cf k v c)) h = blob_get (stores c) h"
  "blob_get (stores (kv_del cf k c)) h = blob_get (stores c) h"
  "blob_has (stores (kv_put cf k v c)) h = blob_has (stores c) h"
  "blob_has (stores (kv_del cf k c)) h = blob_has (stores c) h"
  "blob_get (stores (put_blob h b c)) h' = (if h' = h then Some b else blob_get (stores c) h')"
  "kv_scan (put_blob h b c) cf' pre = kv_scan c cf' pre"
  by (simp_all add: kv_put_def kv_del_def put_blob_def store_simps)

lemma blob_has_put_blob [simp]: "blob_has (stores (put_blob h b c)) h' \<longleftrightarrow> h' = h \<or> blob_has (stores c) h'"
  by (simp add: mem_blob.has_get)

lemma core_fields [simp]:
  "core_device (kv_put cf k v c) = core_device c" "chunk_size (kv_put cf k v c) = chunk_size c"
  "cipher (kv_put cf k v c) = cipher c" "sealing_secret (kv_put cf k v c) = sealing_secret c"
  "core_proofs (kv_put cf k v c) = core_proofs c" "local_ops (kv_put cf k v c) = local_ops c"
  "draws (kv_put cf k v c) = draws c"
  "core_device (kv_del cf k c) = core_device c" "chunk_size (kv_del cf k c) = chunk_size c"
  "cipher (kv_del cf k c) = cipher c" "sealing_secret (kv_del cf k c) = sealing_secret c"
  "core_proofs (kv_del cf k c) = core_proofs c" "local_ops (kv_del cf k c) = local_ops c"
  "draws (kv_del cf k c) = draws c"
  "core_device (put_blob h b c) = core_device c" "chunk_size (put_blob h b c) = chunk_size c"
  "cipher (put_blob h b c) = cipher c" "sealing_secret (put_blob h b c) = sealing_secret c"
  "core_proofs (put_blob h b c) = core_proofs c" "local_ops (put_blob h b c) = local_ops c"
  "draws (put_blob h b c) = draws c"
  by (simp_all add: kv_put_def kv_del_def put_blob_def)

lemma kv_scan_put_other [simp]:
  "cf \<noteq> cf' \<or> \<not> starts_with k pre \<Longrightarrow> kv_scan (kv_put cf k v c) cf' pre = kv_scan c cf' pre"
  by (simp add: kv_put_def mem_kv.scan_put_other)

lemma kv_scan_del_other [simp]:
  "cf \<noteq> cf' \<or> \<not> starts_with k pre \<Longrightarrow> kv_scan (kv_del cf k c) cf' pre = kv_scan c cf' pre"
  by (simp add: kv_del_def mem_kv.scan_del_other)

lemma in_kv_scan: "(k, v) \<in> set (kv_scan c cf pre) \<longleftrightarrow> kv_get c cf k = Some v \<and> starts_with k pre"
  by (rule mem_kv.scan_set)

lemma single_scan:
  assumes "\<And>k v. starts_with k pre \<and> kv_get c cf k = Some v \<longleftrightarrow> k = x \<and> v = y"
  shows "kv_scan c cf pre = [(x, y)]"
proof -
  have "(k, v) \<in> set (kv_scan c cf pre) \<longleftrightarrow> k = x \<and> v = y" for k v using assms [of k v] in_kv_scan by blast
  then have s: "set (kv_scan c cf pre) = {(x, y)}" by auto
  have d: "distinct (kv_scan c cf pre)"
    using mem_kv.scan_distinct [of "stores c" cf pre] by (simp add: distinct_map)
  have "length (kv_scan c cf pre) = 1" using distinct_card [OF d] s by simp
  then obtain z where "kv_scan c cf pre = [z]" by (auto simp: length_Suc_conv)
  then show ?thesis using s by simp
qed

lemma get_set_head [simp]: "get_head (set_head h c) = Some h"
  by (simp add: get_head_def set_head_def read_hash_def)

lemma get_set_state_root [simp]: "get_state_root (set_state_root h c) = Some h"
  by (simp add: get_state_root_def set_state_root_def read_hash_def)

lemma state_time_observe [simp]: "state_time (observe_time t c) = max (state_time c) t"
proof -
  have "state_time (kv_put CF_META KEY_STATE_TIME (to_be_bytes 8 t) c) = t"
    by (simp add: state_time_def)
  then show ?thesis by (auto simp: observe_time_def max_def)
qed

text \<open>An object that was stored is read back under the returned hash, unless another object collides.\<close>

lemma get_put_object:
  assumes "codec_ok P" "put_object P ob c = (h, c')"
    and "\<And>b. blob_get (stores c) h = Some b \<Longrightarrow> b = encode_object P ob"
  shows "get_object P c' h = Inr (Some (canonicalized ob))"
proof -
  let ?b = "encode_object P ob"
  have h: "h = blake3 P ?b" and c': "c' = (if \<not> blob_has (stores c) h then put_blob h ?b c else c)"
    using assms(2) by (auto simp: put_object_def Let_def split: if_splits)
  have "blob_get (stores c') h = Some ?b"
    using assms(3) c' by (auto simp: mem_blob.has_get split: if_splits)
  then show ?thesis using assms(1) by (simp add: get_object_def encode_object_def)
qed

lemma put_object_keeps:
  "put_object P ob c = (h, c') \<Longrightarrow> blob_get (stores c) h' = Some b \<Longrightarrow> blob_get (stores c') h' = Some b"
  by (auto simp: put_object_def Let_def mem_blob.has_get split: if_splits)

lemma put_object_kv [simp]:
  "kv_get (snd (put_object P ob c)) = kv_get c" "kv_scan (snd (put_object P ob c)) = kv_scan c"
  by (auto simp: put_object_def Let_def fun_eq_iff)

lemma fst_put_object [simp]: "fst (put_object P ob c) = object_hash P ob"
  by (simp add: put_object_def object_hash_def Let_def)

section \<open>The oplog\<close>

text \<open>Every row under the oplog prefix holds the operation its key names.\<close>

definition oplog_ok :: "prims \<Rightarrow> core \<Rightarrow> bool" where
  "oplog_ok P c \<longleftrightarrow>
     (\<forall>k v. kv_get c CF_OPLOG k = Some v \<and> starts_with k OP_PREFIX \<longrightarrow>
        (\<exists>op. dec_op P v = Some op \<and> k = op_key (opid_device (op_id op)) (opid_counter (op_id op))))"

definition held :: "core \<Rightarrow> op_id \<Rightarrow> bool" where
  "held c i \<longleftrightarrow> kv_get c CF_OPLOG (op_key (opid_device i) (opid_counter i)) \<noteq> None"

lemma held_append [simp]: "held (append_op P op c) i \<longleftrightarrow> i = op_id op \<or> held c i"
  by (auto simp: held_def append_op_def op_id.expand)

lemma oplog_ok_append: "codec_ok P \<Longrightarrow> oplog_ok P c \<Longrightarrow> oplog_ok P (append_op P op c)"
  unfolding oplog_ok_def append_op_def by (auto split: if_splits)

lemma get_op_append:
  "codec_ok P \<Longrightarrow> get_op P (append_op P op c) i = (if i = op_id op then Inr (Some op) else get_op P c i)"
  by (auto simp: get_op_def append_op_def decode_op_def op_id.expand)

lemma applied_mark [simp]: "is_op_applied (mark_op_applied i c) j \<longleftrightarrow> j = i \<or> is_op_applied c j"
  by (auto simp: is_op_applied_def mark_op_applied_def op_id.expand)

text \<open>Under the invariant the rows are the held operations in ascending order of their ids.\<close>

definition log_ops :: "prims \<Rightarrow> core \<Rightarrow> fs_op list" where
  "log_ops P c = map (\<lambda>(_, v). the (dec_op P v)) (kv_scan c CF_OPLOG OP_PREFIX)"

lemma oplog_row:
  assumes "oplog_ok P c" "(k, v) \<in> set (kv_scan c CF_OPLOG OP_PREFIX)"
  shows "dec_op P v = Some (the (dec_op P v))"
    and "k = op_key (opid_device (op_id (the (dec_op P v)))) (opid_counter (op_id (the (dec_op P v))))"
  using assms by (force simp: oplog_ok_def in_kv_scan)+

lemma all_ops_eq: "oplog_ok P c \<Longrightarrow> all_ops P c = Inr (log_ops P c)"
  unfolding all_ops_def log_ops_def
  by (rule rmap_all_Inr) (auto simp: decode_op_def dest!: oplog_row(1) split: option.split)

lemma log_ops_keys:
  assumes "oplog_ok P c"
  shows "map fst (kv_scan c CF_OPLOG OP_PREFIX) =
    map (\<lambda>op. op_key (opid_device (op_id op)) (opid_counter (op_id op))) (log_ops P c)"
  unfolding log_ops_def using oplog_row(2) [OF assms] by (auto simp: comp_def)

lemma log_ops_sorted:
  assumes "oplog_ok P c"
  shows "sorted_wrt (<) (map op_id (log_ops P c))"
proof -
  have "sorted_wrt (<) (map (\<lambda>op. op_key (opid_device (op_id op)) (opid_counter (op_id op))) (log_ops P c))"
    using mem_kv.scan_sorted [of "stores c" CF_OPLOG OP_PREFIX] by (simp add: log_ops_keys [OF assms])
  then show ?thesis by (simp add: sorted_wrt_map op_key_less)
qed

lemma log_ops_held:
  assumes "oplog_ok P c"
  shows "op_id ` set (log_ops P c) = {i. held c i}"
proof -
  have "i \<in> op_id ` set (log_ops P c) \<longleftrightarrow> held c i" for i
  proof -
    let ?k = "\<lambda>i. op_key (opid_device i) (opid_counter i)"
    have inj: "?k i = ?k j \<longleftrightarrow> i = j" for i j by (auto simp: op_id.expand)
    have "held c i \<longleftrightarrow> ?k i \<in> set (map fst (kv_scan c CF_OPLOG OP_PREFIX))"
      by (auto simp: held_def image_iff Bex_def in_kv_scan)
    also have "\<dots> \<longleftrightarrow> i \<in> op_id ` set (log_ops P c)"
      unfolding log_ops_keys [OF assms] using inj by (auto simp: image_iff)
    finally show ?thesis by simp
  qed
  then show ?thesis by blast
qed

end
