(* ===== verification/Sample.thy ===== *)
theory Sample
  imports State "HOL-Library.Countable"
begin

text \<open>
  A concrete choice of the third-party primitives that meets everything the development assumes
  about them. It serves the instances at which the theorems are applied: every record type is
  countable, so there is an encoding with a decoder, and the toy ciphers have the laws by
  computation. It is a model of the laws, not of the libraries.
\<close>

instance chunk_ref_ext :: (countable) countable
  by (rule countable_classI [of "\<lambda>r. to_nat (cr_hash r, cr_len r, cr_plain_len r, cr_offset r, chunk_ref.more r)"])
    (simp add: chunk_ref.equality)

instance sealed_file_key_ext :: (countable) countable
  by (rule countable_classI [of "\<lambda>r. to_nat (ephemeral_pub r, sk_nonce r, sk_ciphertext r, sealed_file_key.more r)"])
    (simp add: sealed_file_key.equality)

instance file_encryption_ext :: (countable) countable
  by (rule countable_classI [of "\<lambda>r. to_nat (sealed_key r, recipients r, fe_recipients_digest r, file_encryption.more r)"])
    (simp add: file_encryption.equality)

instance op_id :: countable
  by countable_datatype

instance dot :: countable
  by countable_datatype

instance fs_op_kind :: countable
  by countable_datatype

instance entry_type :: countable
  by countable_datatype

instance proof_mode :: countable
  by countable_datatype

instance proof_bundle_ext :: (countable) countable
  by (rule countable_classI [of "\<lambda>r. to_nat (pb_mode r, pb_bytes r, proof_bundle.more r)"])
    (simp add: proof_bundle.equality)

instance causal_ctx_ext :: (countable) countable
  by (rule countable_classI [of "\<lambda>r. to_nat (deps r, causal_ctx.more r)"]) (simp add: causal_ctx.equality)

instance fs_op_ext :: (countable) countable
  by (rule countable_classI [of "\<lambda>r. to_nat (op_id r, op_time r, op_ctx r, op_kind r, op_author r, op_sig r, op_proof r, fs_op.more r)"])
    (simp add: fs_op.equality)

instance object_header_ext :: (countable) countable
  by (rule countable_classI [of "\<lambda>r. to_nat (type_tag r, oh_version r, object_header.more r)"])
    (simp add: object_header.equality)

instance file_node_ext :: (countable) countable
  by (rule countable_classI [of "\<lambda>r. to_nat (fn_header r, fn_size r, fn_chunks r, fn_mode r, fn_uid r, fn_gid r, fn_mtime r, fn_ctime r, fn_encryption r, file_node.more r)"])
    (simp add: file_node.equality)

instance dir_entry_ext :: (countable) countable
  by (rule countable_classI [of "\<lambda>r. to_nat (de_name r, de_inode_id r, de_entry_type r, dir_entry.more r)"])
    (simp add: dir_entry.equality)

instance dir_node_ext :: (countable) countable
  by (rule countable_classI [of "\<lambda>r. to_nat (dn_header r, dn_entries r, dn_mode r, dn_uid r, dn_gid r, dn_mtime r, dn_ctime r, dir_node.more r)"])
    (simp add: dir_node.equality)

instance snapshot_root_ext :: (countable) countable
  by (rule countable_classI [of "\<lambda>r. to_nat (sr_header r, sr_root_dir_inode r, sr_inode_map_root r, sr_timestamp r, sr_author r, snapshot_root.more r)"])
    (simp add: snapshot_root.equality)

instance object :: countable
  by countable_datatype

instance dir_entry_value_ext :: (countable) countable
  by (rule countable_classI [of "\<lambda>r. to_nat (ev_inode_id r, ev_entry_type r, ev_created r, dir_entry_value.more r)"])
    (simp add: dir_entry_value.equality)

instance content_state_ext :: (countable) countable
  by (rule countable_classI [of "\<lambda>r. to_nat (ct_node_hash r, ct_size r, ct_mtime r, content_state.more r)"])
    (simp add: content_state.equality)

instance attr_state_ext :: (countable) countable
  by (rule countable_classI [of "\<lambda>r. to_nat (at_mode r, at_uid r, at_gid r, attr_state.more r)"])
    (simp add: attr_state.equality)

instance lww_reg_ext :: (countable, countable) countable
  by (rule countable_classI [of "\<lambda>r. to_nat (lww_value r, lww_ts r, lww_writer_id r, lww_seq r, lww_reg.more r)"])
    (simp add: lww_reg.equality)

instance inode_record_ext :: (countable) countable
  by (rule countable_classI [of "\<lambda>r. to_nat (ir_kind r, ir_content r, ir_attrs r, ir_ctime r, inode_record.more r)"])
    (simp add: inode_record.equality)

instance transparent_proof_ext :: (countable) countable
  by (rule countable_classI [of "\<lambda>r. to_nat (tp_old_root r, tp_new_root r, tp_changed r, transparent_proof.more r)"])
    (simp add: transparent_proof.equality)

instance path_step_ext :: (countable) countable
  by (rule countable_classI [of "\<lambda>r. to_nat (sibling r, sibling_is_left r, path_step.more r)"])
    (simp add: path_step.equality)

instance inclusion_proof_ext :: (countable) countable
  by (rule countable_classI [of "\<lambda>r. to_nat (ip_inode r, ip_value r, ip_steps r, inclusion_proof.more r)"])
    (simp add: inclusion_proof.equality)

instance commit_proof_ext :: (countable) countable
  by (rule countable_classI [of "\<lambda>r. to_nat (cp_old_root r, cp_new_root r, cp_entry r, commit_proof.more r)"])
    (simp add: commit_proof.equality)

section \<open>An encoding with a decoder\<close>

definition enc_nat :: "nat \<Rightarrow> bytes" where
  "enc_nat n = replicate n 0"

definition dec_with :: "('a \<Rightarrow> bytes) \<Rightarrow> bytes \<Rightarrow> 'a option" where
  "dec_with enc b = (if b \<in> range enc then Some (inv enc b) else None)"

lemma dec_with_enc: "inj enc \<Longrightarrow> dec_with enc (enc x) = Some x"
  by (simp add: dec_with_def)

definition enc_any :: "'a::countable \<Rightarrow> bytes" where
  "enc_any x = enc_nat (to_nat x)"

lemma inj_enc_nat: "inj enc_nat"
  by (rule injI) (metis enc_nat_def length_replicate)

lemma inj_enc_any: "inj (enc_any :: 'a::countable \<Rightarrow> bytes)"
  using inj_compose [OF inj_enc_nat inj_to_nat] by (simp add: enc_any_def comp_def cong: inj_on_cong)

definition dir_rows :: "dir_map \<Rightarrow> (string \<times> (dot \<times> dir_entry_value) list) list \<times> (string \<times> dot list) list" where
  "dir_rows m = (map (\<lambda>(k, a). (k, fm_entries a)) (fm_entries (adds m)),
                 map (\<lambda>(k, r). (k, fs_elems r)) (fm_entries (removes m)))"

lemma fm_entries_inject: "fm_entries m = fm_entries n \<longleftrightarrow> m = n"
  by (metis map_of_fm_entries fmap_eqI)

lemma fs_elems_inject: "fs_elems m = fs_elems n \<longleftrightarrow> m = n"
  by (metis set_fs_elems fset_inject)

lemma inj_dir_rows: "inj dir_rows"
proof (rule injI)
  fix m n :: dir_map
  assume eq: "dir_rows m = dir_rows n"
  have "fm_entries (adds m) = fm_entries (adds n)"
    using eq by (intro map_inj_on [where f = "\<lambda>(k, a). (k, fm_entries a)"])
      (auto simp: dir_rows_def inj_on_def fm_entries_inject)
  moreover have "fm_entries (removes m) = fm_entries (removes n)"
    using eq by (intro map_inj_on [where f = "\<lambda>(k, a). (k, fs_elems a)"])
      (auto simp: dir_rows_def inj_on_def fs_elems_inject)
  ultimately show "m = n" by (simp add: fm_entries_inject)
qed

definition enc_rows :: "dir_map \<Rightarrow> bytes" where
  "enc_rows m = enc_any (dir_rows m)"

lemma inj_enc_rows: "inj enc_rows"
  using inj_compose [OF inj_enc_any inj_dir_rows] by (simp add: enc_rows_def comp_def cong: inj_on_cong)

definition sample :: prims where
  "sample = \<lparr>blake3 = from_be_bytes, blake3_keyed = (\<lambda>k b. k + from_be_bytes b),
     aead_enc = (\<lambda>k n a m. Some (replicate 16 0 @ m)),
     aead_dec = (\<lambda>k n a m. if take 16 m = replicate 16 0 then Some (drop 16 m) else None),
     x_public = (\<lambda>k. k), x_dh = (\<lambda>a b. a + b), ed_public = (\<lambda>k. k),
     ed_sign = (\<lambda>k m. replicate 64 0), ed_key_ok = (\<lambda>_. True), ed_verify = (\<lambda>_ _ _. True),
     rng32 = word_of_nat, rng24 = word_of_nat,
     enc_dir = enc_rows, dec_dir = dec_with enc_rows, enc_inode = enc_any, dec_inode = dec_with enc_any,
     enc_op = enc_any, dec_op = dec_with enc_any, enc_obj = enc_any, dec_obj = dec_with enc_any,
     enc_to_sign = (\<lambda>_. []), enc_tproof = enc_any, dec_tproof = dec_with enc_any,
     enc_cproof = enc_any, dec_cproof = dec_with enc_any\<rparr>"

lemma sample_ok: "codec_ok sample" "aead_ok sample" "aead_accepts sample n" "dh_ok sample" "ed_ok sample"
  by (auto simp: codec_ok_def aead_ok_def aead_accepts_def dh_ok_def ed_ok_def sample_def
      dec_with_enc inj_enc_any inj_enc_rows add.commute)

lemma blake3_sample: "blake3 sample = from_be_bytes"
  by (simp add: sample_def)

section \<open>A small state\<close>

definition sample_op :: "op_id \<Rightarrow> fs_op_kind \<Rightarrow> fs_op" where
  "sample_op i k = \<lparr>op_id = i, op_time = 5, op_ctx = \<lparr>deps = []\<rparr>, op_kind = k, op_author = 7,
     op_sig = replicate 64 0, op_proof = None\<rparr>"

definition sample_core :: core where
  "sample_core = core_new mem_new 1"

lemma sample_core_kv [simp]: "kv_get sample_core cf k = None" "kv_scan sample_core cf pre = []"
  by (simp_all add: sample_core_def core_new_def mem_new_def get_kv_def scan_prefix_def)

lemma sample_core_blob [simp]: "blob_get (stores sample_core) h = None"
  by (simp add: sample_core_def core_new_def mem_new_def blob_get_def)

lemma oplog_ok_sample [simp]: "oplog_ok P sample_core"
  by (simp add: oplog_ok_def)

end
