(* ===== verification/Clock.thy ===== *)
theory Clock
  imports Sample
begin

text \<open>
  What the clock summaries of \<open>state.rs\<close> promise. \<open>claims\<close> is how a peer reads a summary: an operation at
  or below the watermark of its device, or listed above it, is taken to be held.
\<close>

definition claims :: "clock_summary \<Rightarrow> op_id \<Rightarrow> bool" where
  "claims s i \<longleftrightarrow>
     opid_counter i \<le> watermark_of (summary_watermarks s) (opid_device i) \<or>
     extra_held (summary_extras s) (opid_device i) (opid_counter i)"

section \<open>The walk over the counters\<close>

lemma contiguous_ge: "sorted_wrt (<) (w # cs) \<Longrightarrow> w \<le> contiguous w cs"
proof (induction w cs rule: contiguous.induct)
  case (2 w c cs)
  then have "w < c" "c = w + 1 \<Longrightarrow> c \<le> contiguous c cs" by auto
  then show ?case by auto
qed simp

lemma contiguous_in:
  "sorted_wrt (<) (w # cs) \<Longrightarrow> w < x \<Longrightarrow> x \<le> contiguous w cs \<Longrightarrow> x \<in> set cs"
proof (induction w cs rule: contiguous.induct)
  case (2 w c cs)
  show ?case
  proof (cases "c = w + 1 \<and> x \<noteq> c")
    case True
    then have "c \<le> x" using inc_le [OF 2(3)] by simp
    then have "c < x" using True by (auto simp: order_less_le)
    with True 2 show ?thesis by auto
  next
    case False
    with 2 show ?thesis by (auto split: if_splits)
  qed
qed simp

lemma contiguous_gap:
  "sorted_wrt (<) (w # cs) \<Longrightarrow> contiguous w cs + 1 \<notin> set cs"
proof (induction w cs rule: contiguous.induct)
  case (2 w c cs)
  show ?case
  proof (cases "c = w + 1")
    case True
    let ?u = "contiguous c cs"
    have "?u + 1 \<notin> set cs" using 2 True by auto
    moreover have "?u + 1 \<noteq> c"
    proof
      assume eq: "?u + 1 = c"
      have "c \<le> ?u" using 2 True by (intro contiguous_ge) auto
      then have "?u = - 1" using eq inc_less_eq_triv_imp [of ?u] by simp
      then have "c = 0" using eq by simp
      moreover have "w < c" using 2(2) by simp
      ultimately show False by simp
    qed
    ultimately show ?thesis using True by simp
  next
    case False
    then have "w + 1 < c" using 2(2) inc_le [of w c] by (auto simp: order_less_le)
    with 2(2) False show ?thesis by auto
  qed
qed simp

section \<open>The counters seen\<close>

definition seen_at :: "(device_id, u64 fset) fmap \<Rightarrow> device_id \<Rightarrow> u64 fset" where
  "seen_at m d = (case fmlookup m d of None \<Rightarrow> {||} | Some s \<Rightarrow> s)"

lemma seen_at_see_key:
  "ctr |\<in>| seen_at (see_key k m) d \<longleftrightarrow> ctr |\<in>| seen_at m d \<or> k = op_key d ctr"
proof (cases "parse_op_key k")
  case None
  then have "k \<noteq> op_key d ctr" by auto
  with None show ?thesis by (simp add: see_key_def)
next
  case (Some a)
  then obtain d' c' where "k = op_key d' c'" by (cases a) (auto simp: parse_op_key_Some)
  then show ?thesis by (auto simp: see_key_def seen_at_def split: option.splits)
qed

lemma seen_at_fold:
  "ctr |\<in>| seen_at (fold see_key ks m) d \<longleftrightarrow> ctr |\<in>| seen_at m d \<or> op_key d ctr \<in> set ks"
  by (induction ks arbitrary: m) (auto simp: seen_at_see_key)

definition seen_map :: "core \<Rightarrow> (device_id, u64 fset) fmap" where
  "seen_map c = fold see_key (scan_prefix_keys (stores c) CF_OPLOG OP_PREFIX) fmempty"

lemma seen_map_held: "ctr |\<in>| seen_at (seen_map c) d \<longleftrightarrow> held c (OpId d ctr)"
proof -
  have "op_key d ctr \<in> set (scan_prefix_keys (stores c) CF_OPLOG OP_PREFIX) \<longleftrightarrow> held c (OpId d ctr)"
    by (auto simp: scan_prefix_keys_eq held_def image_iff Bex_def in_kv_scan)
  then show ?thesis by (simp add: seen_map_def seen_at_fold) (simp add: seen_at_def)
qed

definition mark :: "core \<Rightarrow> device_id \<Rightarrow> u64" where
  "mark c d = contiguous 0 (fs_elems (seen_at (seen_map c) d))"

lemma collect_map_lookup:
  "fmlookup (collect_map xs) k = map_of (rev xs) k"
proof -
  have "fmlookup (fold (\<lambda>(k, v) m. fmupd k v m) xs m) k = (case map_of (rev xs) k of None \<Rightarrow> fmlookup m k | Some v \<Rightarrow> Some v)" for m
    by (induction xs arbitrary: m) (auto simp: map_add_def split: option.split)
  then show ?thesis by (simp add: collect_map_def split: option.split)
qed

lemma collect_map_distinct: "distinct (map fst xs) \<Longrightarrow> fmlookup (collect_map xs) k = map_of xs k"
  using map_of_inject_set [of "rev xs" xs] by (simp add: collect_map_lookup rev_map [symmetric])

lemma collect_map_in: "fmlookup (collect_map xs) k = Some v \<Longrightarrow> (k, v) \<in> set xs"
  unfolding collect_map_lookup by (drule map_of_SomeD) simp

lemma summary_entries: "cs_entries (clock_summary c) = map (\<lambda>(d, s). (d, contiguous 0 (fs_elems s))) (fm_entries (seen_map c))"
  by (simp add: clock_summary_def seen_map_def Let_def comp_def case_prod_unfold)

lemma summary_above:
  "cs_above (clock_summary c) =
     filter (\<lambda>(_, ex). ex \<noteq> [])
       (map (\<lambda>(d, s). (d, extras_above (contiguous 0 (fs_elems s)) (fs_elems s))) (fm_entries (seen_map c)))"
  by (simp add: clock_summary_def seen_map_def Let_def comp_def case_prod_unfold filter_map)

lemma watermark_summary: "watermark_of (summary_watermarks (clock_summary c)) d = mark c d"
proof -
  have "map_of (map (\<lambda>(d, s). (d, contiguous 0 (fs_elems s))) (fm_entries (seen_map c))) d =
      map_option (\<lambda>s. contiguous 0 (fs_elems s)) (fmlookup (seen_map c) d)"
    by (simp add: map_of_map)
  moreover have "fs_elems {||} = ([] :: u64 list)" by (simp add: fs_elems_def sorted_list_of_fset.rep_eq)
  ultimately show ?thesis
    unfolding watermark_of_def summary_watermarks_def summary_entries
    by (subst collect_map_distinct)
      (auto simp: comp_def case_prod_unfold mark_def seen_at_def split: option.split)
qed

lemma map_of_filter_map:
  "distinct (map fst es) \<Longrightarrow>
     map_of (map (\<lambda>(d, x). (d, f x)) (filter (\<lambda>(_, x). x \<noteq> []) (map (\<lambda>(d, s). (d, g s)) es))) d =
       (case map_of es d of None \<Rightarrow> None | Some s \<Rightarrow> if g s = [] then None else Some (f (g s)))"
proof (induction es)
  case (Cons e es)
  obtain k s where e: "e = (k, s)" by (cases e)
  have "map_of es k = None" using Cons.prems e by (auto simp: map_of_eq_None_iff)
  with Cons e show ?case by auto
qed simp

lemma extra_summary:
  "extra_held (summary_extras (clock_summary c)) d ctr \<longleftrightarrow>
     ctr \<in> set (extras_above (mark c d) (fs_elems (seen_at (seen_map c) d)))"
proof -
  have dist: "distinct (map fst (map (\<lambda>(d, cs). (d, fset_of_list cs)) (cs_above (clock_summary c))))"
    unfolding summary_above by (simp add: comp_def case_prod_unfold filter_map distinct_map_filter)
  have e: "extras_above (contiguous 0 (fs_elems {||})) (fs_elems {||}) = []"
    by (simp add: extras_above_def fs_elems_def sorted_list_of_fset.rep_eq)
  show ?thesis
    unfolding extra_held_def summary_extras_def collect_map_distinct [OF dist]
    unfolding summary_above mark_def seen_at_def
    by (subst map_of_filter_map) (auto simp: fset_of_list_elem e split: option.splits)
qed

section \<open>What a summary promises\<close>

lemma held_0: "fs_elems (seen_at (seen_map c) d) = 0 # cs \<Longrightarrow> held c (OpId d 0)"
  using set_fs_elems [of "seen_at (seen_map c) d"] seen_map_held [of 0 c d] by (metis list.set_intros(1))

lemma seen_sorted: "sorted_wrt (<) (fs_elems (seen_at (seen_map c) d))"
  by (simp add: sorted_distinct_strict)

lemma in_seen: "ctr \<in> set (fs_elems (seen_at (seen_map c) d)) \<longleftrightarrow> held c (OpId d ctr)"
  by (simp add: seen_map_held)

lemma seen_no_zero:
  "\<not> held c (OpId d 0) \<Longrightarrow> sorted_wrt (<) (0 # fs_elems (seen_at (seen_map c) d))"
  using seen_sorted [of c d] in_seen [of 0 c d] word_gt_0 by auto

lemma mark_zero: "held c (OpId d 0) \<Longrightarrow> mark c d = 0"
proof -
  assume h: "held c (OpId d 0)"
  let ?l = "fs_elems (seen_at (seen_map c) d)"
  have "0 \<in> set ?l" using h by (simp only: in_seen)
  then obtain x xs where l: "?l = x # xs" by (cases ?l) auto
  have "x \<le> 0" using seen_sorted [of c d] \<open>0 \<in> set ?l\<close> by (auto simp: l)
  then show ?thesis by (simp add: mark_def l)
qed

lemma mark_held: "0 < ctr \<Longrightarrow> ctr \<le> mark c d \<Longrightarrow> held c (OpId d ctr)"
  using mark_zero [of c d] contiguous_in [OF seen_no_zero] in_seen
  by (cases "held c (OpId d 0)") (auto simp: mark_def)

lemma mark_gap: "\<not> held c (OpId d 0) \<Longrightarrow> \<not> held c (OpId d (mark c d + 1))"
  using contiguous_gap [OF seen_no_zero] in_seen by (metis mark_def)

lemma extras_held: "ctr \<in> set (extras_above w (fs_elems (seen_at (seen_map c) d))) \<Longrightarrow> held c (OpId d ctr)"
  unfolding extras_above_def by (drule in_set_takeD) (simp add: in_seen [symmetric])

lemma claims_summary_held: "claims (clock_summary c) (OpId d ctr) \<Longrightarrow> 0 < ctr \<Longrightarrow> held c (OpId d ctr)"
  using mark_held extras_held by (auto simp: claims_def watermark_summary extra_summary)

text \<open>
  A summary is sound and its watermark is contiguous: what it claims is held, every
  counter from one up to the watermark is held, and the counter after the watermark is not
  (for a device none of whose operations carries the counter zero, which \<open>next_op_counter\<close> never issues).
\<close>

theorem clock_summary_sound:
  "(0 < ctr \<and> claims (clock_summary c) (OpId d ctr) \<longrightarrow> held c (OpId d ctr)) \<and>
   (\<not> held c (OpId d 0) \<longrightarrow>
      \<not> held c (OpId d (watermark_of (summary_watermarks (clock_summary c)) d + 1)))"
  using claims_summary_held mark_gap by (auto simp: watermark_summary)

theorem clock_summary_sound_witness:
  "\<not> held (append_op sample (sample_op (OpId 1 1) (Mkdir 1 ''d'' 0)) sample_core)
     (OpId 1 (watermark_of (summary_watermarks (clock_summary
        (append_op sample (sample_op (OpId 1 1) (Mkdir 1 ''d'' 0)) sample_core))) 1 + 1))"
proof -
  let ?c = "append_op sample (sample_op (OpId 1 1) (Mkdir 1 ''d'' 0)) sample_core"
  have "\<not> held ?c (OpId 1 0)" by (simp add: sample_op_def) (simp add: held_def)
  then show ?thesis using clock_summary_sound [of 1 ?c 1] by blast
qed

text \<open>Holding an operation with counter zero pins the watermark of its device at zero.\<close>

lemma counter_zero_pins_watermark:
  "held c (OpId d 0) \<Longrightarrow> watermark_of (summary_watermarks (clock_summary c)) d = 0"
  by (simp add: watermark_summary mark_zero)

section \<open>Which operations are sent\<close>

lemma missing_loop_eq:
  assumes "\<forall>(k, v) \<in> set rows. \<exists>op. dec_op P v = Some op \<and> k = op_key (opid_device (op_id op)) (opid_counter (op_id op))"
  shows "missing_loop P (summary_watermarks r) (summary_extras r) limit rows out =
    Inr (out @ (let ms = filter (\<lambda>op. \<not> claims r (op_id op)) (map (\<lambda>(_, v). the (dec_op P v)) rows)
                in take (max (limit - length out) 1) ms))"
  using assms
proof (induction rows arbitrary: out)
  case (Cons row rows)
  obtain k v where row: "row = (k, v)" by (cases row)
  then obtain op where op: "dec_op P v = Some op" "k = op_key (opid_device (op_id op)) (opid_counter (op_id op))"
    using Cons.prems by auto
  let ?ms = "filter (\<lambda>op. \<not> claims r (op_id op)) (map (\<lambda>(_, v). the (dec_op P v)) rows)"
  have IH: "missing_loop P (summary_watermarks r) (summary_extras r) limit rows out =
      Inr (out @ take (max (limit - length out) 1) ?ms)" for out
    using Cons by (simp add: Let_def)
  show ?case
  proof (cases "claims r (op_id op)")
    case True
    then show ?thesis using op IH by (auto simp: row claims_def Let_def)
  next
    case False
    have m: "max (limit - length out) 1 = Suc (limit - Suc (length out))" if "\<not> Suc (length out) \<ge> limit"
      using that by simp
    have m': "max (limit - Suc (length out)) 1 = limit - Suc (length out)" if "\<not> Suc (length out) \<ge> limit"
      using that by simp
    show ?thesis
    proof (cases "Suc (length out) \<ge> limit")
      case True
      then have "max (limit - length out) 1 = Suc 0" by simp
      with True False op show ?thesis
        by (simp add: row claims_def Let_def decode_op_def)
    next
      case lt: False
      then show ?thesis using False op IH [of "out @ [op]"] m [OF lt] m' [OF lt]
        by (simp add: row claims_def Let_def decode_op_def)
    qed
  qed
qed (simp add: Let_def)

lemma ops_missing_eq:
  assumes "oplog_ok P c"
  shows "ops_missing_for P c r limit =
    Inr (take (max limit 1) (filter (\<lambda>op. \<not> claims r (op_id op)) (log_ops P c)))"
proof -
  have "\<forall>(k, v) \<in> set (kv_scan c CF_OPLOG OP_PREFIX).
      \<exists>op. dec_op P v = Some op \<and> k = op_key (opid_device (op_id op)) (opid_counter (op_id op))"
    using oplog_row [OF assms] by blast
  from missing_loop_eq [OF this, of r limit "[]"] show ?thesis
    by (simp add: ops_missing_for_def log_ops_def Let_def)
qed

text \<open>
  \<open>ops_missing_for\<close> returns, in oplog order, the first \<open>limit\<close> operations (one when the limit is zero)
  that the remote summary does not claim.
\<close>

theorem ops_missing_for_exact:
  assumes "oplog_ok P c"
  shows "ops_missing_for P c r limit =
    Inr (take (max limit 1) (filter (\<lambda>op. \<not> claims r (op_id op)) (log_ops P c)))"
  using assms by (rule ops_missing_eq)

theorem ops_missing_for_exact_witness:
  "\<exists>ops. ops_missing_for sample (append_op sample (sample_op (OpId 1 1) (Mkdir 1 ''d'' 0)) sample_core) empty_summary 0
     = Inr ops \<and> length ops \<le> 1"
  using ops_missing_for_exact [OF oplog_ok_append [OF sample_ok(1) oplog_ok_sample],
      of "sample_op (OpId 1 1) (Mkdir 1 ''d'' 0)" empty_summary 0]
  by auto

text \<open>
  Nothing is lost between two replicas: an operation held here that the other side does
  not hold is among what \<open>ops_missing_for\<close> computes from the other side's summary, with the
  whole log as limit.
\<close>

theorem missing_for_summary_complete:
  assumes "oplog_ok P a" and "held a i" and "\<not> held b i" and "opid_counter i \<noteq> 0"
    and "length (log_ops P a) \<le> limit"
  shows "\<exists>ops. ops_missing_for P a (clock_summary b) limit = Inr ops \<and> i \<in> op_id ` set ops"
proof -
  let ?ops = "filter (\<lambda>op. \<not> claims (clock_summary b) (op_id op)) (log_ops P a)"
  have "length ?ops \<le> max limit 1" using assms(5) length_filter_le [of "\<lambda>op. \<not> claims (clock_summary b) (op_id op)" "log_ops P a"] by linarith
  then have "ops_missing_for P a (clock_summary b) limit = Inr ?ops"
    by (simp add: ops_missing_eq [OF assms(1)])
  moreover have "\<not> claims (clock_summary b) i"
    using claims_summary_held [of b "opid_device i" "opid_counter i"] assms(3,4) word_gt_0 by auto
  moreover obtain op where "op \<in> set (log_ops P a)" "i = op_id op"
    using log_ops_held [OF assms(1)] assms(2) by auto
  ultimately show ?thesis by auto
qed

theorem missing_for_summary_complete_witness:
  "\<exists>ops. ops_missing_for sample (append_op sample (sample_op (OpId 1 1) (Mkdir 1 ''d'' 0)) sample_core)
       (clock_summary sample_core)
       (length (log_ops sample (append_op sample (sample_op (OpId 1 1) (Mkdir 1 ''d'' 0)) sample_core)))
     = Inr ops \<and> OpId 1 1 \<in> op_id ` set ops"
  by (rule missing_for_summary_complete [OF oplog_ok_append [OF sample_ok(1) oplog_ok_sample]])
    (simp_all add: sample_op_def held_def [of sample_core])

text \<open>
  A notification that is ignored loses nothing: when \<open>is_behind\<close> answers no, every
  operation the remote summary claims is held here.
\<close>

theorem not_behind_holds_all:
  assumes "\<not> is_behind c remote" and "claims remote i" and "opid_counter i \<noteq> 0"
  shows "held c i"
proof -
  obtain d ctr where i: "i = OpId d ctr" by (cases i)
  let ?mine = "clock_summary c"
  have "claims ?mine i"
  proof (cases "ctr \<le> watermark_of (summary_watermarks remote) d")
    case True
    then have "0 < watermark_of (summary_watermarks remote) d"
      using assms(3) i by (metis op_id.sel(2) word_gt_0 word_le_0_iff)
    then obtain w where w: "fmlookup (summary_watermarks remote) d = Some w" "ctr \<le> w"
      using True by (auto simp: watermark_of_def split: option.splits)
    then have "(d, w) \<in> set (cs_entries remote)" by (auto simp: summary_watermarks_def dest: collect_map_in)
    then have "\<not> watermark_of (summary_watermarks ?mine) d < w"
      using assms(1) by (auto simp: is_behind_def Let_def list_ex_iff)
    with w show ?thesis by (auto simp: claims_def i)
  next
    case False
    then obtain s where s: "fmlookup (summary_extras remote) d = Some s" "ctr |\<in>| s"
      using assms(2) by (auto simp: claims_def i extra_held_def split: option.splits)
    then obtain cs where "(d, cs) \<in> set (cs_above remote)" "ctr \<in> set cs"
      by (auto simp: summary_extras_def fset_of_list_elem dest!: collect_map_in)
    then show ?thesis using assms(1) by (fastforce simp: is_behind_def Let_def list_ex_iff claims_def i)
  qed
  then show ?thesis using claims_summary_held [of c d ctr] assms(3) i word_gt_0 by auto
qed

theorem not_behind_holds_all_witness:
  "held (append_op sample (sample_op (OpId 1 1) (Mkdir 1 ''d'' 0)) sample_core) (OpId 1 1)"
proof (rule not_behind_holds_all)
  let ?c = "append_op sample (sample_op (OpId 1 1) (Mkdir 1 ''d'' 0)) sample_core"
  let ?r = "\<lparr>cs_entries = [], cs_above = [(1, [1])]\<rparr>"
  have h: "held ?c (OpId 1 ctr) \<longleftrightarrow> ctr = 1" for ctr
    by (simp add: sample_op_def) (simp add: held_def)
  have "\<not> held ?c (OpId 1 (mark ?c 1 + 1))" by (rule mark_gap) (simp only: h, simp)
  then have "mark ?c 1 + 1 \<noteq> 1" unfolding h .
  then have "mark ?c 1 \<noteq> 0" by auto
  then have "\<not> mark ?c 1 < 1" by (simp add: word_less_1)
  then show "\<not> is_behind ?c ?r" by (simp add: is_behind_def Let_def watermark_summary)
  show "claims ?r (OpId 1 1)"
    by (simp add: claims_def extra_held_def summary_extras_def collect_map_def)
qed simp

end
