(* ===== verification/Peers.thy ===== *)
theory Peers
  imports Sample
begin

text \<open>
  The pinned peer keys of \<open>src/crates/core/src/peers.rs\<close> and the trust decision of
  \<open>src/crates/net/src/trust.rs\<close>.
\<close>

section \<open>Pinned keys\<close>

record enrolled_peer =
  ep_device_id :: device_id
  ep_pubkey :: key32
  ep_seal_key :: "key32 option"

datatype enrolment = Added | Unchanged | Rotated

definition peer_key :: "core \<Rightarrow> device_id \<Rightarrow> key32 option result" where
  "peer_key c device =
     (case kv_get c CF_META (peer_key_for device) of
        None \<Rightarrow> Inr None
      | Some raw \<Rightarrow>
          if length raw \<noteq> 32 then Inl (Bail ''pinned key is not 32 bytes'')
          else Inr (Some (from_be_bytes raw)))"

definition peer_seal_key :: "core \<Rightarrow> device_id \<Rightarrow> key32 option result" where
  "peer_seal_key c device =
     (case kv_get c CF_META (seal_key_for device) of
        None \<Rightarrow> Inr None
      | Some raw \<Rightarrow>
          if length raw = 32 then Inr (Some (from_be_bytes raw))
          else Inl (Bail ''sealing key is not 32 bytes''))"

fun enrolled_loop :: "core \<Rightarrow> (bytes \<times> bytes) list \<Rightarrow> enrolled_peer list result" where
  "enrolled_loop c [] = Inr []"
| "enrolled_loop c ((k, v) # rows) =
     (if length k \<noteq> length PEER_PREFIX + 16 \<or> length v \<noteq> 32 then enrolled_loop c rows
      else
        let device_id = from_be_bytes (drop (length PEER_PREFIX) k) in
        rbind (peer_seal_key c device_id) (\<lambda>seal_key.
        rbind (enrolled_loop c rows) (\<lambda>out.
        Inr (\<lparr>ep_device_id = device_id, ep_pubkey = from_be_bytes v, ep_seal_key = seal_key\<rparr> # out))))"

definition enrolled_peers :: "core \<Rightarrow> enrolled_peer list result" where
  "enrolled_peers c =
     rbind (enrolled_loop c (kv_scan c CF_META PEER_PREFIX)) (\<lambda>out. Inr (sort_key ep_device_id out))"

definition enrol_seal :: "device_id \<Rightarrow> key32 option \<Rightarrow> bool \<Rightarrow> (core, unit) comp" where
  "enrol_seal device seal_key allow_rotation =
     (case seal_key of
        None \<Rightarrow> ret ()
      | Some seal \<Rightarrow>
          bindE (reads (\<lambda>c. peer_seal_key c device)) (\<lambda>existing.
          if existing \<noteq> Some seal
          then if existing \<noteq> None \<and> \<not> allow_rotation
               then raise (Bail ''already enrolled with a different sealing key'')
               else upd (kv_put CF_META (seal_key_for device) (to_be_bytes 32 seal))
          else ret ()))"

definition enrol_peer :: "device_id \<Rightarrow> key32 \<Rightarrow> key32 option \<Rightarrow> bool \<Rightarrow> (core, enrolment) comp" where
  "enrol_peer device pubkey seal_key allow_rotation =
     bindE (enrol_seal device seal_key allow_rotation) (\<lambda>_.
     bindE (reads (\<lambda>c. peer_key c device)) (\<lambda>known.
     case known of
       Some existing \<Rightarrow>
         if existing = pubkey then ret Unchanged
         else if \<not> allow_rotation then raise (Bail ''already enrolled with a different key'')
         else bindE (upd (kv_put CF_META (peer_key_for device) (to_be_bytes 32 pubkey))) (\<lambda>_. ret Rotated)
     | None \<Rightarrow>
         bindE (upd (kv_put CF_META (peer_key_for device) (to_be_bytes 32 pubkey))) (\<lambda>_. ret Added)))"

definition revoke_peer :: "device_id \<Rightarrow> (core, bool) comp" where
  "revoke_peer device =
     bindE (reads (\<lambda>c. peer_key c device)) (\<lambda>key.
     if key = None
     then bindE (reads (\<lambda>c. peer_seal_key c device)) (\<lambda>seal.
          if seal = None then ret False
          else bindE (upd (kv_del CF_META (peer_key_for device))) (\<lambda>_.
               bindE (upd (kv_del CF_META (seal_key_for device))) (\<lambda>_. ret True)))
     else bindE (upd (kv_del CF_META (peer_key_for device))) (\<lambda>_.
          bindE (upd (kv_del CF_META (seal_key_for device))) (\<lambda>_. ret True)))"

definition sealing_recipients :: "core \<Rightarrow> (device_id \<times> key32) list result" where
  "sealing_recipients c =
     rbind (enrolled_peers c) (\<lambda>ps.
     Inr (List.map_filter (\<lambda>p. map_option (\<lambda>k. (ep_device_id p, k)) (ep_seal_key p)) ps))"

section \<open>The trust decision\<close>

record trust_policy =
  tofu :: bool

definition authorize :: "trust_policy \<Rightarrow> device_id \<Rightarrow> key32 \<Rightarrow> (core, unit) comp" where
  "authorize policy device pubkey =
     bindE (reads (\<lambda>c. peer_key c device)) (\<lambda>known.
     case known of
       Some k \<Rightarrow> if k = pubkey then ret () else raise (Bail ''presented a different key than the one pinned'')
     | None \<Rightarrow>
         if tofu policy then bindE (enrol_peer device pubkey None False) (\<lambda>_. ret ())
         else raise (Bail ''is not enrolled and trust-on-first-use is disabled''))"

definition known_peers :: "core \<Rightarrow> (device_id \<times> key32) list result" where
  "known_peers c = rbind (enrolled_peers c) (\<lambda>ps. Inr (map (\<lambda>p. (ep_device_id p, ep_pubkey p)) ps))"

section \<open>What the operations do to the pinned keys\<close>

lemma peer_key_put [simp]:
  "peer_key (kv_put CF_META (peer_key_for d) (to_be_bytes 32 k) c) e = (if e = d then Inr (Some k) else peer_key c e)"
  "peer_key (kv_put CF_META (seal_key_for d) v c) e = peer_key c e"
  "peer_seal_key (kv_put CF_META (seal_key_for d) (to_be_bytes 32 k) c) e = (if e = d then Inr (Some k) else peer_seal_key c e)"
  "peer_seal_key (kv_put CF_META (peer_key_for d) v c) e = peer_seal_key c e"
  by (simp_all add: peer_key_def peer_seal_key_def)

lemma peer_key_del [simp]:
  "peer_key (kv_del CF_META (peer_key_for d) c) e = (if e = d then Inr None else peer_key c e)"
  "peer_key (kv_del CF_META (seal_key_for d) c) e = peer_key c e"
  "peer_seal_key (kv_del CF_META (seal_key_for d) c) e = (if e = d then Inr None else peer_seal_key c e)"
  "peer_seal_key (kv_del CF_META (peer_key_for d) c) e = peer_seal_key c e"
  by (simp_all add: peer_key_def peer_seal_key_def)

lemma enrol_seal_peer_key: "enrol_seal d s rot c = (r, c') \<Longrightarrow> peer_key c' e = peer_key c e"
  by (auto simp: enrol_seal_def bindE_def split: option.splits sum.splits if_splits)

lemma enrol_seal_pinned:
  "enrol_seal d s False c = (r, c') \<Longrightarrow> peer_seal_key c e = Inr (Some k) \<Longrightarrow> peer_seal_key c' e = Inr (Some k)"
  by (auto simp: enrol_seal_def bindE_def split: option.splits sum.splits if_splits)

lemma enrol_peer_cases:
  assumes "enrol_peer d pk seal rot c = (r, c')"
  shows "(\<exists>e. r = Inl e \<and> (\<forall>x. peer_key c' x = peer_key c x)) \<or>
    (\<exists>u. r = Inr u \<and> peer_key c' d = Inr (Some pk) \<and> (\<forall>x. x \<noteq> d \<longrightarrow> peer_key c' x = peer_key c x) \<and>
       (rot \<or> peer_key c d = Inr None \<or> peer_key c d = Inr (Some pk)))"
proof -
  obtain r1 c1 where s: "enrol_seal d seal rot c = (r1, c1)" by (cases "enrol_seal d seal rot c")
  have k: "\<forall>x. peer_key c1 x = peer_key c x" using enrol_seal_peer_key [OF s] by blast
  show ?thesis
  proof (cases r1)
    case (Inl e)
    then have "r = Inl e" "c' = c1" using assms s by (auto simp: enrol_peer_def bindE_def)
    then show ?thesis using k by auto
  next
    case (Inr u)
    then show ?thesis
      using assms s k
      by (auto simp: enrol_peer_def bindE_def split: option.splits sum.splits if_splits)
  qed
qed

text \<open>
  Enrolment without rotation never replaces a pinned key: a device that has a signing key keeps it,
  a device that has a sealing key keeps it, and success means the device is pinned to the key that was presented.
\<close>

theorem enrol_never_replaces:
  assumes "enrol_peer d pk seal False c = (r, c')"
  shows "(\<forall>e k. peer_key c e = Inr (Some k) \<longrightarrow> peer_key c' e = Inr (Some k)) \<and>
         (\<forall>e k. peer_seal_key c e = Inr (Some k) \<longrightarrow> peer_seal_key c' e = Inr (Some k)) \<and>
         ((\<exists>u. r = Inr u) \<longrightarrow> peer_key c' d = Inr (Some pk))"
proof -
  obtain r1 c1 where s: "enrol_seal d seal False c = (r1, c1)" by (cases "enrol_seal d seal False c")
  have "peer_seal_key c' e = peer_seal_key c1 e" for e
    using assms s by (auto simp: enrol_peer_def bindE_def split: option.splits sum.splits if_splits)
  then have "\<forall>e k. peer_seal_key c e = Inr (Some k) \<longrightarrow> peer_seal_key c' e = Inr (Some k)"
    using enrol_seal_pinned [OF s] by simp
  moreover have "\<forall>e k. peer_key c e = Inr (Some k) \<longrightarrow> peer_key c' e = Inr (Some k)"
    using enrol_peer_cases [OF assms] by (metis option.inject option.distinct(1) sum.inject(2))
  ultimately show ?thesis using enrol_peer_cases [OF assms] by auto
qed

theorem enrol_never_replaces_witness:
  "peer_key (snd (enrol_peer 3 8 None False (kv_put CF_META (peer_key_for 3) (to_be_bytes 32 (9::key32)) (core_new mem_new 1)))) 3
     = Inr (Some 9)"
proof -
  let ?c = "kv_put CF_META (peer_key_for 3) (to_be_bytes 32 (9::key32)) (core_new mem_new 1)"
  obtain r c' where e: "enrol_peer 3 8 None False ?c = (r, c')" by (cases "enrol_peer 3 8 None False ?c")
  show ?thesis using enrol_never_replaces [OF e] by (simp add: e)
qed

text \<open>
  Authorization accepts a peer only under the key pinned for it afterwards, pins at most the
  presented key of a device not seen before and only under trust on first use, and changes nothing when it refuses.
\<close>

theorem authorize_pins:
  assumes "authorize pol d pk c = (r, c')"
  shows "(r = Inr () \<longrightarrow> peer_key c' d = Inr (Some pk) \<and>
            (peer_key c d = Inr (Some pk) \<or> peer_key c d = Inr None \<and> tofu pol)) \<and>
         (\<forall>e k. peer_key c e = Inr (Some k) \<longrightarrow> peer_key c' e = Inr (Some k)) \<and>
         (\<forall>e. e \<noteq> d \<longrightarrow> peer_key c' e = peer_key c e) \<and>
         (r \<noteq> Inr () \<longrightarrow> c' = c)"
  using assms
  by (auto simp: authorize_def enrol_peer_def enrol_seal_def bindE_def
      split: option.splits sum.splits if_splits)

theorem authorize_pins_witness:
  "peer_key (snd (authorize \<lparr>tofu = True\<rparr> 3 8 (core_new mem_new 1))) 3 = Inr (Some 8)"
proof -
  have "authorize \<lparr>tofu = True\<rparr> 3 8 (core_new mem_new 1) =
      (Inr (), kv_put CF_META (peer_key_for 3) (to_be_bytes 32 (8::key32)) (core_new mem_new 1))"
    by (simp add: authorize_def enrol_peer_def enrol_seal_def bindE_def peer_key_def core_new_def mem_new_def get_kv_def)
  from authorize_pins [OF this] this show ?thesis by simp
qed

section \<open>The recipients\<close>

text \<open>Under a store whose key records have the right sizes the listing is the pinned devices by id.\<close>

definition peers_ok :: "core \<Rightarrow> bool" where
  "peers_ok c \<longleftrightarrow>
     (\<forall>k v. kv_get c CF_META k = Some v \<and> starts_with k PEER_PREFIX \<longrightarrow>
        length v = 32 \<and> (\<exists>d. k = peer_key_for d)) \<and>
     (\<forall>d v. kv_get c CF_META (seal_key_for d) = Some v \<longrightarrow> length v = 32)"

lemma peers_ok_seal: "peers_ok c \<Longrightarrow> \<exists>s. peer_seal_key c d = Inr s"
  by (auto simp: peers_ok_def peer_seal_key_def split: option.split)

definition seal_of :: "core \<Rightarrow> device_id \<Rightarrow> key32 option" where
  "seal_of c d = (case peer_seal_key c d of Inr s \<Rightarrow> s | Inl _ \<Rightarrow> None)"

lemma enrolled_loop_eq:
  assumes "peers_ok c" "\<forall>(k, v) \<in> set rows. length v = 32 \<and> (\<exists>d. k = peer_key_for d)"
  shows "enrolled_loop c rows = Inr (map (\<lambda>(k, v).
    let d = from_be_bytes (drop (length PEER_PREFIX) k)
    in \<lparr>ep_device_id = d, ep_pubkey = from_be_bytes v, ep_seal_key = seal_of c d\<rparr>) rows)"
  using assms(2)
proof (induction rows)
  case (Cons row rows)
  obtain k v where row: "row = (k, v)" by (cases row)
  obtain d where "k = peer_key_for d" "length v = 32" using Cons.prems row by auto
  moreover obtain s where "peer_seal_key c d = Inr s" using peers_ok_seal [OF assms(1)] by blast
  ultimately show ?case
    using Cons by (simp add: row peer_key_for_def prefixed_def Let_def seal_of_def)
qed simp

lemma enrolled_peers_set:
  assumes "peers_ok c"
  shows "\<exists>ps. enrolled_peers c = Inr ps \<and> sorted (map ep_device_id ps) \<and>
    set ps = {\<lparr>ep_device_id = d, ep_pubkey = k, ep_seal_key = seal_of c d\<rparr> | d k. peer_key c d = Inr (Some k)}"
proof -
  let ?f = "\<lambda>(k, v). let d = from_be_bytes (drop (length PEER_PREFIX) k)
      in \<lparr>ep_device_id = d, ep_pubkey = from_be_bytes v, ep_seal_key = seal_of c d\<rparr>"
  let ?rows = "kv_scan c CF_META PEER_PREFIX"
  have rows: "\<forall>(k, v) \<in> set ?rows. length v = 32 \<and> (\<exists>d. k = peer_key_for d)"
    using assms by (auto simp: in_kv_scan peers_ok_def)
  have "set (map ?f ?rows) = {\<lparr>ep_device_id = d, ep_pubkey = k, ep_seal_key = seal_of c d\<rparr> | d k. peer_key c d = Inr (Some k)}"
    (is "_ = ?R")
  proof
    show "set (map ?f ?rows) \<subseteq> ?R"
    proof
      fix p
      assume "p \<in> set (map ?f ?rows)"
      then obtain k v where kv: "(k, v) \<in> set ?rows" and p: "p = ?f (k, v)" by auto
      obtain d where d: "k = peer_key_for d" "length v = 32" using rows kv by auto
      then have "peer_key c d = Inr (Some (from_be_bytes v))"
        using kv by (simp add: in_kv_scan peer_key_def)
      then show "p \<in> ?R" using d p by (auto simp: peer_key_for_def prefixed_def Let_def)
    qed
    show "?R \<subseteq> set (map ?f ?rows)"
    proof
      fix p
      assume "p \<in> ?R"
      then obtain d k where p: "p = \<lparr>ep_device_id = d, ep_pubkey = k, ep_seal_key = seal_of c d\<rparr>"
        and k: "peer_key c d = Inr (Some k)" by auto
      then obtain v where "kv_get c CF_META (peer_key_for d) = Some v" "k = from_be_bytes v"
        by (auto simp: peer_key_def split: option.splits if_splits)
      then have "(peer_key_for d, v) \<in> set ?rows" "?f (peer_key_for d, v) = p"
        by (simp_all add: in_kv_scan p peer_key_for_def prefixed_def Let_def)
      then show "p \<in> set (map ?f ?rows)" by force
    qed
  qed
  then show ?thesis
    using enrolled_loop_eq [OF assms rows] by (simp add: enrolled_peers_def)
qed

text \<open>
  The recipients of new content are exactly the pinned devices that have a sealing key, and a
  revoked device is not among them any more.
\<close>

theorem sealing_recipients_exact:
  assumes "peers_ok c"
  shows "(\<exists>rs. sealing_recipients c = Inr rs \<and>
            set rs = {(d, k) | d k. (\<exists>pk. peer_key c d = Inr (Some pk)) \<and> peer_seal_key c d = Inr (Some k)}) \<and>
         (\<forall>d b c'. revoke_peer d c = (Inr b, c') \<longrightarrow>
            peer_key c' d = Inr None \<and> peer_seal_key c' d = Inr None)"
proof -
  have s: "seal_of c d = Some k \<longleftrightarrow> peer_seal_key c d = Inr (Some k)" for d k
    by (auto simp: seal_of_def split: sum.splits)
  obtain ps where ps: "enrolled_peers c = Inr ps"
    "set ps = {\<lparr>ep_device_id = d, ep_pubkey = k, ep_seal_key = seal_of c d\<rparr> | d k. peer_key c d = Inr (Some k)}"
    using enrolled_peers_set [OF assms] by blast
  have "set (List.map_filter (\<lambda>p. map_option (\<lambda>k. (ep_device_id p, k)) (ep_seal_key p)) ps) =
      {(d, k) | d k. (\<exists>pk. peer_key c d = Inr (Some pk)) \<and> seal_of c d = Some k}"
    by (auto simp: List.map_filter_def ps(2) image_iff) (force simp: image_iff)+
  then have "\<exists>rs. sealing_recipients c = Inr rs \<and>
      set rs = {(d, k) | d k. (\<exists>pk. peer_key c d = Inr (Some pk)) \<and> peer_seal_key c d = Inr (Some k)}"
    by (simp add: sealing_recipients_def ps(1) s)
  moreover have "revoke_peer d c = (Inr b, c') \<Longrightarrow> peer_key c' d = Inr None \<and> peer_seal_key c' d = Inr None" for d b c'
    by (auto simp: revoke_peer_def bindE_def split: sum.splits if_splits)
  ultimately show ?thesis by blast
qed

theorem sealing_recipients_exact_witness:
  "\<exists>rs. sealing_recipients (core_new mem_new 1) = Inr rs \<and> set rs = {}"
proof -
  have "peers_ok (core_new mem_new 1)"
    by (simp add: peers_ok_def core_new_def mem_new_def get_kv_def)
  from sealing_recipients_exact [OF this] show ?thesis
    by (simp add: peer_key_def core_new_def mem_new_def get_kv_def)
qed

end
