(* ===== verification/Content.thy ===== *)
theory Content
  imports Peers
begin

text \<open>
  How file content reaches the store and comes back: the content half of \<open>src/crates/core/src/state.rs\<close>
  (\<open>store_content\<close>, \<open>protect_file_key\<close>, the file and directory object builders) and the read side of
  \<open>namespace.rs\<close> (\<open>recover_file_key\<close>, \<open>materialize_file\<close>). Modes are written in hexadecimal: \<open>0x81A4\<close> is \<open>0o100644\<close>
  and \<open>0x41ED\<close> is \<open>0o40755\<close>.
\<close>

section \<open>Writing content\<close>

definition push_key :: "device_id \<times> key32 \<Rightarrow> key32 list \<Rightarrow> key32 list" where
  "push_key r keys = (if snd r \<notin> set keys then keys @ [snd r] else keys)"

definition sealing_recipient_keys :: "prims \<Rightarrow> core \<Rightarrow> key32 list result" where
  "sealing_recipient_keys P c =
     (case sealing_pubkey P c of
        None \<Rightarrow> Inr []
      | Some own \<Rightarrow>
          rbind (sealing_recipients c) (\<lambda>rs.
          Inr (fold push_key rs [own])))"

definition draw32 :: "prims \<Rightarrow> (core, key32) comp" where
  "draw32 P c = (Inr (rng32 P (draws c)), c\<lparr>draws := draws c + 1\<rparr>)"

definition draw24 :: "prims \<Rightarrow> (core, nonce24) comp" where
  "draw24 P c = (Inr (rng24 P (draws c)), c\<lparr>draws := draws c + 1\<rparr>)"

definition new_file_key :: "prims \<Rightarrow> (core, key32) comp" where
  "new_file_key P = draw32 P"

definition lift_result :: "'a result \<Rightarrow> ('s, 'a) comp" where
  "lift_result r = (\<lambda>s. (r, s))"

definition seal_one :: "prims \<Rightarrow> key32 \<Rightarrow> key32 \<Rightarrow> (core, sealed_file_key) comp" where
  "seal_one P file_key key =
     bindE (draw32 P) (\<lambda>eph. bindE (draw24 P) (\<lambda>nonce.
     lift_result (envelope_seal P eph nonce key (to_be_bytes 32 file_key))))"

fun seal_all :: "prims \<Rightarrow> key32 \<Rightarrow> key32 list \<Rightarrow> (core, sealed_file_key list) comp" where
  "seal_all P file_key [] = ret []"
| "seal_all P file_key (key # keys) =
     bindE (seal_one P file_key key) (\<lambda>e. bindE (seal_all P file_key keys) (\<lambda>es. ret (e # es)))"

definition protect_file_key :: "prims \<Rightarrow> key32 \<Rightarrow> key32 \<Rightarrow> (core, file_encryption) comp" where
  "protect_file_key P file_key repo_key =
     bindE (reads (sealing_recipient_keys P)) (\<lambda>recips.
     if recips = []
     then bindE (draw24 P) (\<lambda>nonce.
          bindE (lift_result (seal_file_key P nonce repo_key file_key)) (\<lambda>sealed.
          ret \<lparr>sealed_key = Some sealed, recipients = [], fe_recipients_digest = None\<rparr>))
     else bindE (seal_all P file_key recips) (\<lambda>sealed.
          ret \<lparr>sealed_key = None, recipients = sealed,
               fe_recipients_digest = Some (recipients_digest P file_key recips)\<rparr>))"

fun seal_loop :: "prims \<Rightarrow> key32 \<Rightarrow> nat \<Rightarrow> u64 \<Rightarrow> bytes list \<Rightarrow> (core, chunk_ref list) comp" where
  "seal_loop P file_key index plaintext_offset [] = ret []"
| "seal_loop P file_key index plaintext_offset (plain # rest) =
     bindE (lift_result (seal_chunk P file_key (word_of_nat index) plain)) (\<lambda>sealed.
     bindE (put_chunk (blake3 P sealed) sealed) (\<lambda>_.
     bindE (seal_loop P file_key (Suc index) (plaintext_offset + word_of_nat (length plain)) rest) (\<lambda>refs.
     ret (\<lparr>cr_hash = blake3 P sealed, cr_len = word_of_nat (length sealed),
           cr_plain_len = word_of_nat (length plain), cr_offset = plaintext_offset\<rparr> # refs))))"

definition store_content :: "prims \<Rightarrow> bytes \<Rightarrow> (core, chunk_ref list \<times> file_encryption option) comp" where
  "store_content P data c =
     (case cipher c of
        None \<Rightarrow> bindE (store_chunks P data) (\<lambda>refs. ret (refs, None)) c
      | Some repo_key \<Rightarrow>
          bindE (new_file_key P) (\<lambda>file_key.
          bindE (seal_loop P file_key 0 0 (chunk_bytes data (max (chunk_size c) 1))) (\<lambda>refs.
          bindE (protect_file_key P file_key repo_key) (\<lambda>enc.
          ret (refs, Some enc)))) c)"

definition file_node_of :: "chunk_ref list \<Rightarrow> u64 \<Rightarrow> u64 \<Rightarrow> file_encryption option \<Rightarrow> file_node" where
  "file_node_of chunks fsize now_ms encryption =
     \<lparr>fn_header = \<lparr>type_tag = 1, oh_version = 1\<rparr>, fn_size = fsize, fn_chunks = chunks,
      fn_mode = 0x81A4, fn_uid = 0, fn_gid = 0, fn_mtime = now_ms, fn_ctime = now_ms,
      fn_encryption = encryption\<rparr>"

definition make_filenode :: "prims \<Rightarrow> chunk_ref list \<Rightarrow> u64 \<Rightarrow> u64 \<Rightarrow> file_encryption option \<Rightarrow> core \<Rightarrow> hash \<times> core" where
  "make_filenode P chunks fsize now_ms encryption c =
     put_object P (FileNode (file_node_of chunks fsize now_ms encryption)) c"

definition make_filenode_with_refs :: "prims \<Rightarrow> chunk_ref list \<Rightarrow> u64 \<Rightarrow> u64 \<Rightarrow> core \<Rightarrow> hash \<times> core" where
  "make_filenode_with_refs P chunks fsize now_ms c = make_filenode P chunks fsize now_ms None c"

definition store_filenode_from_bytes :: "prims \<Rightarrow> bytes \<Rightarrow> u64 \<Rightarrow> (core, hash) comp" where
  "store_filenode_from_bytes P data now_ms =
     bindE (store_content P data) (\<lambda>(chunks, encryption) c.
       (let (h, c') = make_filenode P chunks (word_of_nat (length data)) now_ms encryption c in (Inr h, c')))"

definition make_dirnode :: "prims \<Rightarrow> dir_entry list \<Rightarrow> u64 \<Rightarrow> core \<Rightarrow> hash \<times> core" where
  "make_dirnode P entries now_ms c =
     put_object P (DirNode (dir_new_canonical entries 0x41ED 0 0 now_ms)) c"

section \<open>Reading content\<close>

fun try_envelopes :: "prims \<Rightarrow> key32 \<Rightarrow> sealed_file_key list \<Rightarrow> key32 result option" where
  "try_envelopes P secret [] = None"
| "try_envelopes P secret (env # envs) =
     (case envelope_open P secret env of
        Inr key \<Rightarrow> Some (if length key = 32 then Inr (from_be_bytes key)
                         else Inl (Bail ''unsealed file key has the wrong length''))
      | Inl _ \<Rightarrow> try_envelopes P secret envs)"

definition recover_file_key :: "prims \<Rightarrow> core \<Rightarrow> file_encryption \<Rightarrow> key32 result" where
  "recover_file_key P c info =
     (case (case sealing_secret c of None \<Rightarrow> None | Some secret \<Rightarrow> try_envelopes P secret (recipients info)) of
        Some r \<Rightarrow> r
      | None \<Rightarrow>
          (case sealed_key info of
             Some sealed \<Rightarrow>
               (case cipher c of
                  None \<Rightarrow> Inl (Bail ''sealed with a repository key and this node has none configured'')
                | Some key \<Rightarrow> open_file_key P key sealed)
           | None \<Rightarrow>
               if recipients info = [] then Inl (Bail ''carries no way to recover its key'')
               else Inl (NotARecipient (length (recipients info)))))"

fun read_chunks :: "prims \<Rightarrow> core \<Rightarrow> key32 option \<Rightarrow> nat \<Rightarrow> chunk_ref list \<Rightarrow> bytes \<Rightarrow> bytes result" where
  "read_chunks P c file_key index [] out = Inr out"
| "read_chunks P c file_key index (chunk # chunks) out =
     (case blob_get (stores c) (cr_hash chunk) of
        None \<Rightarrow> Inl (Bail ''missing chunk'')
      | Some stored \<Rightarrow>
          if length stored \<noteq> unat (cr_len chunk) then Inl (Bail ''chunk length mismatch'')
          else if unat (cr_offset chunk) \<noteq> length out then Inl (Bail ''chunk offset mismatch'')
          else
            (case file_key of
               Some key \<Rightarrow>
                 rbind (open_chunk P key (word_of_nat index) stored) (\<lambda>plain.
                 read_chunks P c file_key (Suc index) chunks (out @ plain))
             | None \<Rightarrow> read_chunks P c file_key (Suc index) chunks (out @ stored)))"

definition materialize_file :: "prims \<Rightarrow> core \<Rightarrow> file_node \<Rightarrow> bytes result" where
  "materialize_file P c file =
     rbind (case fn_encryption file of
              Some info \<Rightarrow> rbind (recover_file_key P c info) (\<lambda>k. Inr (Some k))
            | None \<Rightarrow> Inr None) (\<lambda>file_key.
     rbind (read_chunks P c file_key 0 (fn_chunks file) []) (\<lambda>out.
     if word_of_nat (length out) \<noteq> fn_size file then Inl (Bail ''file size mismatch'')
     else Inr out))"

section \<open>The layout both writers produce\<close>

fun layout :: "(bytes \<Rightarrow> hash) \<Rightarrow> u64 \<Rightarrow> (bytes \<times> bytes) list \<Rightarrow> chunk_ref list" where
  "layout H off [] = []"
| "layout H off ((stored, plain) # parts) =
     \<lparr>cr_hash = H stored, cr_len = word_of_nat (length stored),
      cr_plain_len = word_of_nat (length plain), cr_offset = off\<rparr>
       # layout H (off + word_of_nat (length plain)) parts"

fun opens :: "prims \<Rightarrow> key32 option \<Rightarrow> nat \<Rightarrow> (bytes \<times> bytes) list \<Rightarrow> bool" where
  "opens P key idx [] = True"
| "opens P key idx ((stored, plain) # parts) =
     ((case key of None \<Rightarrow> stored = plain
       | Some k \<Rightarrow> open_chunk P k (word_of_nat idx) stored = Inr plain) \<and> opens P key (Suc idx) parts)"

definition put_all :: "(bytes \<Rightarrow> hash) \<Rightarrow> bytes list \<Rightarrow> core \<Rightarrow> core" where
  "put_all H bs c = fold (\<lambda>b c. put_blob (H b) b c) bs c"

lemma put_all_fields [simp]:
  "core_device (put_all H bs c) = core_device c" "chunk_size (put_all H bs c) = chunk_size c"
  "cipher (put_all H bs c) = cipher c" "sealing_secret (put_all H bs c) = sealing_secret c"
  "kv_get (put_all H bs c) = kv_get c" "kv_scan (put_all H bs c) = kv_scan c"
  unfolding put_all_def by (induction bs arbitrary: c) (auto simp: fun_eq_iff)

lemma put_all_other: "h \<notin> H ` set bs \<Longrightarrow> blob_get (stores (put_all H bs c)) h = blob_get (stores c) h"
  unfolding put_all_def by (induction bs arbitrary: c) auto

lemma put_all_get:
  "inj_on H (set bs) \<Longrightarrow> b \<in> set bs \<Longrightarrow> blob_get (stores (put_all H bs c)) (H b) = Some b"
proof (induction bs arbitrary: c)
  case (Cons x xs)
  show ?case
  proof (cases "b \<in> set xs")
    case True
    then show ?thesis using Cons by (simp add: put_all_def)
  next
    case False
    then have "b = x" using Cons.prems by simp
    then have "H b \<notin> H ` set xs" using Cons.prems False by (auto simp: inj_on_def)
    then show ?thesis using put_all_other [of "H b" H xs "put_blob (H x) x c"] \<open>b = x\<close>
      by (simp add: put_all_def)
  qed
qed simp

lemma refs_loop_layout:
  "refs_loop H put_chunk off bs c = (Inr (layout H off (zip bs bs)), put_all H bs c)"
  by (induction bs arbitrary: off c) (simp_all add: put_chunk_def put_all_def bindE_def)

lemma store_chunks_layout:
  "store_chunks P data c =
     (let bs = chunk_bytes data (max (chunk_size c) 1)
      in (Inr (layout (blake3 P) 0 (zip bs bs)), put_all (blake3 P) bs c))"
  by (simp add: store_chunks_def store_chunks_with_refs_def refs_loop_layout Let_def)

lemma seal_loop_layout:
  assumes "seal_loop P key idx off ps c = (Inr refs, c')" and "aead_ok P"
  shows "\<exists>ss. length ss = length ps \<and> refs = layout (blake3 P) off (zip ss ps) \<and>
    c' = put_all (blake3 P) ss c \<and> opens P (Some key) idx (zip ss ps) \<and>
    (\<forall>s \<in> set ss. \<exists>i. \<exists>p \<in> set ps. seal_chunk P key i p = Inr s)"
  using assms(1)
proof (induction ps arbitrary: idx off c refs)
  case Nil
  then show ?case by (auto simp: put_all_def)
next
  case (Cons p ps)
  from Cons.prems obtain s rs where s: "seal_chunk P key (word_of_nat idx) p = Inr s"
    and rs: "seal_loop P key (Suc idx) (off + word_of_nat (length p)) ps (put_blob (blake3 P s) s c) = (Inr rs, c')"
    and refs: "refs = \<lparr>cr_hash = blake3 P s, cr_len = word_of_nat (length s),
        cr_plain_len = word_of_nat (length p), cr_offset = off\<rparr> # rs"
    by (auto simp: bindE_eq_Inr lift_result_def put_chunk_def)
  obtain ss where ss: "length ss = length ps" "rs = layout (blake3 P) (off + word_of_nat (length p)) (zip ss ps)"
    "c' = put_all (blake3 P) ss (put_blob (blake3 P s) s c)" "opens P (Some key) (Suc idx) (zip ss ps)"
    "\<forall>s \<in> set ss. \<exists>i. \<exists>p \<in> set ps. seal_chunk P key i p = Inr s"
    using Cons.IH [OF rs] by blast
  have "\<forall>t \<in> set (s # ss). \<exists>i. \<exists>q \<in> set (p # ps). seal_chunk P key i q = Inr t"
    using ss(5) s by (metis list.set_intros set_ConsD)
  then show ?case
    using ss refs open_seal_chunk [OF assms(2) s] by (intro exI [of _ "s # ss"]) (simp add: put_all_def)
qed

lemma read_layout:
  assumes "\<forall>(s, p) \<in> set parts. blob_get (stores c) (blake3 P s) = Some s \<and> length s < 2 ^ 32"
    and "opens P key idx parts" and "unat off = length out"
    and "length out + length (concat (map snd parts)) < 2 ^ 64"
  shows "read_chunks P c key idx (layout (blake3 P) off parts) out = Inr (out @ concat (map snd parts))"
  using assms
proof (induction parts arbitrary: idx off out)
  case (Cons part parts)
  obtain s p where part: "part = (s, p)" by (cases part)
  have s: "blob_get (stores c) (blake3 P s) = Some s" "unat (word_of_nat (length s) :: u32) = length s"
    using Cons.prems part by (auto simp: unat_of_nat)
  have "unat (off + word_of_nat (length p)) = length (out @ p)"
  proof -
    have "length out + length p < 2 ^ 64" using Cons.prems(4) part by simp
    then show ?thesis using Cons.prems(3) by (simp add: unat_word_ariths unat_of_nat)
  qed
  then have IH: "read_chunks P c key (Suc idx) (layout (blake3 P) (off + word_of_nat (length p)) parts) (out @ p) =
      Inr ((out @ p) @ concat (map snd parts))"
    using Cons.prems part by (intro Cons.IH) auto
  show ?case using Cons.prems(2,3) s IH by (auto simp: part split: option.splits)
qed simp

section \<open>The file key comes back\<close>

lemma fold_keys_hd:
  "\<exists>zs. fold push_key rs (x # xs) = x # zs"
proof (induction rs arbitrary: xs)
  case (Cons r rs)
  show ?case using Cons [of xs] Cons [of "xs @ [snd r]"] by (simp add: push_key_def)
qed simp

lemma recipient_keys_own:
  "sealing_recipient_keys P c = Inr ks \<Longrightarrow> ks \<noteq> [] \<Longrightarrow>
     \<exists>secret zs. sealing_secret c = Some secret \<and> ks = x_public P secret # zs"
proof -
  assume ks: "sealing_recipient_keys P c = Inr ks" "ks \<noteq> []"
  then obtain secret rs where s: "sealing_secret c = Some secret"
    and "ks = fold push_key rs [x_public P secret]"
    by (auto simp: sealing_recipient_keys_def sealing_pubkey_def public_from_secret_def rbind_Inr_iff
        split: option.splits)
  then show ?thesis using fold_keys_hd by metis
qed

lemma recipient_keys_empty: "sealing_recipient_keys P c = Inr [] \<Longrightarrow> sealing_secret c = None"
proof (rule ccontr)
  assume ks: "sealing_recipient_keys P c = Inr []" "sealing_secret c \<noteq> None"
  then obtain own rs where "fold push_key rs [own] = []"
    by (auto simp: sealing_recipient_keys_def sealing_pubkey_def rbind_Inr_iff split: option.splits)
  then show False using fold_keys_hd by (metis list.distinct(1))
qed

lemma seal_all_draws: "seal_all P fk ks c = (r, c') \<Longrightarrow> \<exists>n. c' = c\<lparr>draws := n\<rparr>"
proof (induction ks arbitrary: c r)
  case Nil
  then show ?case by (auto intro: exI [of _ "draws c"])
next
  case (Cons k ks)
  show ?case
    using Cons.prems Cons.IH
    by (fastforce simp: bindE_def seal_one_def draw32_def draw24_def lift_result_def split: sum.splits prod.splits)
qed

lemma protect_recover:
  assumes "protect_file_key P fk rk c = (Inr enc, c')" and "cipher c = Some rk"
    and "aead_ok P" "dh_ok P"
  shows "recover_file_key P c' enc = Inr fk" and "\<exists>n. c' = c\<lparr>draws := n\<rparr>"
proof -
  obtain ks where ks: "sealing_recipient_keys P c = Inr ks"
    using assms(1) by (auto simp: protect_file_key_def bindE_eq_Inr)
  have "recover_file_key P c' enc = Inr fk \<and> (\<exists>n. c' = c\<lparr>draws := n\<rparr>)"
  proof (cases "ks = []")
    case True
    then have "sealing_secret c = None" using ks recipient_keys_empty by blast
    then show ?thesis
      using assms ks True open_seal_file_key [OF assms(3)]
      by (auto simp: protect_file_key_def bindE_eq_Inr draw24_def lift_result_def recover_file_key_def)
  next
    case False
    then obtain secret zs where sec: "sealing_secret c = Some secret" "ks = x_public P secret # zs"
      using ks recipient_keys_own by blast
    obtain es where es: "seal_all P fk ks c = (Inr es, c')"
      and enc: "enc = \<lparr>sealed_key = None, recipients = es, fe_recipients_digest = Some (recipients_digest P fk ks)\<rparr>"
      using assms(1) ks False by (auto simp: protect_file_key_def bindE_eq_Inr)
    obtain n where n: "c' = c\<lparr>draws := n\<rparr>" using seal_all_draws [OF es] by blast
    obtain eph nonce e es' where e: "envelope_seal P eph nonce (x_public P secret) (to_be_bytes 32 fk) = Inr e"
      and es': "es = e # es'"
      using es sec(2) by (auto simp: bindE_eq_Inr seal_one_def draw32_def draw24_def lift_result_def)
    have "envelope_open P secret e = Inr (to_be_bytes 32 fk)"
      by (rule envelope_open_seal [OF assms(3,4) e])
    then show ?thesis using n sec(1) es' by (auto simp: recover_file_key_def enc)
  qed
  then show "recover_file_key P c' enc = Inr fk" "\<exists>n. c' = c\<lparr>draws := n\<rparr>" by auto
qed

section \<open>Content comes back\<close>

definition aead_tagged :: "prims \<Rightarrow> bool" where
  "aead_tagged P \<longleftrightarrow> (\<forall>k n a m c. aead_enc P k n a m = Some c \<longrightarrow> length c = length m + 16)"

text \<open>The byte strings \<open>store_content\<close> puts into the store.\<close>

definition written :: "prims \<Rightarrow> bytes \<Rightarrow> core \<Rightarrow> bytes set" where
  "written P data c =
     (let ps = set (chunk_bytes data (max (chunk_size c) 1)) in
      case cipher c of
        None \<Rightarrow> ps
      | Some _ \<Rightarrow> {s. \<exists>i. \<exists>p \<in> ps. seal_chunk P (rng32 P (draws c)) i p = Inr s})"

lemma chunk_bytes_bound: "p \<in> set (chunk_bytes data (max n 1)) \<Longrightarrow> length p \<le> max n 1"
  using chunks_of_bound [of p "max n 1" data] by (simp add: chunk_bytes_def)

lemma read_stored_parts:
  assumes "length ss = length ps" "concat ps = data" "opens P key 0 (zip ss ps)"
    and "inj_on (blake3 P) (set ss)" "\<forall>s \<in> set ss. length s < 2 ^ 32" "length data < 2 ^ 64"
    and "\<forall>h. blob_get (stores c') h = blob_get (stores (put_all (blake3 P) ss c)) h"
  shows "read_chunks P c' key 0 (layout (blake3 P) 0 (zip ss ps)) [] = Inr data"
proof -
  have "\<forall>(s, p) \<in> set (zip ss ps). blob_get (stores c') (blake3 P s) = Some s \<and> length s < 2 ^ 32"
    using assms(4,5,7) put_all_get by (auto dest!: set_zip_leftD)
  moreover have "map snd (zip ss ps) = ps" using assms(1) by simp
  ultimately show ?thesis
    using read_layout [of "zip ss ps" c' P key 0 0 "[]"] assms(2,3,6) by simp
qed

lemma seal_loop_succeeds:
  assumes "\<forall>p \<in> set ps. length p \<le> n" "aead_accepts P n"
  shows "\<exists>refs c'. seal_loop P key idx off ps c = (Inr refs, c')"
  using assms(1)
proof (induction ps arbitrary: idx off c)
  case (Cons p ps)
  obtain s where "seal_chunk P key (word_of_nat idx) p = Inr s"
    using seal_chunk_succeeds [OF assms(2), of p] Cons.prems by (metis list.set_intros(1))
  moreover obtain refs c' where
    "seal_loop P key (Suc idx) (off + word_of_nat (length p)) ps (put_blob (blake3 P s) s c) = (Inr refs, c')"
    using Cons by (metis list.set_intros(2))
  ultimately show ?case by (simp add: lift_result_def put_chunk_def bindE_def)
qed simp

lemma seal_all_succeeds: "aead_accepts P n \<Longrightarrow> 32 \<le> n \<Longrightarrow> \<exists>es c'. seal_all P fk ks c = (Inr es, c')"
proof (induction ks arbitrary: c)
  case (Cons k ks)
  have "\<exists>e. envelope_seal P eph nonce k (to_be_bytes 32 fk) = Inr e" for eph nonce
    using Cons.prems by (auto simp: envelope_seal_def aead_accepts_def split: option.splits)
  then obtain e where "envelope_seal P (rng32 P (draws c)) (rng24 P (Suc (draws c))) k (to_be_bytes 32 fk) = Inr e"
    by blast
  moreover obtain es c' where "seal_all P fk ks (c\<lparr>draws := Suc (Suc (draws c))\<rparr>) = (Inr es, c')"
    using Cons by blast
  ultimately show ?case
    by (simp add: seal_one_def draw32_def draw24_def lift_result_def bindE_def)
qed simp

lemma protect_succeeds:
  assumes "aead_accepts P n" "32 \<le> n" "\<exists>ks. sealing_recipient_keys P c = Inr ks"
  shows "\<exists>e c'. protect_file_key P fk rk c = (Inr e, c')"
proof -
  obtain ks where ks: "sealing_recipient_keys P c = Inr ks" using assms(3) by blast
  have "\<exists>s. seal_file_key P nonce rk fk = Inr s" for nonce
    using assms(1,2) by (auto simp: seal_file_key_def aead_accepts_def split: option.splits)
  then obtain s where "seal_file_key P (rng24 P (draws c)) rk fk = Inr s" by blast
  moreover obtain es c' where "seal_all P fk ks c = (Inr es, c')" using seal_all_succeeds [OF assms(1,2)] by blast
  ultimately show ?thesis
    by (cases "ks = []") (use ks in \<open>auto simp: protect_file_key_def bindE_def draw24_def lift_result_def\<close>)
qed

lemma recipient_keys_ok: "peers_ok c \<Longrightarrow> \<exists>ks. sealing_recipient_keys P c = Inr ks"
proof -
  assume "peers_ok c"
  then obtain ps where "enrolled_peers c = Inr ps" using enrolled_peers_set by blast
  then show ?thesis by (simp add: sealing_recipient_keys_def sealing_recipients_def split: option.split)
qed

lemma peers_ok_cong: "kv_get c' = kv_get c \<Longrightarrow> peers_ok c' = peers_ok c"
  by (simp add: peers_ok_def)

lemma store_content_succeeds:
  assumes "aead_accepts P n" "max (chunk_size c) 32 \<le> n" "peers_ok c"
  shows "\<exists>refs enc c'. store_content P data c = (Inr (refs, enc), c')"
proof (cases "cipher c")
  case None
  then show ?thesis by (simp add: store_content_def store_chunks_layout bindE_def Let_def)
next
  case (Some rk)
  let ?k = "rng32 P (draws c)" and ?ps = "chunk_bytes data (max (chunk_size c) 1)"
  let ?c1 = "c\<lparr>draws := draws c + 1\<rparr>"
  have "\<forall>p \<in> set ?ps. length p \<le> n" using chunk_bytes_bound assms(2) by fastforce
  then obtain refs c2 where s: "seal_loop P ?k 0 0 ?ps ?c1 = (Inr refs, c2)"
    using seal_loop_succeeds [OF _ assms(1)] by blast
  have "kv_get c2 = kv_get c"
  proof -
    have "seal_loop P k i off ps c = (r, c') \<Longrightarrow> kv_get c' = kv_get c" for k i off ps c r c'
      by (induction ps arbitrary: i off c r)
        (fastforce simp: bindE_def lift_result_def put_chunk_def fun_eq_iff split: sum.splits prod.splits)+
    from this [OF s] show ?thesis by simp
  qed
  then have "peers_ok c2" using peers_ok_cong assms(3) by blast
  then obtain e c' where "protect_file_key P ?k rk c2 = (Inr e, c')"
    using protect_succeeds [OF assms(1) _ recipient_keys_ok] assms(2) by fastforce
  then show ?thesis using s Some
    by (simp add: store_content_def new_file_key_def draw32_def bindE_def)
qed

lemma store_content_reads_back:
  assumes "store_content P data c = (Inr (refs, enc), c')"
    and "aead_ok P" "dh_ok P" "aead_tagged P"
    and "inj_on (blake3 P) (written P data c)"
    and "chunk_size c + 16 < 2 ^ 32" and "length data < 2 ^ 64"
  shows "materialize_file P c' (file_node_of refs (word_of_nat (length data)) now enc) = Inr data"
proof (cases "cipher c")
  case None
  let ?bs = "chunk_bytes data (max (chunk_size c) 1)"
  have refs: "refs = layout (blake3 P) 0 (zip ?bs ?bs)" and c': "c' = put_all (blake3 P) ?bs c" and enc: "enc = None"
    using assms(1) None by (auto simp: store_content_def store_chunks_layout bindE_eq_Inr Let_def)
  have o: "opens P None i (zip xs xs)" for i xs by (induction xs arbitrary: i) auto
  have "read_chunks P c' None 0 refs [] = Inr data"
    unfolding refs
  proof (rule read_stored_parts [OF refl concat_chunk_bytes o])
    show "inj_on (blake3 P) (set ?bs)" using assms(5) None by (simp add: written_def Let_def)
    show "\<forall>s \<in> set ?bs. length s < 2 ^ 32" using chunk_bytes_bound assms(6) by fastforce
  qed (use assms(7) c' in auto)
  then show ?thesis by (simp add: materialize_file_def enc file_node_of_def)
next
  case (Some rk)
  let ?ps = "chunk_bytes data (max (chunk_size c) 1)" and ?k = "rng32 P (draws c)"
  obtain c2 e where s: "seal_loop P ?k 0 0 ?ps (c\<lparr>draws := draws c + 1\<rparr>) = (Inr refs, c2)"
    and p: "protect_file_key P ?k rk c2 = (Inr e, c')" and enc: "enc = Some e"
    using assms(1) Some by (auto simp: store_content_def bindE_eq_Inr new_file_key_def draw32_def)
  obtain ss where ss: "length ss = length ?ps" "refs = layout (blake3 P) 0 (zip ss ?ps)"
    "c2 = put_all (blake3 P) ss (c\<lparr>draws := draws c + 1\<rparr>)" "opens P (Some ?k) 0 (zip ss ?ps)"
    "\<forall>s \<in> set ss. \<exists>i. \<exists>p \<in> set ?ps. seal_chunk P ?k i p = Inr s"
    using seal_loop_layout [OF s assms(2)] by blast
  have key: "recover_file_key P c' e = Inr ?k" and dr: "\<exists>n. c' = c2\<lparr>draws := n\<rparr>"
    using protect_recover [OF p _ assms(2,3)] ss(3) Some by auto
  have "read_chunks P c' (Some ?k) 0 refs [] = Inr data"
    unfolding ss(2)
  proof (rule read_stored_parts [OF ss(1) concat_chunk_bytes ss(4)])
    have "set ss \<subseteq> written P data c" using ss(5) Some by (auto simp: written_def Let_def)
    then show "inj_on (blake3 P) (set ss)" using assms(5) inj_on_subset by blast
    show "\<forall>s \<in> set ss. length s < 2 ^ 32"
    proof
      fix s
      assume "s \<in> set ss"
      then obtain i q where q: "q \<in> set ?ps" "seal_chunk P ?k i q = Inr s" using ss(5) by blast
      then have "length s = length q + 16"
        using assms(4) by (auto simp: seal_chunk_def aead_tagged_def split: option.splits)
      then show "length s < 2 ^ 32" using chunk_bytes_bound [OF q(1)] assms(6) by simp
    qed
  qed (use assms(7) dr ss(3) in auto)
  then show ?thesis by (simp add: materialize_file_def enc file_node_of_def key)
qed

text \<open>
  C35. Content round trip: what \<open>store_content\<close> writes, with or without encryption, is what
  \<open>materialize_file\<close> gives back for a file node that records the returned chunk references and
  key material, in the state the write left behind. The hypotheses are the documented laws of the cipher
  and of X25519, that no two of the chunks written collide under BLAKE3, and that lengths fit the \<open>u32\<close> and \<open>u64\<close> fields.
\<close>

theorem content_round_trip:
  assumes "store_content P data c = (Inr (refs, enc), c')"
    and "aead_ok P" "dh_ok P" "aead_tagged P"
    and "inj_on (blake3 P) (written P data c)"
    and "chunk_size c + 16 < 2 ^ 32" and "length data < 2 ^ 64"
  shows "materialize_file P c' (file_node_of refs (word_of_nat (length data)) now enc) = Inr data"
  by (rule store_content_reads_back [OF assms])

theorem content_round_trip_witness:
  "\<exists>refs enc c'. store_content sample [1, 2, 3] (sample_core\<lparr>chunk_size := 2, cipher := Some 5, sealing_secret := Some 6\<rparr>)
       = (Inr (refs, enc), c') \<and> materialize_file sample c' (file_node_of refs 3 0 enc) = Inr [1, 2, 3]"
proof -
  let ?c = "sample_core\<lparr>chunk_size := 2, cipher := Some 5, sealing_secret := Some 6\<rparr>"
  have ok: "peers_ok ?c" by (simp add: peers_ok_def)
  obtain refs enc c' where s: "store_content sample [1, 2, 3] ?c = (Inr (refs, enc), c')"
    using store_content_succeeds [OF sample_ok(3) order_refl ok] by blast
  have "chunk_bytes [1, 2, 3] 2 = [[1, 2], [3 :: byte]]"
    by (simp add: chunk_bytes_def chunks_of.simps)
  then have sub: "written sample [1, 2, 3] ?c \<subseteq> {replicate 16 0 @ [1, 2], replicate 16 0 @ [3]}"
    by (auto simp: written_def seal_chunk_def sample_def eval_nat_numeral)
  have "(from_be_bytes (replicate 16 0 @ [1, 2]) :: hash) \<noteq> from_be_bytes (replicate 16 0 @ [3])"
    by code_simp
  then have "inj_on (blake3 sample) {replicate 16 0 @ [1, 2], replicate 16 0 @ [3]}"
    unfolding blake3_sample inj_on_def by (metis insertE singletonD)
  then have inj: "inj_on (blake3 sample) (written sample [1, 2, 3] ?c)"
    using sub by (rule inj_on_subset)
  have "materialize_file sample c' (file_node_of refs (word_of_nat (length [1, 2, 3 :: byte])) 0 enc) = Inr [1, 2, 3]"
    by (rule content_round_trip [OF s sample_ok(2) sample_ok(4) _ inj])
      (simp_all add: aead_tagged_def sample_def)
  then show ?thesis using s by auto
qed

end
