(* ===== verification/Namespace.thy ===== *)
theory Namespace
  imports Content
begin

text \<open>
  The namespace state and its read path: \<open>src/crates/core/src/namespace.rs\<close>. Directory maps, inode records
  and parent pointers live in the \<open>state\<close> column family under the keys of theory \<open>Keys\<close>.
\<close>

section \<open>Names and paths\<close>

definition validate_name :: "string \<Rightarrow> unit result" where
  "validate_name name =
     (if name = [] then Inl (Bail ''entry name must not be empty'')
      else if CHR ''/'' \<in> set name then Inl (Bail ''entry name must not contain a path separator'')
      else if name = ''.'' \<or> name = ''..'' then Inl (Bail ''entry name must not be a dot name'')
      else Inr ())"

text \<open>\<open>str::split\<close> on a separator and \<open>[String]::join\<close>.\<close>

fun split_on :: "char \<Rightarrow> string \<Rightarrow> string list" where
  "split_on sep [] = [[]]"
| "split_on sep (ch # s) =
     (if ch = sep then [] # split_on sep s
      else (case split_on sep s of [] \<Rightarrow> [[ch]] | p # ps \<Rightarrow> (ch # p) # ps))"

fun join :: "string \<Rightarrow> string list \<Rightarrow> string" where
  "join sep [] = []"
| "join sep [p] = p"
| "join sep (p # q # ps) = p @ sep @ join sep (q # ps)"

fun split_loop :: "string list \<Rightarrow> string list result" where
  "split_loop [] = Inr []"
| "split_loop (part # parts) =
     (if part = [] \<or> part = ''.'' then split_loop parts
      else if part = ''..'' then Inl (Bail ''path traversal is not supported'')
      else rbind (split_loop parts) (\<lambda>out. Inr (part # out)))"

definition split_path :: "string \<Rightarrow> string list result" where
  "split_path path = split_loop (split_on (CHR ''/'') path)"

section \<open>Raw state accessors\<close>

definition load_dir :: "prims \<Rightarrow> core \<Rightarrow> u128 \<Rightarrow> dir_map option result" where
  "load_dir P c inode =
     (case kv_get c CF_STATE (dir_key inode) of
        None \<Rightarrow> Inr None
      | Some b \<Rightarrow> (case dec_dir P b of None \<Rightarrow> Inl (Bail ''decode dir map'') | Some m \<Rightarrow> Inr (Some m)))"

definition store_dir :: "prims \<Rightarrow> u128 \<Rightarrow> dir_map \<Rightarrow> core \<Rightarrow> core" where
  "store_dir P inode m c = kv_put CF_STATE (dir_key inode) (enc_dir P m) c"

definition load_inode :: "prims \<Rightarrow> core \<Rightarrow> u128 \<Rightarrow> inode_record option result" where
  "load_inode P c inode =
     (case kv_get c CF_STATE (inode_key inode) of
        None \<Rightarrow> Inr None
      | Some b \<Rightarrow> (case dec_inode P b of None \<Rightarrow> Inl (Bail ''decode inode record'') | Some r \<Rightarrow> Inr (Some r)))"

definition set_parent :: "u128 \<Rightarrow> u128 \<Rightarrow> core \<Rightarrow> core" where
  "set_parent inode parent c = kv_put CF_STATE (parent_key inode) (to_be_bytes 16 parent) c"

definition parent_of :: "core \<Rightarrow> u128 \<Rightarrow> u128 option" where
  "parent_of c inode =
     (case kv_get c CF_STATE (parent_key inode) of
        None \<Rightarrow> None
      | Some raw \<Rightarrow> if length raw = 16 then Some (from_be_bytes raw) else None)"

definition store_inode :: "prims \<Rightarrow> u128 \<Rightarrow> inode_record \<Rightarrow> core \<Rightarrow> core" where
  "store_inode P inode rec c = kv_put CF_STATE (inode_key inode) (enc_inode P rec) c"

definition inode_exists :: "core \<Rightarrow> u128 \<Rightarrow> bool" where
  "inode_exists c inode \<longleftrightarrow> kv_get c CF_STATE (inode_key inode) \<noteq> None"

definition is_dir :: "prims \<Rightarrow> core \<Rightarrow> u128 \<Rightarrow> bool result" where
  "is_dir P c inode =
     rbind (load_inode P c inode) (\<lambda>r.
     Inr (case r of None \<Rightarrow> False | Some rec \<Rightarrow> ir_kind rec = Dir))"

section \<open>Conflict-aware views\<close>

text \<open>The survivors of one name: the first keeps it, the others get conflict names.\<close>

definition entry_of :: "string \<Rightarrow> nat \<times> dot \<times> dir_entry_value \<Rightarrow> dir_entry" where
  "entry_of name = (\<lambda>(idx, dot, value).
     \<lparr>de_name = (if idx = 0 then name else conflict_name name (dot_device dot) (ev_created value)),
      de_inode_id = ev_inode_id value, de_entry_type = ev_entry_type value\<rparr>)"

definition dir_entries :: "dir_map \<Rightarrow> dir_entry list" where
  "dir_entries m =
     sort_dir_entries
       (concat (map (\<lambda>name. map (entry_of name) (enumerate 0 (get_all m name))) (live_keys m)))"

definition materialize_dir :: "prims \<Rightarrow> core \<Rightarrow> u128 \<Rightarrow> dir_entry list result" where
  "materialize_dir P c inode =
     rbind (load_dir P c inode) (\<lambda>m. Inr (case m of None \<Rightarrow> [] | Some m \<Rightarrow> dir_entries m))"

definition lookup :: "prims \<Rightarrow> core \<Rightarrow> u128 \<Rightarrow> string \<Rightarrow> dir_entry option result" where
  "lookup P c parent name =
     rbind (load_dir P c parent) (\<lambda>m.
     case m of
       None \<Rightarrow> Inr None
     | Some m \<Rightarrow>
         let survivors = get_all m name in
         if length survivors = 1
         then Inr (Some \<lparr>de_name = name, de_inode_id = ev_inode_id (snd (hd survivors)),
                         de_entry_type = ev_entry_type (snd (hd survivors))\<rparr>)
         else rbind (materialize_dir P c parent) (\<lambda>es. Inr (find (\<lambda>e. de_name e = name) es)))"

section \<open>Read path\<close>

fun resolve_loop :: "prims \<Rightarrow> core \<Rightarrow> u128 \<Rightarrow> entry_type \<Rightarrow> string list
    \<Rightarrow> (u128 \<times> entry_type) option result" where
  "resolve_loop P c current kind [] = Inr (Some (current, kind))"
| "resolve_loop P c current kind (part # parts) =
     (if kind \<noteq> Dir then Inl (Bail ''is not a directory'')
      else rbind (lookup P c current part) (\<lambda>entry.
           case entry of
             None \<Rightarrow> Inr None
           | Some e \<Rightarrow> resolve_loop P c (de_inode_id e) (de_entry_type e) parts))"

definition resolve_path :: "prims \<Rightarrow> core \<Rightarrow> string \<Rightarrow> (u128 \<times> entry_type) option result" where
  "resolve_path P c path =
     rbind (split_path path) (\<lambda>parts. resolve_loop P c ROOT_INODE Dir parts)"

definition resolve_parent :: "prims \<Rightarrow> core \<Rightarrow> string \<Rightarrow> (u128 \<times> string) option result" where
  "resolve_parent P c path =
     rbind (split_path path) (\<lambda>parts.
     if parts = [] then Inl (Bail ''path has no final component'')
     else rbind (resolve_path P c (join ''/'' (butlast parts))) (\<lambda>r.
          case r of
            None \<Rightarrow> Inr None
          | Some (parent, kind) \<Rightarrow>
              if kind \<noteq> Dir then Inl (Bail ''is not a directory'')
              else Inr (Some (parent, last parts))))"

definition read_dir_path :: "prims \<Rightarrow> core \<Rightarrow> string \<Rightarrow> dir_entry list result" where
  "read_dir_path P c path =
     rbind (resolve_path P c path) (\<lambda>r.
     case r of
       None \<Rightarrow> Inl (Bail ''no such directory'')
     | Some (inode, kind) \<Rightarrow>
         if kind \<noteq> Dir then Inl (Bail ''not a directory'') else materialize_dir P c inode)"

definition read_file :: "prims \<Rightarrow> core \<Rightarrow> u128 \<Rightarrow> bytes result" where
  "read_file P c inode =
     rbind (load_inode P c inode) (\<lambda>r.
     case r of
       None \<Rightarrow> Inl (Bail ''no such inode'')
     | Some rec \<Rightarrow>
         if ir_kind rec \<noteq> File then Inl (Bail ''inode is not a file'')
         else case ct_node_hash (lww_value (ir_content rec)) of
                None \<Rightarrow> Inr []
              | Some nh \<Rightarrow>
                  rbind (get_object P c nh) (\<lambda>ob.
                  case ob of
                    Some (FileNode f) \<Rightarrow> materialize_file P c f
                  | Some _ \<Rightarrow> Inl (Bail ''inode points at a non-file object'')
                  | None \<Rightarrow> Inl (Bail ''missing file object'')))"

definition read_file_path :: "prims \<Rightarrow> core \<Rightarrow> string \<Rightarrow> bytes result" where
  "read_file_path P c path =
     rbind (resolve_path P c path) (\<lambda>r.
     case r of
       None \<Rightarrow> Inl (Bail ''no such file'')
     | Some (inode, kind) \<Rightarrow>
         if kind \<noteq> File then Inl (Bail ''not a file'') else read_file P c inode)"

section \<open>Accessor laws\<close>

lemma load_dir_kv_put:
  "load_dir P (kv_put CF_STATE (dir_key i) b c) j =
     (if j = i then (case dec_dir P b of None \<Rightarrow> Inl (Bail ''decode dir map'') | Some m \<Rightarrow> Inr (Some m))
      else load_dir P c j)"
  by (simp add: load_dir_def)

lemma load_dir_store_dir [simp]:
  "codec_ok P \<Longrightarrow> load_dir P (store_dir P i m c) j = (if j = i then Inr (Some m) else load_dir P c j)"
  by (simp add: load_dir_def store_dir_def)

lemma load_inode_store_inode [simp]:
  "codec_ok P \<Longrightarrow> load_inode P (store_inode P i r c) j = (if j = i then Inr (Some r) else load_inode P c j)"
  by (simp add: load_inode_def store_inode_def)

lemma parent_of_set_parent [simp]: "parent_of (set_parent i p c) j = (if j = i then Some p else parent_of c j)"
  by (simp add: parent_of_def set_parent_def)

lemma load_dir_frame [simp]:
  "load_dir P (store_inode P' i r c) j = load_dir P c j" "load_dir P (set_parent i p c) j = load_dir P c j"
  "load_dir P (put_blob h b c) j = load_dir P c j"
  by (simp_all add: load_dir_def store_inode_def set_parent_def)

lemma load_inode_frame [simp]:
  "load_inode P (store_dir P' i m c) j = load_inode P c j" "load_inode P (set_parent i p c) j = load_inode P c j"
  "load_inode P (put_blob h b c) j = load_inode P c j"
  by (simp_all add: load_inode_def store_dir_def set_parent_def)

lemma parent_of_frame [simp]:
  "parent_of (store_dir P i m c) j = parent_of c j" "parent_of (store_inode P i r c) j = parent_of c j"
  "parent_of (put_blob h b c) j = parent_of c j"
  by (simp_all add: parent_of_def store_dir_def store_inode_def)

text \<open>Keys of other column families and of the inode map do not touch the namespace records.\<close>

definition foreign_key :: "string \<Rightarrow> bytes \<Rightarrow> bool" where
  "foreign_key cf k \<longleftrightarrow>
     cf \<noteq> CF_STATE \<or> (\<forall>i. k \<noteq> dir_key i \<and> k \<noteq> inode_key i \<and> k \<noteq> parent_key i)"

lemma foreign_keys [simp]:
  "foreign_key CF_META k" "foreign_key CF_OPLOG k" "foreign_key CF_STATE (imap_key i)"
  by (simp_all add: foreign_key_def)

lemma namespace_frame [simp]:
  assumes "foreign_key cf k"
  shows "load_dir P (kv_put cf k v c) j = load_dir P c j" "load_inode P (kv_put cf k v c) j = load_inode P c j"
    "parent_of (kv_put cf k v c) j = parent_of c j"
    "load_dir P (kv_del cf k c) j = load_dir P c j" "load_inode P (kv_del cf k c) j = load_inode P c j"
    "parent_of (kv_del cf k c) j = parent_of c j"
  using assms by (auto simp: load_dir_def load_inode_def parent_of_def foreign_key_def)

lemma materialize_dir_cong: "load_dir P c i = load_dir P c' i \<Longrightarrow> materialize_dir P c i = materialize_dir P c' i"
  by (simp add: materialize_dir_def)

lemma lookup_cong:
  assumes "load_dir P c i = load_dir P c' i"
  shows "lookup P c i n = lookup P c' i n"
  unfolding lookup_def materialize_dir_cong [OF assms] assms ..

section \<open>A lookup agrees with the listing\<close>

lemma in_dir_entries:
  "e \<in> set (dir_entries m) \<longleftrightarrow>
     (\<exists>name idx. idx < length (get_all m name) \<and> e = entry_of name (idx, get_all m name ! idx))"
proof -
  have live: "name \<in> set (live_keys m) \<longleftrightarrow> get_all m name \<noteq> []" for name
    by (auto simp: live_keys_def get_all_def fmlookup_dom'_iff split: option.splits)
  have en: "e \<in> entry_of name ` set (enumerate 0 xs) \<longleftrightarrow> (\<exists>idx < length xs. e = entry_of name (idx, xs ! idx))" for name xs
    by (force simp: in_set_enumerate_eq image_iff)
  have "e \<in> set (dir_entries m) \<longleftrightarrow>
      (\<exists>name. get_all m name \<noteq> [] \<and> e \<in> entry_of name ` set (enumerate 0 (get_all m name)))"
    by (auto simp: dir_entries_def live)
  then show ?thesis unfolding en by (metis length_greater_0_conv not_less_zero gr_zeroI)
qed

lemma single_survivor_listed:
  assumes "length (get_all m name) = 1"
  shows "\<lparr>de_name = name, de_inode_id = ev_inode_id (snd (hd (get_all m name))),
      de_entry_type = ev_entry_type (snd (hd (get_all m name)))\<rparr> \<in> set (dir_entries m)"
proof -
  obtain d v where "get_all m name = [(d, v)]" using assms by (cases "get_all m name") auto
  then show ?thesis
    by (subst in_dir_entries) (auto simp: entry_of_def intro!: exI [of _ name] exI [of _ "0::nat"])
qed

text \<open>
  A lookup and the listing never disagree about a path component: the entry a lookup returns is listed under
  that name, a lookup that finds nothing means no listed entry has the name, and where listed names are distinct the
  lookup is exactly the search of the listing, although it usually does not build it.
\<close>

theorem lookup_agrees_with_listing:
  assumes "materialize_dir P c parent = Inr es"
  shows "\<exists>r. lookup P c parent name = Inr r \<and>
    (\<forall>e. r = Some e \<longrightarrow> e \<in> set es \<and> de_name e = name) \<and>
    (r = None \<longrightarrow> (\<forall>e \<in> set es. de_name e \<noteq> name)) \<and>
    (distinct (map de_name es) \<longrightarrow> r = find (\<lambda>e. de_name e = name) es)"
proof -
  obtain mo where mo: "load_dir P c parent = Inr mo" "es = (case mo of None \<Rightarrow> [] | Some m \<Rightarrow> dir_entries m)"
    using assms by (auto simp: materialize_dir_def rbind_Inr_iff)
  have uniq: "find (\<lambda>e. de_name e = name) es = Some e"
    if "distinct (map de_name es)" "e \<in> set es" "de_name e = name" for e
    using that by (induction es) auto
  have found: "\<And>e. find (\<lambda>e. de_name e = name) es = Some e \<Longrightarrow> e \<in> set es \<and> de_name e = name"
    by (auto simp: find_Some_iff)
  show ?thesis
  proof (cases mo)
    case None
    then show ?thesis using mo by (simp add: lookup_def)
  next
    case (Some m)
    show ?thesis
    proof (cases "length (get_all m name) = 1")
      case True
      let ?e = "\<lparr>de_name = name, de_inode_id = ev_inode_id (snd (hd (get_all m name))),
          de_entry_type = ev_entry_type (snd (hd (get_all m name)))\<rparr>"
      have "lookup P c parent name = Inr (Some ?e)" using mo Some True by (simp add: lookup_def Let_def)
      moreover have "?e \<in> set es" using single_survivor_listed [OF True] mo Some by simp
      ultimately show ?thesis using uniq [of ?e] by simp
    next
      case False
      then have l: "lookup P c parent name = Inr (find (\<lambda>e. de_name e = name) es)"
        using mo Some assms by (simp add: lookup_def Let_def)
      show ?thesis
      proof (intro exI conjI)
        show "\<forall>e. find (\<lambda>e. de_name e = name) es = Some e \<longrightarrow> e \<in> set es \<and> de_name e = name"
          by (intro allI impI found)
        show "find (\<lambda>e. de_name e = name) es = None \<longrightarrow> (\<forall>e \<in> set es. de_name e \<noteq> name)"
          by (simp add: find_None_iff)
      qed (simp_all add: l)
    qed
  qed
qed

theorem lookup_agrees_with_listing_witness:
  "\<exists>e. lookup sample (store_dir sample 1 (or_add ''a'' (Dot 2 1) \<lparr>ev_inode_id = 9, ev_entry_type = File, ev_created = 0\<rparr> or_default)
     sample_core) 1 ''a'' = Inr (Some e) \<and> de_name e = ''a''"
proof -
  let ?m = "or_add ''a'' (Dot 2 1) \<lparr>ev_inode_id = 9, ev_entry_type = File, ev_created = 0\<rparr> or_default"
  let ?c = "store_dir sample 1 ?m sample_core"
  have m: "materialize_dir sample ?c 1 = Inr (dir_entries ?m)"
    by (simp add: materialize_dir_def sample_ok)
  have "set (get_all ?m ''a'') = {(Dot 2 1, \<lparr>ev_inode_id = 9, ev_entry_type = File, ev_created = 0\<rparr>)}"
    by (auto simp: set_get_all split: if_splits)
  then have "0 < length (get_all ?m ''a'')" by (metis insert_not_empty length_greater_0_conv list.set(1))
  then have "entry_of ''a'' (0, get_all ?m ''a'' ! 0) \<in> set (dir_entries ?m)"
    by (subst in_dir_entries) blast
  moreover have "de_name (entry_of ''a'' (0, get_all ?m ''a'' ! 0)) = ''a''"
    by (simp add: entry_of_def split: prod.split)
  ultimately show ?thesis
    using lookup_agrees_with_listing [OF m, of "''a''"] by (metis not_None_eq)
qed

end
