(* ===== verification/Snapshot.thy ===== *)
theory Snapshot
  imports Namespace Merkle
begin

text \<open>
  Snapshots and the maintained inode map: \<open>src/crates/core/src/snapshot.rs\<close>. The full walk
  \<open>materialize_tree\<close> recurses on the directory tree; its own bound of \<open>MAX_TREE_NODES\<close> visited inodes
  is what makes it end, and the fuel of the model is chosen above that bound (\<open>materialize_tree_fuel\<close>).
\<close>

definition MAX_TREE_NODES :: nat where "MAX_TREE_NODES = 1000000"

section \<open>The maintained map\<close>

definition map_row :: "bytes \<times> bytes \<Rightarrow> (u128 \<times> hash) result" where
  "map_row = (\<lambda>(key, value).
     case parse_imap_key key of
       Some inode \<Rightarrow> if length value = 32 then Inr (inode, from_be_bytes value)
                     else Inl (Bail ''inode map holds a malformed entry'')
     | None \<Rightarrow> Inl (Bail ''inode map holds a malformed entry''))"

definition inode_map :: "core \<Rightarrow> (u128 \<times> hash) list result" where
  "inode_map c = rmap map_row (kv_scan c CF_STATE IMAP_PREFIX)"

definition put_imap :: "u128 \<Rightarrow> hash \<Rightarrow> core \<Rightarrow> core" where
  "put_imap inode h c = kv_put CF_STATE (imap_key inode) (to_be_bytes 32 h) c"

definition del_imap :: "u128 \<Rightarrow> core \<Rightarrow> core" where
  "del_imap inode c = kv_del CF_STATE (imap_key inode) c"

section \<open>Directory objects\<close>

definition dir_object :: "prims \<Rightarrow> core \<Rightarrow> u128 \<Rightarrow> dir_entry list \<Rightarrow> object result" where
  "dir_object P c inode entries =
     rbind (load_inode P c inode) (\<lambda>record.
     let attrs = (case record of Some r \<Rightarrow> lww_value (ir_attrs r)
                  | None \<Rightarrow> \<lparr>at_mode = 0x41ED, at_uid = 0, at_gid = 0\<rparr>);
         (mtime, ctime) = (case record of Some r \<Rightarrow> (ct_mtime (lww_value (ir_content r)), ir_ctime r)
                           | None \<Rightarrow> (0, 0))
     in Inr (DirNode (dir_canonicalize
          \<lparr>dn_header = \<lparr>type_tag = 2, oh_version = 1\<rparr>, dn_entries = entries, dn_mode = at_mode attrs,
           dn_uid = at_uid attrs, dn_gid = at_gid attrs, dn_mtime = mtime, dn_ctime = ctime\<rparr>)))"

definition store_dir_object :: "prims \<Rightarrow> u128 \<Rightarrow> (core, hash) comp" where
  "store_dir_object P inode =
     bindE (reads (\<lambda>c. materialize_dir P c inode)) (\<lambda>entries.
     bindE (reads (\<lambda>c. dir_object P c inode entries)) (\<lambda>ob c.
     let (h, c') = put_object P ob c in (Inr h, c')))"

definition dir_lists :: "prims \<Rightarrow> core \<Rightarrow> u128 \<Rightarrow> u128 \<Rightarrow> bool result" where
  "dir_lists P c parent child =
     rbind (materialize_dir P c parent) (\<lambda>es. Inr (list_ex (\<lambda>e. de_inode_id e = child) es))"

section \<open>Reachability through parent pointers\<close>

function is_reachable_loop :: "prims \<Rightarrow> core \<Rightarrow> u128 \<Rightarrow> nat \<Rightarrow> bool result" where
  "is_reachable_loop P c current hops =
     (if current = ROOT_INODE then Inr True
      else if kv_get c CF_STATE (imap_key current) \<noteq> None then Inr True
      else case parent_of c current of
             None \<Rightarrow> Inr False
           | Some parent \<Rightarrow>
               rbind (dir_lists P c parent current) (\<lambda>lists.
               if \<not> lists then Inr False
               else if hops + 1 > MAX_TREE_NODES then Inl (Bail ''parent chain does not terminate'')
               else is_reachable_loop P c parent (hops + 1)))"
  by pat_completeness auto
termination
  by (relation "measure (\<lambda>(P, c, cur, hops). MAX_TREE_NODES + 1 - hops)") auto

declare is_reachable_loop.simps [simp del]

definition is_reachable :: "prims \<Rightarrow> core \<Rightarrow> u128 \<Rightarrow> bool result" where
  "is_reachable P c inode = is_reachable_loop P c inode 0"

definition refresh_map_entry :: "prims \<Rightarrow> u128 \<Rightarrow> (core, unit) comp" where
  "refresh_map_entry P inode =
     bindE (reads (\<lambda>c. is_reachable P c inode)) (\<lambda>reachable.
     if \<not> reachable then upd (del_imap inode)
     else bindE (reads (\<lambda>c. load_inode P c inode)) (\<lambda>record.
          case record of
            None \<Rightarrow> upd (del_imap inode)
          | Some r \<Rightarrow>
              (case ir_kind r of
                 Dir \<Rightarrow> bindE (store_dir_object P inode) (\<lambda>h. upd (put_imap inode h))
               | File \<Rightarrow> (case ct_node_hash (lww_value (ir_content r)) of
                            Some h \<Rightarrow> upd (put_imap inode h)
                          | None \<Rightarrow> upd (del_imap inode)))))"

section \<open>The full walk\<close>

record walk =
  wk_map :: "(u128, hash) fmap"
  wk_visited :: "u128 fset"
  wk_core :: core

definition walk_file :: "prims \<Rightarrow> u128 \<Rightarrow> (walk, unit) comp" where
  "walk_file P inode =
     bindE (reads (\<lambda>w. load_inode P (wk_core w) inode)) (\<lambda>record.
     case record of
       None \<Rightarrow> ret ()
     | Some r \<Rightarrow> (case ct_node_hash (lww_value (ir_content r)) of
                    None \<Rightarrow> ret ()
                  | Some h \<Rightarrow> upd (\<lambda>w. w\<lparr>wk_map := fmupd inode h (wk_map w)\<rparr>)))"

definition walk_object :: "prims \<Rightarrow> bool \<Rightarrow> u128 \<Rightarrow> dir_entry list \<Rightarrow> (walk, hash) comp" where
  "walk_object P store inode entries =
     bindE (reads (\<lambda>w. dir_object P (wk_core w) inode entries)) (\<lambda>ob w.
     let (h, c') = (if store then put_object P ob (wk_core w) else (object_hash P ob, wk_core w))
     in (Inr h, w\<lparr>wk_core := c', wk_map := fmupd inode h (wk_map w)\<rparr>))"

text \<open>The body of the walk below one directory, with the recursive call as an argument.\<close>

definition walk_entry :: "prims \<Rightarrow> (u128 \<Rightarrow> (walk, hash) comp) \<Rightarrow> dir_entry \<Rightarrow> (walk, unit) comp" where
  "walk_entry P rec e =
     (case de_entry_type e of
        Dir \<Rightarrow> bindE (rec (de_inode_id e)) (\<lambda>_. ret ())
      | File \<Rightarrow> walk_file P (de_inode_id e))"

definition walk_dir :: "prims \<Rightarrow> bool \<Rightarrow> (u128 \<Rightarrow> (walk, hash) comp) \<Rightarrow> u128 \<Rightarrow> (walk, hash) comp" where
  "walk_dir P store rec inode =
     bindE (reads (\<lambda>w. materialize_dir P (wk_core w) inode)) (\<lambda>entries.
     bindE (for_each entries (walk_entry P rec)) (\<lambda>_.
     walk_object P store inode entries))"

primrec materialize_tree :: "prims \<Rightarrow> bool \<Rightarrow> nat \<Rightarrow> u128 \<Rightarrow> (walk, hash) comp" where
  "materialize_tree P store 0 = (\<lambda>inode. raise OutOfFuel)"
| "materialize_tree P store (Suc fuel) = (\<lambda>inode w.
     if inode |\<in>| wk_visited w then raise (Bail ''cycle detected in directory tree'') w
     else
       (let w1 = w\<lparr>wk_visited := finsert inode (wk_visited w)\<rparr> in
        if fcard (wk_visited w1) > MAX_TREE_NODES then raise (Bail ''directory tree exceeded the bound'') w1
        else walk_dir P store (materialize_tree P store fuel) inode w1))"

definition TREE_FUEL :: nat where "TREE_FUEL = MAX_TREE_NODES + 1"

definition walk_root :: "prims \<Rightarrow> bool \<Rightarrow> core \<Rightarrow> (error + hash) \<times> walk" where
  "walk_root P store c =
     materialize_tree P store TREE_FUEL ROOT_INODE \<lparr>wk_map = fmempty, wk_visited = {||}, wk_core = c\<rparr>"

definition drop_stale :: "(u128, hash) fmap \<Rightarrow> core \<Rightarrow> core" where
  "drop_stale fresh c =
     fold (\<lambda>(key, _) c.
       case parse_imap_key key of
         Some inode \<Rightarrow> if inode |\<notin>| fmdom fresh then kv_del CF_STATE key c else c
       | None \<Rightarrow> c) (kv_scan c CF_STATE IMAP_PREFIX) c"

definition put_fresh :: "(u128, hash) fmap \<Rightarrow> core \<Rightarrow> core" where
  "put_fresh fresh c = fold (\<lambda>(inode, h) c. put_imap inode h c) (fm_entries fresh) c"

definition rebuild_inode_map :: "prims \<Rightarrow> (core, (u128 \<times> hash) list) comp" where
  "rebuild_inode_map P c =
     (case walk_root P True c of
        (Inl e, w) \<Rightarrow> (Inl e, wk_core w)
      | (Inr _, w) \<Rightarrow>
          (Inr (fm_entries (wk_map w)), put_fresh (wk_map w) (drop_stale (wk_map w) (wk_core w))))"

section \<open>State root, proofs, snapshot\<close>

definition compute_state_root :: "prims \<Rightarrow> core \<Rightarrow> hash result" where
  "compute_state_root P c = rbind (inode_map c) (\<lambda>m. Inr (commit (blake3 P) m))"

definition core_inclusion_proof :: "prims \<Rightarrow> core \<Rightarrow> u128 \<Rightarrow> inclusion_proof option result" where
  "core_inclusion_proof P c inode = rbind (inode_map c) (\<lambda>m. Inr (prove (blake3 P) m inode))"

definition core_absence_proof :: "prims \<Rightarrow> core \<Rightarrow> u128 \<Rightarrow> absence_proof option result" where
  "core_absence_proof P c inode = rbind (inode_map c) (\<lambda>m. Inr (prove_absent (blake3 P) m inode))"

definition core_inclusion_proofs :: "prims \<Rightarrow> core \<Rightarrow> u128 list \<Rightarrow> inclusion_proof list result" where
  "core_inclusion_proofs P c inodes = rbind (inode_map c) (\<lambda>m. Inr (prove_many (blake3 P) m inodes))"

definition new_snapshot_root :: "u128 \<Rightarrow> hash option \<Rightarrow> device_id \<Rightarrow> u64 \<Rightarrow> snapshot_root" where
  "new_snapshot_root root_dir_inode inode_map_root author now_ms =
     \<lparr>sr_header = \<lparr>type_tag = 3, oh_version = 1\<rparr>, sr_root_dir_inode = root_dir_inode,
      sr_inode_map_root = inode_map_root, sr_timestamp = now_ms, sr_author = author\<rparr>"

definition build_snapshot :: "prims \<Rightarrow> (core, hash) comp" where
  "build_snapshot P =
     bindE (reads (compute_state_root P)) (\<lambda>state_root.
     bindE (upd (set_state_root state_root)) (\<lambda>_ c.
     let (head, c') = put_object P (SnapshotRoot
            (new_snapshot_root ROOT_INODE (Some state_root) (core_device c) (state_time c))) c
     in (Inr head, set_head head c')))"

section \<open>The walk ends and only adds objects\<close>

definition grows :: "core \<Rightarrow> core \<Rightarrow> bool" where
  "grows c c' \<longleftrightarrow> c' = c\<lparr>stores := stores c'\<rparr> \<and> ms_kv (stores c') = ms_kv (stores c) \<and>
     (\<forall>h b. blob_get (stores c) h = Some b \<longrightarrow> blob_get (stores c') h = Some b)"

lemma grows_refl [simp]: "grows c c"
  by (simp add: grows_def)

lemma grows_trans: "grows a b \<Longrightarrow> grows b c \<Longrightarrow> grows a c"
proof -
  assume ab: "grows a b" and bc: "grows b c"
  have "c = b\<lparr>stores := stores c\<rparr>" "b = a\<lparr>stores := stores b\<rparr>" using ab bc by (simp_all only: grows_def)
  then have "c = a\<lparr>stores := stores c\<rparr>" by (metis core.update_convs(1) core.surjective core.select_convs)
  then show ?thesis using ab bc by (simp add: grows_def)
qed

lemma grows_kv: "grows c c' \<Longrightarrow> kv_get c' = kv_get c" "grows c c' \<Longrightarrow> kv_scan c' = kv_scan c"
  by (simp_all add: grows_def get_kv_def scan_prefix_def fun_eq_iff)

lemma grows_put_object: "put_object P ob c = (h, c') \<Longrightarrow> grows c c'"
  by (auto simp: put_object_def Let_def grows_def put_blob_def blob_put_def mem_blob.has_get store_simps split: if_splits)
    (metis blob_put_def mem_blob.get_put option.distinct(1))

lemma put_object_stores:
  obtains c1 where "put_object P ob c = (object_hash P ob, c1)" "grows c c1"
  using that grows_put_object [of P ob c] by (metis fst_put_object prod.collapse)

lemma grows_namespace:
  assumes "grows c c'"
  shows "load_dir P c' i = load_dir P c i" "load_inode P c' i = load_inode P c i" "parent_of c' i = parent_of c i"
    "materialize_dir P c' i = materialize_dir P c i" "dir_object P c' i es = dir_object P c i es"
  by (simp_all add: load_dir_def load_inode_def parent_of_def materialize_dir_def dir_object_def grows_kv(1) [OF assms])

abbreviation walk_grows :: "walk \<Rightarrow> walk \<Rightarrow> bool" where
  "walk_grows w w' \<equiv> grows (wk_core w) (wk_core w') \<and> wk_visited w |\<subseteq>| wk_visited w'"

lemma walk_grows_po: "reflp walk_grows" "transp walk_grows"
  by (auto simp: reflp_def transp_def intro: grows_trans)

lemma keeps_walk_file: "keeps walk_grows (walk_file P i)"
  by (auto simp: keeps_def walk_file_def bindE_def split: sum.splits option.splits)

lemma keeps_walk_object: "keeps walk_grows (walk_object P st i es)"
  by (auto simp: keeps_def walk_object_def bindE_def split: sum.splits prod.splits if_splits
      dest: grows_put_object)

lemma keeps_walk_dir: "(\<And>i. keeps walk_grows (rec i)) \<Longrightarrow> keeps walk_grows (walk_dir P st rec i)"
  unfolding walk_dir_def walk_entry_def
  by (intro keeps_bindE keeps_for_each walk_grows_po keeps_basic keeps_walk_object)
    (auto split: entry_type.split intro!: keeps_bindE walk_grows_po keeps_basic keeps_walk_file)

lemma keeps_materialize_tree: "keeps walk_grows (materialize_tree P st fuel i)"
proof (induction fuel arbitrary: i)
  case 0
  show ?case by (simp add: keeps_def)
next
  case (Suc fuel)
  have "walk_grows w (snd (walk_dir P st (materialize_tree P st fuel) i w))" for w
    using keeps_walk_dir [OF Suc] by (simp only: keeps_def)
  from this [of "w\<lparr>wk_visited := finsert i (wk_visited w)\<rparr>" for w] show ?case
    unfolding keeps_def by (auto simp: Let_def)
qed

lemma walk_dir_triple:
  assumes "\<And>i. triple I (rec i) (\<lambda>_. I) E"
    and "\<And>w m c. I w \<Longrightarrow> I (w\<lparr>wk_core := c, wk_map := m\<rparr>)"
    and "\<And>s w. E (Bail s) w"
    and "\<And>w i e. I w \<Longrightarrow> materialize_dir P (wk_core w) i = Inl e \<Longrightarrow> E e w"
    and "\<And>w i e. I w \<Longrightarrow> load_inode P (wk_core w) i = Inl e \<Longrightarrow> E e w"
  shows "triple I (walk_dir P st rec i) (\<lambda>_. I) E"
proof -
  have m: "I (w\<lparr>wk_map := x\<rparr>)" if "I w" for w x
    using assms(2) [OF that, of x "wk_core w"] by simp
  have "triple I (walk_file P j) (\<lambda>_. I) E" for j
    using assms(5) m by (auto simp: triple_def walk_file_def bindE_def split: sum.splits option.splits)
  then have "triple I (walk_entry P rec e) (\<lambda>_. I) E" for e
    using assms(1) by (auto simp: walk_entry_def split: entry_type.split
        intro!: triple_bindE [where R = "\<lambda>_. I"]) (simp add: triple_def)
  moreover have "triple I (walk_object P st i es) (\<lambda>_. I) E" for es
    using assms(2,5) m
    by (auto simp: triple_def walk_object_def bindE_def dir_object_def rbind_def Let_def
        split: sum.splits prod.splits)
  moreover have "triple I (reads (\<lambda>w. materialize_dir P (wk_core w) i)) (\<lambda>_. I) E"
    using assms(4) by (auto simp: triple_def split: sum.splits)
  ultimately show ?thesis
    unfolding walk_dir_def by (blast intro: triple_bindE triple_for_each)
qed

lemma materialize_dir_bail: "materialize_dir P c i = Inl e \<Longrightarrow> e \<noteq> OutOfFuel"
  by (auto simp: materialize_dir_def load_dir_def rbind_def split: option.splits sum.splits)

lemma load_inode_bail: "load_inode P c i = Inl e \<Longrightarrow> e \<noteq> OutOfFuel"
  by (auto simp: load_inode_def split: option.splits)

lemma materialize_tree_fuel:
  "triple (\<lambda>w. fcard (wk_visited w) \<le> MAX_TREE_NODES \<and> fcard (wk_visited w) + fuel > MAX_TREE_NODES)
     (materialize_tree P st fuel i)
     (\<lambda>_ w. fcard (wk_visited w) \<le> MAX_TREE_NODES \<and> fcard (wk_visited w) + fuel > MAX_TREE_NODES)
     (\<lambda>e _. e \<noteq> OutOfFuel)"
proof (induction fuel arbitrary: i)
  case 0
  show ?case by (auto simp: triple_def)
next
  case (Suc fuel)
  let ?I = "\<lambda>w. fcard (wk_visited w) \<le> MAX_TREE_NODES \<and> fcard (wk_visited w) + fuel > MAX_TREE_NODES"
  have body: "triple ?I (walk_dir P st (materialize_tree P st fuel) i) (\<lambda>_. ?I) (\<lambda>e _. e \<noteq> OutOfFuel)"
    by (rule walk_dir_triple [OF Suc]) (auto dest: materialize_dir_bail load_inode_bail)
  show ?case
  proof (rule tripleI)
    fix w h w'
    assume I: "fcard (wk_visited w) \<le> MAX_TREE_NODES \<and> fcard (wk_visited w) + Suc fuel > MAX_TREE_NODES"
      and r: "materialize_tree P st (Suc fuel) i w = (Inr h, w')"
    let ?w1 = "w\<lparr>wk_visited := finsert i (wk_visited w)\<rparr>"
    have "?I ?w1" "walk_dir P st (materialize_tree P st fuel) i ?w1 = (Inr h, w')"
      using r I by (auto simp: Let_def fcard_finsert_disjoint split: if_splits)
    from tripleD [OF body this]
    show "fcard (wk_visited w') \<le> MAX_TREE_NODES \<and> fcard (wk_visited w') + Suc fuel > MAX_TREE_NODES" by simp
  next
    fix w e w'
    assume I: "fcard (wk_visited w) \<le> MAX_TREE_NODES \<and> fcard (wk_visited w) + Suc fuel > MAX_TREE_NODES"
      and r: "materialize_tree P st (Suc fuel) i w = (Inl e, w')"
    let ?w1 = "w\<lparr>wk_visited := finsert i (wk_visited w)\<rparr>"
    have "(\<exists>s. e = Bail s) \<or> ?I ?w1 \<and> walk_dir P st (materialize_tree P st fuel) i ?w1 = (Inl e, w')"
      using r I by (auto simp: Let_def fcard_finsert_disjoint split: if_splits)
    then show "e \<noteq> OutOfFuel" using tripleE [OF body] by blast
  qed
qed

lemma walk_root_never_out_of_fuel: "fst (walk_root P st c) \<noteq> Inl OutOfFuel"
proof
  let ?w = "\<lparr>wk_map = fmempty, wk_visited = {||}, wk_core = c\<rparr>"
  assume "fst (walk_root P st c) = Inl OutOfFuel"
  then have "materialize_tree P st TREE_FUEL ROOT_INODE ?w = (Inl OutOfFuel, snd (walk_root P st c))"
    by (metis prod.collapse walk_root_def)
  moreover have "fcard (wk_visited ?w) \<le> MAX_TREE_NODES \<and> fcard (wk_visited ?w) + TREE_FUEL > MAX_TREE_NODES"
    by (simp add: TREE_FUEL_def fcard.rep_eq)
  ultimately show False using tripleE [OF materialize_tree_fuel] by blast
qed

section \<open>A survey walk writes nothing and finds the same hashes\<close>

lemma in_step_walk_dir:
  assumes "\<And>i. in_step (\<lambda>w. grows c (wk_core w)) (\<lambda>w. w\<lparr>wk_core := c\<rparr>) (rec i) (rec' i)"
  shows "in_step (\<lambda>w. grows c (wk_core w)) (\<lambda>w. w\<lparr>wk_core := c\<rparr>) (walk_dir P True rec i) (walk_dir P False rec' i)"
proof -
  let ?S = "\<lambda>w. grows c (wk_core w)" and ?h = "\<lambda>w. w\<lparr>wk_core := c\<rparr>"
  have "in_step ?S ?h (walk_file P j) (walk_file P j)" for j
    unfolding walk_file_def
    by (intro in_step_bindE in_step_reads)
      (auto simp: grows_namespace split: option.split intro!: in_step_ret in_step_upd)
  then have e: "in_step ?S ?h (walk_entry P rec e) (walk_entry P rec' e)" for e
    unfolding walk_entry_def
    by (auto split: entry_type.split intro!: in_step_bindE assms in_step_ret)
  have o: "in_step ?S ?h (walk_object P True i es) (walk_object P False i es)" for es
  proof -
    have "in_step ?S ?h
       (\<lambda>w. let (h, c') = put_object P ob (wk_core w) in (Inr h, w\<lparr>wk_core := c', wk_map := fmupd i h (wk_map w)\<rparr>))
       (\<lambda>w. (Inr (object_hash P ob), w\<lparr>wk_core := wk_core w, wk_map := fmupd i (object_hash P ob) (wk_map w)\<rparr>))" for ob
    proof (rule in_stepI, goal_cases)
      case (1 w)
      obtain c' where p: "put_object P ob (wk_core w) = (object_hash P ob, c')"
        by (metis fst_put_object prod.collapse)
      then have "grows c c'" using 1 grows_put_object grows_trans by blast
      then show ?case by (simp add: p)
    qed
    then show ?thesis
      unfolding walk_object_def
      by (intro in_step_bindE in_step_reads) (auto simp: grows_namespace)
  qed
  show ?thesis
    unfolding walk_dir_def
    by (intro in_step_bindE in_step_reads in_step_for_each e o) (simp add: grows_namespace)
qed

lemma in_step_materialize_tree:
  "in_step (\<lambda>w. grows c (wk_core w)) (\<lambda>w. w\<lparr>wk_core := c\<rparr>)
     (materialize_tree P True fuel i) (materialize_tree P False fuel i)"
proof (induction fuel arbitrary: i)
  case 0
  show ?case by (simp add: in_step_def)
next
  case (Suc fuel)
  have "in_step (\<lambda>w. grows c (wk_core w)) (\<lambda>w. w\<lparr>wk_core := c\<rparr>)
      (walk_dir P True (materialize_tree P True fuel) i) (walk_dir P False (materialize_tree P False fuel) i)"
    by (rule in_step_walk_dir [OF Suc])
  note body = this [unfolded in_step_def]
  show ?case
    unfolding in_step_def
  proof (intro allI impI)
    fix w :: walk
    assume g: "grows c (wk_core w)"
    let ?w1 = "w\<lparr>wk_visited := finsert i (wk_visited w)\<rparr>"
    have eq: "w\<lparr>wk_core := c\<rparr>\<lparr>wk_visited := finsert i (wk_visited w)\<rparr> = ?w1\<lparr>wk_core := c\<rparr>" by simp
    from body [rule_format, of ?w1] g
    show "materialize_tree P False (Suc fuel) i (w\<lparr>wk_core := c\<rparr>) =
        (fst (materialize_tree P True (Suc fuel) i w), (snd (materialize_tree P True (Suc fuel) i w))\<lparr>wk_core := c\<rparr>) \<and>
        grows c (wk_core (snd (materialize_tree P True (Suc fuel) i w)))"
      by (auto simp: Let_def eq)
  qed
qed

lemma walk_root_in_step:
  "walk_root P False c = (fst (walk_root P True c), (snd (walk_root P True c))\<lparr>wk_core := c\<rparr>)"
  "grows c (wk_core (snd (walk_root P True c)))"
proof -
  let ?w = "\<lparr>wk_map = fmempty, wk_visited = {||}, wk_core = c\<rparr>"
  from in_step_materialize_tree [of c P TREE_FUEL ROOT_INODE]
  show "walk_root P False c = (fst (walk_root P True c), (snd (walk_root P True c))\<lparr>wk_core := c\<rparr>)"
    "grows c (wk_core (snd (walk_root P True c)))"
    by (auto simp: in_step_def walk_root_def dest!: spec [of _ ?w])
qed

text \<open>
  The walk that only surveys changes nothing, not even by adding an object, and computes the very hashes
  of the walk that stores; the storing walk changes no key-value row and loses no object; neither can run out of the
  fuel that stands for the bound on visited nodes.
\<close>

theorem survey_walk_agrees:
  "fst (walk_root P False c) = fst (walk_root P True c) \<and>
   wk_map (snd (walk_root P False c)) = wk_map (snd (walk_root P True c)) \<and>
   wk_core (snd (walk_root P False c)) = c \<and>
   grows c (wk_core (snd (walk_root P True c))) \<and>
   fst (walk_root P True c) \<noteq> Inl OutOfFuel"
  using walk_root_in_step(1) [of P c] walk_root_in_step(2) [of c P] walk_root_never_out_of_fuel by simp

section \<open>What the maintained map holds\<close>

definition imap_ok :: "core \<Rightarrow> bool" where
  "imap_ok c \<longleftrightarrow>
     (\<forall>k v. kv_get c CF_STATE k = Some v \<and> starts_with k IMAP_PREFIX \<longrightarrow>
        (\<exists>i. k = imap_key i) \<and> length v = 32)"

definition imap_at :: "core \<Rightarrow> u128 \<Rightarrow> hash option" where
  "imap_at c i = map_option from_be_bytes (kv_get c CF_STATE (imap_key i))"

lemma imap_at_simps [simp]:
  "imap_at (put_imap i h c) j = (if j = i then Some h else imap_at c j)"
  "imap_at (del_imap i c) j = (if j = i then None else imap_at c j)"
  "imap_at (put_blob x b c) j = imap_at c j"
  by (simp_all add: imap_at_def put_imap_def del_imap_def)

lemma imap_ok_put [simp]: "imap_ok c \<Longrightarrow> imap_ok (put_imap i h c)"
  by (auto simp: imap_ok_def put_imap_def split: if_splits)

lemma imap_ok_del: "imap_ok c \<Longrightarrow> imap_ok (kv_del cf k c)"
  by (auto simp: imap_ok_def split: if_splits)

lemma inode_map_eq:
  assumes "imap_ok c"
  shows "\<exists>m. inode_map c = Inr m \<and> sorted_wrt (<) (map fst m) \<and> (\<forall>i h. (i, h) \<in> set m \<longleftrightarrow> imap_at c i = Some h)"
proof -
  let ?rows = "kv_scan c CF_STATE IMAP_PREFIX"
  let ?f = "\<lambda>(k, v). (the (parse_imap_key k), from_be_bytes v :: hash)"
  have row: "(\<exists>i. k = imap_key i) \<and> length v = 32" if "(k, v) \<in> set ?rows" for k v
    using assms that by (auto simp: imap_ok_def in_kv_scan)
  have "inode_map c = Inr (map ?f ?rows)"
    unfolding inode_map_def
    by (rule rmap_all_Inr) (use row in \<open>fastforce simp: map_row_def\<close>)
  moreover have "sorted_wrt (<) (map fst (map ?f ?rows))"
  proof -
    have "map imap_key (map fst (map ?f ?rows)) = map fst ?rows"
      using row by (auto simp: comp_def) (metis parse_imap_key_imap_key option.sel)
    then have "sorted_wrt (<) (map imap_key (map fst (map ?f ?rows)))"
      using mem_kv.scan_sorted [of "stores c" CF_STATE IMAP_PREFIX] by (simp only:)
    then show ?thesis by (simp add: sorted_wrt_map imap_key_less)
  qed
  moreover have "(i, h) \<in> set (map ?f ?rows) \<longleftrightarrow> imap_at c i = Some h" for i h
  proof
    assume "(i, h) \<in> set (map ?f ?rows)"
    then obtain k v where kv: "(k, v) \<in> set ?rows" and "i = the (parse_imap_key k)" "h = from_be_bytes v" by auto
    moreover obtain j where "k = imap_key j" using row [OF kv] by blast
    ultimately show "imap_at c i = Some h" by (simp add: imap_at_def in_kv_scan)
  next
    assume "imap_at c i = Some h"
    then obtain v where v: "kv_get c CF_STATE (imap_key i) = Some v" "h = from_be_bytes v"
      by (auto simp: imap_at_def)
    then have "(imap_key i, v) \<in> set ?rows" by (simp add: in_kv_scan)
    then have "?f (imap_key i, v) \<in> set (map ?f ?rows)" unfolding set_map by (rule imageI)
    then show "(i, h) \<in> set (map ?f ?rows)" using v by simp
  qed
  ultimately show ?thesis by blast
qed

lemma inode_map_unique:
  assumes "imap_ok c" "sorted_wrt (<) (map fst m)" "\<And>i h. (i, h) \<in> set m \<longleftrightarrow> imap_at c i = Some h"
  shows "inode_map c = Inr m"
proof -
  obtain m' where m': "inode_map c = Inr m'" "sorted_wrt (<) (map fst m')"
    "\<forall>i h. (i, h) \<in> set m' \<longleftrightarrow> imap_at c i = Some h" using inode_map_eq [OF assms(1)] by blast
  have "set m' = set m" using m'(3) assms(3) by (auto simp: set_eq_iff)
  with m' assms(2) show ?thesis using strict_sorted_assoc_unique by blast
qed

lemma drop_stale_fold:
  "kv_get (fold (\<lambda>(key, _) c. case parse_imap_key key of
       Some inode \<Rightarrow> if inode |\<notin>| fmdom fresh then kv_del CF_STATE key c else c | None \<Rightarrow> c) rows c) cf k =
     (if cf = CF_STATE \<and> k \<in> fst ` set rows \<and> (\<exists>i. k = imap_key i \<and> i |\<notin>| fmdom fresh) then None else kv_get c cf k)"
proof (induction rows arbitrary: c)
  case (Cons row rows)
  obtain key v where row: "row = (key, v)" by (cases row)
  show ?case
  proof (cases "parse_imap_key key")
    case None
    then have "key \<noteq> imap_key i" for i by auto
    then show ?thesis using None Cons by (auto simp: row)
  next
    case (Some j)
    then have "key = imap_key j" by (simp add: parse_imap_key_Some)
    then show ?thesis using Cons by (auto simp: row)
  qed
qed simp

lemma drop_stale_get:
  "kv_get (drop_stale fresh c) cf k =
     (if cf = CF_STATE \<and> (\<exists>i. k = imap_key i \<and> i |\<notin>| fmdom fresh) then None else kv_get c cf k)"
proof -
  have "k \<in> fst ` set (kv_scan c CF_STATE IMAP_PREFIX) \<longleftrightarrow> kv_get c CF_STATE k \<noteq> None"
    if "\<exists>i. k = imap_key i" for k
    using that by (auto simp: image_iff Bex_def in_kv_scan)
  then show ?thesis unfolding drop_stale_def drop_stale_fold by auto
qed

lemma put_fresh_at:
  "imap_at (put_fresh fresh c) i = (case fmlookup fresh i of Some h \<Rightarrow> Some h | None \<Rightarrow> imap_at c i)"
proof -
  have "imap_at (fold (\<lambda>(inode, h) c. put_imap inode h c) es c) i =
      (case map_of (rev es) i of Some h \<Rightarrow> Some h | None \<Rightarrow> imap_at c i)" for es c
    by (induction es arbitrary: c) (auto simp: map_add_def split: option.splits)
  moreover have "map_of (rev (fm_entries fresh)) i = fmlookup fresh i"
    using map_of_inject_set [of "rev (fm_entries fresh)" "fm_entries fresh"] by (simp add: rev_map [symmetric])
  ultimately show ?thesis by (simp add: put_fresh_def)
qed

lemma put_fresh_ok: "imap_ok c \<Longrightarrow> imap_ok (put_fresh fresh c)"
proof -
  have "imap_ok c \<Longrightarrow> imap_ok (fold (\<lambda>(inode, h) c. put_imap inode h c) es c)" for es
    by (induction es arbitrary: c) auto
  then show "imap_ok c \<Longrightarrow> imap_ok (put_fresh fresh c)" by (simp add: put_fresh_def)
qed

lemma drop_stale_ok: "imap_ok c \<Longrightarrow> imap_ok (drop_stale fresh c)"
  unfolding imap_ok_def drop_stale_get by auto

lemma drop_stale_at: "imap_at (drop_stale fresh c) i = (if i |\<in>| fmdom fresh then imap_at c i else None)"
  by (simp add: imap_at_def drop_stale_get)

lemma rebuild_map_at:
  assumes "rebuild_inode_map P c = (Inr es, c')"
  shows "imap_at c' i = fmlookup (wk_map (snd (walk_root P True c))) i"
    and "es = fm_entries (wk_map (snd (walk_root P True c)))"
proof -
  obtain h w where w: "walk_root P True c = (Inr h, w)"
    and es: "es = fm_entries (wk_map w)" and c': "c' = put_fresh (wk_map w) (drop_stale (wk_map w) (wk_core w))"
    using assms by (auto simp: rebuild_inode_map_def split: prod.splits sum.splits)
  show "imap_at c' i = fmlookup (wk_map (snd (walk_root P True c))) i"
    by (auto simp: c' w put_fresh_at drop_stale_at fmlookup_dom_iff split: option.split)
  show "es = fm_entries (wk_map (snd (walk_root P True c)))" by (simp add: w es)
qed

lemma rebuild_reads:
  assumes "imap_ok c" and "rebuild_inode_map P c = (Inr es, c')"
  shows "inode_map c' = Inr es \<and> imap_ok c' \<and> compute_state_root P c' = Inr (commit (blake3 P) es)"
proof -
  let ?m = "wk_map (snd (walk_root P True c))"
  obtain h w where w: "walk_root P True c = (Inr h, w)"
    and c': "c' = put_fresh (wk_map w) (drop_stale (wk_map w) (wk_core w))"
    using assms(2) by (auto simp: rebuild_inode_map_def split: prod.splits sum.splits)
  have "grows c (wk_core w)" using walk_root_in_step(2) [of c P] w by simp
  then have "imap_ok (wk_core w)" using assms(1) by (simp add: imap_ok_def grows_kv)
  then have ok: "imap_ok c'" unfolding c' by (intro put_fresh_ok drop_stale_ok)
  have "inode_map c' = Inr es"
    using rebuild_map_at [OF assms(2)] by (intro inode_map_unique [OF ok]) (simp_all add: sorted_distinct_strict)
  then show ?thesis using ok by (simp add: compute_state_root_def)
qed

text \<open>
  A successful rebuild leaves exactly the walked map behind: reading the inode map back
  gives the list the rebuild returned, with no stale row and none missing, and the state root is the
  Merkle commitment of that list.
\<close>

theorem rebuild_reads_back:
  assumes "imap_ok c" and "rebuild_inode_map P c = (Inr es, c')"
  shows "inode_map c' = Inr es \<and> imap_ok c' \<and> compute_state_root P c' = Inr (commit (blake3 P) es)"
  using assms by (rule rebuild_reads)

lemma rebuild_sample: "\<exists>es c'. rebuild_inode_map sample sample_core = (Inr es, c')"
proof -
  have f: "TREE_FUEL = Suc MAX_TREE_NODES" by (simp add: TREE_FUEL_def)
  have "\<exists>h w. walk_root sample True sample_core = (Inr h, w)"
    unfolding walk_root_def f materialize_tree.simps
    by (simp add: walk_dir_def walk_object_def materialize_dir_def load_dir_def dir_object_def load_inode_def
        bindE_def MAX_TREE_NODES_def fcard.rep_eq split: prod.split)
  then show ?thesis by (auto simp: rebuild_inode_map_def)
qed

theorem rebuild_reads_back_witness:
  "\<exists>es c'. rebuild_inode_map sample sample_core = (Inr es, c') \<and> inode_map c' = Inr es"
proof -
  obtain es c' where r: "rebuild_inode_map sample sample_core = (Inr es, c')" using rebuild_sample by blast
  have "imap_ok sample_core" by (simp add: imap_ok_def)
  from rebuild_reads_back [OF this r] show ?thesis using r by blast
qed

end
