(* ===== verification/Evidence.thy ===== *)
theory Evidence
  imports Snapshot
begin

text \<open>
  Proof bundles on operations: \<open>src/crates/core/src/proof.rs\<close> up to the repository audit, which is in theory \<open>Repository_Audit\<close>.
\<close>

definition begin_proof :: "core \<Rightarrow> hash option" where
  "begin_proof c = get_state_root c"

definition finish_proof :: "prims \<Rightarrow> core \<Rightarrow> hash option \<Rightarrow> hash list \<Rightarrow> proof_bundle" where
  "finish_proof P c old_root changed =
     \<lparr>pb_mode = PM_Transparent,
      pb_bytes = enc_tproof P \<lparr>tp_old_root = old_root, tp_new_root = get_state_root c, tp_changed = changed\<rparr>\<rparr>"

definition finish_commit_proof ::
    "prims \<Rightarrow> core \<Rightarrow> hash option \<Rightarrow> u128 option \<Rightarrow> hash list \<Rightarrow> proof_bundle result" where
  "finish_commit_proof P c old_root inode changed =
     (let new_root = get_state_root c in
      rbind (case (new_root, inode) of
               (Some _, Some i) \<Rightarrow> core_inclusion_proof P c i
             | _ \<Rightarrow> Inr None) (\<lambda>entry.
      case (new_root, entry) of
        (Some r, Some e) \<Rightarrow>
          Inr \<lparr>pb_mode = PM_ZkCommit,
               pb_bytes = enc_cproof P \<lparr>cp_old_root = old_root, cp_new_root = r, cp_entry = e\<rparr>\<rparr>
      | _ \<Rightarrow> Inr (finish_proof P c old_root changed)))"

definition check_proof :: "prims \<Rightarrow> fs_op \<Rightarrow> proof_policy \<Rightarrow> unit result" where
  "check_proof P op policy =
     (if policy = PolicyNone then Inr ()
      else case op_proof op of
        None \<Rightarrow>
          if policy = PolicyRequired then Inl (Bail ''carries no proof and policy requires one'') else Inr ()
      | Some bundle \<Rightarrow>
          (case pb_mode bundle of
             PM_Transparent \<Rightarrow>
               (case dec_tproof P (pb_bytes bundle) of
                  None \<Rightarrow> Inl (Bail ''carries a malformed transparent proof'')
                | Some p \<Rightarrow>
                    if tp_new_root p = None then Inl (Bail ''records no resulting state root'') else Inr ())
           | PM_ZkCommit \<Rightarrow>
               (case dec_cproof P (pb_bytes bundle) of
                  None \<Rightarrow> Inl (Bail ''carries a malformed commitment proof'')
                | Some p \<Rightarrow> check (blake3 P) (cp_entry p) (cp_new_root p))
           | _ \<Rightarrow> Inl (Bail ''proof mode is not supported by this build'')))"

lemma check_proof_never_fuel: "check_proof P op pol \<noteq> Inl OutOfFuel"
  by (auto simp: check_proof_def check_def split: option.split proof_mode.split)

end
