(* ===== verification/Apply.thy ===== *)
theory Apply
  imports Evidence
begin

text \<open>
  Operation application: \<open>src/crates/core/src/apply.rs\<close>, the single place where filesystem state
  changes, with the pending queue. \<open>subtree_loop\<close> terminates because the code bounds the nodes it visits;
  \<open>drain_loop\<close> carries fuel, one unit per parked row, which is enough whenever the rows are filed
  under their own ids (\<open>drain_pending_ends\<close>).
\<close>

definition MAX_SUBTREE_NODES :: nat where "MAX_SUBTREE_NODES = 1000000"

datatype apply_outcome = Applied | AlreadyApplied | Pending string

datatype mutation = Done | Unmet string

section \<open>Writes that count\<close>

fun whole_loop :: "u64 \<Rightarrow> chunk_ref list \<Rightarrow> u64 \<Rightarrow> bool" where
  "whole_loop expected [] new_size = (expected = new_size)"
| "whole_loop expected (c # cs) new_size =
     (if cr_offset c \<noteq> expected then False
      else whole_loop (expected + ucast (cr_plain_len c)) cs new_size)"

definition chunks_form_whole_file :: "chunk_ref list \<Rightarrow> u64 \<Rightarrow> bool" where
  "chunks_form_whole_file chunks new_size = whole_loop 0 chunks new_size"

definition op_order_key :: "fs_op \<Rightarrow> u64 \<times> u128 \<times> u64" where
  "op_order_key op = (op_time op, opid_device (op_id op), opid_counter (op_id op))"

definition write_can_win :: "'v lww_reg \<Rightarrow> fs_op \<Rightarrow> bool" where
  "write_can_win current op \<longleftrightarrow> op_order_key op > order_key current"

section \<open>Construction and verification\<close>

definition make_op :: "prims \<Rightarrow> identity \<Rightarrow> fs_op_kind \<Rightarrow> u64 \<Rightarrow> core \<Rightarrow> fs_op \<times> core" where
  "make_op P ident kind now c =
     (let (counter, c') = next_op_counter c;
          op = \<lparr>op_id = OpId (core_device c) counter, op_time = now, op_ctx = \<lparr>deps = []\<rparr>,
                op_kind = kind, op_author = pubkey_bytes P ident, op_sig = [], op_proof = None\<rparr>
      in (op\<lparr>op_sig := sign P (id_signing ident) (signing_bytes P op)\<rparr>, c'))"

definition verify_op :: "prims \<Rightarrow> fs_op \<Rightarrow> unit result" where
  "verify_op P op =
     (if op_sig op = [] then Inl (Bail ''operation is unsigned'')
      else verify P (op_author op) (signing_bytes P op) (op_sig op))"

section \<open>Helpers of the mutations\<close>

fun first_missing_chunk :: "core \<Rightarrow> chunk_ref list \<Rightarrow> hash option" where
  "first_missing_chunk c [] = None"
| "first_missing_chunk c (chunk # chunks) =
     (if \<not> blob_has (stores c) (cr_hash chunk) then Some (cr_hash chunk) else first_missing_chunk c chunks)"

definition try_read_file :: "prims \<Rightarrow> core \<Rightarrow> u128 \<Rightarrow> bytes option result" where
  "try_read_file P c inode =
     rbind (load_inode P c inode) (\<lambda>record.
     case record of
       None \<Rightarrow> Inr None
     | Some r \<Rightarrow>
         (case ct_node_hash (lww_value (ir_content r)) of
            None \<Rightarrow> Inr (Some [])
          | Some nh \<Rightarrow>
              rbind (get_object P c nh) (\<lambda>ob.
              case ob of
                Some (FileNode file) \<Rightarrow>
                  if list_ex (\<lambda>chunk. \<not> blob_has (stores c) (cr_hash chunk)) (fn_chunks file) then Inr None
                  else rbind (materialize_file P c file) (\<lambda>b. Inr (Some b))
              | _ \<Rightarrow> Inr None)))"

function subtree_loop :: "prims \<Rightarrow> core \<Rightarrow> u128 \<Rightarrow> u128 list \<Rightarrow> u128 fset \<Rightarrow> nat \<Rightarrow> bool result" where
  "subtree_loop P c target [] seen visited = Inr False"
| "subtree_loop P c target (inode # stack) seen visited =
     (if inode |\<in>| seen then subtree_loop P c target stack seen visited
      else if visited + 1 > MAX_SUBTREE_NODES then Inl (Bail ''directory tree walk exceeded the bound'')
      else rbind (materialize_dir P c inode) (\<lambda>entries.
           if list_ex (\<lambda>e. de_inode_id e = target) entries then Inr True
           else subtree_loop P c target
                  (rev (map de_inode_id (filter (\<lambda>e. de_entry_type e = Dir) entries)) @ stack)
                  (finsert inode seen) (visited + 1)))"
  by pat_completeness auto
termination
  by (relation "(\<lambda>(P, c, t, stack, seen, visited). MAX_SUBTREE_NODES - visited) <*mlex*>
      measure (\<lambda>(P, c, t, stack, seen, visited). length stack)")
    (auto simp: mlex_prod_def)

definition subtree_contains :: "prims \<Rightarrow> core \<Rightarrow> u128 \<Rightarrow> u128 \<Rightarrow> bool result" where
  "subtree_contains P c root target =
     (if root = target then Inr True else subtree_loop P c target [root] {||} 0)"

text \<open>\<open>Iterator::max_by_key\<close>: the last of the greatest elements.\<close>

definition max_by_key :: "('a \<Rightarrow> 'k::linorder) \<Rightarrow> 'a list \<Rightarrow> 'a option" where
  "max_by_key f xs =
     foldl (\<lambda>acc x. case acc of None \<Rightarrow> Some x | Some y \<Rightarrow> if f x \<ge> f y then Some x else Some y) None xs"

section \<open>Mutations\<close>

definition mutate_create ::
    "prims \<Rightarrow> fs_op \<Rightarrow> u128 \<Rightarrow> string \<Rightarrow> u32 \<Rightarrow> entry_type \<Rightarrow> (core, mutation) comp" where
  "mutate_create P op parent name mode kind =
     bindE (lift_result (validate_name name)) (\<lambda>_.
     bindE (reads (\<lambda>c. is_dir P c parent)) (\<lambda>ok.
     if \<not> ok then ret (Unmet ''parent inode does not exist or is not a directory'')
     else
       let new_inode = inode_for_op (blake3 P) (op_id op);
           record = inode_record_new kind mode (op_time op) (opid_device (op_id op)) (opid_counter (op_id op))
       in
       bindE (upd (store_inode P new_inode record)) (\<lambda>_.
       bindE (upd (set_parent new_inode parent)) (\<lambda>_.
       bindE (if kind = Dir then upd (store_dir P new_inode or_default) else ret ()) (\<lambda>_.
       bindE (reads (\<lambda>c. load_dir P c parent)) (\<lambda>m.
       bindE (upd (store_dir P parent
               (or_add name (dot_for_op (op_id op))
                  \<lparr>ev_inode_id = new_inode, ev_entry_type = kind, ev_created = op_time op\<rparr>
                  (case m of None \<Rightarrow> or_default | Some m \<Rightarrow> m)))) (\<lambda>_.
       ret Done)))))))"

definition splice :: "bytes \<Rightarrow> u64 \<Rightarrow> bytes \<Rightarrow> u64 \<Rightarrow> bytes result" where
  "splice existing offset incoming new_size =
     (if unat offset + length incoming \<ge> 2 ^ 64 then Inl (Bail ''write offset plus length overflows'')
      else
        let justified = max (length existing) (unat offset + length incoming) in
        if unat new_size > justified then Inl (Bail ''write claims more than it supplies'')
        else
          let total = unat new_size;
              keep = min (length existing) total;
              buffer = take keep existing @ replicate (total - keep) 0;
              start = unat offset
          in Inr (if start < length buffer
                  then let stop = min (start + length incoming) (length buffer)
                       in take start buffer @ take (stop - start) incoming @ drop stop buffer
                  else buffer))"

fun gather :: "core \<Rightarrow> chunk_ref list \<Rightarrow> bytes result" where
  "gather c [] = Inr []"
| "gather c (chunk # chunks) =
     (case blob_get (stores c) (cr_hash chunk) of
        None \<Rightarrow> Inl (Bail ''chunk vanished after the availability check'')
      | Some b \<Rightarrow> rbind (gather c chunks) (\<lambda>bs. Inr (b @ bs)))"

definition write_node ::
    "prims \<Rightarrow> fs_op \<Rightarrow> u128 \<Rightarrow> u64 \<Rightarrow> chunk_ref list \<Rightarrow> u64 \<Rightarrow> file_encryption option
     \<Rightarrow> (core, string + hash) comp" where
  "write_node P op inode offset chunks new_size encryption =
     (if offset = 0 \<and> chunks_form_whole_file chunks new_size
      then (\<lambda>c. let (h, c') = make_filenode P chunks new_size (op_time op) encryption c in (Inr (Inr h), c'))
      else
        bindE (reads (\<lambda>c. try_read_file P c inode)) (\<lambda>existing.
        case existing of
          None \<Rightarrow> ret (Inl ''inode has chunks that are not available locally yet'')
        | Some old \<Rightarrow>
            bindE (reads (\<lambda>c. gather c chunks)) (\<lambda>incoming.
            bindE (lift_result (splice old offset incoming new_size)) (\<lambda>buffer.
            bindE (store_filenode_from_bytes P buffer (op_time op)) (\<lambda>h. ret (Inr h))))))"

definition content_reg :: "fs_op \<Rightarrow> hash \<Rightarrow> u64 \<Rightarrow> content_state lww_reg" where
  "content_reg op h new_size =
     lww_new \<lparr>ct_node_hash = Some h, ct_size = new_size, ct_mtime = op_time op\<rparr>
       (op_time op) (opid_device (op_id op)) (opid_counter (op_id op))"

definition mutate_write ::
    "prims \<Rightarrow> fs_op \<Rightarrow> u128 \<Rightarrow> u64 \<Rightarrow> chunk_ref list \<Rightarrow> u64 \<Rightarrow> file_encryption option
     \<Rightarrow> (core, mutation) comp" where
  "mutate_write P op inode offset chunks new_size encryption =
     bindE (reads (\<lambda>c. load_inode P c inode)) (\<lambda>record.
     case record of
       None \<Rightarrow> ret (Unmet ''inode does not exist'')
     | Some r \<Rightarrow>
         if ir_kind r \<noteq> File then raise (Bail ''inode is not a file'')
         else if \<not> write_can_win (ir_content r) op then ret Done
         else
           bindE (reads (\<lambda>c. Inr (first_missing_chunk c chunks))) (\<lambda>missing.
           if missing \<noteq> None then ret (Unmet ''write references a chunk which has not been fetched yet'')
           else
             bindE (write_node P op inode offset chunks new_size encryption) (\<lambda>node.
             case node of
               Inl reason \<Rightarrow> ret (Unmet reason)
             | Inr h \<Rightarrow>
                 bindE (upd (store_inode P inode
                         (r\<lparr>ir_content := fst (lww_merge (ir_content r) (content_reg op h new_size))\<rparr>))) (\<lambda>_.
                 ret Done))))"

definition mutate_rename ::
    "prims \<Rightarrow> fs_op \<Rightarrow> u128 \<Rightarrow> string \<Rightarrow> u128 \<Rightarrow> string \<Rightarrow> op_id list \<Rightarrow> (core, mutation) comp" where
  "mutate_rename P op old_p old_n new_p new_n observed =
     bindE (lift_result (validate_name new_n)) (\<lambda>_.
     bindE (reads (\<lambda>c. is_dir P c old_p)) (\<lambda>ok.
     if \<not> ok then ret (Unmet ''source parent does not exist or is not a directory'')
     else bindE (reads (\<lambda>c. is_dir P c new_p)) (\<lambda>ok'.
     if \<not> ok' then ret (Unmet ''destination parent does not exist or is not a directory'')
     else
       let dots = map dot_for_op observed in
       bindE (reads (\<lambda>c. load_dir P c old_p)) (\<lambda>m.
       let survivors = get_all (case m of None \<Rightarrow> or_default | Some m \<Rightarrow> m) old_n in
       case max_by_key fst (filter (\<lambda>(dot, _). dot \<in> set dots) survivors) of
         None \<Rightarrow>
           if dots = [] \<or> list_ex (\<lambda>(dot, _). dot \<in> set dots) survivors then ret Done
           else ret (Unmet ''rename source has not been created here yet'')
       | Some (_, entry) \<Rightarrow>
           bindE (if ev_entry_type entry = Dir then reads (\<lambda>c. subtree_contains P c (ev_inode_id entry) new_p)
                  else ret False) (\<lambda>inside.
           if inside then raise (Bail ''cannot move a directory into its own subtree'')
           else
             let value = \<lparr>ev_inode_id = ev_inode_id entry, ev_entry_type = ev_entry_type entry,
                          ev_created = op_time op\<rparr> in
             bindE (upd (set_parent (ev_inode_id entry) new_p)) (\<lambda>_.
             if old_p = new_p
             then bindE (reads (\<lambda>c. load_dir P c old_p)) (\<lambda>m.
                  bindE (upd (store_dir P old_p
                    (or_add new_n (dot_for_op (op_id op)) value
                      (remove_dots old_n dots (case m of None \<Rightarrow> or_default | Some m \<Rightarrow> m))))) (\<lambda>_.
                  ret Done))
             else bindE (reads (\<lambda>c. load_dir P c old_p)) (\<lambda>m.
                  bindE (upd (store_dir P old_p
                    (remove_dots old_n dots (case m of None \<Rightarrow> or_default | Some m \<Rightarrow> m)))) (\<lambda>_.
                  bindE (reads (\<lambda>c. load_dir P c new_p)) (\<lambda>m'.
                  bindE (upd (store_dir P new_p
                    (or_add new_n (dot_for_op (op_id op)) value
                      (case m' of None \<Rightarrow> or_default | Some m \<Rightarrow> m)))) (\<lambda>_.
                  ret Done))))))))))"

definition mutate_unlink :: "prims \<Rightarrow> fs_op \<Rightarrow> u128 \<Rightarrow> string \<Rightarrow> op_id list \<Rightarrow> (core, mutation) comp" where
  "mutate_unlink P op parent name observed =
     bindE (reads (\<lambda>c. is_dir P c parent)) (\<lambda>ok.
     if \<not> ok then ret (Unmet ''parent inode does not exist or is not a directory'')
     else
       bindE (reads (\<lambda>c. load_dir P c parent)) (\<lambda>m.
       bindE (upd (store_dir P parent
         (remove_dots name (map dot_for_op observed) (case m of None \<Rightarrow> or_default | Some m \<Rightarrow> m)))) (\<lambda>_.
       ret Done)))"

definition attr_reg :: "fs_op \<Rightarrow> u32 option \<Rightarrow> u32 option \<Rightarrow> u32 option \<Rightarrow> attr_state \<Rightarrow> attr_state lww_reg" where
  "attr_reg op mode uid gid current =
     lww_new \<lparr>at_mode = (case mode of None \<Rightarrow> at_mode current | Some m \<Rightarrow> m),
              at_uid = (case uid of None \<Rightarrow> at_uid current | Some u \<Rightarrow> u),
              at_gid = (case gid of None \<Rightarrow> at_gid current | Some g \<Rightarrow> g)\<rparr>
       (op_time op) (opid_device (op_id op)) (opid_counter (op_id op))"

definition mutate_setattr ::
    "prims \<Rightarrow> fs_op \<Rightarrow> u128 \<Rightarrow> u32 option \<Rightarrow> u32 option \<Rightarrow> u32 option \<Rightarrow> (core, mutation) comp" where
  "mutate_setattr P op inode mode uid gid =
     bindE (reads (\<lambda>c. load_inode P c inode)) (\<lambda>record.
     case record of
       None \<Rightarrow> ret (Unmet ''inode does not exist'')
     | Some r \<Rightarrow>
         bindE (upd (store_inode P inode
           (r\<lparr>ir_attrs := fst (lww_merge (ir_attrs r) (attr_reg op mode uid gid (lww_value (ir_attrs r))))\<rparr>))) (\<lambda>_.
         ret Done))"

definition mutate :: "prims \<Rightarrow> fs_op \<Rightarrow> (core, mutation) comp" where
  "mutate P op =
     (case op_kind op of
        Mkdir parent name mode \<Rightarrow> mutate_create P op parent name mode Dir
      | CreateFile parent name mode \<Rightarrow> mutate_create P op parent name mode File
      | Write inode offset chunks new_size encryption \<Rightarrow>
          mutate_write P op inode offset chunks new_size encryption
      | Rename old_p old_n new_p new_n observed \<Rightarrow> mutate_rename P op old_p old_n new_p new_n observed
      | Unlink parent name observed \<Rightarrow> mutate_unlink P op parent name observed
      | SetAttr inode mode uid gid \<Rightarrow> mutate_setattr P op inode mode uid gid)"

section \<open>Bookkeeping\<close>

definition maintain_inode_map :: "prims \<Rightarrow> fs_op \<Rightarrow> (core, unit) comp" where
  "maintain_inode_map P op =
     (case op_kind op of
        Mkdir parent _ _ \<Rightarrow>
          bindE (refresh_map_entry P parent) (\<lambda>_. refresh_map_entry P (inode_for_op (blake3 P) (op_id op)))
      | CreateFile parent _ _ \<Rightarrow>
          bindE (refresh_map_entry P parent) (\<lambda>_. refresh_map_entry P (inode_for_op (blake3 P) (op_id op)))
      | Write inode _ _ _ _ \<Rightarrow> refresh_map_entry P inode
      | SetAttr inode _ _ _ \<Rightarrow> refresh_map_entry P inode
      | Unlink _ _ _ \<Rightarrow> bindE (rebuild_inode_map P) (\<lambda>_. ret ())
      | Rename _ _ _ _ _ \<Rightarrow> bindE (rebuild_inode_map P) (\<lambda>_. ret ()))"

definition store_pending :: "prims \<Rightarrow> fs_op \<Rightarrow> core \<Rightarrow> core" where
  "store_pending P op c = kv_put CF_OPLOG (pending_key (op_id op)) (enc_op P op) c"

definition clear_pending :: "op_id \<Rightarrow> core \<Rightarrow> core" where
  "clear_pending i c = kv_del CF_OPLOG (pending_key i) c"

definition pending_count :: "core \<Rightarrow> nat" where
  "pending_count c = count_prefix (stores c) CF_OPLOG PENDING_PREFIX"

definition decode_pending :: "prims \<Rightarrow> bytes \<Rightarrow> fs_op result" where
  "decode_pending P v = (case dec_op P v of None \<Rightarrow> Inl (Bail ''decode pending op'') | Some op \<Rightarrow> Inr op)"

definition pending_ops :: "prims \<Rightarrow> core \<Rightarrow> fs_op list result" where
  "pending_ops P c = rmap (\<lambda>(_, v). decode_pending P v) (kv_scan c CF_OPLOG PENDING_PREFIX)"

definition finish_applied :: "prims \<Rightarrow> fs_op \<Rightarrow> (core, unit) comp" where
  "finish_applied P op =
     bindE (upd (mark_op_applied (op_id op))) (\<lambda>_.
     bindE (upd (clear_pending (op_id op))) (\<lambda>_.
     bindE (upd (observe_time (op_time op))) (\<lambda>_.
     maintain_inode_map P op)))"

section \<open>The pending queue\<close>

fun drain_rows :: "prims \<Rightarrow> (bytes \<times> bytes) list \<Rightarrow> (core, bool \<times> nat) comp" where
  "drain_rows P [] = ret (False, 0)"
| "drain_rows P ((_, v) # rows) =
     bindE (lift_result (decode_pending P v)) (\<lambda>op.
     bindE (reads (\<lambda>c. Inr (is_op_applied c (op_id op)))) (\<lambda>applied.
     if applied
     then bindE (upd (clear_pending (op_id op))) (\<lambda>_.
          bindE (drain_rows P rows) (\<lambda>(_, total). ret (True, total)))
     else
       bindE (mutate P op) (\<lambda>m.
       case m of
         Done \<Rightarrow> bindE (finish_applied P op) (\<lambda>_.
                 bindE (drain_rows P rows) (\<lambda>(_, total). ret (True, Suc total)))
       | Unmet _ \<Rightarrow> drain_rows P rows)))"

primrec drain_loop :: "prims \<Rightarrow> nat \<Rightarrow> (core, nat) comp" where
  "drain_loop P 0 = raise OutOfFuel"
| "drain_loop P (Suc fuel) =
     bindE (reads (\<lambda>c. Inr (kv_scan c CF_OPLOG PENDING_PREFIX))) (\<lambda>rows.
     if rows = [] then ret 0
     else bindE (drain_rows P rows) (\<lambda>(progressed, total).
          if \<not> progressed then ret total
          else bindE (drain_loop P fuel) (\<lambda>more. ret (total + more))))"

definition drain_pending :: "prims \<Rightarrow> (core, nat) comp" where
  "drain_pending P c = drain_loop P (Suc (length (kv_scan c CF_OPLOG PENDING_PREFIX))) c"

definition retry_pending :: "prims \<Rightarrow> (core, nat) comp" where
  "retry_pending P =
     bindE (drain_pending P) (\<lambda>applied.
     bindE (if applied > 0 then bindE (build_snapshot P) (\<lambda>_. ret ()) else ret ()) (\<lambda>_.
     ret applied))"

section \<open>The entry point\<close>

definition apply_op_inner :: "prims \<Rightarrow> fs_op \<Rightarrow> bool \<Rightarrow> (core, apply_outcome) comp" where
  "apply_op_inner P op check_policy =
     bindE (lift_result (verify_op P op)) (\<lambda>_.
     bindE (reads (\<lambda>c. if check_policy then check_proof P op (core_proofs c) else Inr ())) (\<lambda>_.
     bindE (reads (\<lambda>c. Inr (is_op_applied c (op_id op)))) (\<lambda>applied.
     if applied then ret AlreadyApplied
     else
       bindE (upd (append_op P op)) (\<lambda>_.
       bindE (mutate P op) (\<lambda>m.
       bindE (case m of
                Done \<Rightarrow> bindE (finish_applied P op) (\<lambda>_. ret Applied)
              | Unmet reason \<Rightarrow> bindE (upd (store_pending P op)) (\<lambda>_. ret (Pending reason))) (\<lambda>outcome.
       bindE (drain_pending P) (\<lambda>unblocked.
       bindE (if outcome = Applied \<or> unblocked > 0 then bindE (build_snapshot P) (\<lambda>_. ret ()) else ret ()) (\<lambda>_.
       ret outcome))))))))"

definition apply_op :: "prims \<Rightarrow> fs_op \<Rightarrow> (core, apply_outcome) comp" where
  "apply_op P op = apply_op_inner P op True"

definition apply_op_unproven :: "prims \<Rightarrow> fs_op \<Rightarrow> (core, apply_outcome) comp" where
  "apply_op_unproven P op = apply_op_inner P op False"

section \<open>Missing content\<close>

definition op_chunk_hashes :: "fs_op \<Rightarrow> hash list" where
  "op_chunk_hashes op = (case op_kind op of Write _ _ chunks _ _ \<Rightarrow> map cr_hash chunks | _ \<Rightarrow> [])"

definition missing_chunk_hashes :: "prims \<Rightarrow> core \<Rightarrow> hash list result" where
  "missing_chunk_hashes P c =
     rbind (pending_ops P c) (\<lambda>ops.
     Inr (fs_elems (fset_of_list (filter (\<lambda>h. \<not> blob_has (stores c) h) (concat (map op_chunk_hashes ops))))))"

definition missing_chunk_subset :: "core \<Rightarrow> hash list \<Rightarrow> hash list" where
  "missing_chunk_subset c hashes = filter (\<lambda>h. \<not> blob_has (stores c) h) hashes"

definition pending_wanted :: "core \<Rightarrow> u128 \<Rightarrow> fs_op list \<Rightarrow> hash list" where
  "pending_wanted c inode ops =
     concat (map (\<lambda>op. case op_kind op of
        Write target _ chunks _ _ \<Rightarrow>
          if target = inode then filter (\<lambda>h. \<not> blob_has (stores c) h) (map cr_hash chunks) else []
      | _ \<Rightarrow> []) ops)"

definition missing_chunks_for_path :: "prims \<Rightarrow> core \<Rightarrow> string \<Rightarrow> hash list result" where
  "missing_chunks_for_path P c path =
     rbind (resolve_path P c path) (\<lambda>r.
     case r of
       None \<Rightarrow> Inr []
     | Some (inode, kind) \<Rightarrow>
         if kind \<noteq> File then Inr []
         else rbind (pending_ops P c) (\<lambda>ops.
              let wanted = pending_wanted c inode ops in
              rbind (load_inode P c inode) (\<lambda>record.
              case record of
                None \<Rightarrow> Inr wanted
              | Some rec \<Rightarrow>
                  (case ct_node_hash (lww_value (ir_content rec)) of
                     None \<Rightarrow> Inr wanted
                   | Some nh \<Rightarrow>
                       rbind (get_object P c nh) (\<lambda>ob.
                       let wanted' = (case ob of
                              Some (FileNode file) \<Rightarrow>
                                wanted @ filter (\<lambda>h. \<not> blob_has (stores c) h) (map cr_hash (fn_chunks file))
                            | None \<Rightarrow> wanted @ [nh]
                            | Some _ \<Rightarrow> wanted)
                       in Inr (remdups_adj (sort wanted')))))))"

definition state_entry_count :: "core \<Rightarrow> nat" where
  "state_entry_count c = count_prefix (stores c) CF_STATE []"

end
