(* ===== verification/Core_Rel.thy ===== *)
theory Core_Rel
  imports Apply
begin

text \<open>
  Relations between the state before and the state after, kept by everything an operation does. A relation is
  given by what it says of the single writes. \<open>record_rel\<close> knows the records of the namespace, a blob filed under its hash
  and a random draw, and carries the relation through the mutations; \<open>imap_rel\<close> adds the rows of the inode map and carries
  it through their maintenance; \<open>op_rel\<close>, given also the bookkeeping rows and the logging of an operation whose signature
  verified, through the application of an operation as a whole, draining and snapshot included. A relation that holds
  across every write to the state column is an instance of the first two (\<open>write_rel\<close>) and, with the bookkeeping, of the
  third (\<open>apply_rel\<close>).
\<close>

locale record_rel =
  fixes P :: prims and R :: "core \<Rightarrow> core \<Rightarrow> bool"
  assumes refl: "R c c"
    and trans: "R a b \<Longrightarrow> R b c \<Longrightarrow> R a c"
    and records: "R c (store_dir P i m c)" "R c (store_inode P i r c)" "R c (set_parent i p c)"
    and blob: "R c (put_blob (blake3 P bs) bs c)"
    and draw: "R c (c\<lparr>draws := n\<rparr>)"
begin

lemma po: "reflp R" "transp R"
  by (auto simp: reflp_def transp_def refl intro: trans)

lemmas seq = keeps_bindE [OF po(2)] keeps_basic [OF po(1)] keeps_upd

lemma lifted: "keeps R (lift_result r)"
  by (simp add: keeps_def lift_result_def refl)

lemma put_object_rel: "put_object P ob c = (h, c') \<Longrightarrow> R c c'"
  by (auto simp: put_object_def Let_def refl blob split: if_splits)

lemma put_object:
  "keeps R (\<lambda>c. let (h, c') = put_object P ob c in (Inr (f h), c'))"
  "keeps R (\<lambda>c. case put_object P ob c of (h, c') \<Rightarrow> (Inr (f h), c'))"
  by (auto simp: keeps_def split: prod.split dest: put_object_rel)

lemma seal_loop: "keeps R (seal_loop P k i off ps)"
  by (induction ps arbitrary: i off) (auto simp: put_chunk_def intro!: seq lifted blob)

lemma draws: "keeps R (draw32 P)" "keeps R (draw24 P)"
  by (simp_all add: keeps_def draw32_def draw24_def draw)

lemma protect: "keeps R (protect_file_key P fk rk)"
proof -
  have "keeps R (seal_all P fk ks)" for ks
    by (induction ks) (auto simp: seal_one_def intro!: seq draws lifted)
  then show ?thesis unfolding protect_file_key_def by (auto intro!: seq draws lifted)
qed

lemma put_all_rel: "R c (put_all (blake3 P) bs c)"
  unfolding put_all_def
proof (induction bs arbitrary: c)
  case (Cons b bs)
  show ?case using trans [OF blob Cons] by simp
qed (simp add: refl)

lemma store_content: "keeps R (store_content P data)"
proof (rule keepsI)
  fix c r c'
  assume r: "store_content P data c = (r, c')"
  show "R c c'"
  proof (cases "cipher c")
    case None
    then show ?thesis using r put_all_rel by (auto simp: store_content_def store_chunks_layout bindE_def Let_def)
  next
    case (Some rk)
    let ?m = "bindE (new_file_key P) (\<lambda>file_key.
          bindE (seal_loop P file_key 0 0 (chunk_bytes data (max (chunk_size c) 1))) (\<lambda>refs.
          bindE (protect_file_key P file_key rk) (\<lambda>enc. ret (refs, Some enc))))"
    have "keeps R ?m" unfolding new_file_key_def by (intro seq draws seal_loop protect)
    moreover have "?m c = (r, c')" using r Some by (simp add: store_content_def)
    ultimately show ?thesis by (rule keepsD)
  qed
qed

lemma mutate_create: "keeps R (mutate_create P op parent name mode kind)"
  unfolding mutate_create_def Let_def by (auto intro!: seq lifted records)

lemma write_node: "keeps R (write_node P op inode off chunks n enc)"
proof -
  have "keeps R (store_filenode_from_bytes P data t)" for data t
    unfolding store_filenode_from_bytes_def make_filenode_def
    by (intro keeps_bindE [OF po(2)] store_content) (auto simp: keeps_def split: prod.split dest: put_object_rel)
  then show ?thesis
    unfolding write_node_def make_filenode_def by (auto intro!: seq lifted put_object split: option.split)
qed

lemma mutate_write: "keeps R (mutate_write P op inode off chunks n enc)"
  unfolding mutate_write_def by (auto intro!: seq write_node records split: option.split sum.split)

lemma mutate_rename: "keeps R (mutate_rename P op a b c d e)"
  unfolding mutate_rename_def Let_def by (auto intro!: seq lifted records split: option.split)

lemma mutate: "keeps R (mutate P op)"
  unfolding mutate_def mutate_unlink_def mutate_setattr_def
  by (auto split: fs_op_kind.split option.split intro!: mutate_create mutate_write mutate_rename seq records)

lemma walk: "R c (wk_core (snd (walk_root P st c)))"
proof -
  let ?W = "\<lambda>w w'. R (wk_core w) (wk_core w')"
  have W: "reflp ?W" "transp ?W" by (auto simp: reflp_def transp_def refl intro: trans)
  have obj: "keeps ?W (walk_object P st i es)" for i es
    by (auto simp: keeps_def walk_object_def bindE_def refl split: sum.splits prod.splits if_splits dest: put_object_rel)
  have fl: "keeps ?W (walk_file P i)" for i
    by (auto simp: keeps_def walk_file_def bindE_def refl split: sum.splits option.splits)
  have tree: "keeps ?W (materialize_tree P st fuel i)" for fuel i
  proof (induction fuel arbitrary: i)
    case (Suc fuel)
    have "keeps ?W (walk_dir P st (materialize_tree P st fuel) i)"
      unfolding walk_dir_def walk_entry_def
      by (intro keeps_bindE keeps_for_each W keeps_basic obj)
        (auto split: entry_type.split intro!: keeps_bindE W keeps_basic fl Suc)
    then have "?W w (snd (walk_dir P st (materialize_tree P st fuel) i w))" for w by (simp only: keeps_def)
    from this [of "w\<lparr>wk_visited := finsert i (wk_visited w)\<rparr>" for w] show ?case
      unfolding keeps_def by (auto simp: Let_def refl)
  qed (simp add: keeps_def refl)
  show ?thesis using tree [of TREE_FUEL ROOT_INODE] by (simp add: keeps_def walk_root_def) (metis walk.select_convs(3))
qed

end

locale imap_rel = record_rel +
  assumes rows: "R c (put_imap i h c)" "R c (del_imap i c)"
begin

lemma refresh: "keeps R (refresh_map_entry P i)"
  unfolding refresh_map_entry_def store_dir_object_def
  by (auto intro!: seq rows put_object [where f = id, simplified] split: option.split entry_type.split)

lemma drop_stale: "R c (drop_stale m c)"
proof -
  have "R c (fold (\<lambda>(key, _) c. case parse_imap_key key of
     Some inode \<Rightarrow> if inode |\<notin>| fmdom m then kv_del CF_STATE key c else c | None \<Rightarrow> c) rows c)" for rows
  proof (induction rows arbitrary: c)
    case (Cons row rows)
    have "R x (kv_del CF_STATE (imap_key j) x)" for j x using rows(2) [of x j] by (simp add: del_imap_def)
    then show ?case using Cons by (cases row) (auto simp: parse_imap_key_Some split: option.split intro: trans [OF _ Cons])
  qed (simp add: refl)
  then show ?thesis by (simp add: drop_stale_def)
qed

lemma put_fresh: "R c (put_fresh m c)"
proof -
  have "R c (fold (\<lambda>(i, h) c. put_imap i h c) es c)" for es
    by (induction es arbitrary: c) (auto intro: trans [OF rows(1)] refl)
  then show ?thesis by (simp add: put_fresh_def)
qed

lemma rebuild: "keeps R (rebuild_inode_map P)"
proof (rule keepsI)
  fix c r c'
  assume "rebuild_inode_map P c = (r, c')"
  then show "R c c'"
    using walk [of c True] trans [OF walk [of c True] trans [OF drop_stale put_fresh]]
    by (auto simp: rebuild_inode_map_def split: prod.splits sum.splits)
qed

lemma maintain: "keeps R (maintain_inode_map P op)"
  unfolding maintain_inode_map_def by (auto split: fs_op_kind.split intro!: seq refresh rebuild)

end

locale write_rel =
  fixes P :: prims and R :: "core \<Rightarrow> core \<Rightarrow> bool"
  assumes all_refl: "R c c"
    and all_trans: "R a b \<Longrightarrow> R b c \<Longrightarrow> R a c"
    and state_put: "R c (kv_put CF_STATE k v c)"
    and state_del: "R c (kv_del CF_STATE k c)"
    and any_blob: "R c (put_blob (blake3 P bs) bs c)"
    and any_draw: "R c (c\<lparr>draws := n\<rparr>)"

sublocale write_rel \<subseteq> imap_rel P R
  by unfold_locales
    (auto simp: store_dir_def store_inode_def set_parent_def put_imap_def del_imap_def state_put state_del all_refl any_blob any_draw
      intro: all_trans)

locale op_rel = imap_rel +
  assumes marked: "R c (clear_pending i (mark_op_applied i c))"
    and cleared: "is_op_applied c i \<Longrightarrow> R c (clear_pending i c)"
    and marks: "R c (observe_time t c)" "R c (store_pending P op c)" "R c (set_head h c)" "R c (set_state_root h c)"
    and accept: "verify_op P op = Inr () \<Longrightarrow> R c (append_op P op c)"
begin

lemma finish: "keeps R (finish_applied P op)"
proof -
  have "finish_applied P op = bindE (upd (\<lambda>c. clear_pending (op_id op) (mark_op_applied (op_id op) c)))
      (\<lambda>_. bindE (upd (observe_time (op_time op))) (\<lambda>_. maintain_inode_map P op))"
    by (simp add: finish_applied_def fun_eq_iff bindE_def upd_def)
  then show ?thesis by (simp only:) (intro seq marks marked maintain)
qed

lemma guarded:
  assumes "\<And>c. g c \<Longrightarrow> R c (u c)" "keeps R yes" "keeps R no"
  shows "keeps R (bindE (reads (\<lambda>c. Inr (g c))) (\<lambda>b. if b then bindE (upd u) (\<lambda>_. yes) else no))"
proof (rule keepsI)
  fix c r c'
  assume "bindE (reads (\<lambda>c. Inr (g c))) (\<lambda>b. if b then bindE (upd u) (\<lambda>_. yes) else no) c = (r, c')"
  then have "if g c then yes (u c) = (r, c') else no c = (r, c')" by (simp add: bindE_def reads_def upd_def split: if_splits)
  then show "R c c'" using assms(1) [of c] keepsD [OF assms(2)] keepsD [OF assms(3)] trans by (auto split: if_splits)
qed

lemma drain_rows: "keeps R (drain_rows P rows)"
proof (induction rows)
  case (Cons row rows)
  obtain k v where row: "row = (k, v)" by (cases row)
  show ?case
    unfolding row drain_rows.simps
    by (rule keeps_bindE [OF po(2) lifted guarded [OF cleared]])
      (auto intro!: seq mutate finish Cons split: mutation.split)
qed (auto intro!: seq)

lemma drain: "keeps R (drain_pending P)"
proof -
  have "keeps R (drain_loop P fuel)" for fuel
  proof (induction fuel)
    case (Suc fuel)
    then show ?case unfolding drain_loop.simps by (intro seq) (auto intro!: seq drain_rows)
  qed (simp add: keeps_def refl)
  then show ?thesis unfolding keeps_def drain_pending_def by blast
qed

lemma snapshot: "keeps R (build_snapshot P)"
proof -
  have "R c (set_head h c')" if "put_object P ob c = (h', c')" for c c' h h' ob
    using trans [OF put_object_rel [OF that] marks(3)] .
  then show ?thesis unfolding build_snapshot_def by (intro seq marks) (auto simp: keeps_def split: prod.split)
qed

lemma retry: "keeps R (retry_pending P)"
  unfolding retry_pending_def by (auto intro!: seq drain snapshot)

lemma apply_inner: "keeps R (apply_op_inner P op pol)"
proof (cases "verify_op P op")
  case (Inl e)
  then show ?thesis by (simp add: keeps_def apply_op_inner_def bindE_def lift_result_def refl)
next
  case (Inr u)
  then have "R c (append_op P op c)" for c by (simp add: accept)
  then show ?thesis
    unfolding apply_op_inner_def
    by (intro seq lifted) (auto intro!: seq marks mutate finish drain snapshot split: mutation.split)
qed

lemma apply_whole: "keeps R (apply_op P op)"
  unfolding apply_op_def by (rule apply_inner)

end

locale apply_rel = write_rel +
  assumes bookkeeping: "R c (mark_op_applied i c)" "R c (clear_pending i c)" "R c (observe_time t c)"
      "R c (store_pending P op c)" "R c (set_head h c)" "R c (set_state_root h c)"
    and logging: "verify_op P op = Inr () \<Longrightarrow> R c (append_op P op c)"

sublocale apply_rel \<subseteq> op_rel P R
  by unfold_locales (auto simp: bookkeeping logging intro: all_trans [OF bookkeeping(1,2)])

end
