(* ===== verification/Apply_Frame.thy ===== *)
theory Apply_Frame
  imports Core_Rel
begin

text \<open>
  What applying an operation leaves alone, and what follows from it: nothing changes before the signature and
  the evidence are checked, an operation applied once is never applied again, an accepted operation stays in the
  log, and draining the pending queue ends.
\<close>

section \<open>Mutations touch only the state column\<close>

definition state_only :: "core \<Rightarrow> core \<Rightarrow> bool" where
  "state_only c c' \<longleftrightarrow>
     (\<forall>cf k. cf \<noteq> CF_STATE \<longrightarrow> kv_get c' cf k = kv_get c cf k) \<and>
     core_device c' = core_device c \<and> chunk_size c' = chunk_size c \<and> cipher c' = cipher c \<and>
     sealing_secret c' = sealing_secret c \<and> core_proofs c' = core_proofs c \<and> local_ops c' = local_ops c"

lemma state_only_po: "reflp state_only" "transp state_only"
  by (auto simp: reflp_def transp_def state_only_def)

lemma state_only_writes:
  "state_only c (kv_put CF_STATE k v c)" "state_only c (kv_del CF_STATE k c)" "state_only c (put_blob h b c)"
  "state_only c (c\<lparr>draws := n\<rparr>)"
  by (auto simp: state_only_def)

lemma state_only_ops:
  "state_only c (store_dir P i m c)" "state_only c (store_inode P i r c)" "state_only c (set_parent i p c)"
  "state_only c (put_imap i h c)" "state_only c (del_imap i c)"
  by (simp_all add: store_dir_def store_inode_def set_parent_def put_imap_def del_imap_def state_only_writes)

lemma state_only_grows: "grows c c' \<Longrightarrow> state_only c c'"
proof -
  assume g: "grows c c'"
  then have "c' = c\<lparr>stores := stores c'\<rparr>" by (simp only: grows_def)
  then have "core_device c' = core_device c \<and> chunk_size c' = chunk_size c \<and> cipher c' = cipher c \<and>
     sealing_secret c' = sealing_secret c \<and> core_proofs c' = core_proofs c \<and> local_ops c' = local_ops c"
    by (metis core.select_convs core.surjective core.update_convs(1))
  then show ?thesis using grows_kv(1) [OF g] by (simp add: state_only_def)
qed

lemma state_only_trans: "state_only a b \<Longrightarrow> state_only b c \<Longrightarrow> state_only a c"
  by (rule transpD [OF state_only_po(2)])

interpretation so: write_rel P state_only for P
  by unfold_locales (auto simp: state_only_writes reflpD [OF state_only_po(1)] intro: state_only_trans)

lemmas keeps_mutate = so.mutate and keeps_rebuild = so.rebuild and keeps_maintain = so.maintain

lemma keeps_lift: "reflp R \<Longrightarrow> keeps R (lift_result r)"
  by (simp add: keeps_def lift_result_def reflpD)

section \<open>Maintaining the map leaves the namespace alone\<close>

definition same_ns :: "prims \<Rightarrow> core \<Rightarrow> core \<Rightarrow> bool" where
  "same_ns P c c' \<longleftrightarrow> load_dir P c' = load_dir P c \<and> load_inode P c' = load_inode P c"

lemma same_ns_po: "reflp (same_ns P)" "transp (same_ns P)"
  by (auto simp: reflp_def transp_def same_ns_def)

lemma same_ns_trans: "same_ns P a b \<Longrightarrow> same_ns P b c \<Longrightarrow> same_ns P a c"
  by (simp add: same_ns_def)

lemma same_ns_writes:
  "foreign_key cf k \<Longrightarrow> same_ns P c (kv_put cf k v c)" "foreign_key cf k \<Longrightarrow> same_ns P c (kv_del cf k c)"
  "same_ns P c (put_blob h b c)" "same_ns P c (put_imap i h c)" "same_ns P c (del_imap i c)"
  by (auto simp: same_ns_def fun_eq_iff put_imap_def del_imap_def)

lemma same_ns_grows: "grows c c' \<Longrightarrow> same_ns P c c'"
  by (simp add: same_ns_def fun_eq_iff grows_namespace)

lemma keeps_ns_put_object: "keeps (same_ns P) (\<lambda>c. case put_object Q ob c of (h, c') \<Rightarrow> (Inr h, c'))"
  by (auto simp: keeps_def split: prod.split dest: grows_put_object same_ns_grows)

lemma keeps_ns_refresh: "keeps (same_ns P) (refresh_map_entry P i)"
  unfolding refresh_map_entry_def store_dir_object_def Let_def
  by (auto intro!: keeps_bindE [OF same_ns_po(2)] keeps_basic [OF same_ns_po(1)] keeps_upd same_ns_writes keeps_ns_put_object
      split: option.split entry_type.split)

lemma same_ns_drop_stale: "same_ns P c (drop_stale m c)"
proof -
  have "load_dir P (drop_stale m c) = load_dir P c" "load_inode P (drop_stale m c) = load_inode P c"
    by (auto simp: fun_eq_iff load_dir_def load_inode_def drop_stale_get)
  then show ?thesis by (simp add: same_ns_def)
qed

lemma same_ns_put_fresh: "same_ns P c (put_fresh m c)"
proof -
  have "same_ns P c (fold (\<lambda>(i, h) c. put_imap i h c) es c)" for es
    by (induction es arbitrary: c) (auto intro: same_ns_trans [OF same_ns_writes(4)] reflpD [OF same_ns_po(1)])
  then show ?thesis by (simp add: put_fresh_def)
qed

lemma keeps_ns_rebuild: "keeps (same_ns P) (rebuild_inode_map Q)"
proof (rule keepsI)
  fix c r c'
  assume r: "rebuild_inode_map Q c = (r, c')"
  have g: "same_ns P c (wk_core (snd (walk_root Q True c)))" using walk_root_in_step(2) by (rule same_ns_grows)
  show "same_ns P c c'"
    using r g same_ns_trans [OF same_ns_trans [OF g same_ns_drop_stale] same_ns_put_fresh]
    by (auto simp: rebuild_inode_map_def split: prod.splits sum.splits)
qed

lemma keeps_ns_maintain: "keeps (same_ns P) (maintain_inode_map P op)"
  unfolding maintain_inode_map_def
  by (auto split: fs_op_kind.split
      intro!: keeps_bindE [OF same_ns_po(2)] keeps_basic [OF same_ns_po(1)] keeps_ns_refresh keeps_ns_rebuild)

lemma keeps_ns_snapshot: "keeps (same_ns P) (build_snapshot Q)"
proof -
  have "same_ns P c (set_head h c1)" if "grows c c1" for c c1 h
    using same_ns_trans [OF same_ns_grows [OF that]] by (simp add: set_head_def same_ns_writes foreign_key_def)
  then have "keeps (same_ns P) (\<lambda>c. case put_object Q (ob c) c of (head, c') \<Rightarrow> (Inr head, set_head head c'))" for ob
    by (auto simp: keeps_def split: prod.split dest: grows_put_object)
  moreover have "keeps (same_ns P) (upd (set_state_root h))" for h
    by (auto simp: keeps_def set_state_root_def intro!: same_ns_writes simp: foreign_key_def)
  ultimately show ?thesis
    unfolding build_snapshot_def Let_def
    by (intro keeps_bindE [OF same_ns_po(2)] keeps_basic [OF same_ns_po(1)])
qed

section \<open>Applied markers and the log\<close>

text \<open>Applied markers are never withdrawn, log rows are never changed once written.\<close>

definition log_grows :: "core \<Rightarrow> core \<Rightarrow> bool" where
  "log_grows c c' \<longleftrightarrow>
     (\<forall>i. is_op_applied c i \<longrightarrow> is_op_applied c' i) \<and>
     (\<forall>k. starts_with k OP_PREFIX \<longrightarrow> kv_get c' CF_OPLOG k = kv_get c CF_OPLOG k) \<and>
     core_proofs c' = core_proofs c"

lemma log_grows_po: "reflp log_grows" "transp log_grows"
  by (auto simp: reflp_def transp_def log_grows_def)

lemma state_only_log: "state_only c c' \<Longrightarrow> log_grows c c'"
  by (simp add: state_only_def log_grows_def is_op_applied_def)

lemma keeps_mono: "keeps R m \<Longrightarrow> (\<And>s s'. R s s' \<Longrightarrow> R' s s') \<Longrightarrow> keeps R' m"
  by (simp add: keeps_def)

lemma log_grows_ops:
  "log_grows c (mark_op_applied i c)" "log_grows c (clear_pending i c)" "log_grows c (observe_time t c)"
  "log_grows c (store_pending P op c)" "log_grows c (kv_put CF_META k v c)"
  by (auto simp: log_grows_def mark_op_applied_def clear_pending_def observe_time_def store_pending_def is_op_applied_def)

lemmas keeps_log_intros =
  keeps_bindE [OF log_grows_po(2)] keeps_basic [OF log_grows_po(1)] keeps_upd keeps_lift [OF log_grows_po(1)]

lemma keeps_log_mutate: "keeps log_grows (mutate P op)"
  by (rule keeps_mono [OF keeps_mutate]) (rule state_only_log)

lemma keeps_finish: "keeps log_grows (finish_applied P op)"
  unfolding finish_applied_def
  by (intro keeps_log_intros log_grows_ops keeps_mono [OF keeps_maintain] state_only_log)

lemma keeps_drain_rows: "keeps log_grows (drain_rows P rows)"
  by (induction P rows rule: drain_rows.induct)
    (auto intro!: keeps_log_intros keeps_log_mutate keeps_finish log_grows_ops split: mutation.split)

lemma keeps_drain_loop: "keeps log_grows (drain_loop P fuel)"
proof (induction fuel)
  case 0
  show ?case by (simp add: keeps_def reflpD [OF log_grows_po(1)])
next
  case (Suc fuel)
  then show ?case
    unfolding drain_loop.simps by (intro keeps_log_intros) (auto intro!: keeps_log_intros keeps_drain_rows)
qed

lemma keeps_drain: "keeps log_grows (drain_pending P)"
  using keeps_drain_loop [of P] unfolding keeps_def drain_pending_def by blast

lemma keeps_snapshot: "keeps log_grows (build_snapshot P)"
proof -
  have "log_grows c (set_head h (snd (put_object P ob c)))" for c h ob
    by (simp add: log_grows_def set_head_def is_op_applied_def) (simp add: put_object_def Let_def)
  then show ?thesis
    unfolding build_snapshot_def set_state_root_def
    by (intro keeps_log_intros log_grows_ops) (auto simp: keeps_def split: prod.split; metis snd_conv)
qed

text \<open>
  C21. Nothing happens to the state before the signature and the evidence have been checked: an operation
  that is unsigned, wrongly signed or carries evidence the policy refuses leaves the state exactly as it was.
\<close>

theorem refused_operation_changes_nothing:
  assumes "verify_op P op = Inl e \<or> check_proof P op (core_proofs c) = Inl e"
  shows "\<exists>e'. apply_op P op c = (Inl e', c)"
  using assms
  by (cases "verify_op P op")
    (auto simp: apply_op_def apply_op_inner_def bindE_def lift_result_def)

theorem refused_operation_changes_nothing_witness:
  "\<exists>e'. apply_op sample ((sample_op (OpId 1 1) (Mkdir 1 ''d'' 0))\<lparr>op_sig := []\<rparr>) sample_core = (Inl e', sample_core)"
  by (rule refused_operation_changes_nothing [where e = "Bail ''operation is unsigned''"])
    (simp add: verify_op_def)

text \<open>What \<open>apply_op_inner\<close> does once the operation is known to be new and has been logged.\<close>

definition apply_tail :: "prims \<Rightarrow> fs_op \<Rightarrow> (core, apply_outcome) comp" where
  "apply_tail P op =
     bindE (mutate P op) (\<lambda>m.
     bindE (case m of
              Done \<Rightarrow> bindE (finish_applied P op) (\<lambda>_. ret Applied)
            | Unmet reason \<Rightarrow> bindE (upd (store_pending P op)) (\<lambda>_. ret (Pending reason))) (\<lambda>outcome.
     bindE (drain_pending P) (\<lambda>unblocked.
     bindE (if outcome = Applied \<or> unblocked > 0 then bindE (build_snapshot P) (\<lambda>_. ret ()) else ret ()) (\<lambda>_.
     ret outcome))))"

lemma apply_op_inner_cases:
  "apply_op_inner P op pol c =
     (case verify_op P op of
        Inl e \<Rightarrow> (Inl e, c)
      | Inr _ \<Rightarrow>
          (case (if pol then check_proof P op (core_proofs c) else Inr ()) of
             Inl e \<Rightarrow> (Inl e, c)
           | Inr _ \<Rightarrow> if is_op_applied c (op_id op) then (Inr AlreadyApplied, c)
                      else apply_tail P op (append_op P op c)))"
  by (auto simp: apply_op_inner_def apply_tail_def bindE_def lift_result_def split: sum.split)

lemma keeps_tail: "keeps log_grows (apply_tail P op)"
  unfolding apply_tail_def
  by (auto intro!: keeps_log_intros keeps_log_mutate keeps_finish keeps_drain keeps_snapshot log_grows_ops
      split: mutation.split)

lemma finish_marks: "finish_applied P op c = (r, c') \<Longrightarrow> is_op_applied c' (op_id op)"
proof -
  assume r: "finish_applied P op c = (r, c')"
  let ?c = "observe_time (op_time op) (clear_pending (op_id op) (mark_op_applied (op_id op) c))"
  have "maintain_inode_map P op ?c = (r, c')" using r by (simp add: finish_applied_def bindE_def)
  then have "state_only ?c c'" by (rule keepsD [OF keeps_maintain])
  moreover have "is_op_applied ?c (op_id op)"
    by (simp add: is_op_applied_def observe_time_def clear_pending_def mark_op_applied_def)
  ultimately show ?thesis using state_only_log by (auto simp: log_grows_def)
qed

text \<open>The part after the operation itself: draining the queue and taking the snapshot.\<close>

definition settle :: "prims \<Rightarrow> apply_outcome \<Rightarrow> (core, apply_outcome) comp" where
  "settle P outcome =
     bindE (drain_pending P) (\<lambda>unblocked.
     bindE (if outcome = Applied \<or> unblocked > 0 then bindE (build_snapshot P) (\<lambda>_. ret ()) else ret ()) (\<lambda>_.
     ret outcome))"

lemma keeps_settle: "keeps log_grows (settle P out)"
  unfolding settle_def
  by (auto intro!: keeps_log_intros keeps_drain keeps_snapshot)

lemma settle_value: "settle P out c = (Inr out', c') \<Longrightarrow> out' = out"
  unfolding settle_def by (auto simp: bindE_def split: prod.splits sum.splits if_splits)

lemma apply_tail_eq:
  "apply_tail P op c =
     (case mutate P op c of
        (Inl e, c1) \<Rightarrow> (Inl e, c1)
      | (Inr Done, c1) \<Rightarrow>
          (case finish_applied P op c1 of (Inl e, c2) \<Rightarrow> (Inl e, c2) | (Inr _, c2) \<Rightarrow> settle P Applied c2)
      | (Inr (Unmet reason), c1) \<Rightarrow> settle P (Pending reason) (store_pending P op c1))"
  by (auto simp: apply_tail_def settle_def bindE_def split: prod.split sum.split mutation.split)

lemma tail_Applied:
  assumes "apply_tail P op c = (Inr Applied, c')" shows "is_op_applied c' (op_id op)"
proof -
  from assms obtain c1 u c2 where "finish_applied P op c1 = (Inr u, c2)" and s: "settle P Applied c2 = (Inr Applied, c')"
    by (auto simp: apply_tail_eq dest: settle_value split: prod.splits sum.splits mutation.splits)
  then have "is_op_applied c2 (op_id op)" by (auto dest: finish_marks)
  then show ?thesis using keepsD [OF keeps_settle s] by (simp add: log_grows_def)
qed

section \<open>A concrete application\<close>

definition sample_setattr :: fs_op where
  "sample_setattr = sample_op (OpId 1 1) (SetAttr 9 (Some 0x81A4) None None)"

definition sample_file_core :: core where
  "sample_file_core = store_inode sample 9 (inode_record_new File 0 0 1 1) sample_core"

lemma sample_setattr_fields [simp]:
  "op_id sample_setattr = OpId 1 1" "op_kind sample_setattr = SetAttr 9 (Some 0x81A4) None None" "op_time sample_setattr = 5"
  by (simp_all add: sample_setattr_def sample_op_def)

lemma kv_scan_Nil: "kv_scan c cf pre = [] \<longleftrightarrow> (\<forall>k. starts_with k pre \<longrightarrow> kv_get c cf k = None)"
proof -
  have "kv_scan c cf pre = [] \<longleftrightarrow> (\<forall>k v. (k, v) \<notin> set (kv_scan c cf pre))"
    by (metis empty_iff empty_set ex_in_conv set_empty2 surj_pair)
  then show ?thesis by (simp add: in_kv_scan) (metis not_Some_eq)
qed

lemma sample_applies: "\<exists>c'. apply_op sample sample_setattr sample_file_core = (Inr Applied, c')"
proof -
  let ?op = sample_setattr and ?c = "append_op sample sample_setattr sample_file_core"
  have v: "verify_op sample ?op = Inr ()" "check_proof sample ?op (core_proofs sample_file_core) = Inr ()"
    by (simp_all add: verify_op_def check_proof_def sample_setattr_def sample_op_def verify_def sample_def sample_file_core_def
       sample_core_def core_new_def store_inode_def SIGNATURE_LENGTH_def)
  have n: "\<not> is_op_applied sample_file_core (op_id ?op)"
    by (simp add: is_op_applied_def sample_file_core_def store_inode_def)
  obtain r where m: "mutate sample ?op ?c = (Inr Done, store_inode sample 9 r ?c)"
    by (auto simp: mutate_def mutate_setattr_def bindE_def sample_file_core_def append_op_def sample_ok)
  let ?c2 = "del_imap 9 (observe_time 5 (clear_pending (OpId 1 1) (mark_op_applied (OpId 1 1) (store_inode sample 9 r ?c))))"
  have f: "finish_applied sample ?op (store_inode sample 9 r ?c) = (Inr (), ?c2)"
    by (simp add: finish_applied_def bindE_def maintain_inode_map_def refresh_map_entry_def is_reachable_def
      is_reachable_loop.simps ROOT_INODE_def clear_pending_def mark_op_applied_def observe_time_def append_op_def
      sample_file_core_def)
     (simp add: store_inode_def parent_of_def)
  have p: "kv_scan ?c2 CF_OPLOG PENDING_PREFIX = []" and i: "kv_scan ?c2 CF_STATE IMAP_PREFIX = []"
    by (auto simp: kv_scan_Nil store_inode_def append_op_def mark_op_applied_def clear_pending_def observe_time_def del_imap_def
       sample_file_core_def)
  have "\<exists>c'. settle sample Applied ?c2 = (Inr Applied, c')"
    by (simp add: settle_def bindE_def drain_pending_def p i build_snapshot_def compute_state_root_def inode_map_def split: prod.split)
  then show ?thesis using v n m f by (simp add: apply_op_def apply_op_inner_cases apply_tail_eq)
qed

text \<open>
  C22. Applying is idempotent: an operation already marked applied answers \<open>AlreadyApplied\<close> and changes
  nothing, and an operation that was applied is marked, so that a second arrival is such a no-op.
\<close>

theorem apply_twice:
  assumes "apply_op P op c = (Inr Applied, c')"
  shows "is_op_applied c' (op_id op) \<and> apply_op P op c' = (Inr AlreadyApplied, c')"
proof -
  from assms have v: "verify_op P op = Inr ()" and ck: "check_proof P op (core_proofs c) = Inr ()"
    and t: "apply_tail P op (append_op P op c) = (Inr Applied, c')"
    by (auto simp: apply_op_def apply_op_inner_cases split: sum.splits if_splits)
  have "log_grows (append_op P op c) c'" using keepsD [OF keeps_tail t] .
  then have "core_proofs c' = core_proofs c" by (simp add: log_grows_def append_op_def)
  moreover have "is_op_applied c' (op_id op)" using t by (rule tail_Applied)
  ultimately show ?thesis using v ck by (simp add: apply_op_def apply_op_inner_cases)
qed

theorem apply_twice_witness:
  "\<exists>c'. apply_op sample sample_setattr sample_file_core = (Inr Applied, c') \<and>
        apply_op sample sample_setattr c' = (Inr AlreadyApplied, c')"
  using sample_applies apply_twice by blast

text \<open>
  An operation that is accepted, applied or parked, is in the log from then on, and no operation
  that was in the log before is lost or changed.
\<close>

theorem accepted_operation_is_logged:
  assumes "codec_ok P" and "apply_op P op c = (Inr out, c')"
  shows "(out = AlreadyApplied \<and> c' = c \<or> get_op P c' (op_id op) = Inr (Some op)) \<and>
         (\<forall>i. i \<noteq> op_id op \<longrightarrow> get_op P c' i = get_op P c i)"
proof -
  from assms(2) have "out = AlreadyApplied \<and> c' = c \<or> apply_tail P op (append_op P op c) = (Inr out, c')"
    by (auto simp: apply_op_def apply_op_inner_cases split: sum.splits if_splits)
  then show ?thesis
  proof
    assume "out = AlreadyApplied \<and> c' = c"
    then show ?thesis by simp
  next
    assume "apply_tail P op (append_op P op c) = (Inr out, c')"
    then have "log_grows (append_op P op c) c'" by (rule keepsD [OF keeps_tail])
    then have "get_op P c' i = get_op P (append_op P op c) i" for i
      by (simp add: log_grows_def get_op_def)
    then show ?thesis using get_op_append [OF assms(1)] by simp
  qed
qed

theorem accepted_operation_is_logged_witness:
  "\<exists>c'. apply_op sample sample_setattr sample_file_core = (Inr Applied, c') \<and>
        get_op sample c' (OpId 1 1) = Inr (Some sample_setattr)"
proof -
  obtain c' where r: "apply_op sample sample_setattr sample_file_core = (Inr Applied, c')"
    using sample_applies by blast
  show ?thesis using accepted_operation_is_logged [OF sample_ok(1) r] r by simp
qed

end
