(* ===== verification/Drain.thy ===== *)
theory Drain
  imports Apply_Frame
begin

text \<open>
  The pending queue: draining it ends, because every round that makes progress removes a row and no
  round adds one, and what is parked is exactly what was logged and not applied.
\<close>

section \<open>Nothing but the drain itself can exhaust the fuel\<close>

definition no_fuel :: "('s, 'a) comp \<Rightarrow> bool" where
  "no_fuel m \<longleftrightarrow> (\<forall>s. fst (m s) \<noteq> Inl OutOfFuel)"

definition fuel_free :: "'a result \<Rightarrow> bool" where
  "fuel_free r \<longleftrightarrow> r \<noteq> Inl OutOfFuel"

named_theorems no_fuel_intros \<open>computations that cannot report exhausted fuel\<close>

lemma no_fuel_bindE [no_fuel_intros]: "no_fuel m \<Longrightarrow> (\<And>x. no_fuel (f x)) \<Longrightarrow> no_fuel (bindE m f)"
  by (auto simp: no_fuel_def bindE_def split: prod.split sum.split) (metis fst_conv)

lemma no_fuel_basic [no_fuel_intros]:
  "no_fuel (ret x)" "no_fuel (upd g)" "no_fuel (raise (Bail s))" "no_fuel (Pair (Inr x))"
  by (simp_all add: no_fuel_def)

lemma no_fuel_reads [no_fuel_intros]: "(\<And>s. fuel_free (f s)) \<Longrightarrow> no_fuel (reads f)"
  by (simp add: no_fuel_def fuel_free_def)

lemma no_fuel_lift [no_fuel_intros]: "fuel_free r \<Longrightarrow> no_fuel (lift_result r)"
  by (simp add: no_fuel_def lift_result_def fuel_free_def)

lemma fuel_free_basic [simp, no_fuel_intros]: "fuel_free (Inr x)" "fuel_free (Inl (Bail s))" "fuel_free (Inl (NotARecipient n))"
  by (simp_all add: fuel_free_def)

lemma rbind_no_fuel [no_fuel_intros]:
  "fuel_free r \<Longrightarrow> (\<And>x. fuel_free (f x)) \<Longrightarrow> fuel_free (rbind r f)"
  by (cases r) (auto simp: fuel_free_def)

lemma load_no_fuel [no_fuel_intros, simp]:
  "fuel_free (load_dir P c i)" "fuel_free (load_inode P c i)" "fuel_free (get_object P c h)"
  "fuel_free (validate_name nm)" "fuel_free (decode_pending P v)"
  by (auto simp: load_dir_def load_inode_def get_object_def validate_name_def decode_pending_def split: option.split)

lemma materialize_no_fuel [no_fuel_intros, simp]:
  "fuel_free (materialize_dir P c i)" "fuel_free (is_dir P c i)" "fuel_free (dir_object P c i es)"
  by (auto simp: materialize_dir_def is_dir_def dir_object_def Let_def split: option.split prod.split intro!: no_fuel_intros)

lemma crypto_no_fuel [no_fuel_intros, simp]:
  "fuel_free (seal_chunk P k n m)" "fuel_free (open_chunk P k n m)"
  "fuel_free (seal_file_key P n' k f)" "fuel_free (open_file_key P k b)"
  "fuel_free (envelope_seal P k n' k' b)"
  by (auto simp: seal_chunk_def open_chunk_def seal_file_key_def open_file_key_def envelope_seal_def split: option.split)

lemma recover_no_fuel [no_fuel_intros, simp]: "fuel_free (recover_file_key P c info)"
proof -
  have "try_envelopes P s es \<noteq> Some (Inl OutOfFuel)" for s es
    by (induction es) (auto split: sum.split)
  then have "try_envelopes P s es = Some r \<Longrightarrow> fuel_free r" for s es r unfolding fuel_free_def by blast
  then show ?thesis by (auto simp: recover_file_key_def split: option.split)
qed

lemma read_no_fuel [no_fuel_intros, simp]: "fuel_free (read_chunks P c k n cs out)"
  by (induction cs arbitrary: n out) (auto split: option.split intro!: rbind_no_fuel)

lemma try_read_no_fuel [no_fuel_intros, simp]: "fuel_free (try_read_file P c i)"
  by (auto simp: try_read_file_def materialize_file_def split: option.split object.split intro!: no_fuel_intros)

lemma gather_no_fuel [no_fuel_intros, simp]: "fuel_free (gather c cs)"
  by (induction cs) (auto split: option.split intro!: no_fuel_intros)

lemma splice_no_fuel [no_fuel_intros, simp]: "fuel_free (splice a b c d)"
  by (simp add: splice_def Let_def)

lemma rmap_Inr_set: "rmap f xs = Inr ys \<Longrightarrow> y \<in> set ys \<Longrightarrow> \<exists>x\<in>set xs. f x = Inr y"
  by (induction xs arbitrary: ys) (auto simp: rbind_def split: sum.splits)

lemma rmap_no_fuel: "(\<And>x. fuel_free (f x)) \<Longrightarrow> fuel_free (rmap f xs)"
  by (induction xs) (auto intro!: rbind_no_fuel)

lemma subtree_no_fuel [no_fuel_intros, simp]: "fuel_free (subtree_contains P c r t)"
proof -
  have "fuel_free (subtree_loop P c t st seen v)" for st seen v
    by (induction P c t st seen v rule: subtree_loop.induct) (auto intro!: rbind_no_fuel)
  then show ?thesis unfolding subtree_contains_def by (auto simp del: subtree_loop.simps)
qed

lemma reachable_no_fuel [no_fuel_intros, simp]: "fuel_free (is_reachable P c i)"
proof -
  have "fuel_free (is_reachable_loop P c i h)" for h
  proof (induction P c i h rule: is_reachable_loop.induct)
    case (1 P c i h)
    then show ?case
      by (subst is_reachable_loop.simps) (auto simp: dir_lists_def split: option.split intro!: no_fuel_intros)
  qed
  then show ?thesis by (simp add: is_reachable_def)
qed

lemma draw_no_fuel [no_fuel_intros]: "no_fuel (draw32 P)" "no_fuel (draw24 P)"
  by (simp_all add: no_fuel_def draw32_def draw24_def)

lemma put_object_no_fuel [no_fuel_intros]:
  "no_fuel (\<lambda>c. let (h, c') = put_object P ob c in (Inr (f h), c'))"
  "no_fuel (\<lambda>c. case put_object P ob c of (h, c') \<Rightarrow> (Inr (f h), c'))"
  by (simp_all add: no_fuel_def split: prod.split)

lemma sealing_recipients_no_fuel [no_fuel_intros, simp]: "fuel_free (sealing_recipient_keys P c)"
proof -
  have "fuel_free (peer_seal_key c d)" for d by (auto simp: peer_seal_key_def split: option.split)
  then have "fuel_free (enrolled_loop c rows)" for rows
    by (induction c rows rule: enrolled_loop.induct) (auto simp: Let_def intro!: no_fuel_intros)
  then show ?thesis
    unfolding sealing_recipient_keys_def sealing_recipients_def enrolled_peers_def
    by (auto intro!: no_fuel_intros split: option.split)
qed

lemma protect_no_fuel [no_fuel_intros]: "no_fuel (protect_file_key P fk rk)"
proof -
  have "no_fuel (seal_all P fk ks)" for ks
    by (induction ks) (auto simp: seal_one_def intro!: no_fuel_intros)
  then show ?thesis unfolding protect_file_key_def by (auto intro!: no_fuel_intros)
qed

lemma store_content_no_fuel [no_fuel_intros]: "no_fuel (store_content P data)"
proof -
  have "no_fuel (seal_loop P k i off ps)" for k i off ps
    by (induction ps arbitrary: i off) (auto simp: put_chunk_def intro!: no_fuel_intros)
  then have "no_fuel (bindE (new_file_key P) (\<lambda>file_key.
          bindE (seal_loop P file_key 0 0 ps) (\<lambda>refs.
          bindE (protect_file_key P file_key rk) (\<lambda>enc. ret (refs, Some enc)))))" for ps rk
    unfolding new_file_key_def by (auto intro!: no_fuel_intros)
  then show ?thesis
    unfolding no_fuel_def store_content_def
    by (auto simp: store_chunks_layout bindE_def Let_def split: option.split)
qed

lemma write_node_no_fuel [no_fuel_intros]: "no_fuel (write_node P op i off cs n enc)"
  unfolding write_node_def store_filenode_from_bytes_def make_filenode_def
  by (auto intro!: no_fuel_intros put_object_no_fuel [where f = id, simplified] split: option.split prod.split)

lemma mutate_no_fuel [no_fuel_intros]: "no_fuel (mutate P op)"
proof -
  have "no_fuel (mutate_create P op a b c d)" for a b c d
    unfolding mutate_create_def Let_def by (auto intro!: no_fuel_intros)
  moreover have "no_fuel (mutate_write P op a b c d e)" for a b c d e
    unfolding mutate_write_def by (auto intro!: no_fuel_intros split: option.split sum.split)
  moreover have "no_fuel (mutate_rename P op a b c d e)" for a b c d e
    unfolding mutate_rename_def Let_def by (auto intro!: no_fuel_intros split: option.split)
  ultimately show ?thesis
    unfolding mutate_def mutate_unlink_def mutate_setattr_def
    by (auto intro!: no_fuel_intros split: fs_op_kind.split option.split)
qed

lemma rebuild_no_fuel [no_fuel_intros]: "no_fuel (rebuild_inode_map P)"
  unfolding no_fuel_def rebuild_inode_map_def
  using walk_root_never_out_of_fuel [of P True] by (auto split: prod.split sum.split) (metis fst_conv)

lemma finish_no_fuel [no_fuel_intros]: "no_fuel (finish_applied P op)"
proof -
  have "no_fuel (refresh_map_entry P i)" for i
    unfolding refresh_map_entry_def store_dir_object_def
    by (auto intro!: no_fuel_intros put_object_no_fuel [where f = id, simplified] split: option.split entry_type.split)
  then show ?thesis
    unfolding finish_applied_def maintain_inode_map_def
    by (auto intro!: no_fuel_intros split: fs_op_kind.split)
qed

lemma drain_rows_no_fuel [no_fuel_intros]: "no_fuel (drain_rows P rows)"
  by (induction P rows rule: drain_rows.induct) (auto intro!: no_fuel_intros split: mutation.split)

section \<open>An unmet operation changes nothing\<close>

lemma mutate_create_Unmet: "mutate_create P op p nm md kd c = (Inr (Unmet r), c') \<Longrightarrow> c' = c"
  by (auto simp: mutate_create_def lift_result_def bindE_def Let_def split: sum.splits if_splits)

lemma write_node_Inl: "write_node P op i off cs n enc c = (Inr (Inl r), c') \<Longrightarrow> c' = c"
  by (auto simp: write_node_def lift_result_def bindE_def Let_def split: sum.splits if_splits option.splits prod.splits)

lemma mutate_write_Unmet: "mutate_write P op i off cs n enc c = (Inr (Unmet r), c') \<Longrightarrow> c' = c"
  by (auto simp: mutate_write_def bindE_def split: sum.splits if_splits option.splits prod.splits dest: write_node_Inl)

lemma mutate_rename_Unmet: "mutate_rename P op a b d e obs c = (Inr (Unmet r), c') \<Longrightarrow> c' = c"
  by (auto simp: mutate_rename_def lift_result_def bindE_def Let_def split: sum.splits if_splits option.splits prod.splits)

lemma mutate_Unmet: "mutate P op c = (Inr (Unmet r), c') \<Longrightarrow> c' = c"
  by (auto simp: mutate_def mutate_unlink_def mutate_setattr_def bindE_def
      split: fs_op_kind.splits sum.splits if_splits option.splits
      dest: mutate_create_Unmet mutate_write_Unmet mutate_rename_Unmet)

section \<open>The queue only shrinks\<close>

definition parked :: "core \<Rightarrow> bytes \<Rightarrow> bytes option" where
  "parked c k = (if starts_with k PENDING_PREFIX then kv_get c CF_OPLOG k else None)"

definition pending_ok :: "prims \<Rightarrow> core \<Rightarrow> bool" where
  "pending_ok P c \<longleftrightarrow> (\<forall>k v. parked c k = Some v \<longrightarrow> (\<exists>op. k = pending_key (op_id op) \<and> decode_pending P v = Inr op))"

definition queue_shrinks :: "core \<Rightarrow> core \<Rightarrow> bool" where
  "queue_shrinks c c' \<longleftrightarrow> (\<forall>k v. parked c' k = Some v \<longrightarrow> parked c k = Some v)"

lemma queue_shrinks_po: "reflp queue_shrinks" "transp queue_shrinks"
  by (auto simp: reflp_def transp_def queue_shrinks_def)

lemma queue_shrinks_ok: "queue_shrinks c c' \<Longrightarrow> pending_ok P c \<Longrightarrow> pending_ok P c'"
  by (auto simp: queue_shrinks_def pending_ok_def)

lemma state_only_queue: "state_only c c' \<Longrightarrow> queue_shrinks c c'"
  by (auto simp: state_only_def queue_shrinks_def parked_def)

lemma queue_shrinks_ops:
  "queue_shrinks c (mark_op_applied i c)" "queue_shrinks c (clear_pending i c)" "queue_shrinks c (observe_time t c)"
  by (auto simp: queue_shrinks_def parked_def mark_op_applied_def clear_pending_def observe_time_def)

lemmas keeps_queue_intros =
  keeps_bindE [OF queue_shrinks_po(2)] keeps_basic [OF queue_shrinks_po(1)] keeps_upd keeps_lift [OF queue_shrinks_po(1)]

lemma keeps_queue_mutate: "keeps queue_shrinks (mutate P op)"
  by (rule keeps_mono [OF keeps_mutate]) (rule state_only_queue)

lemma keeps_queue_finish: "keeps queue_shrinks (finish_applied P op)"
  unfolding finish_applied_def
  by (intro keeps_queue_intros queue_shrinks_ops keeps_mono [OF keeps_maintain] state_only_queue)

lemma keeps_queue_rows: "keeps queue_shrinks (drain_rows P rows)"
  by (induction P rows rule: drain_rows.induct)
    (auto intro!: keeps_queue_intros keeps_queue_mutate keeps_queue_finish queue_shrinks_ops split: mutation.split)

lemma queue_shrinks_None: "queue_shrinks c c' \<Longrightarrow> parked c k = None \<Longrightarrow> parked c' k = None"
  by (metis not_Some_eq queue_shrinks_def)

lemma clear_parked: "parked (clear_pending i c) (pending_key i) = None"
  by (simp add: parked_def clear_pending_def)

lemma finish_clears:
  assumes "finish_applied P op c = (r, c')" shows "parked c' (pending_key (op_id op)) = None"
proof -
  let ?c = "observe_time (op_time op) (clear_pending (op_id op) (mark_op_applied (op_id op) c))"
  have "maintain_inode_map P op ?c = (r, c')" using assms by (simp add: finish_applied_def bindE_def)
  then have "queue_shrinks ?c c'" using keepsD [OF keeps_maintain] state_only_queue by blast
  moreover have "parked ?c (pending_key (op_id op)) = None"
    using queue_shrinks_None [OF queue_shrinks_ops(3) clear_parked] .
  ultimately show ?thesis by (rule queue_shrinks_None)
qed

text \<open>One round over the rows: progress removes a row; without progress every row was tried in vain.\<close>

definition stuck :: "prims \<Rightarrow> core \<Rightarrow> fs_op \<Rightarrow> bool" where
  "stuck P c op \<longleftrightarrow> \<not> is_op_applied c (op_id op) \<and> (\<exists>r. mutate P op c = (Inr (Unmet r), c))"

lemma drain_rows_round:
  assumes "drain_rows P rows c = (Inr (progressed, n), c')"
    and "\<forall>(k, v)\<in>set rows. \<exists>op. k = pending_key (op_id op) \<and> decode_pending P v = Inr op"
  shows "if progressed then \<exists>(k, v)\<in>set rows. parked c' k = None
         else c' = c \<and> (\<forall>(k, v)\<in>set rows. \<forall>op. decode_pending P v = Inr op \<longrightarrow> stuck P c op)"
  using assms
proof (induction rows arbitrary: c progressed n)
  case Nil
  then show ?case by simp
next
  case (Cons row rows)
  obtain k v where row: "row = (k, v)" by (cases row)
  obtain op where k: "k = pending_key (op_id op)" and v: "decode_pending P v = Inr op"
    using Cons.prems(2) row by auto
  have rest: "\<forall>(k, v)\<in>set rows. \<exists>op. k = pending_key (op_id op) \<and> decode_pending P v = Inr op"
    using Cons.prems(2) by simp
  show ?case
  proof (cases "is_op_applied c (op_id op)")
    case True
    then obtain x where r: "drain_rows P rows (clear_pending (op_id op) c) = (Inr x, c')" and p: progressed
      using Cons.prems(1) v by (auto simp: row bindE_def lift_result_def split: prod.splits sum.splits)
    have "parked c' k = None"
      unfolding k by (rule queue_shrinks_None [OF keepsD [OF keeps_queue_rows r] clear_parked])
    then show ?thesis using p row by auto
  next
    case False
    obtain m c1 where m: "mutate P op c = (Inr m, c1)"
      using Cons.prems(1) v False by (auto simp: row bindE_def lift_result_def split: prod.splits sum.splits)
    show ?thesis
    proof (cases m)
      case Done
      then obtain u c2 x where f: "finish_applied P op c1 = (Inr u, c2)" and r: "drain_rows P rows c2 = (Inr x, c')"
        and p: progressed
        using Cons.prems(1) v m False by (auto simp: row bindE_def lift_result_def split: prod.splits sum.splits)
      have "parked c' k = None"
        unfolding k by (rule queue_shrinks_None [OF keepsD [OF keeps_queue_rows r] finish_clears [OF f]])
      then show ?thesis using p row by auto
    next
      case (Unmet reason)
      then have c1: "c1 = c" using m mutate_Unmet by blast
      then have r: "drain_rows P rows c = (Inr (progressed, n), c')"
        using Cons.prems(1) v m Unmet False by (auto simp: row bindE_def lift_result_def)
      have "stuck P c op" using m Unmet c1 False by (simp add: stuck_def)
      then show ?thesis using Cons.IH [OF r rest] v row by (auto split: if_splits)
    qed
  qed
qed

abbreviation queue :: "core \<Rightarrow> (bytes \<times> bytes) list" where
  "queue c \<equiv> kv_scan c CF_OPLOG PENDING_PREFIX"

lemma in_queue: "(k, v) \<in> set (queue c) \<longleftrightarrow> parked c k = Some v"
  by (auto simp: in_kv_scan parked_def)

lemma queue_shorter:
  assumes "queue_shrinks c c'" "(k, v) \<in> set (queue c)" "parked c' k = None"
  shows "length (queue c') < length (queue c)"
proof -
  have d: "distinct (queue x)" for x
    using mem_kv.scan_distinct [of "stores x" CF_OPLOG PENDING_PREFIX] by (simp add: distinct_map)
  have sub: "set (queue c') \<subseteq> set (queue c)" using assms(1) by (auto simp: in_queue queue_shrinks_def)
  moreover have "(k, v) \<notin> set (queue c')" using assms(3) by (simp add: in_queue)
  ultimately have "set (queue c') \<subset> set (queue c)" using assms(2) by blast
  then have "card (set (queue c')) < card (set (queue c))" by (simp add: psubset_card_mono)
  then show ?thesis using d by (simp add: distinct_card)
qed

lemma queue_ok: "pending_ok P c \<Longrightarrow> \<forall>(k, v)\<in>set (queue c). \<exists>op. k = pending_key (op_id op) \<and> decode_pending P v = Inr op"
  by (auto simp: in_queue pending_ok_def)

lemma drain_loop_ends:
  assumes "pending_ok P c" "length (queue c) < fuel"
  shows "fst (drain_loop P fuel c) \<noteq> Inl OutOfFuel"
  using assms
proof (induction fuel arbitrary: c)
  case (Suc fuel)
  show ?case
  proof (cases "queue c = []")
    case False
    obtain r c1 where r: "drain_rows P (queue c) c = (r, c1)" by (cases "drain_rows P (queue c) c")
    have nf: "r \<noteq> Inl OutOfFuel" using drain_rows_no_fuel r by (metis fst_conv no_fuel_def)
    have shr: "queue_shrinks c c1" using keepsD [OF keeps_queue_rows r] .
    have "fst (drain_loop P fuel c1) \<noteq> Inl OutOfFuel" if "r = Inr (True, n)" for n
    proof -
      from drain_rows_round [OF r [unfolded that] queue_ok [OF Suc.prems(1)]]
      obtain k v where "(k, v) \<in> set (queue c)" "parked c1 k = None" by auto
      then have "length (queue c1) < length (queue c)" using queue_shorter [OF shr] by blast
      then show ?thesis using Suc.IH [OF queue_shrinks_ok [OF shr Suc.prems(1)]] Suc.prems(2) by simp
    qed
    then show ?thesis using False nf by (auto simp: bindE_def r split: sum.split prod.split)
  qed (simp add: bindE_def)
qed simp

lemma drain_loop_settles:
  assumes "pending_ok P c" "drain_loop P fuel c = (Inr n, c')"
  shows "queue_shrinks c c' \<and> (\<forall>(k, v)\<in>set (queue c'). \<forall>op. decode_pending P v = Inr op \<longrightarrow> stuck P c' op)"
  using assms
proof (induction fuel arbitrary: c n)
  case (Suc fuel)
  show ?case
  proof (cases "queue c = []")
    case True
    then show ?thesis using Suc.prems by (simp add: bindE_def reflpD [OF queue_shrinks_po(1)])
  next
    case False
    then obtain p t c1 where r: "drain_rows P (queue c) c = (Inr (p, t), c1)"
      and rest: "if p then \<exists>m. drain_loop P fuel c1 = (Inr m, c') else c' = c1"
      using Suc.prems(2) by (auto simp: bindE_def split: sum.splits prod.splits if_splits)
    have shr: "queue_shrinks c c1" using keepsD [OF keeps_queue_rows r] .
    note round = drain_rows_round [OF r queue_ok [OF Suc.prems(1)]]
    show ?thesis
    proof (cases p)
      case True
      then obtain m where "drain_loop P fuel c1 = (Inr m, c')" using rest by auto
      from Suc.IH [OF queue_shrinks_ok [OF shr Suc.prems(1)] this] show ?thesis
        using transpD [OF queue_shrinks_po(2) shr] by blast
    next
      case False
      then show ?thesis using round rest shr by auto
    qed
  qed
qed simp

text \<open>
  C23. Draining the pending queue always ends, whatever the parked operations are. When it succeeds, nothing was
  added to the queue, and every operation still parked is one that is not applied and that the final state
  still refuses as unmet: no operation that could be applied is left waiting.
\<close>

theorem drain_pending_settles:
  assumes "pending_ok P c"
  shows "fst (drain_pending P c) \<noteq> Inl OutOfFuel \<and>
         (\<forall>n c'. drain_pending P c = (Inr n, c') \<longrightarrow>
            pending_ok P c' \<and> set (queue c') \<subseteq> set (queue c) \<and>
            (\<forall>ops. pending_ops P c' = Inr ops \<longrightarrow> (\<forall>op\<in>set ops. stuck P c' op)))"
proof (intro conjI allI impI)
  show "fst (drain_pending P c) \<noteq> Inl OutOfFuel"
    unfolding drain_pending_def by (rule drain_loop_ends [OF assms]) simp
  fix n c'
  assume r: "drain_pending P c = (Inr n, c')"
  note s = drain_loop_settles [OF assms r [unfolded drain_pending_def]]
  then show "pending_ok P c'" using queue_shrinks_ok assms by blast
  show "set (queue c') \<subseteq> set (queue c)" using s by (auto simp: in_queue queue_shrinks_def)
  fix ops
  assume "pending_ops P c' = Inr ops"
  then have "\<forall>op\<in>set ops. \<exists>(k, v)\<in>set (queue c'). decode_pending P v = Inr op"
    unfolding pending_ops_def by (fastforce dest: rmap_Inr_set)
  then show "\<forall>op\<in>set ops. stuck P c' op" using s by blast
qed

definition sample_parked_core :: core where
  "sample_parked_core = store_pending sample sample_setattr sample_core"

lemma pending_ok_store:
  assumes "codec_ok P" "pending_ok P c" shows "pending_ok P (store_pending P op c)"
  unfolding pending_ok_def
proof (intro allI impI)
  fix k v
  assume v: "parked (store_pending P op c) k = Some v"
  show "\<exists>op. k = pending_key (op_id op) \<and> decode_pending P v = Inr op"
  proof (cases "k = pending_key (op_id op)")
    case True
    then have "v = enc_op P op" using v by (simp add: parked_def store_pending_def)
    then have "decode_pending P v = Inr op" using assms(1) by (simp add: decode_pending_def)
    then show ?thesis using True by blast
  next
    case False
    then have "parked c k = Some v" using v by (simp add: parked_def store_pending_def split: if_splits)
    then show ?thesis using assms(2) by (simp add: pending_ok_def)
  qed
qed

lemma pending_ok_sample: "pending_ok sample sample_parked_core"
  unfolding sample_parked_core_def
  by (rule pending_ok_store [OF sample_ok(1)]) (simp add: pending_ok_def parked_def)

theorem drain_pending_settles_witness:
  "pending_ok sample sample_parked_core \<and> queue sample_parked_core \<noteq> [] \<and>
   fst (drain_pending sample sample_parked_core) \<noteq> Inl OutOfFuel"
proof -
  have "(pending_key (OpId 1 1), enc_op sample sample_setattr) \<in> set (queue sample_parked_core)"
    by (simp add: in_queue parked_def sample_parked_core_def store_pending_def)
  then show ?thesis using drain_pending_settles [OF pending_ok_sample] pending_ok_sample by auto
qed

end
