(* ===== verification/Format.thy ===== *)
theory Format
  imports Drain
begin

text \<open>
  Format stamps and repository creation: \<open>src/crates/core/src/format.rs\<close> and \<open>bootstrap_if_needed\<close> of \<open>state.rs\<close>.
  The migration loop carries fuel; four rounds are enough because every round that continues has raised the stamp
  and a stamp below three is the only one that continues (\<open>migrate_ends\<close>).
\<close>

section \<open>The stamp\<close>

definition CURRENT_FORMAT_VERSION :: u32 where "CURRENT_FORMAT_VERSION = 3"

definition FIRST_FORMAT_VERSION :: u32 where "FIRST_FORMAT_VERSION = 1"

datatype format_state = Current | NeedsMigration u32 | FormatTooNew u32

definition format_version :: "core \<Rightarrow> u32 option result" where
  "format_version c =
     (case kv_get c CF_META KEY_FORMAT_VERSION of
        None \<Rightarrow> Inr None
      | Some raw \<Rightarrow> if length raw \<noteq> 4 then Inl (Bail ''format version record has the wrong length'')
                    else Inr (Some (from_be_bytes raw)))"

definition set_format_version :: "u32 \<Rightarrow> core \<Rightarrow> core" where
  "set_format_version version c = kv_put CF_META KEY_FORMAT_VERSION (to_be_bytes 4 version) c"

definition stamp_current_format :: "core \<Rightarrow> core" where
  "stamp_current_format = set_format_version CURRENT_FORMAT_VERSION"

definition classify_format :: "u32 \<Rightarrow> format_state" where
  "classify_format found =
     (if found = CURRENT_FORMAT_VERSION then Current
      else if found < CURRENT_FORMAT_VERSION then NeedsMigration found else FormatTooNew found)"

definition check_format :: "(core, format_state) comp" where
  "check_format =
     bindE (reads format_version) (\<lambda>stamp.
     bindE (case stamp of
              Some v \<Rightarrow> ret v
            | None \<Rightarrow>
                bindE (reads (\<lambda>c. Inr (if get_head c \<noteq> None then FIRST_FORMAT_VERSION else CURRENT_FORMAT_VERSION))) (\<lambda>version.
                bindE (upd (set_format_version version)) (\<lambda>_. ret version))) (\<lambda>found.
     ret (classify_format found)))"

definition require_current_format :: "(core, unit) comp" where
  "require_current_format =
     bindE check_format (\<lambda>st.
     case st of
       Current \<Rightarrow> ret ()
     | NeedsMigration found \<Rightarrow> raise (NeedsMigrate found)
     | FormatTooNew found \<Rightarrow> raise (TooNew found))"

section \<open>Migration\<close>

definition stale_objects :: "prims \<Rightarrow> core \<Rightarrow> (u128 \<times> hash) list \<Rightarrow> nat" where
  "stale_objects P c m = length (filter (\<lambda>(_, h). isl (get_object P c h)) m)"

definition stale_ops :: "prims \<Rightarrow> core \<Rightarrow> nat" where
  "stale_ops P c = length (filter (\<lambda>(_, b). dec_op P b = None) (kv_scan c CF_OPLOG OP_PREFIX))"

definition migrate_v2_to_v3 :: "prims \<Rightarrow> (core, unit) comp" where
  "migrate_v2_to_v3 P =
     bindE (reads (\<lambda>c. rbind (inode_map c) (\<lambda>m. Inr (stale_objects P c m + stale_ops P c)))) (\<lambda>stale.
     if stale > 0 then raise (StaleRecords stale) else upd (set_format_version 3))"

definition migrate_step :: "prims \<Rightarrow> u32 \<Rightarrow> (core, unit) comp" where
  "migrate_step P from =
     (if from = 1 then bindE (build_snapshot P) (\<lambda>_. upd (set_format_version 2))
      else if from = 2 then migrate_v2_to_v3 P
      else raise (Bail ''no migration is implemented from this on-disk format''))"

primrec migrate_loop :: "prims \<Rightarrow> nat \<Rightarrow> (core, u32 list) comp" where
  "migrate_loop P 0 = raise OutOfFuel"
| "migrate_loop P (Suc fuel) =
     bindE check_format (\<lambda>st.
     case st of
       Current \<Rightarrow> ret []
     | FormatTooNew found \<Rightarrow> raise (TooNew found)
     | NeedsMigration found \<Rightarrow>
         bindE (migrate_step P found) (\<lambda>_.
         bindE (reads format_version) (\<lambda>stamp.
         let now = (case stamp of None \<Rightarrow> found | Some v \<Rightarrow> v) in
         if now \<le> found then raise (Bail ''migration did not advance the recorded version'')
         else bindE (migrate_loop P fuel) (\<lambda>applied. ret (now # applied)))))"

definition migrate :: "prims \<Rightarrow> (core, u32 list) comp" where
  "migrate P = migrate_loop P (Suc (unat CURRENT_FORMAT_VERSION))"

section \<open>Bootstrap\<close>

definition bootstrap_if_needed :: "prims \<Rightarrow> (core, unit) comp" where
  "bootstrap_if_needed P =
     bindE (reads (\<lambda>c. Inr (get_head c))) (\<lambda>head.
     if head \<noteq> None then ret ()
     else
       bindE (upd (store_inode P ROOT_INODE (inode_record_new Dir 0x41ED 0 0 0))) (\<lambda>_.
       bindE (upd (store_dir P ROOT_INODE or_default)) (\<lambda>_.
       bindE (rebuild_inode_map P) (\<lambda>_.
       bindE (build_snapshot P) (\<lambda>_.
       upd stamp_current_format)))))"

section \<open>What the stamp says\<close>

lemma u32_be_roundtrip [simp]: "from_be_bytes (to_be_bytes 4 w) = w" for w :: u32
  by (rule from_to_be_bytes) simp

lemma format_version_set [simp]: "format_version (set_format_version v c) = Inr (Some v)"
  by (simp add: format_version_def set_format_version_def)

lemma check_format_stamped:
  "format_version c = Inr (Some v) \<Longrightarrow> check_format c = (Inr (classify_format v), c)"
  by (simp add: check_format_def bindE_def)

text \<open>The version a repository counts as: its stamp, or what an unstamped one is taken for.\<close>

definition effective_version :: "core \<Rightarrow> u32" where
  "effective_version c =
     (case format_version c of
        Inr (Some v) \<Rightarrow> v
      | _ \<Rightarrow> if get_head c \<noteq> None then FIRST_FORMAT_VERSION else CURRENT_FORMAT_VERSION)"

definition stamped :: "core \<Rightarrow> core" where
  "stamped c = (if format_version c = Inr None then set_format_version (effective_version c) c else c)"

lemma check_format_eq:
  "check_format c = (case format_version c of Inl e \<Rightarrow> (Inl e, c) | Inr _ \<Rightarrow> (Inr (classify_format (effective_version c)), stamped c))"
  by (auto simp: check_format_def bindE_def effective_version_def stamped_def split: sum.split option.split)

lemma format_version_stamped:
  "format_version c = Inr x \<Longrightarrow> format_version (stamped c) = Inr (Some (effective_version c))"
  by (cases x) (auto simp: stamped_def effective_version_def)

text \<open>
  A repository opens exactly when it is on the format of this build. An unstamped one is taken for the first
  format when it has a head and for the current one when it has none; anything older is refused as needing migration,
  anything newer as unreadable, and opening changes nothing but an absent stamp.
\<close>

theorem require_current_format_exact:
  "require_current_format c =
     (case format_version c of
        Inl e \<Rightarrow> (Inl e, c)
      | Inr _ \<Rightarrow>
          (if effective_version c = CURRENT_FORMAT_VERSION then Inr ()
           else if effective_version c < CURRENT_FORMAT_VERSION then Inl (NeedsMigrate (effective_version c))
           else Inl (TooNew (effective_version c)), stamped c))"
  by (simp add: require_current_format_def bindE_def check_format_eq classify_format_def split: sum.split)

section \<open>Migration\<close>

lemma build_snapshot_frame:
  assumes "build_snapshot P c = (r, c')"
  shows "format_version c' = format_version c \<and> (get_head c \<noteq> None \<longrightarrow> get_head c' \<noteq> None)"
proof -
  have "kv_get c' CF_META KEY_FORMAT_VERSION = kv_get c CF_META KEY_FORMAT_VERSION \<and> (get_head c \<noteq> None \<longrightarrow> get_head c' \<noteq> None)"
    using assms
    by (auto simp: build_snapshot_def bindE_def set_state_root_def set_head_def put_object_def Let_def get_head_def read_hash_def
        split: sum.splits prod.splits if_splits option.splits)
  then show ?thesis by (simp add: format_version_def)
qed

lemma build_snapshot_ok:
  assumes "compute_state_root P c = Inr root"
  shows "\<exists>h c2. build_snapshot P c = (Inr h, c2) \<and> get_state_root c2 = Some root \<and> get_head c2 = Some h"
proof -
  let ?c = "set_state_root root c"
  let ?ob = "SnapshotRoot (new_snapshot_root ROOT_INODE (Some root) (core_device ?c) (state_time ?c))"
  obtain c1 where po: "put_object P ?ob ?c = (object_hash P ?ob, c1)" and g: "grows ?c c1" by (rule put_object_stores)
  have "get_state_root (set_head h c1) = Some root" for h
    using get_set_state_root [of root c] by (simp add: get_state_root_def read_hash_def set_head_def grows_kv(1) [OF g])
  then show ?thesis using assms po by (simp add: build_snapshot_def bindE_def)
qed

lemma inode_map_no_fuel [no_fuel_intros, simp]: "fuel_free (inode_map c)"
  unfolding inode_map_def by (rule rmap_no_fuel) (auto simp: map_row_def split: option.split)

lemma build_snapshot_no_fuel [no_fuel_intros]: "no_fuel (build_snapshot P)"
proof -
  have "no_fuel (\<lambda>c. case put_object P (ob c) c of (head, c') \<Rightarrow> (Inr head, set_head head c'))" for ob
    by (simp add: no_fuel_def split: prod.split)
  then show ?thesis
    unfolding build_snapshot_def compute_state_root_def Let_def by (intro no_fuel_intros) simp_all
qed

lemma migrate_step_ok:
  assumes "migrate_step P v c = (Inr u, c')" "format_version c = Inr (Some v)"
  shows "(v = 1 \<or> v = 2) \<and> format_version c' = Inr (Some (v + 1))"
  using assms
  by (auto simp: migrate_step_def migrate_v2_to_v3_def bindE_def split: if_splits sum.splits prod.splits)

lemma migrate_step_no_fuel [no_fuel_intros]: "no_fuel (migrate_step P v)"
proof -
  have "no_fuel (raise (StaleRecords n))" for n by (simp add: no_fuel_def)
  then show ?thesis
    unfolding migrate_step_def migrate_v2_to_v3_def by (auto intro!: no_fuel_intros)
qed

lemma check_format_no_fuel [no_fuel_intros]: "no_fuel check_format"
proof -
  have "fuel_free (format_version c)" for c by (auto simp: format_version_def split: option.split)
  then show ?thesis unfolding check_format_def by (auto intro!: no_fuel_intros split: option.split)
qed

lemma next_version:
  fixes v :: u32
  assumes "v < 3" shows "v < v + 1" "unat (v + 1) = unat v + 1"
  using assms by (auto simp: word_less_nat_alt unat_word_ariths)

lemma migrate_loop_spec:
  assumes "unat (3 - effective_version c) < fuel" "effective_version c \<le> 3"
  shows "fst (migrate_loop P fuel c) \<noteq> Inl OutOfFuel \<and>
    (\<forall>vs c'. migrate_loop P fuel c = (Inr vs, c') \<longrightarrow>
       format_version c' = Inr (Some 3) \<and> map unat vs = [unat (effective_version c) + 1..<4])"
  using assms
proof (induction fuel arbitrary: c)
  case (Suc fuel)
  let ?v = "effective_version c"
  show ?case
  proof (cases "format_version c")
    case (Inl e)
    then have "e \<noteq> OutOfFuel" by (auto simp: format_version_def split: option.splits if_splits)
    then show ?thesis using Inl by (simp add: bindE_def check_format_eq)
  next
    case (Inr x)
    note st = format_version_stamped [OF Inr]
    show ?thesis
    proof (cases "?v = 3")
      case True
      then show ?thesis
        using Inr st by (auto simp: bindE_def check_format_eq classify_format_def CURRENT_FORMAT_VERSION_def)
    next
      case False
      then have lt: "?v < 3" using Suc.prems(2) by simp
      have cf: "check_format c = (Inr (NeedsMigration ?v), stamped c)"
        using Inr lt False by (simp add: check_format_eq classify_format_def CURRENT_FORMAT_VERSION_def)
      obtain r c1 where ms: "migrate_step P ?v (stamped c) = (r, c1)" by (cases "migrate_step P ?v (stamped c)")
      show ?thesis
      proof (cases r)
        case (Inl e)
        have "e \<noteq> OutOfFuel" using migrate_step_no_fuel [of P ?v] ms Inl by (metis fst_conv no_fuel_def)
        then show ?thesis using ms Inl cf by (simp add: bindE_def)
      next
        case (Inr u)
        from migrate_step_ok [OF ms [unfolded Inr] st]
        have f1: "format_version c1 = Inr (Some (?v + 1))" by simp
        then have e1: "effective_version c1 = ?v + 1" by (simp add: effective_version_def)
        have le: "?v + 1 \<le> 3" using lt by (simp add: word_le_nat_alt next_version word_less_nat_alt)
        have "unat (3 - (?v + 1)) < fuel"
          using Suc.prems(1) lt le by (simp add: unat_sub word_le_nat_alt word_less_nat_alt next_version [OF lt])
        from Suc.IH [OF this [folded e1]] le e1
        have ih: "fst (migrate_loop P fuel c1) \<noteq> Inl OutOfFuel \<and>
          (\<forall>vs c'. migrate_loop P fuel c1 = (Inr vs, c') \<longrightarrow>
             format_version c' = Inr (Some 3) \<and> map unat vs = [unat (?v + 1) + 1..<4])" by simp
        have up: "[unat ?v + 1..<4] = (unat ?v + 1) # [unat ?v + 2..<4]"
          using lt by (simp add: word_less_nat_alt upt_conv_Cons)
        have "\<not> ?v + 1 \<le> ?v" using next_version(1) [OF lt] by simp
        then show ?thesis
          using ih ms Inr cf f1 lt next_version [OF lt] up
          by (auto simp: bindE_def split: sum.splits prod.splits)
      qed
    qed
  qed
qed simp

text \<open>
  C40. Migration always ends. A repository that is not newer than this build and whose migration succeeds is stamped
  with the current format, having passed through every version in between in order; a newer one is refused and left
  as it was apart from an absent stamp.
\<close>

theorem migrate_reaches_current:
  "fst (migrate P c) \<noteq> Inl OutOfFuel \<and>
   (\<forall>vs c'. migrate P c = (Inr vs, c') \<longrightarrow>
      format_version c' = Inr (Some CURRENT_FORMAT_VERSION) \<and> map unat vs = [unat (effective_version c) + 1..<4]) \<and>
   (\<forall>v. format_version c = Inr (Some v) \<and> v > CURRENT_FORMAT_VERSION \<longrightarrow> migrate P c = (Inl (TooNew v), c))"
proof -
  have m: "migrate P = migrate_loop P (Suc 3)" by (simp add: migrate_def CURRENT_FORMAT_VERSION_def)
  have newer_refused: "migrate P c = (Inl (TooNew v), c)" if "format_version c = Inr (Some v)" "v > CURRENT_FORMAT_VERSION" for v
    using that unfolding m migrate_loop.simps by (auto simp: bindE_def check_format_stamped classify_format_def)
  show ?thesis
  proof (cases "effective_version c \<le> 3")
    case True
    then have "unat (3 - effective_version c) < Suc 3" by (simp add: unat_sub word_le_nat_alt)
    from migrate_loop_spec [OF this True, of P] newer_refused show ?thesis by (simp add: m CURRENT_FORMAT_VERSION_def)
  next
    case False
    then consider (newer) v where "format_version c = Inr (Some v)" "v > CURRENT_FORMAT_VERSION"
      | (broken) e where "format_version c = Inl e"
      by (cases "format_version c")
        (auto simp: effective_version_def FIRST_FORMAT_VERSION_def CURRENT_FORMAT_VERSION_def split: option.splits if_splits)
    then show ?thesis
    proof cases
      case newer
      then show ?thesis using newer_refused by auto
    next
      case broken
      then have "e \<noteq> OutOfFuel" by (auto simp: format_version_def split: option.splits if_splits)
      then show ?thesis using broken unfolding m migrate_loop.simps by (simp add: bindE_def check_format_eq)
    qed
  qed
qed

theorem migrate_reaches_current_witness:
  "migrate sample (set_format_version 9 sample_core) = (Inl (TooNew 9), set_format_version 9 sample_core)"
  using migrate_reaches_current [of sample "set_format_version 9 sample_core"] by (simp add: CURRENT_FORMAT_VERSION_def)

section \<open>A new repository\<close>

lemma dir_entries_default [simp]: "dir_entries (or_default :: dir_map) = []"
proof -
  have "fm_keys (fmempty :: (string, (dot, dir_entry_value) fmap) fmap) = []"
    by (metis list.map_disc_iff map_fst_fm_entries fm_entries_empty)
  then show ?thesis by (simp add: dir_entries_def live_keys_def or_default_def sort_dir_entries_def)
qed

lemma rebuild_root:
  assumes "codec_ok P" "load_inode P c ROOT_INODE = Inr (Some r)" "load_dir P c ROOT_INODE = Inr (Some or_default)"
  shows "\<exists>h w. walk_root P True c = (Inr h, w) \<and> wk_map w = fmupd ROOT_INODE h fmempty \<and>
     h = object_hash P (DirNode \<lparr>dn_header = \<lparr>type_tag = 2, oh_version = 1\<rparr>, dn_entries = [],
       dn_mode = at_mode (lww_value (ir_attrs r)), dn_uid = at_uid (lww_value (ir_attrs r)),
       dn_gid = at_gid (lww_value (ir_attrs r)), dn_mtime = ct_mtime (lww_value (ir_content r)), dn_ctime = ir_ctime r\<rparr>)"
proof -
  have f: "TREE_FUEL = Suc MAX_TREE_NODES" by (simp add: TREE_FUEL_def)
  have m: "materialize_dir P c ROOT_INODE = Inr []" using assms(3) by (simp add: materialize_dir_def)
  let ?ob = "DirNode \<lparr>dn_header = \<lparr>type_tag = 2, oh_version = 1\<rparr>, dn_entries = [],
       dn_mode = at_mode (lww_value (ir_attrs r)), dn_uid = at_uid (lww_value (ir_attrs r)),
       dn_gid = at_gid (lww_value (ir_attrs r)), dn_mtime = ct_mtime (lww_value (ir_content r)), dn_ctime = ir_ctime r\<rparr>"
  obtain c1 where po: "put_object P ?ob c = (object_hash P ?ob, c1)" by (rule put_object_stores)
  show ?thesis
    unfolding walk_root_def f materialize_tree.simps
    using assms(2) m po
    by (simp add: walk_dir_def walk_object_def dir_object_def bindE_def MAX_TREE_NODES_def fcard.rep_eq
        dir_canonicalize_def sort_dir_entries_def Let_def)
qed

definition genesis_hash :: "prims \<Rightarrow> hash" where
  "genesis_hash P = object_hash P (DirNode \<lparr>dn_header = \<lparr>type_tag = 2, oh_version = 1\<rparr>, dn_entries = [],
     dn_mode = 0x41ED, dn_uid = 0, dn_gid = 0, dn_mtime = 0, dn_ctime = 0\<rparr>)"

lemma bootstrap_ok:
  assumes "codec_ok P" "imap_ok c" "get_head c = None"
  shows "\<exists>c'. bootstrap_if_needed P c = (Inr (), c') \<and> get_head c' \<noteq> None \<and>
     format_version c' = Inr (Some CURRENT_FORMAT_VERSION) \<and> materialize_dir P c' ROOT_INODE = Inr [] \<and>
     get_state_root c' = Some (commit (blake3 P) [(ROOT_INODE, genesis_hash P)]) \<and>
     bootstrap_if_needed P c' = (Inr (), c')"
proof -
  let ?r = "inode_record_new Dir 0x41ED 0 0 0"
  let ?c = "store_dir P ROOT_INODE or_default (store_inode P ROOT_INODE ?r c)"
  have ok: "imap_ok ?c" using assms(2) by (auto simp: imap_ok_def store_dir_def store_inode_def split: if_splits)
  have l: "load_inode P ?c ROOT_INODE = Inr (Some ?r)" "load_dir P ?c ROOT_INODE = Inr (Some or_default)"
    using assms(1) by simp_all
  from rebuild_root [OF assms(1) l] obtain w where
    w: "walk_root P True ?c = (Inr (genesis_hash P), w)" "wk_map w = fmupd ROOT_INODE (genesis_hash P) fmempty"
    by (auto simp: genesis_hash_def inode_record_new_def lww_new_def)
  have es: "fm_entries (fmupd ROOT_INODE (genesis_hash P) fmempty) = [(ROOT_INODE, genesis_hash P)]"
    by (rule strict_sorted_assoc_unique) (auto simp: sorted_distinct_strict split: if_splits)
  let ?c1 = "put_fresh (wk_map w) (drop_stale (wk_map w) (wk_core w))"
  have rb: "rebuild_inode_map P ?c = (Inr [(ROOT_INODE, genesis_hash P)], ?c1)"
    by (simp add: rebuild_inode_map_def w es)
  have root: "compute_state_root P ?c1 = Inr (commit (blake3 P) [(ROOT_INODE, genesis_hash P)])"
    using rebuild_reads [OF ok rb] by simp
  obtain h c2 where bs: "build_snapshot P ?c1 = (Inr h, c2)" and sr: "get_state_root c2 = Some (commit (blake3 P) [(ROOT_INODE, genesis_hash P)])"
    and hd: "get_head c2 = Some h"
    using build_snapshot_ok [OF root] by blast
  have ns: "same_ns P ?c (stamp_current_format c2)"
  proof -
    have "same_ns P ?c ?c1" by (rule keepsD [OF keeps_ns_rebuild rb])
    moreover have "same_ns P ?c1 c2" by (rule keepsD [OF keeps_ns_snapshot bs])
    moreover have "same_ns P c2 (stamp_current_format c2)"
      unfolding stamp_current_format_def set_format_version_def by (rule same_ns_writes) (simp add: foreign_key_def)
    ultimately show ?thesis using same_ns_trans by blast
  qed
  have "get_head (stamp_current_format c2) = Some h" "get_state_root (stamp_current_format c2) = get_state_root c2"
    using hd by (simp_all add: get_head_def get_state_root_def read_hash_def stamp_current_format_def set_format_version_def)
  moreover have "materialize_dir P (stamp_current_format c2) ROOT_INODE = Inr []"
    using ns l(2) dir_entries_default by (simp add: materialize_dir_def same_ns_def)
  ultimately show ?thesis
    using assms(3) rb bs sr by (intro exI [of _ "stamp_current_format c2"]) (simp add: bootstrap_if_needed_def bindE_def stamp_current_format_def)
qed

text \<open>
  Bootstrapping an empty store succeeds and leaves a usable repository: an empty root directory, the current format
  stamp, a head, and a state root that depends on nothing but the hash function, so that two fresh replicas agree
  whatever their device ids and clocks are. Bootstrapping again changes nothing.
\<close>

theorem bootstrap_makes_genesis:
  assumes "codec_ok P" "imap_ok c" "get_head c = None"
  shows "\<exists>c'. bootstrap_if_needed P c = (Inr (), c') \<and> get_head c' \<noteq> None \<and>
     format_version c' = Inr (Some CURRENT_FORMAT_VERSION) \<and> materialize_dir P c' ROOT_INODE = Inr [] \<and>
     get_state_root c' = Some (commit (blake3 P) [(ROOT_INODE, genesis_hash P)]) \<and>
     bootstrap_if_needed P c' = (Inr (), c')"
  using assms by (rule bootstrap_ok)

theorem bootstrap_makes_genesis_witness:
  "\<exists>c'. bootstrap_if_needed sample sample_core = (Inr (), c') \<and> materialize_dir sample c' ROOT_INODE = Inr []"
proof -
  have "imap_ok sample_core" "get_head sample_core = None" by (simp_all add: imap_ok_def get_head_def read_hash_def)
  from bootstrap_makes_genesis [OF sample_ok(1) this] show ?thesis by blast
qed

end
