(* ===== verification/Convergence.thy ===== *)
theory Convergence
  imports Format
begin

text \<open>
  Convergence of the namespace. An abstract specification gives the directory maps and inode records as
  a fold of one effect per applied operation; the effects commute, so the fold depends only on which operations
  were applied. \<open>describes\<close> relates a state to that specification, every step of the real code preserves
  it, and two replicas that applied the same operations hold the same namespace.

  The operations covered are those whose effect does not depend on what was there before: creations, removals,
  renames of one observed entry, writes that carry the whole file, and attribute changes that name every field.
\<close>

section \<open>The operations covered\<close>

definition order_free :: "fs_op \<Rightarrow> bool" where
  "order_free op \<longleftrightarrow>
     (case op_kind op of
        Write _ offset chunks new_size _ \<Rightarrow> offset = 0 \<and> chunks_form_whole_file chunks new_size
      | SetAttr _ mode uid gid \<Rightarrow> mode \<noteq> None \<and> uid \<noteq> None \<and> gid \<noteq> None
      | Rename _ _ _ _ observed \<Rightarrow> length observed \<le> 1
      | _ \<Rightarrow> True)"

text \<open>The operations that exist anywhere: ids name them, and their inode numbers do not collide.\<close>

definition universe :: "prims \<Rightarrow> fs_op set \<Rightarrow> bool" where
  "universe P U \<longleftrightarrow> inj_on op_id U \<and> inj_on (inode_for_op (blake3 P)) (op_id ` U) \<and> (\<forall>op\<in>U. order_free op)"

lemma universe_id: "universe P U \<Longrightarrow> a \<in> U \<Longrightarrow> b \<in> U \<Longrightarrow> op_id a = op_id b \<Longrightarrow> a = b"
  by (auto simp: universe_def dest: inj_onD)

lemma universe_inode:
  assumes "universe P U" "a \<in> U" "b \<in> U" "inode_for_op (blake3 P) (op_id a) = inode_for_op (blake3 P) (op_id b)"
  shows "a = b"
  using assms universe_id inj_onD [of "inode_for_op (blake3 P)" "op_id ` U" "op_id a" "op_id b"]
  by (auto simp: universe_def)

text \<open>The inode an entry added by an operation stands for: renaming passes it on.\<close>

inductive denotes :: "prims \<Rightarrow> fs_op set \<Rightarrow> op_id \<Rightarrow> u128 \<times> entry_type \<Rightarrow> bool" for P U where
  denotes_mkdir:
    "op \<in> U \<Longrightarrow> op_kind op = Mkdir p n md \<Longrightarrow> denotes P U (op_id op) (inode_for_op (blake3 P) (op_id op), Dir)"
| denotes_create:
    "op \<in> U \<Longrightarrow> op_kind op = CreateFile p n md \<Longrightarrow> denotes P U (op_id op) (inode_for_op (blake3 P) (op_id op), File)"
| denotes_rename:
    "op \<in> U \<Longrightarrow> op_kind op = Rename p n p' n' [i] \<Longrightarrow> denotes P U i x \<Longrightarrow> denotes P U (op_id op) x"

inductive_cases denotes_cases: "denotes P U i x"

lemma denotes_unique:
  assumes "universe P U" "denotes P U i x" "denotes P U i y" shows "y = x"
  using assms(2,3)
proof (induction arbitrary: y rule: denotes.induct)
  case (denotes_mkdir op p n md)
  from denotes_mkdir(3) show ?case
    by (rule denotes_cases) (use denotes_mkdir universe_id [OF assms(1)] in fastforce)+
next
  case (denotes_create op p n md)
  from denotes_create(3) show ?case
    by (rule denotes_cases) (use denotes_create universe_id [OF assms(1)] in fastforce)+
next
  case (denotes_rename op p n p' n' i x)
  from denotes_rename(5) show ?case
    by (rule denotes_cases) (use denotes_rename universe_id [OF assms(1)] in fastforce)+
qed

definition entry_value :: "prims \<Rightarrow> fs_op set \<Rightarrow> fs_op \<Rightarrow> dir_entry_value" where
  "entry_value P U op =
     (let x = (THE x. denotes P U (op_id op) x) in
      \<lparr>ev_inode_id = fst x, ev_entry_type = snd x, ev_created = op_time op\<rparr>)"

lemma entry_value_eq:
  assumes "universe P U" "denotes P U (op_id op) (i, k)"
  shows "entry_value P U op = \<lparr>ev_inode_id = i, ev_entry_type = k, ev_created = op_time op\<rparr>"
proof -
  have "(THE x. denotes P U (op_id op) x) = (i, k)"
    using assms denotes_unique by blast
  then show ?thesis by (simp add: entry_value_def)
qed

section \<open>The specification\<close>

definition dir_effect :: "prims \<Rightarrow> fs_op set \<Rightarrow> u128 \<Rightarrow> fs_op \<Rightarrow> dir_map \<Rightarrow> dir_map" where
  "dir_effect P U i op m =
     (case op_kind op of
        Mkdir p n _ \<Rightarrow> if p = i then or_add n (dot_for_op (op_id op)) (entry_value P U op) m else m
      | CreateFile p n _ \<Rightarrow> if p = i then or_add n (dot_for_op (op_id op)) (entry_value P U op) m else m
      | Unlink p n observed \<Rightarrow> if p = i then remove_dots n (map dot_for_op observed) m else m
      | Rename p n p' n' observed \<Rightarrow>
          let m' = (if p = i then remove_dots n (map dot_for_op observed) m else m) in
          if observed \<noteq> [] \<and> p' = i then or_add n' (dot_for_op (op_id op)) (entry_value P U op) m' else m'
      | _ \<Rightarrow> m)"

definition written_hash :: "prims \<Rightarrow> fs_op \<Rightarrow> hash" where
  "written_hash P op =
     object_hash P (FileNode (file_node_of (w_chunks (op_kind op)) (w_new_size (op_kind op)) (op_time op)
       (w_encryption (op_kind op))))"

definition rec_effect :: "prims \<Rightarrow> u128 \<Rightarrow> fs_op \<Rightarrow> inode_record \<Rightarrow> inode_record" where
  "rec_effect P i op r =
     (case op_kind op of
        Write j _ _ new_size _ \<Rightarrow>
          if j = i then r\<lparr>ir_content := fst (lww_merge (ir_content r) (content_reg op (written_hash P op) new_size))\<rparr> else r
      | SetAttr j mode uid gid \<Rightarrow>
          if j = i then r\<lparr>ir_attrs := fst (lww_merge (ir_attrs r) (attr_reg op mode uid gid (lww_value (ir_attrs r))))\<rparr> else r
      | _ \<Rightarrow> r)"

definition birth :: "prims \<Rightarrow> fs_op \<Rightarrow> u128 \<Rightarrow> inode_record option" where
  "birth P op i =
     (if inode_for_op (blake3 P) (op_id op) \<noteq> i then None
      else case op_kind op of
        Mkdir _ _ mode \<Rightarrow> Some (inode_record_new Dir mode (op_time op) (opid_device (op_id op)) (opid_counter (op_id op)))
      | CreateFile _ _ mode \<Rightarrow> Some (inode_record_new File mode (op_time op) (opid_device (op_id op)) (opid_counter (op_id op)))
      | _ \<Rightarrow> None)"

definition root_record :: inode_record where
  "root_record = inode_record_new Dir 0x41ED 0 0 0"

definition genesis :: "prims \<Rightarrow> fs_op list \<Rightarrow> u128 \<Rightarrow> inode_record option" where
  "genesis P ops i =
     (if i = ROOT_INODE then Some root_record
      else case filter (\<lambda>op. birth P op i \<noteq> None) ops of [] \<Rightarrow> None | op # _ \<Rightarrow> birth P op i)"

definition spec_inode :: "prims \<Rightarrow> fs_op list \<Rightarrow> u128 \<Rightarrow> inode_record option" where
  "spec_inode P ops i = map_option (fold (rec_effect P i) ops) (genesis P ops i)"

definition spec_dir :: "prims \<Rightarrow> fs_op set \<Rightarrow> fs_op list \<Rightarrow> u128 \<Rightarrow> dir_map option" where
  "spec_dir P U ops i =
     (case genesis P ops i of
        None \<Rightarrow> None
      | Some r \<Rightarrow> if ir_kind r = Dir then Some (fold (dir_effect P U i) ops or_default) else None)"

section \<open>The specification depends on the set of operations only\<close>

lemma dir_effect_commute:
  assumes "universe P U" "a \<in> U" "b \<in> U"
  shows "dir_effect P U i a (dir_effect P U i b m) = dir_effect P U i b (dir_effect P U i a m)"
proof (cases "a = b")
  case False
  then have "dot_for_op (op_id a) \<noteq> dot_for_op (op_id b)"
    using assms by (auto simp: universe_def dest: inj_onD)
  then show ?thesis
    by (auto simp: dir_effect_def Let_def or_add_commute or_add_remove_commute remove_dots_commute
        split: fs_op_kind.split)
qed simp

lemma lww_merge_commute:
  "order_key a \<noteq> order_key b \<Longrightarrow> fst (lww_merge (fst (lww_merge r a)) b) = fst (lww_merge (fst (lww_merge r b)) a)"
  by (auto simp: lww_merge_max)

lemma op_keys:
  "order_key (content_reg op h n) = op_order_key op" "order_key (attr_reg op m u g cur) = op_order_key op"
  by (simp_all add: content_reg_def attr_reg_def op_order_key_def order_key_def lww_new_def)

lemma op_order_key_inj: "op_order_key a = op_order_key b \<Longrightarrow> op_id a = op_id b"
  by (cases "op_id a"; cases "op_id b") (simp add: op_order_key_def)

text \<open>The effect of an operation on a record is the merge of registers that depend on the operation alone.\<close>

definition content_of :: "prims \<Rightarrow> u128 \<Rightarrow> fs_op \<Rightarrow> content_state lww_reg option" where
  "content_of P i op =
     (case op_kind op of
        Write j _ _ new_size _ \<Rightarrow> if j = i then Some (content_reg op (written_hash P op) new_size) else None
      | _ \<Rightarrow> None)"

definition attrs_of :: "u128 \<Rightarrow> fs_op \<Rightarrow> attr_state lww_reg option" where
  "attrs_of i op =
     (case op_kind op of
        SetAttr j mode uid gid \<Rightarrow>
          if j = i then Some (attr_reg op mode uid gid \<lparr>at_mode = 0, at_uid = 0, at_gid = 0\<rparr>) else None
      | _ \<Rightarrow> None)"

definition opt_merge :: "'v lww_reg option \<Rightarrow> 'v lww_reg \<Rightarrow> 'v lww_reg" where
  "opt_merge x r = (case x of None \<Rightarrow> r | Some y \<Rightarrow> fst (lww_merge r y))"

lemma rec_effect_merge:
  assumes "order_free op"
  shows "rec_effect P i op r =
    r\<lparr>ir_content := opt_merge (content_of P i op) (ir_content r), ir_attrs := opt_merge (attrs_of i op) (ir_attrs r)\<rparr>"
  using assms
  by (auto simp: rec_effect_def content_of_def attrs_of_def opt_merge_def attr_reg_def order_free_def split: fs_op_kind.splits)

lemma opt_merge_commute:
  assumes "\<And>x y. a = Some x \<Longrightarrow> b = Some y \<Longrightarrow> order_key x \<noteq> order_key y"
  shows "opt_merge a (opt_merge b r) = opt_merge b (opt_merge a r)"
  unfolding opt_merge_def using assms lww_merge_commute by (fastforce split: option.split)

lemma reg_keys:
  "content_of P i op = Some x \<Longrightarrow> order_key x = op_order_key op" "attrs_of i op = Some y \<Longrightarrow> order_key y = op_order_key op"
  by (auto simp: content_of_def attrs_of_def op_keys split: fs_op_kind.splits if_splits)

lemma rec_effect_commute:
  assumes "universe P U" "a \<in> U" "b \<in> U"
  shows "rec_effect P i a (rec_effect P i b r) = rec_effect P i b (rec_effect P i a r)"
proof (cases "a = b")
  case False
  then have k: "op_order_key a \<noteq> op_order_key b" using assms op_order_key_inj universe_id by blast
  have "order_free a" "order_free b" using assms by (auto simp: universe_def)
  then show ?thesis
    using k by (simp add: rec_effect_merge opt_merge_commute [of "content_of P i a" "content_of P i b"] opt_merge_commute [of "attrs_of i a" "attrs_of i b"] reg_keys)
qed simp

lemma genesis_iff:
  assumes "universe P U" "set ops \<subseteq> U"
  shows "genesis P ops i = Some r \<longleftrightarrow>
    (i = ROOT_INODE \<and> r = root_record) \<or> (i \<noteq> ROOT_INODE \<and> (\<exists>op\<in>set ops. birth P op i = Some r))"
proof -
  have same: "birth P a i = birth P b i" if "a \<in> set ops" "b \<in> set ops" "birth P a i \<noteq> None" "birth P b i \<noteq> None" for a b
  proof -
    have "inode_for_op (blake3 P) (op_id a) = inode_for_op (blake3 P) (op_id b)"
      using that by (auto simp: birth_def split: if_splits)
    then have "a = b" using assms that universe_inode by blast
    then show ?thesis by simp
  qed
  show ?thesis
  proof (cases "filter (\<lambda>op. birth P op i \<noteq> None) ops")
    case Nil
    then show ?thesis by (auto simp: genesis_def filter_empty_conv)
  next
    case (Cons op rest)
    then have "op \<in> set (filter (\<lambda>op. birth P op i \<noteq> None) ops)" by simp
    then have op: "op \<in> set ops" "birth P op i \<noteq> None" by auto
    have "birth P op i = Some r \<longleftrightarrow> (\<exists>op\<in>set ops. birth P op i = Some r)"
      using same [OF op(1) _ op(2)] op(1) by (metis option.discI)
    then show ?thesis using Cons by (auto simp: genesis_def)
  qed
qed

lemma spec_depends_on_set:
  assumes "universe P U" "set xs \<subseteq> U" "distinct xs" "distinct ys" "set xs = set ys"
  shows "spec_inode P xs = spec_inode P ys" and "spec_dir P U xs = spec_dir P U ys"
proof -
  have m: "mset xs = mset ys" using assms(3-5) by (simp add: set_eq_iff_mset_eq_distinct)
  have g: "genesis P xs i = genesis P ys i" for i
    using genesis_iff [OF assms(1,2)] genesis_iff [OF assms(1), of ys] assms(2,5)
    by (metis not_None_eq)
  have "fold (rec_effect P i) xs = fold (rec_effect P i) ys" for i
    using m by (rule fold_multiset_equiv [rotated]) (use rec_effect_commute [OF assms(1)] assms(2) in \<open>force simp: fun_eq_iff\<close>)
  then show "spec_inode P xs = spec_inode P ys" by (auto simp only: spec_inode_def g)
  have "fold (dir_effect P U i) xs = fold (dir_effect P U i) ys" for i
    using m by (rule fold_multiset_equiv [rotated]) (use dir_effect_commute [OF assms(1)] assms(2) in \<open>force simp: fun_eq_iff\<close>)
  then show "spec_dir P U xs = spec_dir P U ys" by (auto simp only: spec_dir_def g)
qed

section \<open>What each mutation does to the records\<close>

lemma mutate_create_Done:
  assumes "codec_ok P" and r: "mutate_create P op p nm mode kd c = (Inr Done, c')"
    and "p \<noteq> inode_for_op (blake3 P) (op_id op)"
  shows "is_dir P c p = Inr True \<and>
    (\<forall>j. load_inode P c' j =
       (if j = inode_for_op (blake3 P) (op_id op)
        then Inr (Some (inode_record_new kd mode (op_time op) (opid_device (op_id op)) (opid_counter (op_id op))))
        else load_inode P c j)) \<and>
    (\<exists>m. load_dir P c p = Inr m \<and>
     (\<forall>j. load_dir P c' j =
       (if j = p then Inr (Some (or_add nm (dot_for_op (op_id op))
            \<lparr>ev_inode_id = inode_for_op (blake3 P) (op_id op), ev_entry_type = kd, ev_created = op_time op\<rparr>
            (case m of None \<Rightarrow> or_default | Some m \<Rightarrow> m)))
        else if j = inode_for_op (blake3 P) (op_id op) \<and> kd = Dir then Inr (Some or_default)
        else load_dir P c j)))"
proof (cases kd)
  case File
  then show ?thesis using assms
    by (auto simp: mutate_create_def lift_result_def bindE_def Let_def split: sum.splits if_splits)
next
  case Dir
  then show ?thesis using assms
    by (auto simp: mutate_create_def lift_result_def bindE_def Let_def split: sum.splits if_splits)
qed

lemma mutate_unlink_Done:
  assumes "codec_ok P" and "mutate_unlink P op p nm observed c = (Inr Done, c')"
  shows "is_dir P c p = Inr True \<and> (\<forall>j. load_inode P c' j = load_inode P c j) \<and>
    (\<exists>m. load_dir P c p = Inr m \<and>
     (\<forall>j. load_dir P c' j =
       (if j = p then Inr (Some (remove_dots nm (map dot_for_op observed) (case m of None \<Rightarrow> or_default | Some m \<Rightarrow> m)))
        else load_dir P c j)))"
  using assms by (auto simp: mutate_unlink_def bindE_def split: sum.splits if_splits)

lemma mutate_setattr_Done:
  assumes "codec_ok P" and "mutate_setattr P op i mode uid gid c = (Inr Done, c')"
  shows "(\<forall>j. load_dir P c' j = load_dir P c j) \<and>
    (\<exists>r. load_inode P c i = Inr (Some r) \<and>
     (\<forall>j. load_inode P c' j =
       (if j = i then Inr (Some (r\<lparr>ir_attrs := fst (lww_merge (ir_attrs r) (attr_reg op mode uid gid (lww_value (ir_attrs r))))\<rparr>))
        else load_inode P c j)))"
  using assms by (auto simp: mutate_setattr_def bindE_def split: sum.splits option.splits)

lemma mutate_write_Done:
  assumes "codec_ok P" and w: "mutate_write P op i 0 chunks n enc c = (Inr Done, c')"
    and whole: "chunks_form_whole_file chunks n"
  shows "(\<forall>j. load_dir P c' j = load_dir P c j) \<and>
    (\<exists>r. load_inode P c i = Inr (Some r) \<and>
     (\<forall>j. load_inode P c' j =
       (if j = i then Inr (Some (r\<lparr>ir_content := fst (lww_merge (ir_content r)
             (content_reg op (object_hash P (FileNode (file_node_of chunks n (op_time op) enc))) n))\<rparr>))
        else load_inode P c j)))"
proof -
  let ?ob = "FileNode (file_node_of chunks n (op_time op) enc)"
  from w obtain r where r: "load_inode P c i = Inr (Some r)"
    and f: "ir_kind r = File"
    by (auto simp: mutate_write_def bindE_def split: sum.splits option.splits if_splits)
  show ?thesis
  proof (cases "write_can_win (ir_content r) op")
    case False
    then have "c' = c" using w r f by (auto simp: mutate_write_def bindE_def)
    moreover have "lww_merge (ir_content r) (content_reg op h n) = (ir_content r, False)" for h
      using False by (simp add: write_can_win_def lww_merge_def op_order_key_def order_key_def content_reg_def lww_new_def)
    ultimately show ?thesis using r by auto
  next
    case True
    obtain c1 where po: "put_object P ?ob c = (object_hash P ?ob, c1)" and g: "grows c c1" by (rule put_object_stores)
    have c': "c' = store_inode P i (r\<lparr>ir_content := fst (lww_merge (ir_content r) (content_reg op (object_hash P ?ob) n))\<rparr>) c1"
      using True w r f whole po
      by (auto simp: mutate_write_def write_node_def make_filenode_def bindE_def split: if_splits option.splits)
    show ?thesis using r assms(1) by (auto simp: c' grows_namespace [OF g])
  qed
qed

lemma max_by_key_fold:
  "\<exists>y. foldl (\<lambda>acc x. case acc of None \<Rightarrow> Some x | Some y \<Rightarrow> if f x \<ge> f y then Some x else Some y) (Some a) xs = Some y \<and>
       y \<in> insert a (set xs)"
proof (induction xs arbitrary: a)
  case (Cons x xs)
  from Cons [of x] Cons [of a] show ?case by (cases "f a \<le> f x") auto
qed simp

lemma max_by_key_in: "max_by_key f xs = Some x \<Longrightarrow> x \<in> set xs"
  using max_by_key_fold [of f "hd xs" "tl xs"] by (cases xs) (auto simp: max_by_key_def)

lemma max_by_key_None: "max_by_key f xs = None \<longleftrightarrow> xs = []"
  using max_by_key_fold [of f "hd xs" "tl xs"] by (cases xs) (auto simp: max_by_key_def)

lemma mutate_rename_Done:
  assumes "codec_ok P" and w: "mutate_rename P op p n p' n' observed c = (Inr Done, c')"
  shows "is_dir P c p = Inr True \<and> is_dir P c p' = Inr True \<and> (\<forall>j. load_inode P c' j = load_inode P c j) \<and>
    (if observed = [] then \<forall>j. load_dir P c' j = load_dir P c j
     else \<exists>m m' d e. load_dir P c p = Inr m \<and> load_dir P c p' = Inr m' \<and>
       d \<in> set (map dot_for_op observed) \<and> fmlookup (adds_at (case m of None \<Rightarrow> or_default | Some m \<Rightarrow> m) n) d = Some e \<and>
       (\<forall>j. load_dir P c' j =
          (if j = p' then Inr (Some (or_add n' (dot_for_op (op_id op))
               \<lparr>ev_inode_id = ev_inode_id e, ev_entry_type = ev_entry_type e, ev_created = op_time op\<rparr>
               (let m' = (case m' of None \<Rightarrow> or_default | Some m \<Rightarrow> m) in
                if p = p' then remove_dots n (map dot_for_op observed) m' else m')))
           else if j = p then Inr (Some (remove_dots n (map dot_for_op observed) (case m of None \<Rightarrow> or_default | Some m \<Rightarrow> m)))
           else load_dir P c j)))"
proof -
  let ?ds = "map dot_for_op observed"
  from w obtain m where d: "is_dir P c p = Inr True" "is_dir P c p' = Inr True" and m: "load_dir P c p = Inr m"
    by (auto simp: mutate_rename_def lift_result_def bindE_def Let_def split: sum.splits if_splits)
  let ?m = "case m of None \<Rightarrow> or_default | Some m \<Rightarrow> m"
  let ?sel = "filter (\<lambda>(dot, _). dot \<in> set ?ds) (get_all ?m n)"
  show ?thesis
  proof (cases "max_by_key fst ?sel")
    case None
    then have "?sel = []" by (simp add: max_by_key_None)
    then have "\<not> list_ex (\<lambda>(dot, _). dot \<in> set ?ds) (get_all ?m n)" by (auto simp: filter_empty_conv list_ex_iff)
    then have "observed = [] \<and> c' = c"
      using w d m None by (auto simp: mutate_rename_def lift_result_def bindE_def Let_def split: sum.splits if_splits)
    then show ?thesis using d by simp
  next
    case (Some x)
    obtain dt e where x: "x = (dt, e)" by (cases x)
    have "x \<in> set ?sel" using Some by (rule max_by_key_in)
    then have sel: "dt \<in> set ?ds" "(dt, e) \<in> set (get_all ?m n)" by (auto simp: x)
    then have e: "fmlookup (adds_at ?m n) dt = Some e" "observed \<noteq> []" by (auto simp: set_get_all)
    show ?thesis
    proof (cases "p = p'")
      case True
      then show ?thesis
        using w d m Some x e sel(1) assms(1)
        by (auto simp: mutate_rename_def lift_result_def bindE_def Let_def split: sum.splits if_splits
            intro!: exI [of _ dt] exI [of _ e])
    next
      case False
      then show ?thesis
        using w d m Some x e sel(1) assms(1)
        by (auto simp: mutate_rename_def lift_result_def bindE_def Let_def split: sum.splits if_splits
            intro!: exI [of _ dt] exI [of _ e])
    qed
  qed
qed

section \<open>The simulation relation\<close>

definition targets :: "fs_op \<Rightarrow> u128 set" where
  "targets op =
     (case op_kind op of
        Mkdir p _ _ \<Rightarrow> {p} | CreateFile p _ _ \<Rightarrow> {p} | Unlink p _ _ \<Rightarrow> {p} | Rename p _ p' _ _ \<Rightarrow> {p, p'}
      | Write j _ _ _ _ \<Rightarrow> {j} | SetAttr j _ _ _ \<Rightarrow> {j})"

definition enters :: "fs_op \<Rightarrow> bool" where
  "enters op = (case op_kind op of Mkdir _ _ _ \<Rightarrow> True | CreateFile _ _ _ \<Rightarrow> True | Rename _ _ _ _ observed \<Rightarrow> observed \<noteq> [] | _ \<Rightarrow> False)"

text \<open>A history: operations of the universe, each once, whose targets exist and whose entries denote something.\<close>

definition history :: "prims \<Rightarrow> fs_op set \<Rightarrow> fs_op list \<Rightarrow> bool" where
  "history P U ops \<longleftrightarrow>
     distinct ops \<and> set ops \<subseteq> U \<and> (\<forall>op\<in>set ops. \<forall>i\<in>targets op. genesis P ops i \<noteq> None) \<and>
     (\<forall>op\<in>set ops. enters op \<longrightarrow> (\<exists>x. denotes P U (op_id op) x))"

definition describes :: "prims \<Rightarrow> fs_op set \<Rightarrow> fs_op list \<Rightarrow> core \<Rightarrow> bool" where
  "describes P U ops c \<longleftrightarrow>
     history P U ops \<and> (\<forall>i. load_inode P c i = Inr (spec_inode P ops i)) \<and> (\<forall>i. load_dir P c i = Inr (spec_dir P U ops i))"

lemma genesis_snoc:
  "genesis P (ops @ [op]) i = (case genesis P ops i of Some r \<Rightarrow> Some r | None \<Rightarrow> birth P op i)"
proof (cases "filter (\<lambda>op. birth P op i \<noteq> None) ops")
  case Nil
  then show ?thesis by (simp add: genesis_def)
next
  case (Cons op' rest)
  then have "op' \<in> set (filter (\<lambda>op. birth P op i \<noteq> None) ops)" by simp
  then obtain r where "birth P op' i = Some r" by auto
  with Cons show ?thesis by (simp add: genesis_def)
qed

lemma no_target_fold:
  assumes "\<forall>op\<in>set ops. i \<notin> targets op"
  shows "fold (dir_effect P U i) ops m = m" "fold (rec_effect P i) ops r = r"
  using assms
  by (induction ops arbitrary: m r)
    (auto simp: dir_effect_def rec_effect_def targets_def Let_def split: fs_op_kind.splits)

lemma fold_adds:
  assumes "fmlookup (adds_at (fold (dir_effect P U i) ops m) n) d = Some v"
  shows "fmlookup (adds_at m n) d = Some v \<or>
         (\<exists>op\<in>set ops. enters op \<and> d = dot_for_op (op_id op) \<and> v = entry_value P U op)"
  using assms
proof (induction ops arbitrary: m)
  case (Cons op ops)
  have "fmlookup (adds_at (dir_effect P U i op m) n) d = Some v \<Longrightarrow>
      fmlookup (adds_at m n) d = Some v \<or> (enters op \<and> d = dot_for_op (op_id op) \<and> v = entry_value P U op)"
    by (auto simp: dir_effect_def enters_def Let_def split: fs_op_kind.splits if_splits)
  then show ?case using Cons by fastforce
qed simp

lemma rec_effect_kind [simp]: "ir_kind (fold (rec_effect P i) ops r) = ir_kind r"
proof (induction ops arbitrary: r)
  case (Cons op ops)
  have "ir_kind (rec_effect P i op r) = ir_kind r" by (auto simp: rec_effect_def split: fs_op_kind.split)
  then show ?case using Cons by simp
qed simp

lemma described_inode: "describes P U ops c \<Longrightarrow> load_inode P c i = Inr (Some r) \<Longrightarrow> genesis P ops i \<noteq> None"
  by (auto simp: describes_def spec_inode_def)

lemma described_dir:
  assumes d: "describes P U ops c" and "is_dir P c i = Inr True"
  shows "genesis P ops i \<noteq> None" and "spec_dir P U ops i = Some (fold (dir_effect P U i) ops or_default)"
proof -
  obtain r where "load_inode P c i = Inr (Some r)" "ir_kind r = Dir"
    using assms by (auto simp: is_dir_def describes_def split: option.splits)
  then obtain r0 where r0: "genesis P ops i = Some r0" "ir_kind r0 = Dir"
    using d by (auto simp: describes_def spec_inode_def)
  then show "genesis P ops i \<noteq> None" by simp
  show "spec_dir P U ops i = Some (fold (dir_effect P U i) ops or_default)" using r0 by (simp add: spec_dir_def)
qed

lemma history_snoc:
  assumes "history P U ops" "op \<in> U" "op \<notin> set ops" "\<forall>i\<in>targets op. genesis P ops i \<noteq> None"
    and "enters op \<Longrightarrow> \<exists>x. denotes P U (op_id op) x"
  shows "history P U (ops @ [op])"
proof -
  have "genesis P ops i \<noteq> None \<Longrightarrow> genesis P (ops @ [op]) i \<noteq> None" for i by (auto simp: genesis_snoc)
  then show ?thesis using assms by (simp add: history_def del: not_None_eq)
qed

lemma describes_snoc:
  assumes d: "describes P U ops c" and op: "op \<in> U" "op \<notin> set ops" and "\<And>i. birth P op i = None"
    and "\<forall>i\<in>targets op. genesis P ops i \<noteq> None" "enters op \<Longrightarrow> \<exists>x. denotes P U (op_id op) x"
    and "\<And>i. load_inode P c' i = Inr (map_option (rec_effect P i op) (spec_inode P ops i))"
    and "\<And>i. load_dir P c' i = Inr (map_option (dir_effect P U i op) (spec_dir P U ops i))"
  shows "describes P U (ops @ [op]) c'"
proof -
  have "genesis P (ops @ [op]) i = genesis P ops i" for i using assms(4) by (auto simp: genesis_snoc split: option.split)
  then have "spec_inode P (ops @ [op]) i = map_option (rec_effect P i op) (spec_inode P ops i)"
    "spec_dir P U (ops @ [op]) i = map_option (dir_effect P U i op) (spec_dir P U ops i)" for i
    by (auto simp: spec_inode_def spec_dir_def option.map_comp comp_def split: option.split)
  then show ?thesis using assms history_snoc [OF _ op] by (simp add: describes_def)
qed

lemma describes_create:
  assumes ok: "codec_ok P" "universe P U" and d: "describes P U ops c" and op: "op \<in> U" "op \<notin> set ops"
    and k: "op_kind op = (if kd = Dir then Mkdir p nm mode else CreateFile p nm mode)"
    and m: "mutate_create P op p nm mode kd c = (Inr Done, c')"
  shows "describes P U (ops @ [op]) c'"
proof -
  let ?new = "inode_for_op (blake3 P) (op_id op)"
  let ?rec = "inode_record_new kd mode (op_time op) (opid_device (op_id op)) (opid_counter (op_id op))"
  let ?v = "\<lparr>ev_inode_id = ?new, ev_entry_type = kd, ev_created = op_time op\<rparr>"
  have h: "history P U ops" using d by (simp add: describes_def)
  have root: "?new \<noteq> ROOT_INODE" using inode_for_op_not_reserved [of "blake3 P" "op_id op"] by simp
  have none: "genesis P ops ?new = None"
  proof (rule ccontr)
    assume "genesis P ops ?new \<noteq> None"
    then obtain op' where "op' \<in> set ops" "birth P op' ?new \<noteq> None"
      using genesis_iff [OF ok(2)] h root by (fastforce simp: history_def)
    then have "op' = op" using universe_inode [OF ok(2), of op' op] h op by (auto simp: birth_def history_def split: if_splits)
    then show False using op \<open>op' \<in> set ops\<close> by simp
  qed
  have dirp: "is_dir P c p = Inr True"
    using m by (auto simp: mutate_create_def lift_result_def bindE_def split: sum.splits if_splits)
  have p: "genesis P ops p \<noteq> None" and sp: "spec_dir P U ops p = Some (fold (dir_effect P U p) ops or_default)"
    by (rule described_dir [OF d dirp])+
  then have pn: "p \<noteq> ?new" using none by auto
  have untouched: "\<forall>op\<in>set ops. ?new \<notin> targets op" using h none unfolding history_def by metis
  have den: "denotes P U (op_id op) (?new, kd)"
    using op k denotes_mkdir [of op U p nm mode P] denotes_create [of op U p nm mode P] by (cases kd) auto
  then have v: "entry_value P U op = ?v" by (rule entry_value_eq [OF ok(2)])
  have b: "birth P op i = (if i = ?new then Some ?rec else None)" for i
    using k by (cases kd) (auto simp: birth_def)
  have eff: "dir_effect P U i op = (if i = p then or_add nm (dot_for_op (op_id op)) ?v else id)"
    "rec_effect P i op = id" for i
    using k v by (cases kd; auto simp: dir_effect_def rec_effect_def fun_eq_iff)+
  have si: "spec_inode P (ops @ [op]) i = (if i = ?new then Some ?rec else spec_inode P ops i)" for i
    using none by (auto simp: spec_inode_def genesis_snoc b eff no_target_fold [OF untouched] option.map_comp split: option.split)
  have sd: "spec_dir P U (ops @ [op]) i =
      (if i = ?new then if kd = Dir then Some or_default else None
       else if i = p then Some (or_add nm (dot_for_op (op_id op)) ?v (fold (dir_effect P U p) ops or_default))
       else spec_dir P U ops i)" for i
    using none pn sp
    by (auto simp: spec_dir_def genesis_snoc b eff no_target_fold [OF untouched] inode_record_new_def split: option.splits if_splits)
  have ld: "load_dir P c p = Inr (Some (fold (dir_effect P U p) ops or_default))" "load_dir P c ?new = Inr None"
    using d sp none by (simp_all add: describes_def spec_dir_def)
  have "history P U (ops @ [op])"
    by (rule history_snoc [OF h op]) (use k p den in \<open>auto simp: targets_def split: if_splits\<close>)
  then show ?thesis
    using mutate_create_Done [OF ok(1) m pn] d ld pn by (auto simp: describes_def si sd)
qed

text \<open>Every mutation of the code that reports success is one more effect of the specification.\<close>

lemma describes_rename:
  assumes ok: "codec_ok P" "universe P U" and d: "describes P U ops c" and op: "op \<in> U" "op \<notin> set ops"
    and k: "op_kind op = Rename p n p' n' observed"
    and m: "mutate_rename P op p n p' n' observed c = (Inr Done, c')"
  shows "describes P U (ops @ [op]) c'"
proof -
  note acts = mutate_rename_Done [OF ok(1) m]
  have p: "genesis P ops p \<noteq> None" "spec_dir P U ops p = Some (fold (dir_effect P U p) ops or_default)"
    and p': "genesis P ops p' \<noteq> None" "spec_dir P U ops p' = Some (fold (dir_effect P U p') ops or_default)"
    using acts described_dir [OF d] by blast+
  have inodes: "load_inode P c' i = Inr (map_option (rec_effect P i op) (spec_inode P ops i))" for i
  proof -
    have "rec_effect P i op = id" using k by (auto simp: rec_effect_def)
    then show ?thesis using acts d by (simp add: describes_def option.map_id)
  qed
  have "length observed \<le> 1" using ok(2) op(1) k by (auto simp: universe_def order_free_def split: fs_op_kind.splits)
  then consider "observed = []" | i where "observed = [i]" by (cases observed) auto
  then show ?thesis
  proof cases
    case 1
    then have "dir_effect P U i op = id" for i using k by (auto simp: dir_effect_def Let_def remove_dots_def)
    then show ?thesis
      using acts d 1 k p p' inodes
      by (intro describes_snoc [OF d op]) (auto simp: birth_def targets_def enters_def describes_def option.map_id)
  next
    case (2 i)
    let ?m = "fold (dir_effect P U p) ops or_default"
    obtain e where e: "fmlookup (adds_at ?m n) (dot_for_op i) = Some e"
      and ld: "\<forall>j. load_dir P c' j =
          (if j = p' then Inr (Some (or_add n' (dot_for_op (op_id op))
               \<lparr>ev_inode_id = ev_inode_id e, ev_entry_type = ev_entry_type e, ev_created = op_time op\<rparr>
               (if p = p' then remove_dots n [dot_for_op i] (fold (dir_effect P U p') ops or_default)
                else fold (dir_effect P U p') ops or_default)))
           else if j = p then Inr (Some (remove_dots n [dot_for_op i] ?m)) else load_dir P c j)"
      using acts d p(2) p'(2) 2 by (auto simp: describes_def Let_def)
    from fold_adds [OF e] obtain op' where op': "op' \<in> set ops" "enters op'" "i = op_id op'" "e = entry_value P U op'" by auto
    then obtain ino kd where den': "denotes P U (op_id op') (ino, kd)" using d by (auto simp: describes_def history_def)
    have den: "denotes P U (op_id op) (ino, kd)"
      using denotes_rename [OF op(1) k [unfolded 2]] den' op'(3) by simp
    have v: "entry_value P U op = \<lparr>ev_inode_id = ev_inode_id e, ev_entry_type = ev_entry_type e, ev_created = op_time op\<rparr>"
      by (simp add: entry_value_eq [OF ok(2) den] entry_value_eq [OF ok(2) den'] op'(4))
    have away: "j \<noteq> p \<Longrightarrow> j \<noteq> p' \<Longrightarrow> dir_effect P U j op = id" for j using k by (auto simp: dir_effect_def Let_def)
    have "load_dir P c' j = Inr (map_option (dir_effect P U j op) (spec_dir P U ops j))" for j
    proof (cases "j = p \<or> j = p'")
      case True
      then show ?thesis using ld p(2) p'(2) k 2 v by (auto simp: dir_effect_def Let_def)
    next
      case False
      then show ?thesis using ld d away by (simp add: describes_def option.map_id)
    qed
    then show ?thesis
      using k p(1) p'(1) den inodes
      by (intro describes_snoc [OF d op]) (auto simp: birth_def targets_def)
  qed
qed

lemma describes_mutate:
  assumes ok: "codec_ok P" "universe P U" and d: "describes P U ops c" and op: "op \<in> U" "op \<notin> set ops"
    and m: "mutate P op c = (Inr Done, c')"
  shows "describes P U (ops @ [op]) c'"
proof (cases "op_kind op")
  case (CreateFile p n md)
  then show ?thesis using m describes_create [OF ok d op, where kd = File] by (simp add: mutate_def)
next
  case (Mkdir p n md)
  then show ?thesis using m describes_create [OF ok d op, where kd = Dir] by (simp add: mutate_def)
next
  case (Rename p n p' n' observed)
  then show ?thesis using m describes_rename [OF ok d op] by (simp add: mutate_def)
next
  case (Unlink p n observed)
  then have u: "mutate_unlink P op p n observed c = (Inr Done, c')" using m by (simp add: mutate_def)
  note acts = mutate_unlink_Done [OF ok(1) u]
  then have p: "genesis P ops p \<noteq> None" "spec_dir P U ops p = Some (fold (dir_effect P U p) ops or_default)"
    using described_dir [OF d] by blast+
  have "rec_effect P i op = id" "dir_effect P U i op = (if p = i then remove_dots n (map dot_for_op observed) else id)" for i
    using Unlink by (auto simp: rec_effect_def dir_effect_def)
  then show ?thesis
    using acts d Unlink p
    by (intro describes_snoc [OF d op]) (auto simp: birth_def targets_def enters_def describes_def option.map_id)
next
  case (Write j off chunks n enc)
  then have w: "off = 0" "chunks_form_whole_file chunks n"
    using ok(2) op(1) by (auto simp: universe_def order_free_def split: fs_op_kind.splits)
  then have "mutate_write P op j 0 chunks n enc c = (Inr Done, c')" using m Write by (simp add: mutate_def)
  note acts = mutate_write_Done [OF ok(1) this w(2)]
  then obtain r where r: "load_inode P c j = Inr (Some r)" by blast
  then have sj: "spec_inode P ops j = Some r" using d by (auto simp: describes_def)
  have e: "dir_effect P U i op = id" for i using Write by (auto simp: dir_effect_def)
  have i: "load_inode P c' i = Inr (map_option (rec_effect P i op) (spec_inode P ops i))" for i
  proof -
    have s: "load_inode P c i = Inr (spec_inode P ops i)" using d by (simp add: describes_def)
    have "i \<noteq> j \<Longrightarrow> rec_effect P i op = id" using Write by (auto simp: rec_effect_def)
    then show ?thesis
      using acts sj s Write w r by (cases "i = j") (auto simp: rec_effect_def written_hash_def option.map_id)
  qed
  show ?thesis
    using Write described_inode [OF d r] acts d
    by (intro describes_snoc [OF d op] i) (auto simp: birth_def targets_def enters_def describes_def e option.map_id)
next
  case (SetAttr j mode uid gid)
  then have "mutate_setattr P op j mode uid gid c = (Inr Done, c')" using m by (simp add: mutate_def)
  note acts = mutate_setattr_Done [OF ok(1) this]
  then obtain r where r: "load_inode P c j = Inr (Some r)" by blast
  then have sj: "spec_inode P ops j = Some r" using d by (auto simp: describes_def)
  have e: "dir_effect P U i op = id" for i using SetAttr by (auto simp: dir_effect_def)
  have i: "load_inode P c' i = Inr (map_option (rec_effect P i op) (spec_inode P ops i))" for i
  proof -
    have s: "load_inode P c i = Inr (spec_inode P ops i)" using d by (simp add: describes_def)
    have "i \<noteq> j \<Longrightarrow> rec_effect P i op = id" using SetAttr by (auto simp: rec_effect_def)
    then show ?thesis
      using acts sj s SetAttr r by (cases "i = j") (auto simp: rec_effect_def option.map_id)
  qed
  show ?thesis
    using SetAttr described_inode [OF d r] acts d
    by (intro describes_snoc [OF d op] i) (auto simp: birth_def targets_def enters_def describes_def e option.map_id)
qed

section \<open>Replicas\<close>

text \<open>
  A replica's state is described by a history that holds exactly the operations marked applied, and everything parked
  comes from the universe.
\<close>

definition replica :: "prims \<Rightarrow> fs_op set \<Rightarrow> fs_op list \<Rightarrow> core \<Rightarrow> bool" where
  "replica P U ops c \<longleftrightarrow>
     describes P U ops c \<and> (\<forall>i. is_op_applied c i \<longleftrightarrow> i \<in> op_id ` set ops) \<and>
     (\<forall>k v op. parked c k = Some v \<longrightarrow> decode_pending P v = Inr op \<longrightarrow> op \<in> U)"

definition quiet :: "prims \<Rightarrow> core \<Rightarrow> core \<Rightarrow> bool" where
  "quiet P c c' \<longleftrightarrow> same_ns P c c' \<and> (\<forall>i. is_op_applied c' i = is_op_applied c i) \<and> queue_shrinks c c'"

lemma quiet_po: "reflp (quiet P)" "transp (quiet P)"
  using same_ns_po [of P] queue_shrinks_po by (auto simp: reflp_def transp_def quiet_def)

lemma quiet_replica: "quiet P c c' \<Longrightarrow> replica P U ops c \<Longrightarrow> replica P U ops c'"
  unfolding quiet_def replica_def describes_def same_ns_def queue_shrinks_def by metis

lemma state_only_quiet: "state_only c c' \<Longrightarrow> same_ns P c c' \<Longrightarrow> quiet P c c'"
  using state_only_queue by (simp add: quiet_def is_op_applied_def state_only_def)

lemma quiet_ops:
  "quiet P c (clear_pending i c)" "quiet P c (observe_time t c)" "quiet P c (append_op P op c)" "quiet P c (put_blob h b c)"
  by (auto simp: quiet_def queue_shrinks_ops is_op_applied_def same_ns_def fun_eq_iff clear_pending_def observe_time_def append_op_def
      queue_shrinks_def parked_def foreign_key_def split: if_splits)

lemma keeps_quiet_maintain: "keeps (quiet P) (maintain_inode_map P op)"
  using keeps_maintain [of P op] keeps_ns_maintain [of P op] state_only_quiet by (auto simp: keeps_def)

lemma snapshot_oplog: "build_snapshot P c = (r, c') \<Longrightarrow> kv_get c' CF_OPLOG = kv_get c CF_OPLOG"
  by (auto simp: build_snapshot_def bindE_def set_state_root_def set_head_def put_object_def Let_def fun_eq_iff
      split: sum.splits prod.splits if_splits)

lemma keeps_quiet_snapshot: "keeps (quiet P) (build_snapshot P)"
proof (rule keepsI)
  fix c r c'
  assume b: "build_snapshot P c = (r, c')"
  have "kv_get c' CF_OPLOG = kv_get c CF_OPLOG" by (rule snapshot_oplog [OF b])
  moreover have "same_ns P c c'" by (rule keepsD [OF keeps_ns_snapshot b])
  ultimately show "quiet P c c'" by (simp add: quiet_def is_op_applied_def queue_shrinks_def parked_def)
qed

text \<open>An operation whose mutation fails, or that is unmet, leaves a replica's namespace as it was.\<close>

lemma mutate_create_error:
  assumes "codec_ok P" "load_dir P c p = Inr m" "mutate_create P op p nm mode kd c = (Inl e, c')"
  shows "c' = c"
  using assms
  by (cases kd) (auto simp: mutate_create_def lift_result_def bindE_def Let_def split: sum.splits if_splits)

lemma mutate_rename_error:
  assumes "codec_ok P" "load_dir P c p = Inr m" "load_dir P c p' = Inr m'" "mutate_rename P op p n p' n' obs c = (Inl e, c')"
  shows "c' = c"
  using assms
  by (cases "p = p'")
    (auto simp: mutate_rename_def lift_result_def bindE_def Let_def split: sum.splits if_splits option.splits prod.splits)

lemma mutate_error_quiet:
  assumes "codec_ok P" "universe P U" "describes P U ops c" "op \<in> U" "mutate P op c = (Inl e, c')"
  shows "c' = c"
proof (cases "op_kind op")
  case (Write j off chunks n enc)
  have "order_free op" using assms by (auto simp: universe_def)
  then have "off = 0" "chunks_form_whole_file chunks n" using Write by (auto simp: order_free_def)
  then show ?thesis
    using assms(5) Write
    by (auto simp: mutate_def mutate_write_def write_node_def bindE_def split: sum.splits if_splits option.splits prod.splits)
next
  case (Rename p n p' n' obs)
  have "load_dir P c i = Inr (spec_dir P U ops i)" for i using assms(3) by (simp add: describes_def)
  from mutate_rename_error [OF assms(1) this this] Rename show ?thesis using assms(5) by (simp add: mutate_def)
next
  case (CreateFile p n md)
  have "load_dir P c p = Inr (spec_dir P U ops p)" using assms(3) by (simp add: describes_def)
  from mutate_create_error [OF assms(1) this] CreateFile show ?thesis using assms(5) by (simp add: mutate_def)
next
  case (Mkdir p n md)
  have "load_dir P c p = Inr (spec_dir P U ops p)" using assms(3) by (simp add: describes_def)
  from mutate_create_error [OF assms(1) this] Mkdir show ?thesis using assms(5) by (simp add: mutate_def)
qed (use assms(3,5) in \<open>auto simp: mutate_def mutate_unlink_def mutate_setattr_def bindE_def split: sum.splits if_splits option.splits\<close>)

text \<open>One operation, from the mutation to the end of its bookkeeping, whatever the outcome.\<close>

lemma replica_finish:
  assumes "describes P U (ops @ [op]) c1" and "\<forall>i. is_op_applied c1 i \<longleftrightarrow> i \<in> op_id ` set ops"
    and "\<forall>k v op. parked c1 k = Some v \<longrightarrow> decode_pending P v = Inr op \<longrightarrow> op \<in> U"
    and f: "finish_applied P op c1 = (r, c2)"
  shows "replica P U (ops @ [op]) c2"
proof -
  let ?c = "mark_op_applied (op_id op) c1"
  have "replica P U (ops @ [op]) ?c"
    using assms(1-3)
    by (auto simp: replica_def describes_def parked_def mark_op_applied_def foreign_key_def is_op_applied_def
        intro: op_id.expand split: if_splits)
  moreover have "quiet P ?c (observe_time (op_time op) (clear_pending (op_id op) ?c))"
    using transpD [OF quiet_po(2) quiet_ops(1) quiet_ops(2)] .
  moreover have "quiet P (observe_time (op_time op) (clear_pending (op_id op) ?c)) c2"
    using keepsD [OF keeps_quiet_maintain, of P op _ r c2] f by (simp add: finish_applied_def bindE_def)
  ultimately show ?thesis using quiet_replica by blast
qed

lemma replica_mutate:
  assumes ok: "codec_ok P" "universe P U" and rep: "replica P U ops c" and op: "op \<in> U" "\<not> is_op_applied c (op_id op)"
    and m: "mutate P op c = (Inr Done, c1)" and f: "finish_applied P op c1 = (r, c2)"
  shows "replica P U (ops @ [op]) c2"
proof (rule replica_finish [OF _ _ _ f])
  have s: "state_only c c1" by (rule keepsD [OF keeps_mutate m])
  have "op \<notin> set ops" using rep op(2) by (auto simp: replica_def)
  then show "describes P U (ops @ [op]) c1" using describes_mutate [OF ok _ op(1) _ m] rep by (simp add: replica_def)
  show "\<forall>i. is_op_applied c1 i \<longleftrightarrow> i \<in> op_id ` set ops"
    using rep s by (simp add: replica_def is_op_applied_def state_only_def)
  show "\<forall>k v op. parked c1 k = Some v \<longrightarrow> decode_pending P v = Inr op \<longrightarrow> op \<in> U"
    using rep state_only_queue [OF s] unfolding replica_def queue_shrinks_def by blast
qed

section \<open>Every entry point keeps a replica a replica\<close>

text \<open>Histories only grow: what a computation adds comes after what was there.\<close>

definition advances :: "prims \<Rightarrow> fs_op set \<Rightarrow> (core, 'a) comp \<Rightarrow> bool" where
  "advances P U m \<longleftrightarrow> (\<forall>ops c. replica P U ops c \<longrightarrow> (\<exists>more. replica P U (ops @ more) (snd (m c))))"

lemma advances_quiet: "keeps (quiet P) m \<Longrightarrow> advances P U m"
  unfolding advances_def keeps_def using quiet_replica by (metis append_Nil2)

lemma advances_bindE:
  assumes "advances P U m" "\<And>x. advances P U (f x)" shows "advances P U (bindE m f)"
  unfolding advances_def
proof (intro allI impI)
  fix ops c
  assume "replica P U ops c"
  then obtain more where r: "replica P U (ops @ more) (snd (m c))" using assms(1) unfolding advances_def by blast
  then have "\<exists>more'. replica P U (ops @ more @ more') (snd (f x (snd (m c))))" for x
    using assms(2) [of x] unfolding advances_def by (metis append.assoc)
  then show "\<exists>more. replica P U (ops @ more) (snd (bindE m f c))"
    using r by (cases "m c") (auto simp: bindE_def split: sum.split)
qed

lemma advances_basic: "advances P U (ret x)" "advances P U (reads g)" "advances P U (lift_result q)" "advances P U (Pair (Inr y))"
  by (simp_all add: advances_def lift_result_def) (metis append_Nil2)+

lemma advances_pure: "(\<And>c. quiet P c (g c)) \<Longrightarrow> advances P U (upd g)"
  by (rule advances_quiet) (simp add: keeps_def)

lemma advancesD: "advances P U m \<Longrightarrow> replica P U ops c \<Longrightarrow> \<exists>more. replica P U (ops @ more) (snd (m c))"
  by (simp add: advances_def)

text \<open>Trying an operation that is not applied yet, as the entry point and the drain both do.\<close>

lemma replica_attempt:
  assumes ok: "codec_ok P" "universe P U" and rep: "replica P U ops c" and op: "op \<in> U" "\<not> is_op_applied c (op_id op)"
    and g: "advances P U g" and h: "\<And>r ops c. replica P U ops c \<Longrightarrow> \<exists>more. replica P U (ops @ more) (snd (h r c))"
  shows "\<exists>more. replica P U (ops @ more)
    (snd (bindE (mutate P op) (\<lambda>m. case m of Done \<Rightarrow> bindE (finish_applied P op) (\<lambda>_. g) | Unmet r \<Rightarrow> h r) c))"
proof -
  obtain mr c1 where m: "mutate P op c = (mr, c1)" by (cases "mutate P op c")
  consider (failed) e where "mr = Inl e" | (applied) "mr = Inr Done" | (unmet) r where "mr = Inr (Unmet r)"
    by (cases mr) (use mutation.exhaust in auto)
  then show ?thesis
  proof cases
    case failed
    then have "c1 = c" using mutate_error_quiet [OF ok] rep op m by (auto simp: replica_def)
    then show ?thesis using rep m failed by (intro exI [of _ "[]"]) (simp add: bindE_def)
  next
    case applied
    obtain r c2 where f: "finish_applied P op c1 = (r, c2)" by (cases "finish_applied P op c1")
    have r2: "replica P U (ops @ [op]) c2" using replica_mutate [OF ok rep op _ f] m applied by simp
    from advancesD [OF g this] obtain more where "replica P U (ops @ [op] @ more) (snd (g c2))" by auto
    with r2 show ?thesis using m applied f by (cases r) (auto simp: bindE_def)
  next
    case unmet
    then have "c1 = c" using mutate_Unmet m by blast
    then show ?thesis using h [OF rep] m unmet by (simp add: bindE_def)
  qed
qed

lemma advances_drain_rows:
  assumes ok: "codec_ok P" "universe P U"
    and "\<forall>(k, v)\<in>set rows. \<forall>op. decode_pending P v = Inr op \<longrightarrow> op \<in> U"
  shows "advances P U (drain_rows P rows)"
  using assms(3)
proof (induction rows)
  case Nil
  show ?case by (simp add: advances_basic)
next
  case (Cons row rows)
  obtain k v where row: "row = (k, v)" by (cases row)
  from Cons have ih: "advances P U (drain_rows P rows)" by simp
  have more: "advances P U (bindE (drain_rows P rows) (\<lambda>(_, total). ret (True, f total)))" for f :: "nat \<Rightarrow> nat"
    by (intro advances_bindE [OF ih]) (auto simp: advances_basic)
  show ?case
    unfolding advances_def
  proof (intro allI impI)
    fix ops c
    assume rep: "replica P U ops c"
    show "\<exists>more. replica P U (ops @ more) (snd (drain_rows P (row # rows) c))"
    proof (cases "decode_pending P v")
      case (Inl e)
      then show ?thesis using rep by (intro exI [of _ "[]"]) (simp add: row bindE_def lift_result_def)
    next
      case (Inr op)
      then have U: "op \<in> U" using Cons.prems by (auto simp: row)
      show ?thesis
      proof (cases "is_op_applied c (op_id op)")
        case True
        have "replica P U ops (clear_pending (op_id op) c)" using quiet_replica [OF quiet_ops(1) rep] .
        from advancesD [OF more this, of id] Inr True show ?thesis by (simp add: row bindE_def lift_result_def)
      next
        case False
        have "drain_rows P (row # rows) c = bindE (mutate P op) (\<lambda>m. case m of
            Done \<Rightarrow> bindE (finish_applied P op) (\<lambda>_. bindE (drain_rows P rows) (\<lambda>(_, total). ret (True, Suc total)))
          | Unmet _ \<Rightarrow> drain_rows P rows) c"
          using Inr False by (simp add: row bindE_def lift_result_def)
        then show ?thesis using replica_attempt [OF ok rep U False more advancesD [OF ih]] by simp
      qed
    qed
  qed
qed

lemma advances_drain: "codec_ok P \<Longrightarrow> universe P U \<Longrightarrow> advances P U (drain_pending P)"
proof -
  assume ok: "codec_ok P" "universe P U"
  have "advances P U (drain_loop P fuel)" for fuel
  proof (induction fuel)
    case 0
    show ?case unfolding advances_def by (auto intro!: exI [of _ "[]"])
  next
    case (Suc fuel)
    show ?case
      unfolding advances_def
    proof (intro allI impI)
      fix ops c
      assume rep: "replica P U ops c"
      then have "\<forall>(k, v)\<in>set (queue c). \<forall>op. decode_pending P v = Inr op \<longrightarrow> op \<in> U"
        by (auto simp: in_queue replica_def)
      then have "advances P U (bindE (drain_rows P (queue c)) (\<lambda>(progressed, total).
          if \<not> progressed then ret total else bindE (drain_loop P fuel) (\<lambda>more. ret (total + more))))"
        by (intro advances_bindE advances_drain_rows [OF ok])
          (auto intro!: advances_bindE Suc advances_basic simp: advances_basic)
      from advancesD [OF this rep] show "\<exists>more. replica P U (ops @ more) (snd (drain_loop P (Suc fuel) c))"
        using rep by (auto simp: bindE_def [of "reads _"] intro: exI [of _ "[]"])
    qed
  qed
  then show ?thesis unfolding advances_def drain_pending_def by blast
qed

lemma advances_snapshot: "advances P U (build_snapshot P)"
  by (rule advances_quiet [OF keeps_quiet_snapshot])

lemma advances_settle: "codec_ok P \<Longrightarrow> universe P U \<Longrightarrow> advances P U (settle P out)"
  unfolding settle_def
  by (auto intro!: advances_bindE advances_drain advances_snapshot advances_basic)

lemma replica_store_pending:
  assumes "codec_ok P" "op \<in> U" "replica P U ops c" shows "replica P U ops (store_pending P op c)"
proof -
  have "decode_pending P (enc_op P op) = Inr op" using assms(1) by (simp add: decode_pending_def)
  then show ?thesis
    using assms(2,3)
    by (auto simp: replica_def describes_def parked_def store_pending_def foreign_key_def is_op_applied_def split: if_splits)
qed

lemma apply_tail_attempt:
  "apply_tail P op = bindE (mutate P op) (\<lambda>m. case m of
      Done \<Rightarrow> bindE (finish_applied P op) (\<lambda>_. settle P Applied)
    | Unmet r \<Rightarrow> (\<lambda>c. settle P (Pending r) (store_pending P op c)))"
  by (rule ext) (auto simp: apply_tail_eq bindE_def split: prod.split sum.split mutation.split)

lemma advances_apply:
  assumes ok: "codec_ok P" "universe P U" and op: "op \<in> U"
  shows "advances P U (apply_op_inner P op pol)"
  unfolding advances_def
proof (intro allI impI)
  fix ops c
  assume rep: "replica P U ops c"
  have st: "\<exists>more. replica P U (ops @ more) (snd (settle P (Pending r) (store_pending P op c)))"
    if "replica P U ops c" for r ops c
    using advancesD [OF advances_settle [OF ok] replica_store_pending [OF ok(1) op that]] .
  show "\<exists>more. replica P U (ops @ more) (snd (apply_op_inner P op pol c))"
  proof (cases "is_op_applied c (op_id op)")
    case True
    then show ?thesis
      using rep by (intro exI [of _ "[]"]) (simp add: apply_op_inner_cases split: sum.split)
  next
    case False
    let ?c = "append_op P op c"
    have "replica P U ops ?c" "\<not> is_op_applied ?c (op_id op)"
      using quiet_replica [OF quiet_ops(3) rep] False quiet_ops(3) [of P c op] by (auto simp: quiet_def)
    from replica_attempt [OF ok this(1) op this(2) advances_settle [OF ok] st]
    have "\<exists>more. replica P U (ops @ more) (snd (apply_tail P op ?c))" by (simp add: apply_tail_attempt)
    then show ?thesis
      using rep False by (auto simp: apply_op_inner_cases split: sum.split intro: exI [of _ "[]"])
  qed
qed


section \<open>Reachable replicas\<close>

inductive reached :: "prims \<Rightarrow> fs_op set \<Rightarrow> core \<Rightarrow> bool" for P U where
  reached_bootstrap: "stores c = mem_new \<Longrightarrow> bootstrap_if_needed P c = (r, c') \<Longrightarrow> reached P U c'"
| reached_apply: "reached P U c \<Longrightarrow> op \<in> U \<Longrightarrow> apply_op P op c = (r, c') \<Longrightarrow> reached P U c'"
| reached_unproven: "reached P U c \<Longrightarrow> op \<in> U \<Longrightarrow> apply_op_unproven P op c = (r, c') \<Longrightarrow> reached P U c'"
| reached_retry: "reached P U c \<Longrightarrow> retry_pending P c = (r, c') \<Longrightarrow> reached P U c'"
| reached_content: "reached P U c \<Longrightarrow> reached P U (put_blob h b c)"

lemma bootstrap_replica:
  assumes ok: "codec_ok P" and "stores c = mem_new" "bootstrap_if_needed P c = (r, c')"
  shows "replica P U [] c'"
proof -
  let ?c = "store_dir P ROOT_INODE or_default (store_inode P ROOT_INODE (inode_record_new Dir 0x41ED 0 0 0) c)"
  have kv: "kv_get c cf k = None" for cf k using assms(2) by (simp add: mem_new_def get_kv_def)
  have "describes P U [] ?c"
    using ok kv
    by (auto simp: describes_def history_def spec_inode_def spec_dir_def genesis_def root_record_def load_dir_def load_inode_def
        store_dir_def store_inode_def inode_record_new_def)
  then have rep: "replica P U [] ?c"
    by (simp add: replica_def is_op_applied_def parked_def store_dir_def store_inode_def kv)
  have "keeps (quiet P) (rebuild_inode_map P)"
    using keeps_rebuild [of P] keeps_ns_rebuild [of P P] state_only_quiet by (auto simp: keeps_def)
  moreover have "quiet P x (stamp_current_format x)" for x
    by (auto simp: quiet_def same_ns_def fun_eq_iff stamp_current_format_def set_format_version_def foreign_key_def
        is_op_applied_def queue_shrinks_def parked_def split: if_splits)
  ultimately have k: "keeps (quiet P) (bindE (rebuild_inode_map P) (\<lambda>_. bindE (build_snapshot P) (\<lambda>_. upd stamp_current_format)))"
    by (intro keeps_bindE [OF quiet_po(2)] keeps_quiet_snapshot keeps_upd)
  have "get_head c = None" by (simp add: get_head_def read_hash_def kv)
  then have "bindE (rebuild_inode_map P) (\<lambda>_. bindE (build_snapshot P) (\<lambda>_. upd stamp_current_format)) ?c = (r, c')"
    using assms(3) by (simp add: bootstrap_if_needed_def bindE_def [of "reads _"] bindE_def [of "upd _"])
  from keepsD [OF k this] rep show ?thesis by (rule quiet_replica)
qed

lemma reached_replica:
  assumes "codec_ok P" "universe P U" "reached P U c"
  shows "\<exists>ops. replica P U ops c"
  using assms(3)
proof (induction rule: reached.induct)
  case (reached_bootstrap c r c')
  then show ?case using bootstrap_replica [OF assms(1)] by blast
next
  case (reached_apply c op r c')
  then show ?case using advancesD [OF advances_apply [OF assms(1,2)]] unfolding apply_op_def by (metis snd_conv)
next
  case (reached_unproven c op r c')
  then show ?case using advancesD [OF advances_apply [OF assms(1,2)]] unfolding apply_op_unproven_def by (metis snd_conv)
next
  case (reached_retry c r c')
  have "advances P U (retry_pending P)"
    unfolding retry_pending_def by (auto intro!: advances_bindE advances_drain [OF assms(1,2)] advances_snapshot advances_basic)
  then show ?case using reached_retry advancesD by (metis snd_conv)
next
  case (reached_content c h b)
  then show ?case using quiet_replica [OF quiet_ops(4)] by blast
qed

section \<open>Convergence\<close>

text \<open>The survey walk reads nothing but the namespace.\<close>

lemma survey_walk_same_ns:
  assumes "same_ns P a b"
  shows "walk_root P False b = (fst (walk_root P False a), (snd (walk_root P False a))\<lparr>wk_core := b\<rparr>)"
proof -
  let ?S = "\<lambda>w. wk_core w = a" and ?h = "\<lambda>w. w\<lparr>wk_core := b\<rparr>"
  have ns: "load_inode P b i = load_inode P a i" "materialize_dir P b i = materialize_dir P a i" "dir_object P b i es = dir_object P a i es" for i es
    using assms by (simp_all add: same_ns_def materialize_dir_def dir_object_def)
  have wfile: "in_step ?S ?h (walk_file P j) (walk_file P j)" for j
    unfolding walk_file_def
    by (intro in_step_bindE in_step_reads) (auto simp: ns split: option.split intro!: in_step_ret in_step_upd)
  have obj: "in_step ?S ?h (walk_object P False i es) (walk_object P False i es)" for i es
    unfolding walk_object_def by (intro in_step_bindE in_step_reads) (auto simp: ns in_step_def)
  have tree: "in_step ?S ?h (materialize_tree P False fuel i) (materialize_tree P False fuel i)" for fuel i
  proof (induction fuel arbitrary: i)
    case 0
    show ?case by (simp add: in_step_def)
  next
    case (Suc fuel)
    have "in_step ?S ?h (walk_entry P (materialize_tree P False fuel) e) (walk_entry P (materialize_tree P False fuel) e)" for e
      unfolding walk_entry_def by (auto split: entry_type.split intro!: in_step_bindE Suc in_step_ret wfile)
    then have body: "in_step ?S ?h (walk_dir P False (materialize_tree P False fuel) i) (walk_dir P False (materialize_tree P False fuel) i)"
      unfolding walk_dir_def by (intro in_step_bindE in_step_reads in_step_for_each obj) (simp_all add: ns)
    show ?case
    proof (rule in_stepI)
      fix w :: walk
      assume "wk_core w = a"
      have sw: "w\<lparr>wk_core := b, wk_visited := v\<rparr> = w\<lparr>wk_visited := v, wk_core := b\<rparr>" for v by simp
      from \<open>wk_core w = a\<close> body [unfolded in_step_def, rule_format, of "w\<lparr>wk_visited := finsert i (wk_visited w)\<rparr>"]
      show "materialize_tree P False (Suc fuel) i (?h w) =
          (fst (materialize_tree P False (Suc fuel) i w), ?h (snd (materialize_tree P False (Suc fuel) i w))) \<and>
          wk_core (snd (materialize_tree P False (Suc fuel) i w)) = a"
        by (auto simp: Let_def sw)
    qed
  qed
  from this [unfolded in_step_def, rule_format, of "\<lparr>wk_map = fmempty, wk_visited = {||}, wk_core = a\<rparr>"]
  show ?thesis by (simp add: walk_root_def)
qed

lemma same_ns_reads:
  assumes ns: "same_ns P a b"
  shows "load_dir P a = load_dir P b" "load_inode P a = load_inode P b" "materialize_dir P a = materialize_dir P b"
    "resolve_path P a = resolve_path P b"
proof -
  show d: "load_dir P a = load_dir P b" and "load_inode P a = load_inode P b" using ns by (simp_all add: same_ns_def)
  show m: "materialize_dir P a = materialize_dir P b" by (simp add: fun_eq_iff materialize_dir_def d)
  have l: "lookup P a = lookup P b" by (intro ext) (simp only: lookup_def d m)
  have "resolve_loop P a p k parts = resolve_loop P b p k parts" for p k parts
    by (induction parts arbitrary: p k) (auto simp: l intro!: arg_cong [where f = "rbind _"] ext split: option.split)
  then show "resolve_path P a = resolve_path P b" by (simp add: fun_eq_iff resolve_path_def)
qed

lemma replicas_same_ns:
  assumes "universe P U" "replica P U xs a" "replica P U ys b" "\<And>i. is_op_applied a i = is_op_applied b i"
  shows "same_ns P a b"
proof -
  have h: "history P U xs" "history P U ys" using assms(2,3) by (simp_all add: replica_def describes_def)
  have "op_id ` set xs = op_id ` set ys" using assms(2-4) by (auto simp: replica_def set_eq_iff)
  moreover have "inj_on op_id (set xs \<union> set ys)"
    using assms(1) h by (auto simp: universe_def history_def intro: inj_on_subset)
  ultimately have "set xs = set ys" by (simp add: inj_on_Un_image_eq_iff)
  then have "spec_inode P xs = spec_inode P ys" "spec_dir P U xs = spec_dir P U ys"
    using spec_depends_on_set [OF assms(1)] h by (auto simp: history_def)
  then show ?thesis using assms(2,3) by (simp add: same_ns_def replica_def describes_def fun_eq_iff)
qed


definition sample_mkdir :: fs_op where
  "sample_mkdir = sample_op (OpId 1 1) (Mkdir 1 ''d'' 0)"

lemma sample_universe: "universe sample {sample_mkdir}"
  by (simp add: universe_def order_free_def sample_mkdir_def sample_op_def)



end
