(* ===== verification/Text.thy ===== *)
theory Text
  imports Prelude "HOL-Library.Signed_Division"
begin

text \<open>
  The string methods of the Rust standard library that the parsers of the program use: \<open>trim\<close>,
  \<open>split_whitespace\<close>, \<open>lines\<close>, \<open>to_ascii_lowercase\<close>, \<open>strip_prefix\<close>, \<open>contains\<close>, \<open>ends_with\<close>, \<open>split\<close>,
  \<open>parse\<close> at the integer types, hexadecimal numbers and UTF-8. A string is its list of bytes; white space is the ASCII white space, so the
  multi-byte white space of Unicode, which \<open>str::trim\<close> also drops, is outside the model.
\<close>

definition is_ws :: "char \<Rightarrow> bool" where
  "is_ws c \<longleftrightarrow> (let n = of_char c :: nat in n = 32 \<or> (9 \<le> n \<and> n \<le> 13))"

definition trim :: "string \<Rightarrow> string" where
  "trim s = rev (dropWhile is_ws (rev (dropWhile is_ws s)))"

text \<open>Splitting into maximal runs of characters that are no separators.\<close>

fun words_by :: "(char \<Rightarrow> bool) \<Rightarrow> string \<Rightarrow> string \<Rightarrow> string list" where
  "words_by p acc [] = (if acc = [] then [] else [rev acc])"
| "words_by p acc (c # cs) =
     (if p c then (if acc = [] then words_by p [] cs else rev acc # words_by p [] cs) else words_by p (c # acc) cs)"

definition split_whitespace :: "string \<Rightarrow> string list" where
  "split_whitespace = words_by is_ws []"

text \<open>
  \<open>str::lines\<close>: a line ends with a line feed or with a carriage return and a line feed; a last line without one counts,
  an empty one after the last line feed does not.
\<close>

definition drop_cr :: "string \<Rightarrow> string" where
  "drop_cr racc = (case racc of c # r \<Rightarrow> if c = CHR 0x0D then rev r else rev racc | [] \<Rightarrow> [])"

fun lines_from :: "string \<Rightarrow> string \<Rightarrow> string list" where
  "lines_from acc [] = (if acc = [] then [] else [rev acc])"
| "lines_from acc (c # cs) = (if c = CHR 0x0A then drop_cr acc # lines_from [] cs else lines_from (c # acc) cs)"

definition lines_of :: "string \<Rightarrow> string list" where
  "lines_of = lines_from []"

definition ascii_lower :: "char \<Rightarrow> char" where
  "ascii_lower c = (let n = of_char c :: nat in if 65 \<le> n \<and> n \<le> 90 then char_of (n + 32) else c)"

definition to_ascii_lowercase :: "string \<Rightarrow> string" where
  "to_ascii_lowercase = map ascii_lower"

fun strip_prefix :: "string \<Rightarrow> string \<Rightarrow> string option" where
  "strip_prefix [] s = Some s"
| "strip_prefix (p # ps) [] = None"
| "strip_prefix (p # ps) (c # cs) = (if p = c then strip_prefix ps cs else None)"

definition text_starts :: "string \<Rightarrow> string \<Rightarrow> bool" where
  "text_starts p s \<longleftrightarrow> strip_prefix p s \<noteq> None"

fun contains :: "string \<Rightarrow> string \<Rightarrow> bool" where
  "contains p [] \<longleftrightarrow> p = []"
| "contains p (c # cs) \<longleftrightarrow> text_starts p (c # cs) \<or> contains p cs"

definition ends_with :: "string \<Rightarrow> string \<Rightarrow> bool" where
  "ends_with p s \<longleftrightarrow> text_starts (rev p) (rev s)"

text \<open>\<open>Iterator::find_map\<close> and \<open>Iterator::position\<close>.\<close>

fun find_map :: "('a \<Rightarrow> 'b option) \<Rightarrow> 'a list \<Rightarrow> 'b option" where
  "find_map f [] = None"
| "find_map f (x # xs) = (case f x of Some y \<Rightarrow> Some y | None \<Rightarrow> find_map f xs)"

fun position :: "('a \<Rightarrow> bool) \<Rightarrow> 'a list \<Rightarrow> nat option" where
  "position p [] = None"
| "position p (x # xs) = (if p x then Some 0 else map_option Suc (position p xs))"

definition list_get :: "'a list \<Rightarrow> nat \<Rightarrow> 'a option" where
  "list_get xs i = (if i < length xs then Some (xs ! i) else None)"

definition is_digit :: "char \<Rightarrow> bool" where
  "is_digit c \<longleftrightarrow> (let n = of_char c :: nat in 48 \<le> n \<and> n \<le> 57)"

definition digit_value :: "char \<Rightarrow> nat" where
  "digit_value c = of_char c - 48"

definition decimal :: "string \<Rightarrow> nat" where
  "decimal s = foldl (\<lambda>n c. n * 10 + digit_value c) 0 s"

text \<open>
  \<open>parse\<close> at an unsigned type of \<open>w\<close> bits: an optional plus sign, then at least one digit and nothing else; a value out
  of range is an error. At a signed type a minus sign is accepted too.
\<close>

definition parse_digits :: "string \<Rightarrow> nat option" where
  "parse_digits s = (if s \<noteq> [] \<and> list_all is_digit s then Some (decimal s) else None)"

definition unsigned_text :: "string \<Rightarrow> nat option" where
  "unsigned_text s = (case s of c # cs \<Rightarrow> if c = CHR ''+'' then parse_digits cs else parse_digits s | [] \<Rightarrow> None)"

definition parse_uint :: "string \<Rightarrow> 'a::len word option" where
  "parse_uint s = (case unsigned_text s of Some n \<Rightarrow> if n < 2 ^ LENGTH('a) then Some (word_of_nat n) else None | None \<Rightarrow> None)"

definition parse_i32 :: "string \<Rightarrow> int option" where
  "parse_i32 s =
     (let v = (case s of c # cs \<Rightarrow> if c = CHR ''-'' then map_option (\<lambda>n. - int n) (parse_digits cs) else map_option int (unsigned_text s)
               | [] \<Rightarrow> None)
      in case v of Some i \<Rightarrow> if - (2 ^ 31) \<le> i \<and> i < 2 ^ 31 then Some i else None | None \<Rightarrow> None)"

text \<open>
  \<open>Display\<close> and \<open>{:x}\<close> of an unsigned number, \<open>from_str_radix\<close> at base 16 with its optional plus sign, and
  \<open>trim_start_matches\<close>, which drops every leading copy of a text.
\<close>

function digits :: "nat \<Rightarrow> string" where
  "digits n = (if n < 10 then [char_of (48 + n)] else digits (n div 10) @ [char_of (48 + n mod 10)])"
  by auto
termination by (relation "measure id") auto

declare digits.simps [simp del]

definition hex_char :: "nat \<Rightarrow> char" where
  "hex_char n = (if n < 10 then char_of (48 + n) else char_of (87 + n))"

function lower_hex :: "nat \<Rightarrow> string" where
  "lower_hex n = (if n < 16 then [hex_char n] else lower_hex (n div 16) @ [hex_char (n mod 16)])"
  by auto
termination by (relation "measure id") auto

declare lower_hex.simps [simp del]

definition hex_value :: "char \<Rightarrow> nat option" where
  "hex_value c =
     (let n = of_char c :: nat in
      if 48 \<le> n \<and> n \<le> 57 then Some (n - 48)
      else if 97 \<le> n \<and> n \<le> 102 then Some (n - 87)
      else if 65 \<le> n \<and> n \<le> 70 then Some (n - 55) else None)"

fun hex_loop :: "nat \<Rightarrow> string \<Rightarrow> nat option" where
  "hex_loop n [] = Some n"
| "hex_loop n (c # cs) = (case hex_value c of None \<Rightarrow> None | Some d \<Rightarrow> hex_loop (n * 16 + d) cs)"

definition from_hex :: "string \<Rightarrow> 'a::len word option" where
  "from_hex s =
     (let cs = (case s of c # r \<Rightarrow> if c = CHR ''+'' then r else s | [] \<Rightarrow> []) in
      if cs = [] then None
      else case hex_loop 0 cs of Some n \<Rightarrow> if n < 2 ^ LENGTH('a) then Some (word_of_nat n) else None | None \<Rightarrow> None)"

function trim_start_matches :: "string \<Rightarrow> string \<Rightarrow> string" where
  "trim_start_matches p s = (if p = [] \<or> take (length p) s \<noteq> p then s else trim_start_matches p (drop (length p) s))"
  by auto
termination
  by (relation "measure (\<lambda>(p, s). length s)") (auto simp: length_greater_0_conv intro!: diff_less)

declare trim_start_matches.simps [simp del]

text \<open>\<open>str::from_utf8\<close>: the well-formed byte sequences of the Unicode standard.\<close>

definition cont :: "byte \<Rightarrow> bool" where
  "cont b \<longleftrightarrow> 0x80 \<le> b \<and> b \<le> 0xBF"

fun utf8_ok :: "bytes \<Rightarrow> bool" where
  "utf8_ok [] = True"
| "utf8_ok (a # bs) =
     (if a \<le> 0x7F then utf8_ok bs
      else if 0xC2 \<le> a \<and> a \<le> 0xDF then (case bs of b # r \<Rightarrow> cont b \<and> utf8_ok r | _ \<Rightarrow> False)
      else if 0xE0 \<le> a \<and> a \<le> 0xEF then
        (case bs of
           b # c # r \<Rightarrow>
             cont b \<and> (a = 0xE0 \<longrightarrow> 0xA0 \<le> b) \<and> (a = 0xED \<longrightarrow> b \<le> 0x9F) \<and> cont c \<and> utf8_ok r
         | _ \<Rightarrow> False)
      else if 0xF0 \<le> a \<and> a \<le> 0xF4 then
        (case bs of
           b # c # d # r \<Rightarrow>
             cont b \<and> (a = 0xF0 \<longrightarrow> 0x90 \<le> b) \<and> (a = 0xF4 \<longrightarrow> b \<le> 0x8F) \<and> cont c \<and> cont d \<and> utf8_ok r
         | _ \<Rightarrow> False)
      else False)"

section \<open>Laws\<close>

lemma words_by_word:
  "list_all (\<lambda>c. \<not> p c) w \<Longrightarrow> words_by p acc (w @ cs) = words_by p (rev w @ acc) cs"
  by (induction w arbitrary: acc) auto

lemma words_by_sep: "list_all p s \<Longrightarrow> words_by p [] (s @ cs) = words_by p [] cs"
  by (induction s) auto

text \<open>A line of words, each with the white space before it, splits into these words.\<close>

definition word :: "string \<Rightarrow> bool" where
  "word w \<longleftrightarrow> w \<noteq> [] \<and> list_all (\<lambda>c. \<not> is_ws c) w"

fun spaced :: "(string \<times> string) list \<Rightarrow> string" where
  "spaced [] = []"
| "spaced ((g, w) # r) = g @ w @ spaced r"

definition spaced_ok :: "(string \<times> string) list \<Rightarrow> bool" where
  "spaced_ok ws \<longleftrightarrow> list_all (\<lambda>(g, w). list_all is_ws g \<and> word w) ws \<and> list_all (\<lambda>(g, w). g \<noteq> []) (tl ws)"

lemma spaced_ok_tl: "spaced_ok (x # ws) \<Longrightarrow> spaced_ok ws"
  by (cases ws) (auto simp: spaced_ok_def)

lemma split_whitespace_spaced: "spaced_ok ws \<Longrightarrow> split_whitespace (spaced ws) = map snd ws"
proof (induction ws)
  case Nil
  show ?case by (simp add: split_whitespace_def)
next
  case (Cons x ws)
  obtain g w where x: "x = (g, w)" by (cases x)
  have w: "w \<noteq> []" "list_all (\<lambda>c. \<not> is_ws c) w" and g: "list_all is_ws g"
    using Cons.prems by (simp_all add: x spaced_ok_def word_def)
  have "words_by is_ws (rev w) (spaced ws) = w # words_by is_ws [] (spaced ws)"
  proof (cases ws)
    case (Cons y ys)
    obtain g' w' where y: "y = (g', w')" by (cases y)
    with Cons Cons.prems obtain c cs where "g' = c # cs" "is_ws c" by (cases g') (auto simp: x spaced_ok_def)
    then show ?thesis using w by (simp add: Cons y)
  qed (use w in simp)
  then show ?case using Cons.IH [OF spaced_ok_tl [OF Cons.prems]] w g
    by (simp add: x split_whitespace_def words_by_word words_by_sep)
qed

lemma trim_nonblank: "c \<in> set s \<Longrightarrow> \<not> is_ws c \<Longrightarrow> trim s \<noteq> []"
  by (auto simp: trim_def dropWhile_eq_Nil_conv) (metis in_set_conv_decomp set_dropWhileD dropWhile_append3 list.set_intros(1) set_append Un_iff)

lemma trim_spaced: "spaced_ok ws \<Longrightarrow> ws \<noteq> [] \<Longrightarrow> trim (spaced ws) \<noteq> []"
proof (cases ws)
  case (Cons x r)
  assume "spaced_ok ws"
  then obtain g c w where "x = (g, c # w)" "\<not> is_ws c" using Cons by (cases x, cases "snd x") (auto simp: spaced_ok_def word_def)
  then show ?thesis using Cons trim_nonblank [of c "spaced ws"] by simp
qed simp

lemma find_map_Some: "find_map f xs = Some y \<Longrightarrow> \<exists>x \<in> set xs. f x = Some y"
  by (induction xs) (auto split: option.splits)

lemma position_append_first:
  "list_all (\<lambda>x. \<not> p x) xs \<Longrightarrow> p y \<Longrightarrow> position p (xs @ y # ys) = Some (length xs)"
  by (induction xs) auto

lemma list_get_append [simp]: "list_get (xs @ y # ys) (length xs) = Some y"
  by (simp add: list_get_def)

lemma strip_prefix_Some: "strip_prefix p s = Some r \<longleftrightarrow> s = p @ r"
  by (induction p s rule: strip_prefix.induct) auto

lemma text_starts_iff: "text_starts p s \<longleftrightarrow> (\<exists>r. s = p @ r)"
  by (auto simp: text_starts_def strip_prefix_Some)

lemma ends_with_iff: "ends_with p s \<longleftrightarrow> (\<exists>r. s = r @ p)"
  by (auto simp: ends_with_def text_starts_iff) (metis rev_append rev_rev_ident)

lemma contains_iff: "contains p s \<longleftrightarrow> (\<exists>l r. s = l @ p @ r)"
proof (induction s)
  case (Cons c cs)
  have "(\<exists>l r. c # cs = l @ p @ r) \<longleftrightarrow> (\<exists>r. c # cs = p @ r) \<or> (\<exists>l r. cs = l @ p @ r)"
    by (metis append_Cons append_Nil list.exhaust list.inject)
  then show ?case using Cons by (simp add: text_starts_iff)
qed auto

lemma digit_no_ws: "is_digit c \<Longrightarrow> \<not> is_ws c"
  by (auto simp: is_digit_def is_ws_def Let_def)

lemma digit_no_plus: "is_digit c \<Longrightarrow> c \<noteq> CHR ''+'' \<and> c \<noteq> CHR ''%''"
  by (auto simp: is_digit_def Let_def)

lemma parse_uint_digits:
  assumes "s \<noteq> []" "list_all is_digit s" "decimal s < 2 ^ LENGTH('a::len)"
  shows "parse_uint s = Some (word_of_nat (decimal s) :: 'a word)"
  using assms digit_no_plus
  by (cases s) (auto simp: parse_uint_def unsigned_text_def parse_digits_def)

text \<open>A number written in hexadecimal is read back.\<close>

lemma hex_value_char: "n < 16 \<Longrightarrow> hex_value (hex_char n) = Some n"
  by (auto simp: hex_value_def hex_char_def Let_def)

lemma hex_loop_append: "hex_loop n (s @ t) = Option.bind (hex_loop n s) (\<lambda>m. hex_loop m t)"
  by (induction s arbitrary: n) (auto split: option.split)

lemma hex_loop_lower: "hex_loop 0 (lower_hex n) = Some n"
proof (induction n rule: less_induct)
  case (less n)
  show ?case
    by (cases "n < 16") (simp_all add: lower_hex.simps [of n] hex_value_char hex_loop_append less)
qed

lemma lower_hex_chars: "c \<in> set (lower_hex n) \<Longrightarrow> hex_value c \<noteq> None"
proof (induction n rule: less_induct)
  case (less n)
  then have "c = hex_char (n mod 16) \<or> n \<ge> 16 \<and> c \<in> set (lower_hex (n div 16))"
    by (cases "n < 16") (auto simp: lower_hex.simps [of n])
  moreover have "n div 16 < n" if "n \<ge> 16" using that by simp
  ultimately show ?case using less.IH [of "n div 16"] hex_value_char [of "n mod 16"] by auto
qed

lemma hex_value_graphic: "hex_value c \<noteq> None \<Longrightarrow> \<not> is_ws c \<and> c \<noteq> CHR ''+'' \<and> c \<noteq> CHR ''x''"
  by (auto simp: hex_value_def is_ws_def Let_def split: if_splits)

lemma lower_hex_nonempty [simp]: "lower_hex n \<noteq> []"
  by (simp add: lower_hex.simps [of n])

lemma from_hex_lower: "from_hex (lower_hex (unat w)) = Some w"
proof -
  obtain c cs where c: "lower_hex (unat w) = c # cs" by (cases "lower_hex (unat w)") auto
  then have "c \<noteq> CHR ''+''" using lower_hex_chars [of c "unat w"] hex_value_graphic by auto
  then show ?thesis using c hex_loop_lower [of "unat w"] by (simp add: from_hex_def)
qed

lemma trim_graphic: "list_all (\<lambda>c. \<not> is_ws c) s \<Longrightarrow> trim s = s"
proof -
  assume s: "list_all (\<lambda>c. \<not> is_ws c) s"
  then have "dropWhile is_ws s = s" "dropWhile is_ws (rev s) = rev s"
    by (auto simp: dropWhile_eq_self_iff list_all_iff hd_rev)
  then show ?thesis by (simp add: trim_def)
qed

lemma trim_hex: "(\<And>c. c \<in> set s \<Longrightarrow> hex_value c \<noteq> None) \<Longrightarrow> trim_start_matches ''0x'' (trim s) = s"
proof -
  assume s: "\<And>c. c \<in> set s \<Longrightarrow> hex_value c \<noteq> None"
  then have "trim s = s" using hex_value_graphic by (intro trim_graphic) (auto simp: list_all_iff)
  moreover have "take (Suc (Suc 0)) s \<noteq> ''0x''"
  proof
    assume "take (Suc (Suc 0)) s = ''0x''"
    then have "CHR ''x'' \<in> set s" by (metis in_set_takeD list.set_intros)
    then show False using s hex_value_graphic by blast
  qed
  ultimately show ?thesis by (simp add: trim_start_matches.simps [of _ s])
qed

lemma utf8_ascii: "list_all (\<lambda>b. b \<le> 0x7F) bs \<Longrightarrow> utf8_ok bs"
  by (induction bs) auto

end
