(* ===== verification/Energy.thy ===== *)
theory Energy
  imports Complex_Main Text
begin

text \<open>
  The energy crate: device readings (\<open>energy/src/telemetry.rs\<close>, \<open>link.rs\<close>, \<open>storage.rs\<close>) and the rule-based
  scheduler that turns them into a replication budget (\<open>scheduler.rs\<close>).

  What the operating system prints is an argument of the parsers: the text of \<open>/proc/net/route\<close>, of \<open>nmcli\<close> and of
  \<open>df -Pk\<close>, the attribute files below \<open>/sys/class/power_supply\<close> and \<open>/sys/class/thermal\<close>, each absent when the
  source cannot be read. \<open>i16\<close> and \<open>i32\<close> readings are integers, since no arithmetic on them can leave its range. The
  multipliers of the poll interval are the exact values 1, 3/2, 2 and 4. A reason is its template with the interpolated
  values; its rendering as text is not modelled.
\<close>

section \<open>Readings\<close>

datatype power_source = Mains | Battery | PowerUnknown

datatype link_cost = Unmetered | Metered | LinkUnknown

record telemetry =
  power :: power_source
  battery_pct :: "byte option"
  temp_c :: "int option"
  cpu_load :: "rat option"
  link :: link_cost
  storage_free_bytes :: "u64 option"
  sampled_unix_ms :: u64

definition telemetry_default :: telemetry where
  "telemetry_default = \<lparr>power = PowerUnknown, battery_pct = None, temp_c = None, cpu_load = None, link = LinkUnknown,
     storage_free_bytes = None, sampled_unix_ms = 0\<rparr>"

definition on_battery :: "telemetry \<Rightarrow> bool" where
  "on_battery t \<longleftrightarrow> power t = Battery"

subsection \<open>Link cost\<close>

definition parse_config :: "string \<Rightarrow> link_cost option" where
  "parse_config raw =
     (let v = to_ascii_lowercase (trim raw) in
      if v = ''metered'' then Some Metered
      else if v = ''unmetered'' then Some Unmetered
      else if v = ''unknown'' then Some LinkUnknown
      else None)"

definition config_is_valid :: "string \<Rightarrow> bool" where
  "config_is_valid raw =
     (let v = to_ascii_lowercase (trim raw) in v = [] \<or> v = ''auto'' \<or> parse_config v \<noteq> None)"

definition route_row :: "string \<Rightarrow> (u32 \<times> string) option" where
  "route_row line =
     (case split_whitespace line of
        iface # destination # rest \<Rightarrow>
          if destination \<noteq> ''00000000'' then None
          else (case list_get rest 4 of
                  None \<Rightarrow> None
                | Some m \<Rightarrow> (case parse_uint m of None \<Rightarrow> None | Some metric \<Rightarrow> Some (metric, iface)))
      | _ \<Rightarrow> None)"

text \<open>\<open>min_by_key\<close> keeps the first of the rows with the least key.\<close>

fun min_by_fst :: "(u32 \<times> 'b) list \<Rightarrow> (u32 \<times> 'b) option" where
  "min_by_fst [] = None"
| "min_by_fst (x # xs) = (case min_by_fst xs of None \<Rightarrow> Some x | Some y \<Rightarrow> if fst y < fst x then Some y else Some x)"

definition default_route_iface :: "string \<Rightarrow> string option" where
  "default_route_iface routes = map_option snd (min_by_fst (List.map_filter route_row (drop 1 (lines_of routes))))"

definition parse_nm_metered :: "string \<Rightarrow> link_cost" where
  "parse_nm_metered out =
     (case find_map (\<lambda>l. strip_prefix ''GENERAL.METERED:'' (trim l)) (lines_of out) of
        None \<Rightarrow> LinkUnknown
      | Some raw \<Rightarrow>
          (let v = to_ascii_lowercase (trim raw) in
           if text_starts ''yes'' v then Metered else if text_starts ''no'' v then Unmetered else LinkUnknown))"

text \<open>On Linux: the routing table, and \<open>nmcli\<close> asked about an interface, which answers nothing when it cannot be run or
  fails.\<close>

definition linux_detect :: "string option \<Rightarrow> (string \<Rightarrow> string option) \<Rightarrow> link_cost" where
  "linux_detect routes nmcli =
     (case routes of
        None \<Rightarrow> LinkUnknown
      | Some r \<Rightarrow>
          (case default_route_iface r of
             None \<Rightarrow> LinkUnknown
           | Some iface \<Rightarrow> (case nmcli iface of None \<Rightarrow> LinkUnknown | Some out \<Rightarrow> parse_nm_metered out)))"

definition parse_route_get_default :: "string \<Rightarrow> string option" where
  "parse_route_get_default out =
     (case map_option trim (find_map (\<lambda>l. strip_prefix ''interface:'' (trim l)) (lines_of out)) of
        None \<Rightarrow> None | Some s \<Rightarrow> if s = [] then None else Some s)"

fun tether_loop :: "string \<Rightarrow> string \<Rightarrow> string list \<Rightarrow> bool" where
  "tether_loop iface port [] = False"
| "tether_loop iface port (l # ls) =
     (let line = trim l in
      case strip_prefix ''Hardware Port:'' line of
        Some name \<Rightarrow> tether_loop iface (trim name) ls
      | None \<Rightarrow>
          (case strip_prefix ''Device:'' line of
             Some device \<Rightarrow>
               if trim device = iface
               then (let p = to_ascii_lowercase port in contains ''iphone'' p \<or> contains ''ipad'' p)
               else tether_loop iface port ls
           | None \<Rightarrow> tether_loop iface port ls))"

definition is_tether_port :: "string \<Rightarrow> string \<Rightarrow> bool" where
  "is_tether_port out iface = tether_loop iface [] (lines_of out)"

definition macos_detect :: "string option \<Rightarrow> string option \<Rightarrow> link_cost" where
  "macos_detect route ports =
     (case route of
        None \<Rightarrow> LinkUnknown
      | Some r \<Rightarrow>
          (case parse_route_get_default r of
             None \<Rightarrow> LinkUnknown
           | Some iface \<Rightarrow>
               (case ports of
                  None \<Rightarrow> LinkUnknown
                | Some p \<Rightarrow> if is_tether_port p iface then Metered else LinkUnknown)))"

subsection \<open>Free space\<close>

definition is_capacity :: "string \<Rightarrow> bool" where
  "is_capacity c \<longleftrightarrow> 1 < length c \<and> ends_with ''%'' c \<and> list_all is_digit (take (length c - 1) c)"

definition parse_df_available_kb :: "string \<Rightarrow> u64 option" where
  "parse_df_available_kb out =
     (case find (\<lambda>l. trim l \<noteq> []) (rev (lines_of out)) of
        None \<Rightarrow> None
      | Some line \<Rightarrow>
          (let cols = split_whitespace line in
           case position is_capacity cols of
             None \<Rightarrow> None
           | Some capacity \<Rightarrow>
               if capacity = 0 then None
               else (case list_get cols (capacity - 1) of None \<Rightarrow> None | Some c \<Rightarrow> parse_uint c)))"

definition free_bytes :: "string option \<Rightarrow> u64 option" where
  "free_bytes df =
     (case df of
        None \<Rightarrow> None
      | Some out \<Rightarrow>
          (case parse_df_available_kb out of
             None \<Rightarrow> None
           | Some kb \<Rightarrow> if unat kb * 1024 < 2 ^ 64 then Some (kb * 1024) else None))"

subsection \<open>Battery and temperature on Linux\<close>

record power_supply =
  su_type :: "string option"
  su_capacity :: "string option"
  su_status :: "string option"
  su_online :: "string option"

definition supply_step :: "power_supply \<Rightarrow> telemetry \<times> bool \<times> bool \<Rightarrow> telemetry \<times> bool \<times> bool" where
  "supply_step s st =
     (case st of (t, saw_battery, mains_online) \<Rightarrow>
        (let kind = trim (case su_type s of Some k \<Rightarrow> k | None \<Rightarrow> []) in
         if kind = ''Battery'' then
           (let t = (case Option.bind (su_capacity s) (\<lambda>c. parse_uint (trim c) :: byte option) of
                       Some pct \<Rightarrow> t\<lparr>battery_pct := Some (min pct 100)\<rparr> | None \<Rightarrow> t);
                t = (if map_option trim (su_status s) = Some ''Discharging'' then t\<lparr>power := Battery\<rparr> else t)
            in (t, True, mains_online))
         else if (kind = ''Mains'' \<or> kind = ''USB'') \<and> map_option trim (su_online s) = Some ''1''
         then (t, saw_battery, True)
         else st))"

definition read_supplies :: "power_supply list \<Rightarrow> telemetry \<Rightarrow> telemetry" where
  "read_supplies entries t0 =
     (case fold supply_step entries (t0, False, False) of
        (t, saw_battery, mains_online) \<Rightarrow>
          if mains_online then t\<lparr>power := Mains\<rparr>
          else if \<not> saw_battery then t\<lparr>power := PowerUnknown\<rparr>
          else t)"

definition clamp :: "int \<Rightarrow> int \<Rightarrow> int \<Rightarrow> int" where
  "clamp lo hi x = (if x < lo then lo else if hi < x then hi else x)"

definition zone_temp :: "string option \<Rightarrow> int option" where
  "zone_temp z = map_option (\<lambda>milli. clamp (- (2 ^ 15)) (2 ^ 15 - 1) (milli sdiv 1000)) (Option.bind z (\<lambda>v. parse_i32 (trim v)))"

definition hottest :: "string option list \<Rightarrow> int option" where
  "hottest zones = (case List.map_filter zone_temp zones of [] \<Rightarrow> None | x # xs \<Rightarrow> Some (fold max xs x))"

definition platform_sample :: "power_supply list option \<Rightarrow> string option list option \<Rightarrow> rat option \<Rightarrow> telemetry" where
  "platform_sample supplies zones load =
     (let t = telemetry_default;
          t = (case supplies of Some es \<Rightarrow> read_supplies es t | None \<Rightarrow> t);
          t = (case zones of Some zs \<Rightarrow> t\<lparr>temp_c := hottest zs\<rparr> | None \<Rightarrow> t)
      in t\<lparr>cpu_load := load\<rparr>)"

text \<open>On macOS the reading is the text of \<open>pmset -g batt\<close>, \<open>None\<close> when it could not be run.\<close>

definition percent_word :: "string \<Rightarrow> string option" where
  "percent_word w =
     (if ends_with ''%;'' w then Some (take (length w - 2) w)
      else if ends_with ''%'' w then Some (take (length w - 1) w) else None)"

definition macos_sample :: "string option \<Rightarrow> rat option \<Rightarrow> telemetry" where
  "macos_sample pmset load =
     (let t = telemetry_default;
          t = (case pmset of
                 None \<Rightarrow> t
               | Some txt \<Rightarrow>
                   t\<lparr>power := (if contains (CHR 0x27 # ''AC Power'' @ [CHR 0x27]) txt then Mains
                               else if contains (CHR 0x27 # ''Battery Power'' @ [CHR 0x27]) txt then Battery
                               else PowerUnknown),
                     battery_pct := map_option (\<lambda>pct. min pct 100)
                       (Option.bind (find_map percent_word (split_whitespace txt)) (\<lambda>n. parse_uint n :: byte option))\<rparr>)
      in t\<lparr>cpu_load := load\<rparr>)"

text \<open>The inputs the host cannot supply: a stated link cost, and the directory whose free space matters, here by the
  answer \<open>df\<close> gives for it.\<close>

definition sample_with :: "telemetry \<Rightarrow> link_cost option \<Rightarrow> link_cost \<Rightarrow> string option option \<Rightarrow> u64 \<Rightarrow> telemetry" where
  "sample_with platform stated detected data_dir now =
     platform\<lparr>link := (case stated of Some l \<Rightarrow> l | None \<Rightarrow> detected),
              storage_free_bytes := Option.bind data_dir free_bytes,
              sampled_unix_ms := now\<rparr>"

section \<open>Budgets\<close>

datatype reason =
    NoConstraints
  | HotterThan int int
  | LinkMetered
  | UnreadableCharge
  | BatteryCritical byte byte
  | BatteryLow byte byte
  | ConservingBand byte byte
  | BelowReserve u64 u64
  | HeldTo u64
  | FurtherHeldTo reason u64

record sync_budget =
  sb_sync :: bool
  sb_content :: bool
  max_content_bytes :: u64
  interval_scale :: rat
  sb_reason :: reason

definition unlimited :: sync_budget where
  "unlimited = \<lparr>sb_sync = True, sb_content = True, max_content_bytes = - 1, interval_scale = 1, sb_reason = NoConstraints\<rparr>"

definition metadata_only :: "reason \<Rightarrow> rat \<Rightarrow> sync_budget" where
  "metadata_only r sc = \<lparr>sb_sync = True, sb_content = False, max_content_bytes = 0, interval_scale = sc, sb_reason = r\<rparr>"

definition capped :: "reason \<Rightarrow> u64 \<Rightarrow> rat \<Rightarrow> sync_budget" where
  "capped r m sc = \<lparr>sb_sync = True, sb_content = True, max_content_bytes = m, interval_scale = sc, sb_reason = r\<rparr>"

definition paused :: "reason \<Rightarrow> sync_budget" where
  "paused r = \<lparr>sb_sync = False, sb_content = False, max_content_bytes = 0, interval_scale = 4, sb_reason = r\<rparr>"

record backlog_view =
  bv_pending_ops :: u64
  missing_chunks :: u64

record thresholds =
  battery_low_pct :: byte
  battery_critical_pct :: byte
  temp_high_c :: int
  conserving_content_bytes :: u64
  storage_reserve_bytes :: u64

definition thresholds_default :: thresholds where
  "thresholds_default = \<lparr>battery_low_pct = 20, battery_critical_pct = 5, temp_high_c = 70,
     conserving_content_bytes = 8 * 1024 * 1024, storage_reserve_bytes = 1024 * 1024 * 1024\<rparr>"

definition saturating_mul :: "'a::len word \<Rightarrow> 'a word \<Rightarrow> 'a word" where
  "saturating_mul a b = (if unat a * unat b < 2 ^ LENGTH('a) then a * b else - 1)"

definition from_config :: "byte \<Rightarrow> int \<Rightarrow> u64 \<Rightarrow> thresholds" where
  "from_config low high reserve_mb =
     thresholds_default\<lparr>battery_low_pct := low,
                        battery_critical_pct := min (max (low div 4) 2) low,
                        temp_high_c := high,
                        storage_reserve_bytes := saturating_mul reserve_mb (1024 * 1024)\<rparr>"

record rule_based_scheduler =
  rb_thresholds :: thresholds
  enabled :: bool

definition scheduler_new :: "thresholds \<Rightarrow> rule_based_scheduler" where
  "scheduler_new t = \<lparr>rb_thresholds = t, enabled = True\<rparr>"

definition scheduler_disabled :: rule_based_scheduler where
  "scheduler_disabled = \<lparr>rb_thresholds = thresholds_default, enabled = False\<rparr>"

definition limit_to_headroom :: "rule_based_scheduler \<Rightarrow> sync_budget \<Rightarrow> telemetry \<Rightarrow> sync_budget" where
  "limit_to_headroom s budget t =
     (case storage_free_bytes t of
        None \<Rightarrow> budget
      | Some free \<Rightarrow>
          if \<not> sb_content budget then budget
          else
            (let reserve = storage_reserve_bytes (rb_thresholds s) in
             if free \<le> reserve then metadata_only (BelowReserve free reserve) (interval_scale budget)
             else
               (let spare = free - reserve in
                if max_content_bytes budget \<le> spare then budget
                else capped (if max_content_bytes budget = - 1 then HeldTo spare else FurtherHeldTo (sb_reason budget) spare)
                       spare (interval_scale budget))))"

definition grade :: "rule_based_scheduler \<Rightarrow> telemetry \<Rightarrow> backlog_view \<Rightarrow> sync_budget" where
  "grade s tel backlog =
     (let t = rb_thresholds s in
      case (case temp_c tel of Some temp \<Rightarrow> if temp_high_c t \<le> temp then Some temp else None | None \<Rightarrow> None) of
        Some temp \<Rightarrow> metadata_only (HotterThan temp (temp_high_c t)) 2
      | None \<Rightarrow>
          if link tel = Metered then metadata_only LinkMetered 2
          else if power tel \<noteq> Battery then unlimited
          else
            (case battery_pct tel of
               None \<Rightarrow> capped UnreadableCharge (conserving_content_bytes t) (3 / 2)
             | Some pct \<Rightarrow>
                 if pct \<le> battery_critical_pct t then paused (BatteryCritical pct (battery_critical_pct t))
                 else if pct \<le> battery_low_pct t then metadata_only (BatteryLow pct (battery_low_pct t)) 2
                 else
                   (let comfortable = min (saturating_mul (battery_low_pct t) 2) 100 in
                    if pct \<le> comfortable \<and> 0 < missing_chunks backlog
                    then capped (ConservingBand pct comfortable) (conserving_content_bytes t) 1
                    else unlimited)))"

definition plan :: "rule_based_scheduler \<Rightarrow> telemetry \<Rightarrow> backlog_view \<Rightarrow> sync_budget" where
  "plan s t backlog = (if \<not> enabled s then unlimited else limit_to_headroom s (grade s t backlog) t)"

section \<open>What a plan allows\<close>

text \<open>One budget allows no more than another.\<close>

definition no_more_than :: "sync_budget \<Rightarrow> sync_budget \<Rightarrow> bool" where
  "no_more_than a b \<longleftrightarrow> (sb_content a \<longrightarrow> sb_content b) \<and> max_content_bytes a \<le> max_content_bytes b"

lemma budget_fields [simp]:
  "sb_sync unlimited" "sb_content unlimited" "max_content_bytes unlimited = - 1" "interval_scale unlimited = 1"
  "sb_sync (metadata_only r sc)" "\<not> sb_content (metadata_only r sc)" "max_content_bytes (metadata_only r sc) = 0"
  "interval_scale (metadata_only r sc) = sc"
  "sb_sync (capped r m sc)" "sb_content (capped r m sc)" "max_content_bytes (capped r m sc) = m" "interval_scale (capped r m sc) = sc"
  "\<not> sb_sync (paused r)" "\<not> sb_content (paused r)" "max_content_bytes (paused r) = 0" "interval_scale (paused r) = 4"
  by (simp_all add: unlimited_def metadata_only_def capped_def paused_def)

lemma limit_narrows:
  "no_more_than (limit_to_headroom s b t) b \<and> sb_sync (limit_to_headroom s b t) = sb_sync b \<and>
   interval_scale (limit_to_headroom s b t) = interval_scale b" if "sb_content b \<longrightarrow> sb_sync b"
  using that by (auto simp: no_more_than_def limit_to_headroom_def Let_def split: option.splits)

lemma grade_content_syncs: "sb_content (grade s t v) \<longrightarrow> sb_sync (grade s t v)"
  by (auto simp: grade_def Let_def split: option.splits)

lemma grade_no_content: "\<not> sb_content (grade s t v) \<Longrightarrow> max_content_bytes (grade s t v) = 0"
  by (auto simp: grade_def Let_def split: option.splits if_splits)

text \<open>
  C38. The free space is a wall. Whatever the battery, the link and the temperature say, an enabled scheduler that knows
  the free space never plans to transfer more than what is free above the reserve, plans no content at all when nothing
  is, and only ever narrows what the ladder decided, without changing whether and how often peers are contacted.
\<close>

theorem plan_within_headroom:
  assumes "enabled s" "storage_free_bytes t = Some free"
  shows "unat (max_content_bytes (plan s t v)) \<le> unat free - unat (storage_reserve_bytes (rb_thresholds s)) \<and>
         (free \<le> storage_reserve_bytes (rb_thresholds s) \<longrightarrow> \<not> sb_content (plan s t v)) \<and>
         no_more_than (plan s t v) (grade s t v) \<and>
         sb_sync (plan s t v) = sb_sync (grade s t v) \<and> interval_scale (plan s t v) = interval_scale (grade s t v)"
proof -
  have p: "plan s t v = limit_to_headroom s (grade s t v) t" using assms(1) by (simp add: plan_def)
  let ?r = "storage_reserve_bytes (rb_thresholds s)"
  have "unat (free - ?r) = unat free - unat ?r" if "?r < free" using that by (intro unat_sub) simp
  then have "unat (max_content_bytes (plan s t v)) \<le> unat free - unat ?r"
    using grade_no_content [of s t v] assms(2)
    by (auto simp: p limit_to_headroom_def Let_def word_le_nat_alt not_le word_less_nat_alt split: if_splits)
  moreover have "free \<le> ?r \<longrightarrow> \<not> sb_content (plan s t v)"
    using assms(2) by (auto simp: p limit_to_headroom_def Let_def)
  ultimately show ?thesis using limit_narrows [OF grade_content_syncs [of s t v], of s t] by (simp add: p)
qed

theorem plan_within_headroom_witness:
  "\<exists>s t v. unat (max_content_bytes (plan s t v)) \<le> 5 \<and> sb_content (plan s t v)"
proof -
  let ?s = "scheduler_new (from_config 20 70 1)"
  let ?t = "telemetry_default\<lparr>storage_free_bytes := Some (0x100005)\<rparr>"
  let ?v = "\<lparr>bv_pending_ops = 0, missing_chunks = 1\<rparr>"
  have en: "enabled ?s" "storage_free_bytes ?t = Some 0x100005" by (simp_all add: scheduler_new_def)
  have r: "storage_reserve_bytes (rb_thresholds ?s) = 0x100000"
    by (simp add: scheduler_new_def from_config_def saturating_mul_def)
  have c: "sb_content (plan ?s ?t ?v)"
    using en r by (simp add: plan_def limit_to_headroom_def grade_def telemetry_default_def)
  have "unat (max_content_bytes (plan ?s ?t ?v)) \<le> unat (0x100005 :: u64) - unat (0x100000 :: u64)"
    using plan_within_headroom [OF en, of ?v] unfolding r by blast
  then have "unat (max_content_bytes (plan ?s ?t ?v)) \<le> 5" by simp
  with c show ?thesis by blast
qed

text \<open>One set of readings is worse than another: hotter, metered, on battery, less charged or with less room, or as
  good, reading by reading; an unknown reading is only comparable with itself.\<close>

definition worse :: "telemetry \<Rightarrow> telemetry \<Rightarrow> bool" where
  "worse t t' \<longleftrightarrow>
     (\<forall>x. temp_c t' = Some x \<longrightarrow> (\<exists>y. temp_c t = Some y \<and> x \<le> y)) \<and>
     (link t' = Metered \<longrightarrow> link t = Metered) \<and>
     (power t' = Battery \<longrightarrow> power t = Battery \<and>
        (battery_pct t = battery_pct t' \<or> (\<exists>p p'. battery_pct t = Some p \<and> battery_pct t' = Some p' \<and> p \<le> p'))) \<and>
     (\<forall>f'. storage_free_bytes t' = Some f' \<longrightarrow> (\<exists>f. storage_free_bytes t = Some f \<and> f \<le> f'))"

definition too_hot :: "thresholds \<Rightarrow> telemetry \<Rightarrow> bool" where
  "too_hot th t \<longleftrightarrow> (\<exists>x. temp_c t = Some x \<and> temp_high_c th \<le> x)"

text \<open>The battery rungs alone, once heat and the link are out of the way.\<close>

lemma grade_cases:
  "too_hot (rb_thresholds s) t \<Longrightarrow> \<exists>r. grade s t v = metadata_only r 2"
  "\<not> too_hot (rb_thresholds s) t \<Longrightarrow> link t = Metered \<Longrightarrow> grade s t v = metadata_only LinkMetered 2"
  "\<not> too_hot (rb_thresholds s) t \<Longrightarrow> link t \<noteq> Metered \<Longrightarrow> power t \<noteq> Battery \<Longrightarrow> grade s t v = unlimited"
  by (auto simp: grade_def too_hot_def Let_def split: option.split)

lemma no_more_refl [simp]: "no_more_than b b"
  by (simp add: no_more_than_def)

lemma metadata_least [simp]: "no_more_than (metadata_only r sc) b"
  by (simp add: no_more_than_def)

lemma unlimited_greatest [simp]: "no_more_than b unlimited"
  by (simp add: no_more_than_def)

lemma grade_rungs:
  assumes "\<not> too_hot (rb_thresholds s) t" "\<not> too_hot (rb_thresholds s) t'" "link t \<noteq> Metered" "link t' \<noteq> Metered"
    and "power t = Battery" "power t' = Battery" "battery_pct t = Some p" "battery_pct t' = Some p'" "p \<le> p'"
  shows "no_more_than (grade s t v) (grade s t' v) \<and> (sb_sync (grade s t v) \<longrightarrow> sb_sync (grade s t' v))"
  using assms by (auto simp: grade_def too_hot_def no_more_than_def Let_def split: option.splits)

lemma grade_worse:
  assumes "worse t t'"
  shows "no_more_than (grade s t v) (grade s t' v) \<and>
         (temp_c t = temp_c t' \<and> link t = link t' \<longrightarrow> sb_sync (grade s t v) \<longrightarrow> sb_sync (grade s t' v))"
proof -
  let ?th = "rb_thresholds s"
  have hot: "too_hot ?th t' \<Longrightarrow> too_hot ?th t" using assms by (force simp: worse_def too_hot_def)
  consider "too_hot ?th t" | "\<not> too_hot ?th t" "link t = Metered" | "\<not> too_hot ?th t" "link t \<noteq> Metered" by blast
  then show ?thesis
  proof cases
    case 1
    have "temp_c t = temp_c t' \<Longrightarrow> too_hot ?th t'" using 1 by (simp add: too_hot_def)
    then show ?thesis using grade_cases(1) [OF 1, of v] grade_cases(1) [of s t' v] by auto
  next
    case 2
    have "temp_c t = temp_c t' \<Longrightarrow> link t = link t' \<Longrightarrow> grade s t' v = metadata_only LinkMetered 2"
      using 2 by (intro grade_cases(2)) (auto simp: too_hot_def)
    then show ?thesis using grade_cases(2) [OF 2, of v] by auto
  next
    case 3
    have cool: "\<not> too_hot ?th t'" "link t' \<noteq> Metered" using 3 hot assms by (auto simp: worse_def)
    show ?thesis
    proof (cases "power t' = Battery")
      case True
      then have b: "power t = Battery"
        and "battery_pct t = battery_pct t' \<or> (\<exists>p p'. battery_pct t = Some p \<and> battery_pct t' = Some p' \<and> p \<le> p')"
        using assms by (simp_all add: worse_def)
      then consider "battery_pct t = None" "battery_pct t' = None"
        | p p' where "battery_pct t = Some p" "battery_pct t' = Some p'" "p \<le> p'" by (metis option.exhaust order_refl)
      then show ?thesis
      proof cases
        case 1
        then have "grade s t v = grade s t' v" using 3 cool b True by (auto simp: grade_def too_hot_def Let_def split: option.splits)
        then show ?thesis by simp
      next
        case 2
        then show ?thesis using grade_rungs [OF 3(1) cool(1) 3(2) cool(2) b True] by blast
      qed
    qed (simp add: grade_cases(3) [OF cool])
  qed
qed

lemma limit_worse:
  assumes "no_more_than a b" "\<not> sb_content a \<longrightarrow> max_content_bytes a = 0"
    and "\<And>f'. storage_free_bytes t' = Some f' \<Longrightarrow> \<exists>f. storage_free_bytes t = Some f \<and> f \<le> f'"
  shows "no_more_than (limit_to_headroom s a t) (limit_to_headroom s b t')"
proof -
  let ?r = "storage_reserve_bytes (rb_thresholds s)"
  have spare: "f - ?r \<le> f' - ?r" if "f \<le> f'" "?r < f" for f f' :: u64
    using that by (simp add: word_le_nat_alt word_less_nat_alt unat_sub_if_size)
  show ?thesis
  proof (cases "storage_free_bytes t'")
    case None
    have "no_more_than (limit_to_headroom s a t) a"
      using assms(2) by (auto simp: no_more_than_def limit_to_headroom_def Let_def split: option.splits)
    then show ?thesis using assms(1) None by (auto simp: no_more_than_def limit_to_headroom_def)
  next
    case (Some f')
    with assms(3) obtain f where f: "storage_free_bytes t = Some f" "f \<le> f'" by blast
    show ?thesis
      using assms(1,2) f spare [OF f(2)] Some
      by (auto simp: no_more_than_def limit_to_headroom_def Let_def not_le split: if_splits)
  qed
qed



text \<open>
  The configured thresholds keep the order of the rungs, so a charge above the low threshold never pauses; but heat and a
  metered link outrank the critical rung, so a device that would stop contacting its peers keeps doing so when it is hot.
\<close>

lemma from_config_ordered: "battery_critical_pct (from_config low high mb) \<le> battery_low_pct (from_config low high mb)"
  by (simp add: from_config_def)

lemma heat_outranks_critical:
  assumes "temp_c t = Some x" "temp_high_c (rb_thresholds s) \<le> x"
  shows "sb_sync (plan s t v)"
  using assms by (auto simp: plan_def grade_def limit_to_headroom_def split: option.splits)

section \<open>Readings are never invented\<close>

lemma zone_temp_range: "zone_temp z = Some x \<Longrightarrow> - (2 ^ 15) \<le> x \<and> x < 2 ^ 15"
  by (auto simp: zone_temp_def clamp_def)

lemma min_by_fst_least:
  "min_by_fst xs = Some x \<Longrightarrow> x \<in> set xs \<and> (\<forall>y \<in> set xs. fst x \<le> fst y)"
proof (induction xs arbitrary: x)
  case (Cons a xs)
  have "min_by_fst xs = None \<Longrightarrow> xs = []" by (cases xs) (auto split: option.splits if_splits)
  with Cons show ?case by (cases "min_by_fst xs") (auto split: if_splits)
qed simp


text \<open>
  The available column is found whatever spaces the device name and the mount point contain, as long as no column before
  it looks like a percentage.
\<close>

lemma is_capacity_iff: "is_capacity c \<longleftrightarrow> (\<exists>d. c = d @ ''%'' \<and> d \<noteq> [] \<and> list_all is_digit d)"
  by (auto simp: is_capacity_def ends_with_iff)

lemma parse_df_columns:
  assumes lines: "lines_of out = ls @ [spaced cols]"
    and cols: "spaced_ok cols" "map snd cols = pre @ [avail, cap] @ post"
    and pre: "list_all (\<lambda>c. \<not> is_capacity c) pre"
    and avail: "avail \<noteq> []" "list_all is_digit avail" "decimal avail < 2 ^ 64"
    and cap: "is_capacity cap"
  shows "parse_df_available_kb out = Some (word_of_nat (decimal avail))"
proof -
  have ne: "cols \<noteq> []" using cols(2) by auto
  have split: "split_whitespace (spaced cols) = (pre @ [avail]) @ cap # post"
    using cols by (simp add: split_whitespace_spaced)
  have "\<not> is_capacity avail" using avail(2) by (auto simp: is_capacity_iff is_digit_def)
  then have pos: "position is_capacity ((pre @ [avail]) @ cap # post) = Some (length (pre @ [avail]))"
    using pre cap by (intro position_append_first) auto
  have "trim (spaced cols) \<noteq> []" by (rule trim_spaced [OF cols(1) ne])
  then show ?thesis
    using lines pos parse_uint_digits [OF avail(1,2), where 'a = 64] avail(3) list_get_append [of pre avail "cap # post"]
    by (simp add: parse_df_available_kb_def split)
qed

end
