(* ===== verification/Gc.thy ===== *)
theory Gc
  imports Drain
begin

text \<open>
  Garbage collection: \<open>src/crates/core/src/gc.rs\<close>. A mark from the live namespace and the parked operations, then a sweep
  of blobs and of the records of unreachable inodes. The queue of \<open>reachable_inodes\<close> is a stack with its top first; the
  loop terminates because every inode that is pushed is new to the reachable set.
\<close>

definition MAX_RECORD_SCAN :: nat where "MAX_RECORD_SCAN = 1000000"

record orphaned =
  or_scanned :: nat
  or_keys_found :: "bytes list"

record gc_report =
  blobs_scanned :: nat
  bytes_scanned :: u64
  gr_reachable :: nat
  gr_unreachable :: nat
  bytes_reclaimable :: u64
  gr_deleted :: nat
  bytes_deleted :: u64
  records_scanned :: nat
  records_unreachable :: nat
  records_deleted :: nat
  gr_dry_run :: bool
  refused :: "string option"

definition gc_report_default :: gc_report where
  "gc_report_default = \<lparr>blobs_scanned = 0, bytes_scanned = 0, gr_reachable = 0, gr_unreachable = 0, bytes_reclaimable = 0,
     gr_deleted = 0, bytes_deleted = 0, records_scanned = 0, records_unreachable = 0, records_deleted = 0, gr_dry_run = False,
     refused = None\<rparr>"

definition has_garbage :: "gc_report \<Rightarrow> bool" where
  "has_garbage r \<longleftrightarrow> gr_unreachable r > 0 \<or> records_unreachable r > 0"

section \<open>Marking\<close>

fun mark_objects :: "prims \<Rightarrow> core \<Rightarrow> hash list \<Rightarrow> hash fset \<Rightarrow> hash fset result" where
  "mark_objects P c [] reachable = Inr reachable"
| "mark_objects P c (h # hs) reachable =
     rbind (get_object P c h) (\<lambda>ob.
     mark_objects P c hs
       (case ob of
          Some (FileNode node) \<Rightarrow> finsert h reachable |\<union>| fset_of_list (map cr_hash (fn_chunks node))
        | _ \<Rightarrow> finsert h reachable))"

definition reachable_hashes :: "prims \<Rightarrow> core \<Rightarrow> hash fset result" where
  "reachable_hashes P c =
     (let heads = (case get_head c of Some h \<Rightarrow> {|h|} | None \<Rightarrow> {||}) in
      case walk_root P False c of
        (Inl e, _) \<Rightarrow> Inl e
      | (Inr _, w) \<Rightarrow>
          rbind (mark_objects P c (map snd (fm_entries (wk_map w))) heads) (\<lambda>reachable.
          rbind (pending_ops P c) (\<lambda>ops.
          Inr (reachable |\<union>| fset_of_list (concat (map op_chunk_hashes ops))))))"

fun mark_entries :: "dir_entry list \<Rightarrow> u128 fset \<Rightarrow> u128 list \<Rightarrow> (u128 fset \<times> u128 list) result" where
  "mark_entries [] reachable stack = Inr (reachable, stack)"
| "mark_entries (e # es) reachable stack =
     (if de_inode_id e |\<in>| reachable then mark_entries es reachable stack
      else
        let reachable = finsert (de_inode_id e) reachable;
            stack = (if de_entry_type e = Dir then de_inode_id e # stack else stack)
        in if fcard reachable > MAX_RECORD_SCAN then Inl (Bail ''namespace walk exceeded the bound'')
           else mark_entries es reachable stack)"

lemma mark_entries_measure:
  "mark_entries es reachable stack = Inr (reachable', stack') \<Longrightarrow>
     card (- fset reachable') + length stack' \<le> card (- fset reachable) + length stack"
proof (induction es arbitrary: reachable stack)
  case (Cons e es)
  show ?case
  proof (cases "de_inode_id e |\<in>| reachable")
    case False
    let ?r = "finsert (de_inode_id e) reachable" and ?q = "if de_entry_type e = Dir then de_inode_id e # stack else stack"
    have "de_inode_id e \<in> - fset reachable" using False by simp
    then have "Suc (card (- fset ?r)) = card (- fset reachable)"
      by (metis Compl_insert card.remove finite finsert.rep_eq)
    moreover have "mark_entries es ?r ?q = Inr (reachable', stack')"
      using Cons.prems False by (auto simp: Let_def split: if_splits)
    moreover have "length ?q \<le> Suc (length stack)" by simp
    ultimately show ?thesis using Cons.IH [of ?r ?q] by linarith
  qed (use Cons in auto)
qed simp

declare rbind_cong [fundef_cong]

function mark_loop :: "prims \<Rightarrow> core \<Rightarrow> u128 list \<Rightarrow> u128 fset \<Rightarrow> u128 fset result" where
  "mark_loop P c [] reachable = Inr reachable"
| "mark_loop P c (dir # stack) reachable =
     rbind (materialize_dir P c dir) (\<lambda>es.
     rbind (mark_entries es reachable stack) (\<lambda>x.
     mark_loop P c (snd x) (fst x)))"
  by pat_completeness auto
termination
  by (relation "measure (\<lambda>(P, c, stack, reachable). card (- fset reachable) + length stack)")
    (auto dest!: mark_entries_measure)

definition op_inodes :: "fs_op \<Rightarrow> u128 list" where
  "op_inodes op =
     (case op_kind op of
        CreateFile parent _ _ \<Rightarrow> [parent]
      | Mkdir parent _ _ \<Rightarrow> [parent]
      | Write inode _ _ _ _ \<Rightarrow> [inode]
      | SetAttr inode _ _ _ \<Rightarrow> [inode]
      | Rename old_p _ new_p _ _ \<Rightarrow> [old_p, new_p]
      | Unlink parent _ _ \<Rightarrow> [parent])"

definition reachable_inodes :: "prims \<Rightarrow> core \<Rightarrow> u128 fset result" where
  "reachable_inodes P c =
     rbind (mark_loop P c [ROOT_INODE] {|ROOT_INODE|}) (\<lambda>reachable.
     rbind (pending_ops P c) (\<lambda>ops.
     Inr (reachable |\<union>| fset_of_list (concat (map op_inodes ops)))))"

section \<open>Sweeping\<close>

definition sweep_blocker :: "prims \<Rightarrow> core \<Rightarrow> string option result" where
  "sweep_blocker P c =
     (if get_head c = None then Inr (Some ''the repository has no head'')
      else rbind (load_inode P c ROOT_INODE) (\<lambda>r.
           Inr (if r = None then Some ''the root inode record is missing'' else None)))"

definition orphans_under :: "core \<Rightarrow> u128 fset \<Rightarrow> bytes \<Rightarrow> bytes list" where
  "orphans_under c reachable pre =
     filter (\<lambda>key. case inode_from_key pre key of None \<Rightarrow> False | Some inode \<Rightarrow> inode |\<notin>| reachable)
       (scan_prefix_keys (stores c) CF_STATE pre)"

definition orphaned_records :: "prims \<Rightarrow> core \<Rightarrow> orphaned result" where
  "orphaned_records P c =
     rbind (reachable_inodes P c) (\<lambda>reachable.
     let prefixes = [DIR_PREFIX, INODE_PREFIX, PARENT_PREFIX, IMAP_PREFIX] in
     Inr \<lparr>or_scanned = sum_list (map (\<lambda>pre. length (scan_prefix_keys (stores c) CF_STATE pre)) prefixes),
          or_keys_found = concat (map (orphans_under c reachable) prefixes)\<rparr>)"

definition del_blob :: "hash \<Rightarrow> core \<Rightarrow> core" where
  "del_blob h c = c\<lparr>stores := blob_delete h (stores c)\<rparr>"

definition survey :: "core \<Rightarrow> bool \<Rightarrow> hash fset \<Rightarrow> orphaned \<Rightarrow> gc_report" where
  "survey c dry reachable orphans =
     (let stored = blob_list (stores c);
          garbage = filter (\<lambda>(h, _). h |\<notin>| reachable) stored
      in gc_report_default\<lparr>gr_dry_run := dry,
           blobs_scanned := length stored, bytes_scanned := sum_list (map snd stored),
           gr_reachable := length (filter (\<lambda>(h, _). h |\<in>| reachable) stored),
           gr_unreachable := length garbage, bytes_reclaimable := sum_list (map snd garbage),
           records_scanned := or_scanned orphans, records_unreachable := length (or_keys_found orphans)\<rparr>)"

definition sweep :: "hash list \<Rightarrow> bytes list \<Rightarrow> core \<Rightarrow> core" where
  "sweep hashes ks c = fold (kv_del CF_STATE) ks (fold del_blob hashes c)"

definition collect_garbage :: "prims \<Rightarrow> bool \<Rightarrow> (core, gc_report) comp" where
  "collect_garbage P dry =
     bindE (reads (sweep_blocker P)) (\<lambda>blocker.
     if \<not> dry \<and> blocker \<noteq> None
     then reads (\<lambda>c. Inr (gc_report_default\<lparr>gr_dry_run := dry, refused := blocker,
            blobs_scanned := length (blob_list (stores c)), bytes_scanned := sum_list (map snd (blob_list (stores c)))\<rparr>))
     else
       bindE (reads (reachable_hashes P)) (\<lambda>reachable.
       bindE (reads (orphaned_records P)) (\<lambda>orphans c.
       let garbage = filter (\<lambda>(h, _). h |\<notin>| reachable) (blob_list (stores c));
           report = survey c dry reachable orphans
       in if dry then (Inr report, c)
          else (Inr (report\<lparr>gr_deleted := length garbage, bytes_deleted := sum_list (map snd garbage),
                            records_deleted := length (or_keys_found orphans)\<rparr>),
                sweep (map fst garbage) (or_keys_found orphans) c))))"

end
