(* ===== verification/Ops.thy ===== *)
theory Ops
  imports Drain
begin

text \<open>
  High-level filesystem operations: \<open>src/crates/core/src/ops.rs\<close>, where a path and some bytes become a sequence of signed
  operations applied to the local state. The listener of local operations is the counter \<open>local_ops\<close> of the state.
  \<open>walk_into\<close> carries fuel for its nesting depth, one more than the code's own bound on the entries allows
  (\<open>walk_never_out_of_fuel\<close>).
\<close>

definition MAX_WALK_ENTRIES :: nat where "MAX_WALK_ENTRIES = 100000"

definition changed_hashes :: "fs_op_kind \<Rightarrow> hash list" where
  "changed_hashes kind = (case kind of Write _ _ chunks _ _ \<Rightarrow> map cr_hash chunks | _ \<Rightarrow> [])"

record listed_entry =
  we_path :: string
  we_name :: string
  we_kind :: entry_type
  we_depth :: nat
  we_size :: u64
  we_inode :: u128
  we_mtime :: u64

section \<open>Local operations\<close>

definition observed_entry_ops :: "prims \<Rightarrow> core \<Rightarrow> u128 \<Rightarrow> string \<Rightarrow> op_id list result" where
  "observed_entry_ops P c parent name =
     rbind (load_dir P c parent) (\<lambda>m.
     case m of
       None \<Rightarrow> Inr []
     | Some m \<Rightarrow> Inr (sort_key (\<lambda>i. (opid_device i, opid_counter i))
                       (map (\<lambda>(dot, _). OpId (dot_device dot) (dot_counter dot)) (get_all m name))))"

definition announce_local_op :: "core \<Rightarrow> core" where
  "announce_local_op c = c\<lparr>local_ops := map_option Suc (local_ops c)\<rparr>"

definition subject_inode :: "prims \<Rightarrow> op_id \<Rightarrow> fs_op_kind \<Rightarrow> u128 option" where
  "subject_inode P i kind =
     (case kind of
        Mkdir _ _ _ \<Rightarrow> Some (inode_for_op (blake3 P) i)
      | CreateFile _ _ _ \<Rightarrow> Some (inode_for_op (blake3 P) i)
      | Write inode _ _ _ _ \<Rightarrow> Some inode
      | SetAttr inode _ _ _ \<Rightarrow> Some inode
      | Unlink parent _ _ \<Rightarrow> Some parent
      | Rename _ _ new_p _ _ \<Rightarrow> Some new_p)"

definition made_op :: "prims \<Rightarrow> identity \<Rightarrow> fs_op_kind \<Rightarrow> u64 \<Rightarrow> (core, fs_op) comp" where
  "made_op P ident kind now c = (let (op, c') = make_op P ident kind now c in (Inr op, c'))"

text \<open>An operation that would be parked is an error for a local caller.\<close>

definition require_applied :: "apply_outcome \<Rightarrow> (core, unit) comp" where
  "require_applied out = (case out of Pending _ \<Rightarrow> raise (Bail ''operation cannot be applied'') | _ \<Rightarrow> ret ())"

definition apply_plain :: "prims \<Rightarrow> identity \<Rightarrow> fs_op_kind \<Rightarrow> u64 \<Rightarrow> (core, fs_op) comp" where
  "apply_plain P ident kind now =
     bindE (made_op P ident kind now) (\<lambda>op.
     bindE (apply_op P op) (\<lambda>out.
     bindE (require_applied out) (\<lambda>_.
     bindE (upd announce_local_op) (\<lambda>_.
     ret op))))"

definition apply_proven :: "prims \<Rightarrow> identity \<Rightarrow> fs_op_kind \<Rightarrow> u64 \<Rightarrow> (core, fs_op) comp" where
  "apply_proven P ident kind now =
     bindE (reads (\<lambda>c. Inr (begin_proof c))) (\<lambda>old_root.
     bindE (made_op P ident kind now) (\<lambda>provisional.
     bindE (apply_op_unproven P provisional) (\<lambda>out.
     bindE (require_applied out) (\<lambda>_.
     bindE (reads (\<lambda>c. if commits (core_proofs c)
                       then finish_commit_proof P c old_root (subject_inode P (op_id provisional) kind) (changed_hashes kind)
                       else Inr (finish_proof P c old_root (changed_hashes kind)))) (\<lambda>bundle.
     let op = provisional\<lparr>op_proof := Some bundle\<rparr>;
         signed = op\<lparr>op_sig := sign P (id_signing ident) (signing_bytes P op)\<rparr>
     in
     bindE (upd (append_op P signed)) (\<lambda>_.
     bindE (upd announce_local_op) (\<lambda>_.
     ret signed)))))))"

definition apply_local :: "prims \<Rightarrow> identity \<Rightarrow> fs_op_kind \<Rightarrow> u64 \<Rightarrow> (core, fs_op) comp" where
  "apply_local P ident kind now =
     bindE (reads (\<lambda>c. Inr (generates (core_proofs c)))) (\<lambda>g.
     if \<not> g then apply_plain P ident kind now else apply_proven P ident kind now)"

section \<open>Paths\<close>

fun mkdir_loop :: "prims \<Rightarrow> identity \<Rightarrow> u64 \<Rightarrow> u128 \<Rightarrow> string list \<Rightarrow> (core, u128) comp" where
  "mkdir_loop P ident now current [] = ret current"
| "mkdir_loop P ident now current (part # parts) =
     bindE (reads (\<lambda>c. lookup P c current part)) (\<lambda>entry.
     case entry of
       Some e \<Rightarrow>
         if de_entry_type e = Dir then mkdir_loop P ident now (de_inode_id e) parts
         else raise (Bail ''exists and is not a directory'')
     | None \<Rightarrow>
         bindE (apply_local P ident (Mkdir current part 0x41ED) now) (\<lambda>op.
         mkdir_loop P ident now (inode_for_op (blake3 P) (op_id op)) parts))"

definition mkdir_p :: "prims \<Rightarrow> identity \<Rightarrow> string \<Rightarrow> u64 \<Rightarrow> (core, u128) comp" where
  "mkdir_p P ident path now =
     bindE (lift_result (split_path path)) (\<lambda>parts. mkdir_loop P ident now ROOT_INODE parts)"

definition open_or_create :: "prims \<Rightarrow> identity \<Rightarrow> u128 \<Rightarrow> string \<Rightarrow> u64 \<Rightarrow> (core, u128) comp" where
  "open_or_create P ident parent name now =
     bindE (reads (\<lambda>c. lookup P c parent name)) (\<lambda>entry.
     case entry of
       Some e \<Rightarrow> if de_entry_type e = File then ret (de_inode_id e) else raise (Bail ''exists and is not a file'')
     | None \<Rightarrow>
         bindE (apply_local P ident (CreateFile parent name 0x81A4) now) (\<lambda>op.
         ret (inode_for_op (blake3 P) (op_id op))))"

definition write_file :: "prims \<Rightarrow> identity \<Rightarrow> string \<Rightarrow> bytes \<Rightarrow> u64 \<Rightarrow> (core, u128) comp" where
  "write_file P ident path data now =
     bindE (lift_result (split_path path)) (\<lambda>parts.
     if parts = [] then raise (Bail ''cannot write: no file name'')
     else
       bindE (mkdir_p P ident (join ''/'' (butlast parts)) now) (\<lambda>parent.
       bindE (open_or_create P ident parent (last parts) now) (\<lambda>inode.
       bindE (store_content P data) (\<lambda>(chunks, encryption).
       bindE (apply_local P ident (Write inode 0 chunks (word_of_nat (length data)) encryption) now) (\<lambda>_.
       ret inode)))))"

definition remove_path :: "prims \<Rightarrow> identity \<Rightarrow> string \<Rightarrow> u64 \<Rightarrow> (core, unit) comp" where
  "remove_path P ident path now =
     bindE (reads (\<lambda>c. resolve_parent P c path)) (\<lambda>found.
     case found of
       None \<Rightarrow> raise (Bail ''no such path'')
     | Some (parent, name) \<Rightarrow>
         bindE (reads (\<lambda>c. lookup P c parent name)) (\<lambda>entry.
         if entry = None then raise (Bail ''no such path'')
         else
           bindE (reads (\<lambda>c. observed_entry_ops P c parent name)) (\<lambda>observed.
           bindE (apply_local P ident (Unlink parent name observed) now) (\<lambda>_.
           ret ()))))"

definition rename_path :: "prims \<Rightarrow> identity \<Rightarrow> string \<Rightarrow> string \<Rightarrow> u64 \<Rightarrow> (core, unit) comp" where
  "rename_path P ident from_path to_path now =
     bindE (reads (\<lambda>c. resolve_parent P c from_path)) (\<lambda>found.
     case found of
       None \<Rightarrow> raise (Bail ''no such path'')
     | Some (old_p, old_n) \<Rightarrow>
         bindE (reads (\<lambda>c. lookup P c old_p old_n)) (\<lambda>entry.
         if entry = None then raise (Bail ''no such path'')
         else
           bindE (reads (\<lambda>c. resolve_parent P c to_path)) (\<lambda>dest.
           case dest of
             None \<Rightarrow> raise (Bail ''destination directory does not exist'')
           | Some (new_p, new_n) \<Rightarrow>
               bindE (reads (\<lambda>c. observed_entry_ops P c old_p old_n)) (\<lambda>observed.
               bindE (apply_local P ident (Rename old_p old_n new_p new_n observed) now) (\<lambda>_.
               ret ())))))"

section \<open>Listing a tree\<close>

definition listed :: "string \<Rightarrow> nat \<Rightarrow> dir_entry \<Rightarrow> inode_record option \<Rightarrow> listed_entry" where
  "listed prefix depth e rec =
     (let (sz, mtime) = (case rec of None \<Rightarrow> (0, 0) | Some r \<Rightarrow> (ct_size (lww_value (ir_content r)), ct_mtime (lww_value (ir_content r))))
      in \<lparr>we_path = prefix @ ''/'' @ de_name e, we_name = de_name e, we_kind = de_entry_type e, we_depth = depth,
          we_size = (if de_entry_type e = File then sz else 0), we_inode = de_inode_id e, we_mtime = mtime\<rparr>)"

fun walk_entries ::
    "prims \<Rightarrow> core \<Rightarrow> (u128 \<Rightarrow> string \<Rightarrow> listed_entry list \<Rightarrow> listed_entry list result) \<Rightarrow> string \<Rightarrow> nat \<Rightarrow> dir_entry list
     \<Rightarrow> listed_entry list \<Rightarrow> listed_entry list result" where
  "walk_entries P c rec prefix depth [] out = Inr out"
| "walk_entries P c rec prefix depth (e # es) out =
     rbind (load_inode P c (de_inode_id e)) (\<lambda>record.
     let out = out @ [listed prefix depth e record] in
     rbind (if de_entry_type e = Dir then rec (de_inode_id e) (prefix @ ''/'' @ de_name e) out else Inr out) (\<lambda>out.
     walk_entries P c rec prefix depth es out))"

primrec walk_into ::
    "prims \<Rightarrow> core \<Rightarrow> nat \<Rightarrow> nat \<Rightarrow> u128 \<Rightarrow> string \<Rightarrow> listed_entry list \<Rightarrow> listed_entry list result" where
  "walk_into P c 0 depth inode prefix out = Inl OutOfFuel"
| "walk_into P c (Suc fuel) depth inode prefix out =
     (if length out > MAX_WALK_ENTRIES then Inl (Bail ''listing exceeded the bound'')
      else rbind (materialize_dir P c inode) (\<lambda>es.
           walk_entries P c (walk_into P c fuel (depth + 1)) prefix depth es out))"

definition trim_end_slashes :: "string \<Rightarrow> string" where
  "trim_end_slashes s = rev (dropWhile (\<lambda>ch. ch = CHR ''/'') (rev s))"

definition walk_path :: "prims \<Rightarrow> core \<Rightarrow> string \<Rightarrow> listed_entry list result" where
  "walk_path P c root =
     rbind (resolve_path P c root) (\<lambda>r.
     case r of
       None \<Rightarrow> Inl (Bail ''no such path'')
     | Some (inode, kind) \<Rightarrow>
         if kind \<noteq> Dir then Inl (Bail ''not a directory'')
         else walk_into P c (MAX_WALK_ENTRIES + 2) 0 inode (trim_end_slashes root) [])"

definition stat_file :: "prims \<Rightarrow> core \<Rightarrow> string \<Rightarrow> (u128 \<times> u64 \<times> u64) option result" where
  "stat_file P c path =
     rbind (resolve_path P c path) (\<lambda>r.
     case r of
       None \<Rightarrow> Inr None
     | Some (inode, kind) \<Rightarrow>
         if kind \<noteq> File then Inr None
         else rbind (load_inode P c inode) (\<lambda>record.
              case record of
                None \<Rightarrow> Inl (Bail ''inode record missing'')
              | Some r \<Rightarrow> Inr (Some (inode, ct_size (lww_value (ir_content r)), ct_mtime (lww_value (ir_content r))))))"

end
