(* ===== verification/Ops_Laws.thy ===== *)
theory Ops_Laws
  imports Ops Format
begin

text \<open>
  What the high-level operations of theory \<open>Ops\<close> achieve: an overwrite through a path is read back through it, a removal
  clears the name it saw, and a listing of a tree always ends.
\<close>

section \<open>Reads survive the bookkeeping\<close>

text \<open>Objects stay and the key material stays, so whatever could be read still can.\<close>

definition store_kept :: "core \<Rightarrow> core \<Rightarrow> bool" where
  "store_kept c c' \<longleftrightarrow>
     (\<forall>h b. blob_get (stores c) h = Some b \<longrightarrow> blob_get (stores c') h = Some b) \<and>
     cipher c' = cipher c \<and> sealing_secret c' = sealing_secret c \<and> chunk_size c' = chunk_size c \<and> core_device c' = core_device c"

lemma store_kept_po: "reflp store_kept" "transp store_kept"
  by (auto simp: reflp_def transp_def store_kept_def)

lemma store_kept_trans: "store_kept a b \<Longrightarrow> store_kept b c \<Longrightarrow> store_kept a c"
  by (rule transpD [OF store_kept_po(2)])

lemma store_kept_writes [simp]:
  "store_kept c c" "store_kept c (kv_put cf k v c)" "store_kept c (kv_del cf k c)" "store_kept c (put_imap i h c)"
  "store_kept c (del_imap i c)" "store_kept c (store_inode P i r c)" "store_kept c (store_dir P i m c)"
  "store_kept c (append_op P op c)" "store_kept c (mark_op_applied j c)" "store_kept c (clear_pending j c)"
  "store_kept c (observe_time t c)" "store_kept c (announce_local_op c)" "store_kept c (set_head h c)" "store_kept c (set_state_root h c)"
  by (simp_all add: store_kept_def put_imap_def del_imap_def store_inode_def store_dir_def append_op_def mark_op_applied_def
      clear_pending_def observe_time_def announce_local_op_def set_head_def set_state_root_def)

lemma store_kept_grows: "grows c c' \<Longrightarrow> store_kept c c'"
  using state_only_grows [of c c'] by (simp add: store_kept_def state_only_def grows_def)

lemmas keeps_store_intros =
  keeps_bindE [OF store_kept_po(2)] keeps_basic [OF store_kept_po(1)] keeps_upd

lemma keeps_store_put_object: "keeps store_kept (\<lambda>c. case put_object P ob c of (h, c') \<Rightarrow> (Inr h, c'))"
  by (auto simp: keeps_def split: prod.split dest: grows_put_object store_kept_grows)

lemma keeps_store_refresh: "keeps store_kept (refresh_map_entry P i)"
  unfolding refresh_map_entry_def store_dir_object_def Let_def
  by (auto intro!: keeps_store_intros keeps_store_put_object split: option.split entry_type.split)

lemma keeps_store_rebuild: "keeps store_kept (rebuild_inode_map P)"
proof (rule keepsI)
  fix c r c'
  assume r: "rebuild_inode_map P c = (r, c')"
  have g: "store_kept c (wk_core (snd (walk_root P True c)))" using walk_root_in_step(2) by (rule store_kept_grows)
  have d: "store_kept x (drop_stale m x)" for m x
    unfolding drop_stale_def by (rule fold_rel [OF store_kept_po]) (auto split: option.split)
  have p: "store_kept x (put_fresh m x)" for m x
    unfolding put_fresh_def by (rule fold_rel [OF store_kept_po]) auto
  show "store_kept c c'"
    using r g store_kept_trans [OF g store_kept_trans [OF d p]]
    by (auto simp: rebuild_inode_map_def split: prod.splits sum.splits)
qed

lemma keeps_store_finish: "keeps store_kept (finish_applied P op)"
  unfolding finish_applied_def maintain_inode_map_def
  by (auto split: fs_op_kind.split intro!: keeps_store_intros keeps_store_refresh keeps_store_rebuild)

lemma keeps_store_snapshot: "keeps store_kept (build_snapshot P)"
proof -
  have "store_kept c (set_head h c1)" if "grows c c1" for c c1 h
    using store_kept_trans [OF store_kept_grows [OF that]] by simp
  then have "keeps store_kept (\<lambda>c. case put_object P (ob c) c of (head, c') \<Rightarrow> (Inr head, set_head head c'))" for ob
    by (auto simp: keeps_def split: prod.split dest: grows_put_object)
  then show ?thesis unfolding build_snapshot_def Let_def by (intro keeps_store_intros) auto
qed

lemma recover_kept: "store_kept c c' \<Longrightarrow> recover_file_key P c' info = recover_file_key P c info"
proof -
  assume "store_kept c c'"
  then have "cipher c' = cipher c" "sealing_secret c' = sealing_secret c" by (simp_all add: store_kept_def)
  then show ?thesis unfolding recover_file_key_def by (simp only:)
qed

lemma read_chunks_kept:
  "store_kept c c' \<Longrightarrow> read_chunks P c k n cs out = Inr d \<Longrightarrow> read_chunks P c' k n cs out = Inr d"
proof (induction cs arbitrary: n out)
  case (Cons x cs)
  then obtain b where b: "blob_get (stores c) (cr_hash x) = Some b" by (auto split: option.splits)
  then have "blob_get (stores c') (cr_hash x) = Some b" using Cons.prems(1) by (simp add: store_kept_def)
  with b Cons show ?case by (auto split: option.splits if_splits simp: rbind_Inr_iff)
qed simp

lemma materialize_kept:
  "store_kept c c' \<Longrightarrow> materialize_file P c f = Inr d \<Longrightarrow> materialize_file P c' f = Inr d"
  by (auto simp: materialize_file_def rbind_Inr_iff recover_kept read_chunks_kept split: option.splits if_splits)

section \<open>A local operation that succeeds\<close>

definition idle :: "core \<Rightarrow> bool" where
  "idle c \<longleftrightarrow> kv_scan c CF_OPLOG PENDING_PREFIX = []"

lemma idle_shrinks: "idle c \<Longrightarrow> queue_shrinks c c' \<Longrightarrow> idle c'"
  unfolding idle_def kv_scan_Nil queue_shrinks_def parked_def by (metis option.exhaust option.distinct(1))

lemma drain_idle: "idle c \<Longrightarrow> drain_pending P c = (Inr 0, c)"
  by (simp add: idle_def drain_pending_def bindE_def)

lemma settle_idle:
  assumes "idle c" "settle P Applied c = (r, c')"
  shows "same_ns P c c' \<and> store_kept c c'"
proof -
  obtain r' where "build_snapshot P c = (r', c')"
    using assms by (auto simp: settle_def bindE_def drain_idle split: prod.splits sum.splits)
  then show ?thesis using keepsD [OF keeps_ns_snapshot] keepsD [OF keeps_store_snapshot] by blast
qed

lemma ns_finish: "finish_applied P op c = (r, c') \<Longrightarrow> same_ns P c c'"
proof -
  assume f: "finish_applied P op c = (r, c')"
  let ?c = "observe_time (op_time op) (clear_pending (op_id op) (mark_op_applied (op_id op) c))"
  have "same_ns P c ?c"
    by (auto simp: same_ns_def fun_eq_iff observe_time_def clear_pending_def mark_op_applied_def)
  moreover have "maintain_inode_map P op ?c = (r, c')" using f by (simp add: finish_applied_def bindE_def)
  ultimately show ?thesis using keepsD [OF keeps_ns_maintain] same_ns_trans by blast
qed

lemma tail_idle:
  assumes "idle c" "apply_tail P op c = (Inr out, c')" "\<forall>r. out \<noteq> Pending r"
  shows "\<exists>c1. mutate P op c = (Inr Done, c1) \<and> same_ns P c1 c' \<and> store_kept c1 c'"
proof -
  obtain c1 u c2 where m: "mutate P op c = (Inr Done, c1)" and f: "finish_applied P op c1 = (Inr u, c2)"
    and s: "settle P Applied c2 = (Inr out, c')"
    using assms(2,3) by (auto simp: apply_tail_eq dest: settle_value split: prod.splits sum.splits mutation.splits)
  have "idle c2"
    using assms(1) idle_shrinks keepsD [OF keeps_queue_mutate m] keepsD [OF keeps_queue_finish f] by blast
  then show ?thesis
    using m settle_idle [OF _ s] ns_finish [OF f] keepsD [OF keeps_store_finish f] same_ns_trans store_kept_trans by blast
qed

text \<open>The operation a local call makes, and the state once it is logged.\<close>

definition next_id :: "core \<Rightarrow> op_id" where
  "next_id c = OpId (core_device c) (fst (next_op_counter c))"

definition logged :: "prims \<Rightarrow> identity \<Rightarrow> fs_op_kind \<Rightarrow> u64 \<Rightarrow> core \<Rightarrow> core" where
  "logged P ident kind now c = (let (op, c') = make_op P ident kind now c in append_op P op c')"

lemma make_op_fields:
  assumes "make_op P ident kind now c = (op, c')"
  shows "op_id op = next_id c" "op_kind op = kind" "op_time op = now" "is_op_applied c' i = is_op_applied c i"
    "idle c' = idle c" "core_proofs c' = core_proofs c"
  using assms by (auto simp: make_op_def next_id_def next_op_counter_def Let_def is_op_applied_def idle_def split: prod.splits)

lemma logged_frame [simp]:
  "load_dir P' (logged P ident kind now c) i = load_dir P' c i" "load_inode P' (logged P ident kind now c) i = load_inode P' c i"
  "blob_get (stores (logged P ident kind now c)) h = blob_get (stores c) h" "store_kept c (logged P ident kind now c)"
  "idle (logged P ident kind now c) = idle c"
  by (simp_all add: logged_def make_op_def next_op_counter_def Let_def append_op_def store_kept_def idle_def)

lemma inner_idle:
  assumes "make_op P ident kind now c = (op, c0)" "apply_op_inner P op pol c0 = (Inr out, c')" "\<forall>r. out \<noteq> Pending r"
    and "idle c" "\<not> is_op_applied c (next_id c)"
  shows "\<exists>c1. mutate P op (logged P ident kind now c) = (Inr Done, c1) \<and> same_ns P c1 c' \<and> store_kept c1 c'"
proof -
  note f = make_op_fields [OF assms(1)]
  have l: "logged P ident kind now c = append_op P op c0" using assms(1) by (simp add: logged_def)
  have "apply_tail P op (append_op P op c0) = (Inr out, c')"
    using assms(2,5) f(1,4) by (auto simp: apply_op_inner_cases split: sum.splits if_splits)
  moreover have "idle (append_op P op c0)" using assms(4) l by (metis logged_frame(5))
  ultimately show ?thesis using tail_idle assms(3) l by simp
qed

lemma require_applied_ok: "require_applied out c = (Inr u, c') \<longleftrightarrow> (\<forall>r. out \<noteq> Pending r) \<and> c' = c"
  by (cases out) (auto simp: require_applied_def)

lemma announce_ns: "same_ns P c (announce_local_op c)"
  by (simp add: same_ns_def announce_local_op_def fun_eq_iff load_dir_def load_inode_def)

lemma append_ns: "same_ns P c (append_op Q op c)"
  by (simp add: same_ns_def append_op_def fun_eq_iff)

text \<open>Both ways of applying run the operation once and then only log and announce it.\<close>

lemma apply_plain_ok:
  assumes "apply_plain P ident kind now c = (Inr op, c')" "make_op P ident kind now c = (o1, c0)"
  shows "\<exists>out c2. apply_op_inner P o1 True c0 = (Inr out, c2) \<and> (\<forall>r. out \<noteq> Pending r) \<and> c' = announce_local_op c2 \<and> op = o1"
  using assms by (auto simp: apply_plain_def made_op_def bindE_eq_Inr require_applied_ok apply_op_def)

lemma apply_proven_ok:
  assumes "apply_proven P ident kind now c = (Inr op, c')" "make_op P ident kind now c = (o1, c0)"
  shows "\<exists>out c2 s. apply_op_inner P o1 False c0 = (Inr out, c2) \<and> (\<forall>r. out \<noteq> Pending r) \<and>
           c' = announce_local_op (append_op P s c2) \<and> op_id op = op_id o1"
  using assms
  unfolding apply_proven_def made_op_def bindE_eq_Inr Let_def
  by (simp add: require_applied_ok apply_op_unproven_def del: ex_simps) (elim exE conjE, auto)

lemma apply_local_done:
  assumes "apply_local P ident kind now c = (Inr op, c')" "idle c" "\<not> is_op_applied c (next_id c)"
  shows "\<exists>o1 c1. mutate P o1 (logged P ident kind now c) = (Inr Done, c1) \<and> op_id o1 = next_id c \<and> op_kind o1 = kind \<and> op_time o1 = now \<and>
           op_id op = next_id c \<and> same_ns P c1 c' \<and> store_kept c1 c'"
proof -
  obtain o1 c0 where mk: "make_op P ident kind now c = (o1, c0)" by (cases "make_op P ident kind now c")
  note f = make_op_fields [OF mk]
  obtain pol out c2 where a: "apply_op_inner P o1 pol c0 = (Inr out, c2)" "\<forall>r. out \<noteq> Pending r" "op_id op = op_id o1"
    and k: "same_ns P c2 c'" "store_kept c2 c'"
  proof (cases "generates (core_proofs c)")
    case False
    then have "apply_plain P ident kind now c = (Inr op, c')" using assms(1) by (simp add: apply_local_def bindE_def)
    from apply_plain_ok [OF this mk] show thesis using that announce_ns store_kept_writes(12) by blast
  next
    case True
    then have "apply_proven P ident kind now c = (Inr op, c')" using assms(1) by (simp add: apply_local_def bindE_def)
    from apply_proven_ok [OF this mk] obtain out c2 s where o: "apply_op_inner P o1 False c0 = (Inr out, c2)"
      "\<forall>r. out \<noteq> Pending r" "c' = announce_local_op (append_op P s c2)" "op_id op = op_id o1" by blast
    from o(3) have "same_ns P c2 c'" "store_kept c2 c'"
      using same_ns_trans [OF append_ns announce_ns] store_kept_trans [OF store_kept_writes(8) store_kept_writes(12)] by simp_all
    then show thesis using that o by blast
  qed
  obtain c1 where "mutate P o1 (logged P ident kind now c) = (Inr Done, c1)" "same_ns P c1 c2" "store_kept c1 c2"
    using inner_idle [OF mk a(1,2) assms(2,3)] by blast
  then show ?thesis using f(1-3) a(3) same_ns_trans [OF _ k(1)] store_kept_trans [OF _ k(2)] by (intro exI [of _ o1] exI [of _ c1]) simp
qed

section \<open>Paths\<close>

definition plain_name :: "string \<Rightarrow> bool" where
  "plain_name p \<longleftrightarrow> p \<noteq> [] \<and> p \<noteq> ''.'' \<and> p \<noteq> ''..'' \<and> CHR ''/'' \<notin> set p"

lemma split_on_no_sep: "p \<in> set (split_on sep s) \<Longrightarrow> sep \<notin> set p"
  by (induction sep s arbitrary: p rule: split_on.induct) (auto split: if_splits list.splits)

lemma split_path_plain: "split_path path = Inr parts \<Longrightarrow> list_all plain_name parts"
proof -
  have "split_loop ps = Inr parts \<Longrightarrow> \<forall>p \<in> set ps. CHR ''/'' \<notin> set p \<Longrightarrow> list_all plain_name parts" for ps
    by (induction ps arbitrary: parts) (auto simp: rbind_Inr_iff plain_name_def split: if_splits)
  then show "split_path path = Inr parts \<Longrightarrow> list_all plain_name parts"
    by (metis split_path_def split_on_no_sep)
qed

lemma split_on_word: "sep \<notin> set p \<Longrightarrow> split_on sep (p @ sep # s) = p # split_on sep s"
  by (induction p) auto

lemma split_on_last: "sep \<notin> set p \<Longrightarrow> split_on sep p = [p]"
  by (induction p) auto

lemma split_join: "list_all plain_name ps \<Longrightarrow> split_path (join ''/'' ps) = Inr ps"
proof -
  assume ps: "list_all plain_name ps"
  have "split_loop (split_on (CHR ''/'') (join ''/'' ps)) = Inr ps"
    using ps
    by (induction "''/''" ps rule: join.induct) (auto simp: plain_name_def split_on_last split_on_word)
  then show ?thesis by (simp add: split_path_def)
qed

lemma mkdir_existing:
  assumes "resolve_loop P c cur Dir (dirs @ [name]) = Inr (Some (inode, kd))"
  shows "\<exists>parent e. mkdir_loop P ident now cur dirs c = (Inr parent, c) \<and> lookup P c parent name = Inr (Some e) \<and>
           de_inode_id e = inode \<and> de_entry_type e = kd"
  using assms
proof (induction dirs arbitrary: cur)
  case Nil
  then show ?case by (auto simp: rbind_Inr_iff split: option.splits)
next
  case (Cons d dirs)
  then obtain e where e: "lookup P c cur d = Inr (Some e)"
    and r: "resolve_loop P c (de_inode_id e) (de_entry_type e) (dirs @ [name]) = Inr (Some (inode, kd))"
    by (auto simp: rbind_Inr_iff split: option.splits)
  then have d: "de_entry_type e = Dir" by (cases dirs) (auto split: if_splits)
  with r have "resolve_loop P c (de_inode_id e) Dir (dirs @ [name]) = Inr (Some (inode, kd))" by simp
  from Cons.IH [OF this] show ?case using e d by (simp add: bindE_def)
qed

lemma resolve_split:
  assumes "resolve_path P c path = Inr (Some (inode, File))"
  obtains dirs name where "split_path path = Inr (dirs @ [name])" "list_all plain_name (dirs @ [name])"
    "resolve_loop P c ROOT_INODE Dir (dirs @ [name]) = Inr (Some (inode, File))"
proof -
  obtain parts where p: "split_path path = Inr parts" "resolve_loop P c ROOT_INODE Dir parts = Inr (Some (inode, File))"
    using assms by (auto simp: resolve_path_def rbind_Inr_iff)
  then have "parts \<noteq> []" by auto
  then obtain dirs name where "parts = dirs @ [name]" by (metis rev_exhaust)
  with p split_path_plain [OF p(1)] show thesis using that by blast
qed

lemma resolve_path_cong: "load_dir P c' = load_dir P c \<Longrightarrow> resolve_path P c' path = resolve_path P c path"
proof -
  assume d: "load_dir P c' = load_dir P c"
  have l: "lookup P c' i n = lookup P c i n" for i n by (rule lookup_cong) (simp add: d)
  have "resolve_loop P c' cur kd ps = resolve_loop P c cur kd ps" for cur kd ps
    by (induction ps arbitrary: cur kd) (auto simp: l intro!: arg_cong [where f = "rbind _"] ext split: option.split)
  then show ?thesis by (simp add: resolve_path_def)
qed

section \<open>Content written by a path\<close>

lemma layout_whole:
  assumes "list_all (\<lambda>(s, p). length p < 2 ^ 32) parts"
  shows "whole_loop off (layout H off parts) n \<longleftrightarrow> off + word_of_nat (length (concat (map snd parts))) = n"
  using assms
proof (induction parts arbitrary: off)
  case (Cons x parts)
  obtain s p where x: "x = (s, p)" by (cases x)
  have "ucast (word_of_nat (length p) :: u32) = (word_of_nat (length p) :: u64)"
    using Cons.prems by (simp add: x unsigned_of_nat take_bit_nat_eq_self)
  then show ?case using Cons by (simp add: x add.assoc)
qed simp

lemma store_content_shape:
  assumes "store_content P data c = (Inr (refs, enc), c')" "aead_ok P" "dh_ok P"
  shows "\<exists>ss. length ss = length (chunk_bytes data (max (chunk_size c) 1)) \<and>
           refs = layout (blake3 P) 0 (zip ss (chunk_bytes data (max (chunk_size c) 1)))"
    and "kv_get c' = kv_get c" "kv_scan c' = kv_scan c" "core_device c' = core_device c" "core_proofs c' = core_proofs c"
proof -
  let ?ps = "chunk_bytes data (max (chunk_size c) 1)"
  have p: "core_proofs (put_all H bs x) = core_proofs x" for H bs x
    unfolding put_all_def by (induction bs arbitrary: x) auto
  have "(\<exists>ss. length ss = length ?ps \<and> refs = layout (blake3 P) 0 (zip ss ?ps)) \<and>
    kv_get c' = kv_get c \<and> kv_scan c' = kv_scan c \<and> core_device c' = core_device c \<and> core_proofs c' = core_proofs c"
  proof (cases "cipher c")
    case None
    then show ?thesis using assms(1) p by (auto simp: store_content_def store_chunks_layout bindE_eq_Inr Let_def)
  next
    case (Some rk)
    let ?k = "rng32 P (draws c)"
    obtain c2 e where s: "seal_loop P ?k 0 0 ?ps (c\<lparr>draws := draws c + 1\<rparr>) = (Inr refs, c2)"
      and pr: "protect_file_key P ?k rk c2 = (Inr e, c')"
      using assms(1) Some by (auto simp: store_content_def bindE_eq_Inr new_file_key_def draw32_def)
    obtain ss where ss: "length ss = length ?ps" "refs = layout (blake3 P) 0 (zip ss ?ps)"
      "c2 = put_all (blake3 P) ss (c\<lparr>draws := draws c + 1\<rparr>)"
      using seal_loop_layout [OF s assms(2)] by blast
    obtain n where "c' = c2\<lparr>draws := n\<rparr>" using protect_recover(2) [OF pr _ assms(2,3)] ss(3) Some by auto
    then show ?thesis using ss p by auto
  qed
  then show "\<exists>ss. length ss = length ?ps \<and> refs = layout (blake3 P) 0 (zip ss ?ps)"
    "kv_get c' = kv_get c" "kv_scan c' = kv_scan c" "core_device c' = core_device c" "core_proofs c' = core_proofs c" by blast+
qed

text \<open>The key a stored content is sealed under: a fresh draw with a repository cipher, none without one.\<close>

lemma store_content_key:
  assumes "store_content P data c = (Inr (refs, enc), c')" "aead_ok P" "dh_ok P"
  shows "case cipher c of None \<Rightarrow> enc = None
    | Some _ \<Rightarrow> \<exists>info. enc = Some info \<and> recover_file_key P c' info = Inr (rng32 P (draws c))"
proof (cases "cipher c")
  case None
  then show ?thesis using assms(1) by (auto simp: store_content_def bindE_eq_Inr)
next
  case (Some rk)
  let ?k = "rng32 P (draws c)" and ?ps = "chunk_bytes data (max (chunk_size c) 1)"
  obtain c2 e where s: "seal_loop P ?k 0 0 ?ps (c\<lparr>draws := draws c + 1\<rparr>) = (Inr refs, c2)"
    and pr: "protect_file_key P ?k rk c2 = (Inr e, c')" and e: "enc = Some e"
    using assms(1) Some by (auto simp: store_content_def bindE_eq_Inr new_file_key_def draw32_def)
  have "cipher c2 = Some rk" using seal_loop_layout [OF s assms(2)] Some by auto
  then show ?thesis using protect_recover(1) [OF pr _ assms(2,3)] e Some by simp
qed

lemma store_content_whole:
  assumes "store_content P data c = (Inr (refs, enc), c')" "aead_ok P" "dh_ok P" "chunk_size c + 16 < 2 ^ 32"
  shows "chunks_form_whole_file refs (word_of_nat (length data))"
proof -
  let ?ps = "chunk_bytes data (max (chunk_size c) 1)"
  obtain ss where ss: "length ss = length ?ps" "refs = layout (blake3 P) 0 (zip ss ?ps)"
    using store_content_shape(1) [OF assms(1-3)] by blast
  have "\<forall>q \<in> set ?ps. length q < 2 ^ 32" using chunk_bytes_bound assms(4) by fastforce
  then have "list_all (\<lambda>(s, q). length q < 2 ^ 32) (zip ss ?ps)" by (auto simp: list_all_iff dest: set_zip_rightD)
  moreover have "concat (map snd (zip ss ?ps)) = data" using ss(1) by (simp add: concat_chunk_bytes)
  ultimately show ?thesis by (simp add: chunks_form_whole_file_def ss(2) layout_whole)
qed

section \<open>An overwrite by path\<close>

lemma get_object_kept: "store_kept c c' \<Longrightarrow> get_object P c h = Inr (Some ob) \<Longrightarrow> get_object P c' h = Inr (Some ob)"
  by (auto simp: get_object_def store_kept_def split: option.splits)

lemma read_file_kept:
  assumes "same_ns P c c'" "store_kept c c'" "read_file P c inode = Inr d"
  shows "read_file P c' inode = Inr d"
proof -
  obtain rec where r: "load_inode P c inode = Inr (Some rec)" "ir_kind rec = File"
    using assms(3) by (auto simp: read_file_def rbind_Inr_iff split: option.splits if_splits)
  have r': "load_inode P c' inode = Inr (Some rec)" using assms(1) r by (simp add: same_ns_def)
  show ?thesis
  proof (cases "ct_node_hash (lww_value (ir_content rec))")
    case None
    then show ?thesis using assms(3) r r' by (simp add: read_file_def)
  next
    case (Some nh)
    then obtain ob where o: "get_object P c nh = Inr ob"
      "(case ob of Some (FileNode f) \<Rightarrow> materialize_file P c f | Some _ \<Rightarrow> Inl (Bail ''inode points at a non-file object'')
        | None \<Rightarrow> Inl (Bail ''missing file object'')) = Inr d"
      using assms(3) r by (auto simp: read_file_def rbind_Inr_iff)
    then obtain f where "get_object P c nh = Inr (Some (FileNode f))" "materialize_file P c f = Inr d"
      by (cases ob; cases "the ob") auto
    then show ?thesis
      using Some r r' get_object_kept [OF assms(2)] materialize_kept [OF assms(2)] by (simp add: read_file_def)
  qed
qed

text \<open>A whole-file write whose time wins leaves its own node in the register.\<close>

lemma write_sets_node:
  assumes ok: "codec_ok P" and m: "mutate P op c = (Inr Done, c1)"
    and op: "op_kind op = Write inode 0 refs n enc" "chunks_form_whole_file refs n"
    and r: "load_inode P c inode = Inr (Some r)" "order_key (ir_content r) < op_order_key op"
    and fresh: "\<And>b. blob_get (stores c) (object_hash P (FileNode (file_node_of refs n (op_time op) enc))) = Some b \<Longrightarrow>
      b = encode_object P (FileNode (file_node_of refs n (op_time op) enc))"
  obtains r' where "ir_kind r = File" "load_inode P c1 inode = Inr (Some r')" "ir_kind r' = File"
    "ct_node_hash (lww_value (ir_content r')) = Some (object_hash P (FileNode (file_node_of refs n (op_time op) enc)))"
    "get_object P c1 (object_hash P (FileNode (file_node_of refs n (op_time op) enc))) = Inr (Some (FileNode (file_node_of refs n (op_time op) enc)))"
    "load_dir P c1 = load_dir P c" "store_kept c c1"
proof -
  let ?node = "file_node_of refs n (op_time op) enc"
  obtain c2 where po: "put_object P (FileNode ?node) c = (object_hash P (FileNode ?node), c2)" and g: "grows c c2"
    by (rule put_object_stores)
  let ?h = "object_hash P (FileNode ?node)" and ?r = "r\<lparr>ir_content := content_reg op (object_hash P (FileNode ?node)) n\<rparr>"
  have kind: "ir_kind r = File"
    and c1: "c1 = store_inode P inode (r\<lparr>ir_content := fst (lww_merge (ir_content r) (content_reg op ?h n))\<rparr>) c2"
    using m op r po
    by (auto simp: mutate_def mutate_write_def write_node_def make_filenode_def write_can_win_def bindE_eq_Inr split: if_splits)
  have key: "order_key (content_reg op ?h n) = op_order_key op"
    by (simp add: content_reg_def lww_new_def order_key_def op_order_key_def)
  have "get_object P c2 ?h = Inr (Some (FileNode ?node))" using get_put_object [OF ok po fresh] by simp
  then have "get_object P c1 ?h = Inr (Some (FileNode ?node))" by (simp add: c1 get_object_def store_inode_def)
  moreover have "load_inode P c1 inode = Inr (Some ?r)" using ok r(2) by (simp add: c1 lww_merge_max key)
  moreover have "load_dir P c1 = load_dir P c" by (simp add: fun_eq_iff c1 grows_namespace [OF g])
  moreover have "store_kept c c1" using store_kept_trans [OF store_kept_grows [OF g]] by (simp add: c1)
  ultimately show thesis using kind by (intro that [of ?r]) (simp_all add: content_reg_def lww_new_def)
qed

lemma write_lands:
  assumes "codec_ok P" "mutate P op c = (Inr Done, c1)"
    and "op_kind op = Write inode 0 refs n enc" "chunks_form_whole_file refs n"
    and "load_inode P c inode = Inr (Some r)" "order_key (ir_content r) < op_order_key op"
    and "\<And>b. blob_get (stores c) (object_hash P (FileNode (file_node_of refs n (op_time op) enc))) = Some b \<Longrightarrow>
      b = encode_object P (FileNode (file_node_of refs n (op_time op) enc))"
    and read: "materialize_file P c (file_node_of refs n (op_time op) enc) = Inr data"
  shows "read_file P c1 inode = Inr data \<and> load_dir P c1 = load_dir P c \<and> store_kept c c1"
proof -
  obtain r' where r': "load_inode P c1 inode = Inr (Some r')" "ir_kind r' = File"
    "ct_node_hash (lww_value (ir_content r')) = Some (object_hash P (FileNode (file_node_of refs n (op_time op) enc)))"
    "get_object P c1 (object_hash P (FileNode (file_node_of refs n (op_time op) enc))) = Inr (Some (FileNode (file_node_of refs n (op_time op) enc)))"
    and c1: "load_dir P c1 = load_dir P c" "store_kept c c1"
    by (rule write_sets_node [OF assms(1-7)])
  have "read_file P c1 inode = Inr data" using r' materialize_kept [OF c1(2) read] by (simp add: read_file_def)
  then show ?thesis using c1 by blast
qed

text \<open>The file node an overwrite stores is not the hash of some other stored object.\<close>

definition no_node_clash :: "prims \<Rightarrow> bytes \<Rightarrow> u64 \<Rightarrow> core \<Rightarrow> bool" where
  "no_node_clash P data now c \<longleftrightarrow>
     (\<forall>refs enc c1 b. store_content P data c = (Inr (refs, enc), c1) \<longrightarrow>
        (let node = FileNode (file_node_of refs (word_of_nat (length data)) now enc) in
         blob_get (stores c1) (object_hash P node) = Some b \<longrightarrow> b = encode_object P node))"


section \<open>A concrete repository\<close>

lemma apply_local_plain:
  assumes "make_op P ident kind now c = (op, c0)" "apply_op P op c0 = (Inr Applied, c')" "\<not> generates (core_proofs c)"
  shows "apply_local P ident kind now c = (Inr op, announce_local_op c')"
  using assms by (simp add: apply_local_def apply_plain_def made_op_def bindE_def require_applied_def)

definition sample_doc_core :: core where
  "sample_doc_core = store_dir sample ROOT_INODE
     (or_add ''f'' (Dot 1 1) \<lparr>ev_inode_id = 9, ev_entry_type = File, ev_created = 0\<rparr> or_default)
     (store_inode sample 9 (inode_record_new File 0 0 1 1)
     (store_inode sample ROOT_INODE (inode_record_new Dir 0x41ED 0 0 0) sample_core))"

definition sample_ident :: identity where
  "sample_ident = from_seed sample 7"

lemma sample_doc_lookup:
  "lookup sample sample_doc_core ROOT_INODE ''f'' = Inr (Some \<lparr>de_name = ''f'', de_inode_id = 9, de_entry_type = File\<rparr>)"
  by (simp add: lookup_def sample_doc_core_def sample_ok or_add_def or_default_def get_all_def adds_at_def)

lemma sample_doc_frame [simp]:
  "kv_get sample_doc_core CF_OPLOG k = None" "kv_get sample_doc_core CF_META k = None" "kv_scan sample_doc_core CF_OPLOG pre = []"
  "blob_get (stores sample_doc_core) h = None" "parent_of sample_doc_core 9 = None"
  "load_inode sample sample_doc_core 9 = Inr (Some (inode_record_new File 0 0 1 1))"
  "load_inode sample sample_doc_core ROOT_INODE = Inr (Some (inode_record_new Dir 0x41ED 0 0 0))"
  "kv_scan sample_doc_core CF_STATE IMAP_PREFIX = []"
  by (simp_all add: sample_doc_core_def store_dir_def store_inode_def sample_ok kv_scan_Nil parent_of_def load_inode_def ROOT_INODE_def)

lemma sample_doc_state [simp]:
  "kv_get sample_doc_core CF_STATE (imap_key i) = None" "kv_get sample_doc_core CF_STATE (parent_key i) = None"
  by (simp_all add: sample_doc_core_def store_dir_def store_inode_def)

lemma sample_doc_imap: "starts_with k IMAP_PREFIX \<Longrightarrow> kv_get sample_doc_core CF_STATE k = None"
  by (auto simp: sample_doc_core_def store_dir_def store_inode_def)

lemma nat_of_be_zeros: "nat_of_be (replicate n 0) = 0"
  by (induction n) (simp_all add: nat_of_be_Cons)

lemma sample_object_hash: "object_hash sample ob = 0"
  by (simp add: object_hash_def encode_object_def sample_def enc_any_def enc_nat_def from_be_bytes_def nat_of_be_zeros)

lemma sample_doc_fields [simp]:
  "core_device sample_doc_core = 1" "cipher sample_doc_core = None" "chunk_size sample_doc_core = 1024 * 1024"
  "core_proofs sample_doc_core = PolicyNone"
  by (simp_all add: sample_doc_core_def store_dir_def store_inode_def sample_core_def core_new_def)

lemma sample_store: "store_content sample [7] sample_doc_core = (Inr (layout from_be_bytes 0 [([7], [7])], None), put_blob 7 [7] sample_doc_core)"
proof -
  have "chunk_bytes [7] (1024 * 1024) = [[7 :: byte]]" by (simp add: chunk_bytes_def chunks_of.simps)
  moreover have "(from_be_bytes [7] :: hash) = 7" by (simp add: from_be_bytes_def nat_of_be_def)
  ultimately show ?thesis
    by (simp add: store_content_def store_chunks_layout bindE_def Let_def blake3_sample put_all_def)
qed

text \<open>Any operation made on this state is accepted: the toy signature verifies and its id is new.\<close>

lemma sample_made_ok:
  assumes "make_op sample sample_ident kind 5 c = (op, c0)" "core_proofs c = PolicyNone" "\<And>k. kv_get c CF_OPLOG k = None"
  shows "verify_op sample op = Inr ()" "check_proof sample op (core_proofs c0) = Inr ()" "\<not> is_op_applied c0 (op_id op)"
    "c0 = snd (next_op_counter c)"
proof -
  note f = make_op_fields [OF assms(1)]
  have sig: "op_sig op = replicate 64 0" and c0: "c0 = snd (next_op_counter c)"
    using assms(1) by (auto simp: make_op_def Let_def sign_def sample_def split: prod.splits)
  show "verify_op sample op = Inr ()" by (simp add: verify_op_def sig verify_def sample_def SIGNATURE_LENGTH_def)
  show "check_proof sample op (core_proofs c0) = Inr ()" using f(6) assms(2) by (simp add: check_proof_def)
  show "\<not> is_op_applied c0 (op_id op)" using f(4) assms(3) by (simp add: is_op_applied_def)
  show "c0 = snd (next_op_counter c)" by (rule c0)
qed

lemma first_missing_None: "first_missing_chunk c refs = None \<longleftrightarrow> list_all (\<lambda>r. blob_has (stores c) (cr_hash r)) refs"
  by (induction refs) auto

lemma sample_write_applies:
  assumes c: "kv_get c = kv_get sample_doc_core" "core_proofs c = PolicyNone"
    and w: "chunks_form_whole_file refs n" "list_all (\<lambda>r. blob_has (stores c) (cr_hash r)) refs"
  shows "\<exists>op c'. apply_local sample sample_ident (Write 9 0 refs n enc) 5 c = (Inr op, c')"
proof -
  let ?k = "Write 9 0 refs n enc"
  obtain op c0 where mk: "make_op sample sample_ident ?k 5 c = (op, c0)" by (cases "make_op sample sample_ident ?k 5 c")
  note f = make_op_fields [OF mk]
  have v: "verify_op sample op = Inr ()" and ck: "check_proof sample op (core_proofs c0) = Inr ()"
    and n: "\<not> is_op_applied c0 (op_id op)" and c0: "c0 = snd (next_op_counter c)"
    using sample_made_ok [OF mk] c by simp_all
  let ?l = "append_op sample op c0"
  have kv: "kv_get ?l CF_STATE k = kv_get sample_doc_core CF_STATE k" for k
    using c(1) by (simp add: c0 next_op_counter_def Let_def append_op_def)
  have "load_inode sample ?l 9 = load_inode sample sample_doc_core 9" using kv by (simp add: load_inode_def)
  moreover have "first_missing_chunk ?l refs = None"
    using w(2) by (simp add: first_missing_None c0 next_op_counter_def Let_def append_op_def)
  moreover obtain h c1 where "put_object sample (FileNode (file_node_of refs n 5 enc)) ?l = (h, c1)" and g: "grows ?l c1"
    by (rule put_object_stores)
  ultimately obtain r where m: "mutate sample op ?l = (Inr Done, store_inode sample 9 r c1)"
    using f w(1)
    by (simp add: mutate_def mutate_write_def write_node_def make_filenode_def bindE_def inode_record_new_def lww_new_def
        write_can_win_def order_key_def op_order_key_def next_id_def)
  let ?c2 = "observe_time 5 (clear_pending (op_id op) (mark_op_applied (op_id op) (store_inode sample 9 r c1)))"
  note gk = grows_kv(1) [OF g]
  have st: "kv_get ?c2 CF_STATE k = (if k = inode_key 9 then Some (enc_inode sample r) else kv_get sample_doc_core CF_STATE k)" for k
    by (simp add: observe_time_def clear_pending_def mark_op_applied_def store_inode_def gk kv)
  have fin: "finish_applied sample op (store_inode sample 9 r c1) = (Inr (), del_imap 9 ?c2)"
    using f(2,3) by (simp add: finish_applied_def bindE_def maintain_inode_map_def refresh_map_entry_def is_reachable_def
      is_reachable_loop.simps ROOT_INODE_def parent_of_def st)
  have "idle (del_imap 9 ?c2)" "kv_scan (del_imap 9 ?c2) CF_STATE IMAP_PREFIX = []"
    by (auto simp: idle_def kv_scan_Nil observe_time_def clear_pending_def mark_op_applied_def store_inode_def gk del_imap_def kv)
      (auto simp: c0 c next_op_counter_def Let_def append_op_def sample_doc_imap)
  then have "\<exists>c'. settle sample Applied (del_imap 9 ?c2) = (Inr Applied, c')"
    by (simp add: settle_def bindE_def drain_idle build_snapshot_def compute_state_root_def inode_map_def split: prod.split)
  then obtain c' where "apply_op sample op c0 = (Inr Applied, c')"
    using v ck n m fin by (auto simp: apply_op_def apply_op_inner_cases apply_tail_eq)
  from apply_local_plain [OF mk this] show ?thesis using c(2) by simp
qed


section \<open>A removal by path\<close>

lemma in_get_all: "(d, v) \<in> set (get_all m k) \<longleftrightarrow> fmlookup (adds_at m k) d = Some v \<and> d |\<notin>| removes_at m k"
  by (auto simp: get_all_def adds_at_def removes_at_def Let_def split: option.splits)

lemma get_all_remove_all:
  assumes "fst ` set (get_all m name) \<subseteq> set dots"
  shows "get_all (remove_dots name dots m) name = []"
proof -
  have "(d, v) \<notin> set (get_all (remove_dots name dots m) name)" for d v
  proof
    assume x: "(d, v) \<in> set (get_all (remove_dots name dots m) name)"
    have r: "adds_at (remove_dots name dots m) name = adds_at m name" "removes_at (remove_dots name dots m) name = removes_at m name |\<union>| fset_of_list dots"
      by (simp_all add: remove_dots_def adds_at_def removes_at_def)
    from x have "(d, v) \<in> set (get_all m name)" "d \<notin> set dots" by (auto simp: in_get_all r fset_of_list.rep_eq)
    then show False using assms by force
  qed
  then show ?thesis by (metis last_in_set surj_pair)
qed

lemma get_all_remove_other: "n \<noteq> name \<Longrightarrow> get_all (remove_dots name dots m) n = get_all m n"
  by (simp add: remove_dots_def get_all_def Let_def split: option.split)

lemma observed_dots_back:
  "set (map dot_for_op (sort_key f (map (\<lambda>(dot, _). OpId (dot_device dot) (dot_counter dot)) xs))) = fst ` set xs"
  by (force simp: dot_for_op_def)

lemma unlink_lands:
  assumes "codec_ok P" "mutate P op c = (Inr Done, c1)" "op_kind op = Unlink parent name obs" "load_dir P c parent = Inr (Some m)"
  shows "c1 = store_dir P parent (remove_dots name (map dot_for_op obs) m) c"
  using assms by (auto simp: mutate_def mutate_unlink_def bindE_eq_Inr split: if_splits)


lemma walk_root_leaf:
  assumes "materialize_dir P c ROOT_INODE = Inr []" "load_inode P c ROOT_INODE = Inr r"
  shows "\<exists>es c'. rebuild_inode_map P c = (Inr es, c')"
proof -
  have f: "TREE_FUEL = Suc MAX_TREE_NODES" by (simp add: TREE_FUEL_def)
  have "\<exists>h w. walk_root P True c = (Inr h, w)"
    unfolding walk_root_def f materialize_tree.simps
    using assms
    by (simp add: walk_dir_def walk_object_def dir_object_def bindE_def MAX_TREE_NODES_def fcard.rep_eq Let_def split: prod.split option.split)
  then show ?thesis by (auto simp: rebuild_inode_map_def)
qed

lemma settle_idle_ok:
  assumes "idle c" "imap_ok c"
  shows "\<exists>c'. settle P Applied c = (Inr Applied, c')"
proof -
  obtain m where "inode_map c = Inr m" using inode_map_eq [OF assms(2)] by auto
  then have "compute_state_root P c = Inr (commit (blake3 P) m)" by (simp add: compute_state_root_def)
  from build_snapshot_ok [OF this] show ?thesis using assms(1) by (auto simp: settle_def bindE_def drain_idle)
qed

lemma sample_unlink_applies:
  "\<exists>op c'. apply_local sample sample_ident (Unlink ROOT_INODE ''f'' [OpId 1 1]) 5 sample_doc_core = (Inr op, c')"
proof -
  let ?k = "Unlink ROOT_INODE ''f'' [OpId 1 1]" and ?c = "sample_doc_core"
  obtain op c0 where mk: "make_op sample sample_ident ?k 5 ?c = (op, c0)" by (cases "make_op sample sample_ident ?k 5 ?c")
  note f = make_op_fields [OF mk]
  have v: "verify_op sample op = Inr ()" "check_proof sample op (core_proofs c0) = Inr ()" "\<not> is_op_applied c0 (op_id op)"
    and c0: "c0 = snd (next_op_counter ?c)"
    using sample_made_ok [OF mk] by simp_all
  let ?l = "append_op sample op c0" and ?old = "or_add ''f'' (Dot 1 1) \<lparr>ev_inode_id = 9, ev_entry_type = File, ev_created = 0\<rparr> or_default :: dir_map"
  let ?m = "remove_dots ''f'' [Dot 1 1] ?old"
  have l: "load_dir sample ?l ROOT_INODE = Inr (Some ?old)" "load_inode sample ?l ROOT_INODE = Inr (Some (inode_record_new Dir 0x41ED 0 0 0))"
    by (simp_all add: c0 next_op_counter_def Let_def append_op_def) (simp add: sample_doc_core_def sample_ok)
  have m: "mutate sample op ?l = (Inr Done, store_dir sample ROOT_INODE ?m ?l)"
    using l f by (simp add: mutate_def mutate_unlink_def is_dir_def bindE_def inode_record_new_def dot_for_op_def)
  let ?c2 = "observe_time 5 (clear_pending (op_id op) (mark_op_applied (op_id op) (store_dir sample ROOT_INODE ?m ?l)))"
  have "get_all ?old n \<noteq> [] \<Longrightarrow> n = ''f''" for n by (auto simp: or_add_def or_default_def get_all_def split: if_splits)
  then have "get_all ?m n = []" for n
    using get_all_remove_other [of n "''f''" "[Dot 1 1]" ?old] get_all_remove_all [of ?old "''f''" "[Dot 1 1]"]
    by (cases "n = ''f''") (auto simp: or_add_def or_default_def get_all_def adds_at_def)
  then have "dir_entries ?m = []" by (simp add: dir_entries_def live_keys_def sort_dir_entries_def)
  moreover have "load_dir sample ?c2 ROOT_INODE = Inr (Some ?m)"
    by (simp add: observe_time_def clear_pending_def mark_op_applied_def sample_ok)
  moreover have "load_inode sample ?c2 ROOT_INODE = Inr (Some (inode_record_new Dir 0x41ED 0 0 0))"
    using l(2) by (simp add: observe_time_def clear_pending_def mark_op_applied_def)
  ultimately obtain es c3 where rb: "rebuild_inode_map sample ?c2 = (Inr es, c3)"
    using walk_root_leaf [of sample ?c2] by (auto simp: materialize_dir_def)
  have fin: "finish_applied sample op (store_dir sample ROOT_INODE ?m ?l) = (Inr (), c3)"
    using f(2,3) rb by (simp add: finish_applied_def bindE_def maintain_inode_map_def)
  have i: "imap_ok ?c2"
    by (auto simp: imap_ok_def observe_time_def clear_pending_def mark_op_applied_def store_dir_def)
      (auto simp: c0 next_op_counter_def Let_def append_op_def sample_doc_imap)
  have "idle ?l" using f(5) by (simp add: idle_def append_op_def)
  then have "idle c3"
    using idle_shrinks keepsD [OF keeps_queue_mutate m] keepsD [OF keeps_queue_finish fin] by blast
  then obtain c' where "settle sample Applied c3 = (Inr Applied, c')" using settle_idle_ok rebuild_reads [OF i rb] by blast
  then have "apply_op sample op c0 = (Inr Applied, c')"
    using v m fin by (simp add: apply_op_def apply_op_inner_cases apply_tail_eq)
  from apply_local_plain [OF mk this] show ?thesis by simp
qed


section \<open>Listings end\<close>

lemma walk_entries_grow:
  assumes "\<And>i p out r. rec i p out = Inr r \<Longrightarrow> length out \<le> length r"
  shows "walk_entries P c rec pre d es out = Inr r \<Longrightarrow> length out \<le> length r"
proof (induction es arbitrary: out)
  case (Cons e es)
  then show ?case
    by (fastforce simp: rbind_Inr_iff Let_def split: if_splits dest: assms)
qed simp

lemma walk_into_grow: "walk_into P c fuel d i pre out = Inr r \<Longrightarrow> length out \<le> length r"
proof (induction fuel arbitrary: d i pre out r)
  case (Suc fuel)
  then obtain es where "walk_entries P c (walk_into P c fuel (d + 1)) pre d es out = Inr r"
    by (auto simp: rbind_Inr_iff split: if_splits)
  then show ?case using walk_entries_grow Suc.IH by blast
qed simp

text \<open>The nesting of a walk is bounded by the entries it has already listed, so the fuel always suffices.\<close>

lemma walk_entries_fuel:
  assumes "\<And>i p out. k < length out \<Longrightarrow> fuel_free (rec i p out)"
    and "\<And>i p out r. rec i p out = Inr r \<Longrightarrow> length out \<le> length r"
  shows "k \<le> length out \<Longrightarrow> fuel_free (walk_entries P c rec pre d es out)"
proof (induction es arbitrary: out)
  case (Cons e es)
  have "fuel_free (rec i p (out @ [x]))" for i p x using assms(1) Cons.prems by simp
  moreover have "rec i p (out @ [x]) = Inr r \<Longrightarrow> k \<le> length r" for i p x r
    using assms(2) [of i p "out @ [x]" r] Cons.prems by simp
  ultimately show ?case
    using Cons load_no_fuel(2) [of P c "de_inode_id e"]
    by (auto simp: Let_def rbind_def fuel_free_def split: sum.split)
qed simp

lemma walk_into_fuel: "0 < fuel \<Longrightarrow> MAX_WALK_ENTRIES + 1 < fuel + length out \<Longrightarrow> fuel_free (walk_into P c fuel d i pre out)"
proof (induction fuel arbitrary: d i pre out)
  case (Suc fuel)
  show ?case
  proof (cases "length out > MAX_WALK_ENTRIES")
    case False
    have "fuel_free (walk_entries P c (walk_into P c fuel (d + 1)) pre d es out)" for es
      by (rule walk_entries_fuel [OF Suc.IH walk_into_grow order_refl]) (use Suc.prems False in auto)
    then show ?thesis by (auto intro!: rbind_no_fuel)
  qed simp
qed simp

lemma resolve_no_fuel [no_fuel_intros, simp]: "fuel_free (resolve_path P c path)"
proof -
  have s: "fuel_free (split_loop ps)" for ps by (induction ps) (auto intro!: rbind_no_fuel)
  have l: "fuel_free (lookup P c i n)" for i n by (auto simp: lookup_def Let_def intro!: rbind_no_fuel split: option.split)
  have "fuel_free (resolve_loop P c i k ps)" for i k ps
    by (induction ps arbitrary: i k) (auto intro!: rbind_no_fuel l split: option.split)
  then show ?thesis using s by (auto simp: resolve_path_def split_path_def intro!: rbind_no_fuel)
qed

lemma walk_never_out_of_fuel: "fuel_free (walk_path P c root)"
proof -
  have "fuel_free (walk_into P c (MAX_WALK_ENTRIES + 2) 0 i pre [])" for i pre by (rule walk_into_fuel) simp_all
  then show ?thesis
    unfolding walk_path_def by (auto simp del: walk_into.simps add_2_eq_Suc' intro!: rbind_no_fuel split: option.split)
qed

end
