(* ===== verification/Gc_Laws.thy ===== *)
theory Gc_Laws
  imports Gc Ops_Laws
begin

text \<open>
  What a collection pass keeps: the walk and the mark cover everything a path can reach, so a sweep never takes away what
  a reader could read, and a survey or a refused sweep changes nothing.
\<close>

section \<open>Entries of one kind\<close>

text \<open>Every entry shows the kind of the inode it names, and the root is a directory.\<close>

definition kinds :: "prims \<Rightarrow> core \<Rightarrow> (u128 \<Rightarrow> entry_type) \<Rightarrow> bool" where
  "kinds P c k \<longleftrightarrow> k ROOT_INODE = Dir \<and>
     (\<forall>d es e. materialize_dir P c d = Inr es \<longrightarrow> e \<in> set es \<longrightarrow> de_entry_type e = k (de_inode_id e))"

lemma kindsD: "kinds P c k \<Longrightarrow> materialize_dir P c d = Inr es \<Longrightarrow> e \<in> set es \<Longrightarrow> de_entry_type e = k (de_inode_id e)"
  by (auto simp: kinds_def)

section \<open>The mark is closed\<close>

lemma mark_entries_covers:
  assumes "mark_entries es s q = Inr (s', q')" "\<forall>e \<in> set es. de_entry_type e = k (de_inode_id e)"
  shows "s |\<subseteq>| s' \<and> de_inode_id ` set es \<subseteq> fset s' \<and> set q \<subseteq> set q' \<and> (\<forall>i. i |\<in>| s' \<longrightarrow> i |\<notin>| s \<longrightarrow> k i = Dir \<longrightarrow> i \<in> set q')"
  using assms
proof (induction es arbitrary: s q)
  case (Cons e es)
  show ?case
  proof (cases "de_inode_id e |\<in>| s")
    case True
    then have "mark_entries es s q = Inr (s', q')" using Cons.prems by simp
    from Cons.IH [OF this] Cons.prems(2) True show ?thesis by (auto dest: fsubsetD)
  next
    case False
    let ?s = "finsert (de_inode_id e) s" and ?q = "if de_entry_type e = Dir then de_inode_id e # q else q"
    have "mark_entries es ?s ?q = Inr (s', q')" using Cons.prems False by (auto simp: Let_def split: if_splits)
    from Cons.IH [OF this] Cons.prems(2) have
      IH: "?s |\<subseteq>| s'" "de_inode_id ` set es \<subseteq> fset s'" "set ?q \<subseteq> set q'" "\<forall>i. i |\<in>| s' \<longrightarrow> i |\<notin>| ?s \<longrightarrow> k i = Dir \<longrightarrow> i \<in> set q'"
      by auto
    have "i \<in> set q'" if "i |\<in>| s'" "i |\<notin>| s" "k i = Dir" for i
      using IH(3,4) that Cons.prems(2) by (cases "i = de_inode_id e") auto
    moreover have "set q \<subseteq> set q'" using IH(3) by (auto split: if_splits)
    ultimately show ?thesis using IH(1,2) by (auto dest: fsubsetD)
  qed
qed auto

definition closed :: "prims \<Rightarrow> core \<Rightarrow> u128 fset \<Rightarrow> u128 \<Rightarrow> bool" where
  "closed P c s d \<longleftrightarrow> (\<forall>es. materialize_dir P c d = Inr es \<longrightarrow> de_inode_id ` set es \<subseteq> fset s)"

lemma closed_mono: "closed P c s d \<Longrightarrow> s |\<subseteq>| s' \<Longrightarrow> closed P c s' d"
  unfolding closed_def by (metis less_eq_fset.rep_eq order_trans)

lemma mark_loop_closed:
  assumes "kinds P c k" "mark_loop P c q s = Inr s'" "\<forall>i. i |\<in>| s \<longrightarrow> k i = Dir \<longrightarrow> i \<in> set q \<or> closed P c s i"
  shows "s |\<subseteq>| s' \<and> (\<forall>i. i |\<in>| s' \<longrightarrow> k i = Dir \<longrightarrow> closed P c s' i)"
  using assms
proof (induction P c q s rule: mark_loop.induct)
  case (1 P c reachable)
  then show ?case by auto
next
  case (2 P c d q s)
  obtain es s1 q1 where es: "materialize_dir P c d = Inr es" and m: "mark_entries es s q = Inr (s1, q1)"
    and r: "mark_loop P c q1 s1 = Inr s'" using "2.prems"(2) by (auto simp: rbind_Inr_iff)
  have cov: "s |\<subseteq>| s1" "de_inode_id ` set es \<subseteq> fset s1" "set q \<subseteq> set q1" "\<forall>i. i |\<in>| s1 \<longrightarrow> i |\<notin>| s \<longrightarrow> k i = Dir \<longrightarrow> i \<in> set q1"
    using mark_entries_covers [OF m, of k] kindsD [OF "2.prems"(1) es] by auto
  have "closed P c s1 d" using es cov(2) by (simp add: closed_def)
  have "i \<in> set q1 \<or> closed P c s1 i" if i: "i |\<in>| s1" "k i = Dir" for i
  proof (cases "i |\<in>| s")
    case True
    then have "i = d \<or> i \<in> set q \<or> closed P c s i" using "2.prems"(3) i(2) by auto
    then show ?thesis using \<open>closed P c s1 d\<close> cov(3) closed_mono [OF _ cov(1)] by blast
  qed (use cov(4) i in blast)
  then have "s1 |\<subseteq>| s' \<and> (\<forall>i. i |\<in>| s' \<longrightarrow> k i = Dir \<longrightarrow> closed P c s' i)"
    using "2.IH" [OF es m "2.prems"(1)] r by simp
  then show ?case using cov(1) by (meson fsubset_trans)
qed

lemma reachable_inodes_closed:
  assumes "kinds P c k" "reachable_inodes P c = Inr R"
  shows "ROOT_INODE |\<in>| R \<and> (\<exists>s. ROOT_INODE |\<in>| s \<and> s |\<subseteq>| R \<and> (\<forall>i. i |\<in>| s \<longrightarrow> k i = Dir \<longrightarrow> closed P c s i))"
proof -
  obtain s ops where s: "mark_loop P c [ROOT_INODE] {|ROOT_INODE|} = Inr s" and R: "R = s |\<union>| fset_of_list (concat (map op_inodes ops))"
    using assms(2) by (auto simp: reachable_inodes_def rbind_Inr_iff)
  from mark_loop_closed [OF assms(1) s] show ?thesis using R by auto
qed

section \<open>The walk is closed\<close>

definition mapped :: "prims \<Rightarrow> core \<Rightarrow> (u128, hash) fmap \<Rightarrow> u128 \<Rightarrow> bool" where
  "mapped P c m i \<longleftrightarrow>
     (\<forall>r h. load_inode P c i = Inr (Some r) \<longrightarrow> ct_node_hash (lww_value (ir_content r)) = Some h \<longrightarrow> fmlookup m i = Some h)"

definition entry_seen :: "prims \<Rightarrow> walk \<Rightarrow> dir_entry \<Rightarrow> bool" where
  "entry_seen P w e \<longleftrightarrow>
     (if de_entry_type e = Dir then de_inode_id e |\<in>| wk_visited w else mapped P (wk_core w) (wk_map w) (de_inode_id e))"

definition dir_seen :: "prims \<Rightarrow> walk \<Rightarrow> u128 \<Rightarrow> bool" where
  "dir_seen P w d \<longleftrightarrow> (\<forall>es e. materialize_dir P (wk_core w) d = Inr es \<longrightarrow> e \<in> set es \<longrightarrow> entry_seen P w e)"

definition extends :: "prims \<Rightarrow> (u128 \<Rightarrow> entry_type) \<Rightarrow> walk \<Rightarrow> walk \<Rightarrow> bool" where
  "extends P k w w' \<longleftrightarrow> wk_core w' = wk_core w \<and> wk_visited w |\<subseteq>| wk_visited w' \<and>
     (\<forall>i. k i = File \<longrightarrow> mapped P (wk_core w) (wk_map w) i \<longrightarrow> mapped P (wk_core w) (wk_map w') i) \<and>
     (\<forall>d. d |\<in>| wk_visited w' \<longrightarrow> d |\<notin>| wk_visited w \<longrightarrow> dir_seen P w' d)"

lemma entry_seen_mono:
  "wk_core w' = wk_core w \<Longrightarrow> wk_visited w |\<subseteq>| wk_visited w' \<Longrightarrow>
   (\<And>i. k i = File \<Longrightarrow> mapped P (wk_core w) (wk_map w) i \<Longrightarrow> mapped P (wk_core w) (wk_map w') i) \<Longrightarrow>
   de_entry_type e = k (de_inode_id e) \<Longrightarrow> entry_seen P w e \<Longrightarrow> entry_seen P w' e"
  by (cases "de_entry_type e") (auto simp: entry_seen_def)

lemma extends_entry:
  "extends P k w w' \<Longrightarrow> de_entry_type e = k (de_inode_id e) \<Longrightarrow> entry_seen P w e \<Longrightarrow> entry_seen P w' e"
  by (rule entry_seen_mono) (auto simp: extends_def)

lemma extends_dir: "kinds P (wk_core w) k \<Longrightarrow> extends P k w w' \<Longrightarrow> dir_seen P w d \<Longrightarrow> dir_seen P w' d"
  using extends_entry [of P k w w'] kindsD [of P "wk_core w" k d] by (auto simp: dir_seen_def extends_def)

lemma extends_refl: "extends P k w w"
  by (simp add: extends_def)

lemma extends_trans:
  assumes "kinds P (wk_core w) k" "extends P k w w1" "extends P k w1 w2"
  shows "extends P k w w2"
proof -
  have "kinds P (wk_core w1) k" using assms(1,2) by (simp add: extends_def)
  have "dir_seen P w2 d" if "d |\<in>| wk_visited w2" "d |\<notin>| wk_visited w" for d
  proof (cases "d |\<in>| wk_visited w1")
    case True
    then have "dir_seen P w1 d" using that(2) assms(2) by (simp add: extends_def)
    then show ?thesis using extends_dir [OF \<open>kinds P (wk_core w1) k\<close> assms(3)] by blast
  qed (use that(1) assms(3) in \<open>simp add: extends_def\<close>)
  moreover have "wk_core w2 = wk_core w" "wk_visited w |\<subseteq>| wk_visited w2"
    using assms(2,3) unfolding extends_def by (metis, meson fsubset_trans)
  moreover have "mapped P (wk_core w) (wk_map w2) i" if "k i = File" "mapped P (wk_core w) (wk_map w) i" for i
    using that assms(2,3) unfolding extends_def by metis
  ultimately show ?thesis by (simp add: extends_def)
qed

text \<open>A computation of the walk that extends it whenever it succeeds.\<close>

definition walks :: "prims \<Rightarrow> (u128 \<Rightarrow> entry_type) \<Rightarrow> core \<Rightarrow> (walk, 'a) comp \<Rightarrow> (walk \<Rightarrow> bool) \<Rightarrow> bool" where
  "walks P k c m Q \<longleftrightarrow> (\<forall>w x w'. wk_core w = c \<longrightarrow> m w = (Inr x, w') \<longrightarrow> extends P k w w' \<and> Q w')"

lemma walksD: "walks P k c m Q \<Longrightarrow> wk_core w = c \<Longrightarrow> m w = (Inr x, w') \<Longrightarrow> extends P k w w' \<and> Q w'"
  by (simp add: walks_def)

lemma walk_file_walks: "walks P k c (walk_file P i) (\<lambda>w. mapped P c (wk_map w) i)"
  unfolding walks_def
proof (intro allI impI)
  fix w x w'
  assume c: "wk_core w = c" and r: "walk_file P i w = (Inr x, w')"
  then consider "w' = w" "mapped P c (wk_map w) i" 
    | rec h where "load_inode P c i = Inr (Some rec)" "ct_node_hash (lww_value (ir_content rec)) = Some h" "w' = w\<lparr>wk_map := fmupd i h (wk_map w)\<rparr>"
  proof -
    obtain rec where l: "load_inode P c i = Inr rec" using r c by (auto simp: walk_file_def bindE_eq_Inr)
    show thesis
    proof (cases rec)
      case None
      then show thesis using that(1) r c l by (simp add: walk_file_def bindE_def mapped_def)
    next
      case (Some rc)
      then show thesis
        using that r c l by (cases "ct_node_hash (lww_value (ir_content rc))") (simp_all add: walk_file_def bindE_def mapped_def)
    qed
  qed
  then show "extends P k w w' \<and> mapped P c (wk_map w') i"
  proof cases
    case 2
    then have "mapped P c (wk_map w') i" "\<And>j. mapped P c (wk_map w) j \<Longrightarrow> mapped P c (wk_map w') j" by (auto simp: mapped_def)
    then show ?thesis using 2(3) c by (simp add: extends_def)
  qed (simp add: extends_refl)
qed

lemma for_entries_walks:
  assumes "kinds P c k" "\<And>i. k i = Dir \<Longrightarrow> walks P k c (rec i) (\<lambda>w. i |\<in>| wk_visited w)"
    and "\<forall>e \<in> set es. de_entry_type e = k (de_inode_id e)"
  shows "walks P k c (for_each es (walk_entry P rec)) (\<lambda>w. \<forall>e \<in> set es. entry_seen P w e)"
  using assms(3)
proof (induction es)
  case Nil
  then show ?case by (simp add: walks_def extends_refl)
next
  case (Cons e es)
  show ?case
    unfolding walks_def
  proof (intro allI impI)
    fix w x w'
    assume c: "wk_core w = c" and r: "for_each (e # es) (walk_entry P rec) w = (Inr x, w')"
    then obtain w1 y where e: "walk_entry P rec e w = (Inr y, w1)" and es: "for_each es (walk_entry P rec) w1 = (Inr x, w')"
      by (auto simp: bindE_eq_Inr)
    have k: "de_entry_type e = k (de_inode_id e)" using Cons.prems by simp
    have 1: "extends P k w w1" "entry_seen P w1 e"
    proof -
      have "extends P k w w1 \<and> entry_seen P w1 e"
      proof (cases "de_entry_type e")
        case Dir
        then obtain h where "rec (de_inode_id e) w = (Inr h, w1)" using e by (auto simp: walk_entry_def bindE_eq_Inr)
        then have "extends P k w w1" "de_inode_id e |\<in>| wk_visited w1"
          using assms(2) [of "de_inode_id e"] k Dir c unfolding walks_def by metis+
        then show ?thesis using Dir by (simp add: entry_seen_def)
      next
        case File
        then have "walk_file P (de_inode_id e) w = (Inr y, w1)" using e by (simp add: walk_entry_def)
        then have "extends P k w w1" "mapped P c (wk_map w1) (de_inode_id e)"
          using walk_file_walks [of P k c "de_inode_id e"] c unfolding walks_def by blast+
        then show ?thesis using c File by (simp add: entry_seen_def extends_def)
      qed
      then show "extends P k w w1" "entry_seen P w1 e" by auto
    qed
    have "wk_core w1 = c" using 1 c by (simp add: extends_def)
    then have 2: "extends P k w1 w'" "\<forall>e \<in> set es. entry_seen P w' e" using Cons es by (auto simp: walks_def)
    show "extends P k w w' \<and> (\<forall>e \<in> set (e # es). entry_seen P w' e)"
      using extends_trans [OF _ 1(1) 2(1)] assms(1) c extends_entry [OF 2(1) k 1(2)] 2(2) by auto
  qed
qed

lemma walk_object_walks:
  assumes "k i = Dir"
  shows "walks P k c (walk_object P False i es) (\<lambda>_. True)"
  unfolding walks_def
proof (intro allI impI)
  fix w x w'
  assume c: "wk_core w = c" and r: "walk_object P False i es w = (Inr x, w')"
  then have w': "w' = w\<lparr>wk_map := fmupd i x (wk_map w)\<rparr>"
    by (auto simp: walk_object_def bindE_eq_Inr Let_def)
  have "mapped P c (wk_map w') j" if "k j = File" "mapped P c (wk_map w) j" for j
    using that assms by (cases "j = i") (simp_all add: w' mapped_def)
  then show "extends P k w w' \<and> True" using c by (simp add: extends_def w')
qed

lemma tree_walks:
  assumes "kinds P c k"
  shows "k i = Dir \<Longrightarrow> walks P k c (materialize_tree P False fuel i) (\<lambda>w. i |\<in>| wk_visited w)"
proof (induction fuel arbitrary: i)
  case 0
  show ?case by (simp add: walks_def)
next
  case (Suc fuel)
  show ?case
    unfolding walks_def
  proof (intro allI impI)
    fix w h w'
    assume c: "wk_core w = c" and r: "materialize_tree P False (Suc fuel) i w = (Inr h, w')"
    let ?w = "w\<lparr>wk_visited := finsert i (wk_visited w)\<rparr>"
    have "walk_dir P False (materialize_tree P False fuel) i ?w = (Inr h, w')"
      using r by (auto simp: Let_def split: if_splits)
    then obtain es w1 u where es: "materialize_dir P c i = Inr es"
      and f: "for_each es (walk_entry P (materialize_tree P False fuel)) ?w = (Inr u, w1)"
      and o: "walk_object P False i es w1 = (Inr h, w')"
      using c by (auto simp: walk_dir_def bindE_eq_Inr)
    have 1: "extends P k ?w w1" "\<forall>e \<in> set es. entry_seen P w1 e"
      using walksD [OF for_entries_walks [OF assms Suc.IH, where es = es] _ f] kindsD [OF assms es] c by auto
    have c1: "wk_core w1 = c" using 1(1) c by (simp add: extends_def)
    have 2: "extends P k w1 w'" using walksD [OF walk_object_walks [of k i, OF Suc.prems] c1 o] by blast
    have 3: "extends P k ?w w'" using extends_trans [OF _ 1(1) 2] assms c by simp
    have "entry_seen P w' e" if "e \<in> set es" for e
      using extends_entry [OF 2] kindsD [OF assms es that] 1(2) that by blast
    then have "dir_seen P w' i" using es c1 2 by (auto simp: dir_seen_def extends_def)
    moreover have "dir_seen P w' d" if "d |\<in>| wk_visited w'" "d |\<notin>| wk_visited w" "d \<noteq> i" for d
      using 3 that by (simp add: extends_def)
    ultimately have "extends P k w w'" using 3 unfolding extends_def by auto
    moreover have "i |\<in>| wk_visited w'" using 3 by (auto simp: extends_def)
    ultimately show "extends P k w w' \<and> i |\<in>| wk_visited w'" by blast
  qed
qed

lemma walk_root_covers:
  assumes "kinds P c k" "walk_root P False c = (Inr h, w)"
  shows "wk_core w = c" "ROOT_INODE |\<in>| wk_visited w" "\<And>d. d |\<in>| wk_visited w \<Longrightarrow> dir_seen P w d"
proof -
  let ?w = "\<lparr>wk_map = fmempty, wk_visited = {||}, wk_core = c\<rparr>"
  have "k ROOT_INODE = Dir" using assms(1) by (simp add: kinds_def)
  from tree_walks [OF assms(1) this] assms(2) have "extends P k ?w w \<and> ROOT_INODE |\<in>| wk_visited w"
    unfolding walks_def walk_root_def by (metis walk.select_convs(3))
  then show "wk_core w = c" "ROOT_INODE |\<in>| wk_visited w" "\<And>d. d |\<in>| wk_visited w \<Longrightarrow> dir_seen P w d"
    by (simp_all add: extends_def)
qed

section \<open>What a path reaches is marked\<close>

lemma lookup_listed:
  assumes "lookup P c d n = Inr (Some e)"
  shows "\<exists>es. materialize_dir P c d = Inr es \<and> e \<in> set es"
proof -
  obtain m where m: "load_dir P c d = Inr (Some m)" using assms by (auto simp: lookup_def rbind_Inr_iff split: option.splits)
  have es: "materialize_dir P c d = Inr (dir_entries m)" by (simp add: materialize_dir_def m)
  show ?thesis
  proof (cases "length (get_all m n) = 1")
    case True
    then show ?thesis using assms m es single_survivor_listed [OF True] by (auto simp: lookup_def Let_def)
  next
    case False
    then have "find (\<lambda>e. de_name e = n) (dir_entries m) = Some e" using assms m es by (simp add: lookup_def Let_def)
    then show ?thesis using es by (metis find_Some_iff nth_mem)
  qed
qed

text \<open>A set of inodes that is closed under the entries of its directories contains whatever a path resolves to.\<close>

lemma resolve_in_closed:
  assumes "kinds P c k" "resolve_loop P c cur kd parts = Inr (Some (i, kd'))" "cur \<in> S" "kd = k cur"
    and "\<And>d es e. d \<in> S \<Longrightarrow> k d = Dir \<Longrightarrow> materialize_dir P c d = Inr es \<Longrightarrow> e \<in> set es \<Longrightarrow> Q e \<and> (de_inode_id e \<in> S \<or> de_entry_type e = File)"
  shows "kd' = k i \<and> (parts \<noteq> [] \<longrightarrow> (\<exists>e. Q e \<and> de_inode_id e = i \<and> de_entry_type e = kd'))"
  using assms(2-4)
proof (induction parts arbitrary: cur kd)
  case (Cons p parts)
  then obtain e where e: "lookup P c cur p = Inr (Some e)" and d: "k cur = Dir"
    and r: "resolve_loop P c (de_inode_id e) (de_entry_type e) parts = Inr (Some (i, kd'))"
    by (auto simp: rbind_Inr_iff split: option.splits if_splits)
  obtain es where es: "materialize_dir P c cur = Inr es" "e \<in> set es" using lookup_listed [OF e] by blast
  have k: "de_entry_type e = k (de_inode_id e)" by (rule kindsD [OF assms(1) es])
  have Q: "Q e" "de_inode_id e \<in> S \<or> de_entry_type e = File" using assms(5) [OF Cons.prems(2) d es] by auto
  show ?case
  proof (cases parts)
    case Nil
    then show ?thesis using r Q k by auto
  next
    case (Cons q qs)
    then have "de_entry_type e = Dir" using r by (auto split: if_splits)
    then have "de_inode_id e \<in> S" using Q by auto
    with Cons.IH [OF r _ k] Cons show ?thesis by auto
  qed
qed auto

lemma resolve_loop_same:
  assumes "kinds P c k" "cur \<in> S" "kd = k cur"
    and closed: "\<And>d es e. d \<in> S \<Longrightarrow> k d = Dir \<Longrightarrow> materialize_dir P c d = Inr es \<Longrightarrow> e \<in> set es \<Longrightarrow> de_inode_id e \<in> S"
    and same: "\<And>d. d \<in> S \<Longrightarrow> load_dir P c' d = load_dir P c d"
  shows "resolve_loop P c' cur kd parts = resolve_loop P c cur kd parts"
  using assms(2,3)
proof (induction parts arbitrary: cur kd)
  case (Cons p parts)
  have l: "lookup P c' cur p = lookup P c cur p" by (rule lookup_cong) (rule same [OF Cons.prems(1)])
  have "resolve_loop P c' (de_inode_id e) (de_entry_type e) parts = resolve_loop P c (de_inode_id e) (de_entry_type e) parts"
    if e: "lookup P c cur p = Inr (Some e)" "k cur = Dir" for e
  proof -
    obtain es where es: "materialize_dir P c cur = Inr es" "e \<in> set es" using lookup_listed [OF e(1)] by blast
    show ?thesis by (rule Cons.IH [OF closed [OF Cons.prems(1) e(2) es] kindsD [OF assms(1) es]])
  qed
  then show ?case using Cons.prems(2) l by (auto intro!: rbind_cong split: option.split)
qed simp

section \<open>What a sweep keeps\<close>

lemma sweep_kv: "kv_get (sweep hs ks c) cf k = (if cf = CF_STATE \<and> k \<in> set ks then None else kv_get c cf k)"
proof -
  have "kv_get (fold del_blob hs x) cf k = kv_get x cf k" for x
    by (induction hs arbitrary: x) (simp_all add: del_blob_def store_simps)
  moreover have "kv_get (fold (kv_del CF_STATE) ks x) cf k = (if cf = CF_STATE \<and> k \<in> set ks then None else kv_get x cf k)" for x
    by (induction ks arbitrary: x) auto
  ultimately show ?thesis by (simp add: sweep_def)
qed

lemma sweep_blob: "blob_get (stores (sweep hs ks c)) h = (if h \<in> set hs then None else blob_get (stores c) h)"
proof -
  have "blob_get (stores (fold del_blob hs x)) h = (if h \<in> set hs then None else blob_get (stores x) h)" for x
    by (induction hs arbitrary: x) (simp_all add: del_blob_def store_simps)
  moreover have "blob_get (stores (fold (kv_del CF_STATE) ks x)) h = blob_get (stores x) h" for x
    by (induction ks arbitrary: x) auto
  ultimately show ?thesis by (simp add: sweep_def)
qed

lemma sweep_fields: "cipher (sweep hs ks c) = cipher c" "sealing_secret (sweep hs ks c) = sealing_secret c"
proof -
  have "cipher (fold del_blob hs x) = cipher x" "sealing_secret (fold del_blob hs x) = sealing_secret x" for x
    by (induction hs arbitrary: x) (simp_all add: del_blob_def)
  moreover have "cipher (fold (kv_del CF_STATE) ks x) = cipher x" "sealing_secret (fold (kv_del CF_STATE) ks x) = sealing_secret x" for x
    by (induction ks arbitrary: x) auto
  ultimately show "cipher (sweep hs ks c) = cipher c" "sealing_secret (sweep hs ks c) = sealing_secret c" by (simp_all add: sweep_def)
qed

lemma orphan_key: "key \<in> set (orphans_under c R pre) \<Longrightarrow> \<exists>i. i |\<notin>| R \<and> key = pre @ to_be_bytes 16 i"
  by (auto simp: orphans_under_def inode_from_key_Some split: option.splits)

lemma orphaned_keys:
  assumes "orphaned_records P c = Inr orphans" "reachable_inodes P c = Inr R" "i |\<in>| R"
  shows "dir_key i \<notin> set (or_keys_found orphans)" "inode_key i \<notin> set (or_keys_found orphans)" "parent_key i \<notin> set (or_keys_found orphans)"
    "imap_key i \<notin> set (or_keys_found orphans)"
proof -
  have "key \<in> set (or_keys_found orphans) \<Longrightarrow> \<exists>j. j |\<notin>| R \<and> (key = dir_key j \<or> key = inode_key j \<or> key = parent_key j \<or> key = imap_key j)" for key
    using assms(1,2)
    by (auto simp: orphaned_records_def dir_key_def inode_key_def parent_key_def imap_key_def prefixed_key_def dest!: orphan_key)
  then show "dir_key i \<notin> set (or_keys_found orphans)" "inode_key i \<notin> set (or_keys_found orphans)" "parent_key i \<notin> set (or_keys_found orphans)"
    "imap_key i \<notin> set (or_keys_found orphans)"
    using assms(3) by (metis state_keys_distinct state_keys_inject)+
qed

lemma mark_objects_covers:
  assumes "mark_objects P c hs s = Inr s'"
  shows "s |\<subseteq>| s' \<and> (\<forall>h \<in> set hs. h |\<in>| s' \<and> (\<forall>node. get_object P c h = Inr (Some (FileNode node)) \<longrightarrow> cr_hash ` set (fn_chunks node) \<subseteq> fset s'))"
  using assms
proof (induction hs arbitrary: s)
  case (Cons h hs)
  obtain ob where ob: "get_object P c h = Inr ob" using Cons.prems by (auto simp: rbind_Inr_iff)
  let ?s = "case ob of Some (FileNode node) \<Rightarrow> finsert h s |\<union>| fset_of_list (map cr_hash (fn_chunks node)) | _ \<Rightarrow> finsert h s"
  have "mark_objects P c hs ?s = Inr s'" using Cons.prems ob by simp
  note IH = Cons.IH [OF this]
  have s: "finsert h s |\<subseteq>| ?s" by (auto split: option.split object.split)
  then have "finsert h s |\<subseteq>| s'" using IH by (meson fsubset_trans)
  moreover have "cr_hash ` set (fn_chunks node) \<subseteq> fset s'" if "ob = Some (FileNode node)" for node
  proof -
    have "cr_hash ` set (fn_chunks node) \<subseteq> fset ?s" using that by (auto simp: fset_of_list.rep_eq)
    then show ?thesis using IH by (meson less_eq_fset.rep_eq order_trans)
  qed
  ultimately show ?case using IH ob by auto
qed simp

lemma read_chunks_same:
  assumes "\<And>x. x \<in> set cs \<Longrightarrow> blob_get (stores c') (cr_hash x) = blob_get (stores c) (cr_hash x)"
  shows "read_chunks P c' k n cs out = read_chunks P c k n cs out"
  using assms by (induction cs arbitrary: n out) (auto intro!: rbind_cong split: option.split)

lemma recover_same: "cipher c' = cipher c \<Longrightarrow> sealing_secret c' = sealing_secret c \<Longrightarrow> recover_file_key P c' info = recover_file_key P c info"
  unfolding recover_file_key_def by (simp only:)

text \<open>A pass either leaves everything or sweeps exactly what was not marked.\<close>

lemma collect_cases:
  assumes "collect_garbage P dry c = (Inr rep, c')"
  obtains "c' = c" "dry \<or> refused rep \<noteq> None"
  | H orphans where "\<not> dry" "refused rep = None" "reachable_hashes P c = Inr H" "orphaned_records P c = Inr orphans"
      "c' = sweep (map fst (filter (\<lambda>(h, _). h |\<notin>| H) (blob_list (stores c)))) (or_keys_found orphans) c"
proof -
  obtain blocker where b: "sweep_blocker P c = Inr blocker" using assms by (auto simp: collect_garbage_def bindE_eq_Inr)
  show thesis
  proof (cases "\<not> dry \<and> blocker \<noteq> None")
    case True
    then have "c' = c" "refused rep = blocker" using assms b by (auto simp: collect_garbage_def bindE_def)
    then show thesis using that(1) True by blast
  next
    case False
    then obtain H orphans where H: "reachable_hashes P c = Inr H" "orphaned_records P c = Inr orphans"
      using assms b by (auto simp: collect_garbage_def bindE_eq_Inr split: if_splits)
    let ?hs = "map fst (filter (\<lambda>(h, _). h |\<notin>| H) (blob_list (stores c)))"
    show thesis
    proof (cases dry)
      case True
      then show thesis using assms b H False that(1) by (simp add: collect_garbage_def bindE_def Let_def)
    next
      case False
      then have "refused rep = None" "c' = sweep ?hs (or_keys_found orphans) c"
        using assms b H \<open>\<not> (\<not> dry \<and> blocker \<noteq> None)\<close>
        by (auto simp: collect_garbage_def bindE_def Let_def survey_def gc_report_default_def)
      then show thesis using that(2) False H by blast
    qed
  qed
qed

lemma marked_file:
  assumes k: "kinds P c k" and H: "reachable_hashes P c = Inr H"
    and e: "entry_seen P (snd (walk_root P False c)) e" "de_entry_type e = File" "de_inode_id e = i"
    and r: "load_inode P c i = Inr (Some r)" "ct_node_hash (lww_value (ir_content r)) = Some h"
  shows "h |\<in>| H \<and> (\<forall>node. get_object P c h = Inr (Some (FileNode node)) \<longrightarrow> cr_hash ` set (fn_chunks node) \<subseteq> fset H)"
proof -
  let ?heads = "case get_head c of Some h \<Rightarrow> {|h|} | None \<Rightarrow> {||}"
  obtain h0 w s ops where w: "walk_root P False c = (Inr h0, w)"
    and s: "mark_objects P c (map snd (fm_entries (wk_map w))) ?heads = Inr s"
    and HH: "H = s |\<union>| fset_of_list (concat (map op_chunk_hashes ops))"
    using H by (auto simp: reachable_hashes_def Let_def rbind_Inr_iff split: prod.splits sum.splits)
  have "mapped P c (wk_map w) i" using e w walk_root_covers(1) [OF k w] by (simp add: entry_seen_def)
  then have "fmlookup (wk_map w) i = Some h" using r by (simp add: mapped_def)
  then have "h \<in> set (map snd (fm_entries (wk_map w)))" using in_fm_entries [of i h "wk_map w"] by (metis imageI set_map snd_conv)
  then have "h |\<in>| s \<and> (\<forall>node. get_object P c h = Inr (Some (FileNode node)) \<longrightarrow> cr_hash ` set (fn_chunks node) \<subseteq> fset s)"
    using mark_objects_covers [OF s] by (metis (no_types, lifting))
  moreover have "fset s \<subseteq> fset H" by (auto simp: HH)
  ultimately show ?thesis by blast
qed

lemma read_file_same:
  assumes "load_inode P c' i = load_inode P c i" "read_file P c i = Inr d"
    and keys: "cipher c' = cipher c" "sealing_secret c' = sealing_secret c"
    and blobs: "\<And>r h. load_inode P c i = Inr (Some r) \<Longrightarrow> ct_node_hash (lww_value (ir_content r)) = Some h \<Longrightarrow>
      blob_get (stores c') h = blob_get (stores c) h \<and>
      (\<forall>node. get_object P c h = Inr (Some (FileNode node)) \<longrightarrow>
         (\<forall>x \<in> set (fn_chunks node). blob_get (stores c') (cr_hash x) = blob_get (stores c) (cr_hash x)))"
  shows "read_file P c' i = Inr d"
proof -
  have "read_file P c' i = read_file P c i"
    unfolding read_file_def assms(1)
  proof (rule rbind_cong [OF refl])
    fix x
    assume x: "load_inode P c i = Inr x"
    have m: "materialize_file P c' f = materialize_file P c f"
      if "x = Some rec" "ct_node_hash (lww_value (ir_content rec)) = Some h" "get_object P c h = Inr (Some (FileNode f))" for rec h f
      using blobs [of rec h] that x
      by (auto simp: materialize_file_def recover_same [OF keys] intro!: rbind_cong read_chunks_same split: option.split)
    have "get_object P c' h = get_object P c h" if "x = Some rec" "ct_node_hash (lww_value (ir_content rec)) = Some h" for rec h
      using blobs [of rec h] that x by (simp add: get_object_def)
    then show "(case x of None \<Rightarrow> Inl (Bail ''no such inode'')
     | Some rec \<Rightarrow>
         if ir_kind rec \<noteq> File then Inl (Bail ''inode is not a file'')
         else case ct_node_hash (lww_value (ir_content rec)) of
                None \<Rightarrow> Inr []
              | Some nh \<Rightarrow>
                  rbind (get_object P c' nh) (\<lambda>ob.
                  case ob of
                    Some (FileNode f) \<Rightarrow> materialize_file P c' f
                  | Some _ \<Rightarrow> Inl (Bail ''inode points at a non-file object'')
                  | None \<Rightarrow> Inl (Bail ''missing file object''))) =
      (case x of None \<Rightarrow> Inl (Bail ''no such inode'')
     | Some rec \<Rightarrow>
         if ir_kind rec \<noteq> File then Inl (Bail ''inode is not a file'')
         else case ct_node_hash (lww_value (ir_content rec)) of
                None \<Rightarrow> Inr []
              | Some nh \<Rightarrow>
                  rbind (get_object P c nh) (\<lambda>ob.
                  case ob of
                    Some (FileNode f) \<Rightarrow> materialize_file P c f
                  | Some _ \<Rightarrow> Inl (Bail ''inode points at a non-file object'')
                  | None \<Rightarrow> Inl (Bail ''missing file object'')))"
      using m by (auto intro!: rbind_cong split: option.split object.split)
  qed
  then show ?thesis using assms(2) by simp
qed

lemma file_on_path:
  assumes k: "kinds P c k" and w: "walk_root P False c = (Inr h0, w)" and r: "resolve_path P c path = Inr (Some (i, File))"
  shows "\<exists>e. entry_seen P w e \<and> de_inode_id e = i \<and> de_entry_type e = File"
proof -
  note cov = walk_root_covers [OF k w]
  obtain parts where parts: "resolve_loop P c ROOT_INODE Dir parts = Inr (Some (i, File))"
    using r by (auto simp: resolve_path_def rbind_Inr_iff)
  then have ne: "parts \<noteq> []" by auto
  have root: "Dir = k ROOT_INODE" using k by (simp add: kinds_def)
  have "entry_seen P w e \<and> (de_inode_id e \<in> fset (wk_visited w) \<or> de_entry_type e = File)"
    if "d \<in> fset (wk_visited w)" "materialize_dir P c d = Inr es" "e \<in> set es" for d es e
    using cov(3) [of d] that cov(1) by (cases "de_entry_type e") (auto simp: dir_seen_def entry_seen_def)
  then show ?thesis using resolve_in_closed [OF k parts cov(2) root, of "entry_seen P w"] ne by blast
qed

lemma file_in_closed:
  assumes k: "kinds P c k" and r: "resolve_path P c path = Inr (Some (i, File))" and root: "ROOT_INODE \<in> S"
    and closed: "\<And>d es e. d \<in> S \<Longrightarrow> k d = Dir \<Longrightarrow> materialize_dir P c d = Inr es \<Longrightarrow> e \<in> set es \<Longrightarrow> de_inode_id e \<in> S"
  shows "i \<in> S"
proof -
  obtain parts where parts: "resolve_loop P c ROOT_INODE Dir parts = Inr (Some (i, File))"
    using r by (auto simp: resolve_path_def rbind_Inr_iff)
  then have "parts \<noteq> []" by auto
  moreover have "Dir = k ROOT_INODE" using k by (simp add: kinds_def)
  ultimately show ?thesis using resolve_in_closed [OF k parts root, of "\<lambda>e. de_inode_id e \<in> S"] closed by blast
qed

lemma sweep_reads:
  assumes k: "kinds P c k" and H: "reachable_hashes P c = Inr H" and hs: "\<forall>h \<in> set hs. h |\<notin>| H"
    and r: "resolve_path P c path = Inr (Some (i, File))" and rd: "read_file P c i = Inr d"
    and rec: "load_inode P (sweep hs ks c) i = load_inode P c i"
  shows "read_file P (sweep hs ks c) i = Inr d"
proof (rule read_file_same [OF rec rd])
  obtain h0 w where w: "walk_root P False c = (Inr h0, w)"
    using H by (auto simp: reachable_hashes_def Let_def split: prod.splits sum.splits)
  obtain e where e: "entry_seen P w e" "de_inode_id e = i" "de_entry_type e = File" using file_on_path [OF k w r] by blast
  fix rc h
  assume "load_inode P c i = Inr (Some rc)" "ct_node_hash (lww_value (ir_content rc)) = Some h"
  then have m: "h |\<in>| H" "\<forall>node. get_object P c h = Inr (Some (FileNode node)) \<longrightarrow> cr_hash ` set (fn_chunks node) \<subseteq> fset H"
    using marked_file [OF k H _ e(3,2)] e(1) w by auto
  have "blob_get (stores (sweep hs ks c)) x = blob_get (stores c) x" if "x |\<in>| H" for x
    using hs that by (auto simp: sweep_blob)
  then show "blob_get (stores (sweep hs ks c)) h = blob_get (stores c) h \<and>
    (\<forall>node. get_object P c h = Inr (Some (FileNode node)) \<longrightarrow>
      (\<forall>x \<in> set (fn_chunks node). blob_get (stores (sweep hs ks c)) (cr_hash x) = blob_get (stores c) (cr_hash x)))"
    using m by blast
qed (simp_all add: sweep_fields)

definition named_inodes :: "fs_op_kind \<Rightarrow> u128 set" where
  "named_inodes kind =
     (case kind of
        CreateFile parent _ _ \<Rightarrow> {parent} | Mkdir parent _ _ \<Rightarrow> {parent} | Unlink parent _ _ \<Rightarrow> {parent}
      | Write inode _ _ _ _ \<Rightarrow> {inode} | SetAttr inode _ _ _ \<Rightarrow> {inode} | Rename old_p _ new_p _ _ \<Rightarrow> {old_p, new_p})"

lemma gc_keeps_parked:
  assumes gc: "collect_garbage P dry c = (Inr rep, c')" and ops: "pending_ops P c = Inr ops" "op \<in> set ops"
  shows "i \<in> named_inodes (op_kind op) \<Longrightarrow> load_dir P c' i = load_dir P c i \<and> load_inode P c' i = load_inode P c i"
    and "h \<in> set (op_chunk_hashes op) \<Longrightarrow> blob_get (stores c') h = blob_get (stores c) h"
proof -
  have both: "(i \<in> named_inodes (op_kind op) \<longrightarrow> load_dir P c' i = load_dir P c i \<and> load_inode P c' i = load_inode P c i) \<and>
     (h \<in> set (op_chunk_hashes op) \<longrightarrow> blob_get (stores c') h = blob_get (stores c) h)" for i h
    using gc
  proof (cases rule: collect_cases)
    case (2 H orphans)
    obtain R where R: "reachable_inodes P c = Inr R" using 2(4) by (auto simp: orphaned_records_def rbind_Inr_iff)
    have "i |\<in>| R" if "i \<in> named_inodes (op_kind op)"
    proof -
      have "i \<in> set (op_inodes op)" using that by (simp add: named_inodes_def op_inodes_def split: fs_op_kind.splits)
      then show ?thesis using R ops by (auto simp: reachable_inodes_def rbind_Inr_iff fset_of_list.rep_eq)
    qed
    moreover have "h |\<in>| H" if "h \<in> set (op_chunk_hashes op)"
      using 2(3) ops that by (auto simp: reachable_hashes_def rbind_Inr_iff Let_def fset_of_list.rep_eq split: prod.splits sum.splits)
    ultimately show ?thesis
      using orphaned_keys [OF 2(4) R, of i] by (auto simp: load_dir_def load_inode_def 2(5) sweep_kv sweep_blob)
  qed simp
  show "i \<in> named_inodes (op_kind op) \<Longrightarrow> load_dir P c' i = load_dir P c i \<and> load_inode P c' i = load_inode P c i"
    and "h \<in> set (op_chunk_hashes op) \<Longrightarrow> blob_get (stores c') h = blob_get (stores c) h"
    using both by blast+
qed


section \<open>A second pass finds nothing\<close>

lemma in_step_reads_bind:
  assumes "\<And>s. S s \<Longrightarrow> r' (h s) = r s" "\<And>s x. S s \<Longrightarrow> r s = Inr x \<Longrightarrow> in_step S h (f x) (f' x)"
  shows "in_step S h (bindE (reads r) f) (bindE (reads r') f')"
proof (rule in_stepI)
  fix s
  assume s: "S s"
  show "bindE (reads r') f' (h s) = (fst (bindE (reads r) f s), h (snd (bindE (reads r) f s))) \<and> S (snd (bindE (reads r) f s))"
    using assms(1) [OF s] assms(2) [OF s] s by (cases "r s") (auto simp: bindE_def in_step_def)
qed

text \<open>The walk below an inode reads only the records of the closed set, so it does the same on a state that agrees there.\<close>

lemma walk_same:
  assumes k: "kinds P c k"
    and closed: "\<And>d es e. d \<in> S \<Longrightarrow> k d = Dir \<Longrightarrow> materialize_dir P c d = Inr es \<Longrightarrow> e \<in> set es \<Longrightarrow> de_inode_id e \<in> S"
    and same: "\<And>i. i \<in> S \<Longrightarrow> load_dir P c' i = load_dir P c i" "\<And>i. i \<in> S \<Longrightarrow> load_inode P c' i = load_inode P c i"
  shows "i \<in> S \<Longrightarrow> k i = Dir \<Longrightarrow>
    in_step (\<lambda>w. wk_core w = c) (\<lambda>w. w\<lparr>wk_core := c'\<rparr>) (materialize_tree P False fuel i) (materialize_tree P False fuel i)"
proof (induction fuel arbitrary: i)
  case 0
  show ?case by (simp add: in_step_def)
next
  case (Suc fuel)
  let ?S = "\<lambda>w. wk_core w = c" and ?h = "\<lambda>w. w\<lparr>wk_core := c'\<rparr>" and ?rec = "materialize_tree P False fuel"
  have leaf: "in_step ?S ?h (walk_file P j) (walk_file P j)" if "j \<in> S" for j
    unfolding walk_file_def
    by (rule in_step_reads_bind) (use same(2) [OF that] in \<open>auto split: option.split intro!: in_step_ret in_step_upd\<close>)
  have entry: "in_step ?S ?h (walk_entry P ?rec e) (walk_entry P ?rec e)" if "materialize_dir P c i = Inr es" "e \<in> set es" for es e
    using closed [OF Suc.prems that] kindsD [OF k that] leaf Suc.IH
    unfolding walk_entry_def by (auto split: entry_type.split intro!: in_step_bindE in_step_ret)
  have object: "in_step ?S ?h (walk_object P False i es) (walk_object P False i es)" for es
    unfolding walk_object_def
    by (rule in_step_reads_bind) (use same(2) [OF Suc.prems(1)] in \<open>auto simp: dir_object_def in_step_def\<close>)
  have body: "in_step ?S ?h (walk_dir P False ?rec i) (walk_dir P False ?rec i)"
    unfolding walk_dir_def
    by (rule in_step_reads_bind)
      (use materialize_dir_cong [OF same(1) [OF Suc.prems(1)]] entry object in \<open>auto intro!: in_step_bindE in_step_for_each\<close>)
  show ?case
  proof (rule in_stepI)
    fix w :: walk
    assume c: "wk_core w = c"
    let ?w1 = "w\<lparr>wk_visited := finsert i (wk_visited w)\<rparr>"
    have eq: "w\<lparr>wk_core := c'\<rparr>\<lparr>wk_visited := finsert i (wk_visited w)\<rparr> = ?w1\<lparr>wk_core := c'\<rparr>" by simp
    from body c show "materialize_tree P False (Suc fuel) i (?h w) =
        (fst (materialize_tree P False (Suc fuel) i w), ?h (snd (materialize_tree P False (Suc fuel) i w))) \<and>
        wk_core (snd (materialize_tree P False (Suc fuel) i w)) = c"
      by (auto simp: Let_def eq in_step_def)
  qed
qed

lemma mark_entries_queue:
  "mark_entries es s q = Inr (s', q') \<Longrightarrow> s |\<subseteq>| s' \<and> (set q \<subseteq> fset s \<longrightarrow> set q' \<subseteq> fset s')"
proof (induction es arbitrary: s q)
  case (Cons e es)
  show ?case
  proof (cases "de_inode_id e |\<in>| s")
    case False
    let ?s = "finsert (de_inode_id e) s" and ?q = "if de_entry_type e = Dir then de_inode_id e # q else q"
    have "mark_entries es ?s ?q = Inr (s', q')" using Cons.prems False by (auto simp: Let_def split: if_splits)
    then have IH: "?s |\<subseteq>| s' \<and> (set ?q \<subseteq> fset ?s \<longrightarrow> set q' \<subseteq> fset s')" by (rule Cons.IH)
    have "set ?q \<subseteq> fset ?s" if "set q \<subseteq> fset s" using that by auto
    moreover have "s |\<subseteq>| s'" using IH by auto
    ultimately show ?thesis using IH by blast
  next
    case True
    then have "mark_entries es s q = Inr (s', q')" using Cons.prems by simp
    then show ?thesis by (rule Cons.IH)
  qed
qed simp

lemma mark_loop_grows: "mark_loop P c q s = Inr s' \<Longrightarrow> s |\<subseteq>| s'"
proof (induction P c q s rule: mark_loop.induct)
  case (2 P c d q s)
  obtain es s1 q1 where es: "materialize_dir P c d = Inr es" and m: "mark_entries es s q = Inr (s1, q1)" and r: "mark_loop P c q1 s1 = Inr s'"
    using "2.prems" by (auto simp: rbind_Inr_iff)
  have "s |\<subseteq>| s1" using mark_entries_queue [OF m] by blast
  moreover have "s1 |\<subseteq>| s'" using "2.IH" [OF es m] r by simp
  ultimately show ?case by (rule fsubset_trans)
qed simp

lemma mark_loop_same:
  assumes "mark_loop P c q s = Inr s'" "set q \<subseteq> fset s" "\<And>i. i |\<in>| s' \<Longrightarrow> load_dir P c' i = load_dir P c i"
  shows "mark_loop P c' q s = Inr s'"
  using assms
proof (induction P c q s rule: mark_loop.induct)
  case (2 P c d q s)
  obtain es s1 q1 where es: "materialize_dir P c d = Inr es" and m: "mark_entries es s q = Inr (s1, q1)"
    and r: "mark_loop P c q1 s1 = Inr s'" using "2.prems"(1) by (auto simp: rbind_Inr_iff)
  have mono: "mark_loop P c q s = Inr s' \<Longrightarrow> s |\<subseteq>| s'" for q s
    by (rule mark_loop_grows)
  have q1: "s |\<subseteq>| s1 \<and> (set q \<subseteq> fset s \<longrightarrow> set q1 \<subseteq> fset s1)" by (rule mark_entries_queue [OF m])
  have "d |\<in>| s'" using "2.prems"(2) mono [OF r] q1 by auto
  then have "materialize_dir P c' d = Inr es" using es materialize_dir_cong [OF "2.prems"(3)] by metis
  then show ?case using "2.IH" [OF es m] r m q1 "2.prems"(2,3) by auto
qed simp

lemma mark_objects_grows: "mark_objects P c hs s = Inr s' \<Longrightarrow> s |\<subseteq>| s' \<and> set hs \<subseteq> fset s'"
  using mark_objects_covers by blast

lemma mark_objects_same:
  assumes "\<And>h. h \<in> set hs \<Longrightarrow> blob_get (stores c') h = blob_get (stores c) h"
  shows "mark_objects P c' hs s = mark_objects P c hs s"
proof -
  have "get_object P c' h = get_object P c h" if "h \<in> set hs" for h using assms [OF that] by (simp add: get_object_def)
  then show ?thesis by (induction hs arbitrary: s) (auto intro!: rbind_cong)
qed

lemma sweep_scan: "cf \<noteq> CF_STATE \<Longrightarrow> kv_scan (sweep hs ks c) cf pre = kv_scan c cf pre"
proof -
  assume cf: "cf \<noteq> CF_STATE"
  have "kv_scan (fold del_blob hs x) cf pre = kv_scan x cf pre" for x
    by (induction hs arbitrary: x) (simp_all add: del_blob_def store_simps)
  moreover have "kv_scan (fold (kv_del CF_STATE) ks x) cf pre = kv_scan x cf pre" for x
    using cf by (induction ks arbitrary: x) auto
  ultimately show ?thesis by (simp add: sweep_def)
qed

lemma sweep_pending: "pending_ops P (sweep hs ks c) = pending_ops P c"
  by (simp add: pending_ops_def sweep_scan)

lemma sweep_head: "get_head (sweep hs ks c) = get_head c"
  by (simp add: get_head_def read_hash_def sweep_kv)

text \<open>The records of every marked inode survive, so both marks come out the same.\<close>

lemma sweep_records:
  assumes "orphaned_records P c = Inr orphans" "reachable_inodes P c = Inr R" "i |\<in>| R"
  shows "load_dir P (sweep hs (or_keys_found orphans) c) i = load_dir P c i"
    "load_inode P (sweep hs (or_keys_found orphans) c) i = load_inode P c i"
  using orphaned_keys [OF assms] by (simp_all add: load_dir_def load_inode_def sweep_kv)

lemma sweep_same_inodes:
  assumes "orphaned_records P c = Inr orphans" "reachable_inodes P c = Inr R"
  shows "reachable_inodes P (sweep hs (or_keys_found orphans) c) = Inr R"
proof -
  obtain s ops where s: "mark_loop P c [ROOT_INODE] {|ROOT_INODE|} = Inr s" and o: "pending_ops P c = Inr ops"
    and R: "R = s |\<union>| fset_of_list (concat (map op_inodes ops))"
    using assms(2) by (auto simp: reachable_inodes_def rbind_Inr_iff)
  have "mark_loop P (sweep hs (or_keys_found orphans) c) [ROOT_INODE] {|ROOT_INODE|} = Inr s"
    by (rule mark_loop_same [OF s]) (use sweep_records [OF assms] R in auto)
  then show ?thesis using o R by (simp add: reachable_inodes_def sweep_pending)
qed

lemma sweep_same_hashes:
  assumes k: "kinds P c k" and o: "orphaned_records P c = Inr orphans" and R: "reachable_inodes P c = Inr R"
    and H: "reachable_hashes P c = Inr H" and hs: "\<forall>h \<in> set hs. h |\<notin>| H"
  shows "reachable_hashes P (sweep hs (or_keys_found orphans) c) = Inr H"
proof -
  let ?c = "sweep hs (or_keys_found orphans) c"
  obtain h0 w s ops where w: "walk_root P False c = (Inr h0, w)"
    and s: "mark_objects P c (map snd (fm_entries (wk_map w))) (case get_head c of Some h \<Rightarrow> {|h|} | None \<Rightarrow> {||}) = Inr s"
    and ops: "pending_ops P c = Inr ops" and HH: "H = s |\<union>| fset_of_list (concat (map op_chunk_hashes ops))"
    using H by (auto simp: reachable_hashes_def Let_def rbind_Inr_iff split: prod.splits sum.splits)
  obtain t where t: "ROOT_INODE |\<in>| t" "t |\<subseteq>| R" "\<And>i. i |\<in>| t \<Longrightarrow> k i = Dir \<Longrightarrow> closed P c t i"
    using reachable_inodes_closed [OF k R] by blast
  have "in_step (\<lambda>w. wk_core w = c) (\<lambda>w. w\<lparr>wk_core := ?c\<rparr>) (materialize_tree P False TREE_FUEL ROOT_INODE) (materialize_tree P False TREE_FUEL ROOT_INODE)"
  proof (rule walk_same [OF k, where S = "fset t"])
    show "de_inode_id e \<in> fset t" if "d \<in> fset t" "k d = Dir" "materialize_dir P c d = Inr es" "e \<in> set es" for d es e
      using t(3) [OF that(1,2)] that(3,4) by (auto simp: closed_def)
    show "load_dir P ?c i = load_dir P c i" "load_inode P ?c i = load_inode P c i" if "i \<in> fset t" for i
      using sweep_records [OF o R, of i] that t(2) by auto
    show "k ROOT_INODE = Dir" using k by (simp add: kinds_def)
  qed (rule t(1))
  from this [unfolded in_step_def, rule_format, of "\<lparr>wk_map = fmempty, wk_visited = {||}, wk_core = c\<rparr>"] w
  have w': "walk_root P False ?c = (Inr h0, w\<lparr>wk_core := ?c\<rparr>)" by (simp add: walk_root_def)
  have "mark_objects P ?c (map snd (fm_entries (wk_map w))) h = mark_objects P c (map snd (fm_entries (wk_map w))) h" for h
  proof (rule mark_objects_same)
    fix x
    assume "x \<in> set (map snd (fm_entries (wk_map w)))"
    then have "x |\<in>| H" using mark_objects_grows [OF s] HH by auto
    then show "blob_get (stores ?c) x = blob_get (stores c) x" using hs by (auto simp: sweep_blob)
  qed
  then show ?thesis using w' s ops HH by (simp add: reachable_hashes_def sweep_pending sweep_head)
qed

lemma sweep_no_orphans:
  assumes "orphaned_records P c = Inr orphans" "reachable_inodes P c = Inr R" "pre \<in> {DIR_PREFIX, INODE_PREFIX, PARENT_PREFIX, IMAP_PREFIX}"
  shows "orphans_under (sweep hs (or_keys_found orphans) c) R pre = []"
proof -
  let ?c = "sweep hs (or_keys_found orphans) c"
  have "key \<notin> set (orphans_under ?c R pre)" for key
  proof
    assume key: "key \<in> set (orphans_under ?c R pre)"
    then have "kv_get ?c CF_STATE key \<noteq> None" "starts_with key pre"
      by (auto simp: orphans_under_def scan_prefix_keys_eq in_kv_scan)
    then have kept: "key \<notin> set (or_keys_found orphans)" "kv_get c CF_STATE key \<noteq> None" by (auto simp: sweep_kv split: if_splits)
    have "key \<in> set (orphans_under c R pre)"
      using key kept(2) by (auto simp: orphans_under_def scan_prefix_keys_eq in_kv_scan image_iff Bex_def sweep_kv split: if_splits)
    then have "key \<in> set (or_keys_found orphans)" using assms by (auto simp: orphaned_records_def)
    then show False using kept(1) by blast
  qed
  then show ?thesis by (metis last_in_set)
qed

text \<open>
  C36. One sweep is enough: surveying a repository that was just swept finds no unreachable blob and no orphaned record, so
  a second sweep would delete nothing.
\<close>

theorem gc_second_pass_clean:
  assumes k: "kinds P c k" and gc: "collect_garbage P False c = (Inr rep, c')" and "refused rep = None"
  shows "\<exists>rep'. collect_garbage P True c' = (Inr rep', c') \<and> \<not> has_garbage rep'"
  using gc
proof (cases rule: collect_cases)
  case 1
  then show ?thesis using assms(3) by simp
next
  case (2 H orphans)
  let ?hs = "map fst (filter (\<lambda>(h, _). h |\<notin>| H) (blob_list (stores c)))"
  obtain R where R: "reachable_inodes P c = Inr R" using 2(4) by (auto simp: orphaned_records_def rbind_Inr_iff)
  have hs: "\<forall>h \<in> set ?hs. h |\<notin>| H" by auto
  have H': "reachable_hashes P c' = Inr H" and R': "reachable_inodes P c' = Inr R"
    using sweep_same_hashes [OF k 2(4) R 2(3) hs] sweep_same_inodes [OF 2(4) R] 2(5) by simp_all
  obtain o' where o': "orphaned_records P c' = Inr o'" "or_keys_found o' = []"
    using sweep_no_orphans [OF 2(4) R, of _ ?hs] R' by (simp add: orphaned_records_def 2(5))
  have "filter (\<lambda>(h, _). h |\<notin>| H) (blob_list (stores c')) = []"
  proof -
    have "h |\<in>| H" if l: "(h, n) \<in> set (blob_list (stores c'))" for h n
    proof (rule ccontr)
      assume h: "h |\<notin>| H"
      obtain d where "blob_get (stores c') h = Some d" using l mem_blob.list_set [of h n "stores c'"] by blast
      then have "h \<notin> set ?hs" "blob_get (stores c) h = Some d" by (simp_all add: 2(5) sweep_blob split: if_splits)
      then have "(h, word_of_nat (length d)) \<in> set (blob_list (stores c))"
        using mem_blob.list_set [of h "word_of_nat (length d)" "stores c"] by blast
      then have "h \<in> set ?hs" using h by (auto intro!: image_eqI [where x = "(h, word_of_nat (length d))"])
      then show False using \<open>h \<notin> set ?hs\<close> by blast
    qed
    then show ?thesis by (auto simp: filter_empty_conv)
  qed
  moreover have "\<exists>b. sweep_blocker P c' = Inr b"
  proof -
    have "ROOT_INODE |\<in>| R" using reachable_inodes_closed [OF k R] by blast
    then have "sweep_blocker P c' = sweep_blocker P c"
      using sweep_records(2) [OF 2(4) R] by (simp add: sweep_blocker_def 2(5) sweep_head)
    then show ?thesis using gc by (auto simp: collect_garbage_def bindE_eq_Inr)
  qed
  ultimately show ?thesis
    using H' o' by (auto simp: collect_garbage_def bindE_def survey_def has_garbage_def gc_report_default_def Let_def)
qed

section \<open>A concrete pass\<close>

text \<open>The repository with one empty file, a head and a blob nothing refers to.\<close>

definition sample_gc_core :: core where
  "sample_gc_core = set_head 5 (put_blob 8 [8] sample_doc_core)"

lemma sample_gc_dirs:
  "load_dir sample sample_gc_core d = (if d = ROOT_INODE
     then Inr (Some (or_add ''f'' (Dot 1 1) \<lparr>ev_inode_id = 9, ev_entry_type = File, ev_created = 0\<rparr> or_default)) else Inr None)"
  by (simp add: sample_gc_core_def set_head_def sample_doc_core_def sample_ok) (simp add: load_dir_def)

lemma fm_keys_single: "fm_keys (fmupd k v fmempty) = [k]"
  by (simp add: fm_keys_def sorted_list_of_fset.rep_eq)

lemma sample_gc_listing:
  "materialize_dir sample sample_gc_core d =
     Inr (if d = ROOT_INODE then [\<lparr>de_name = ''f'', de_inode_id = 9, de_entry_type = File\<rparr>] else [])"
proof -
  have "dir_entries (or_add ''f'' (Dot 1 1) \<lparr>ev_inode_id = 9, ev_entry_type = File, ev_created = 0\<rparr> or_default)
      = [\<lparr>de_name = ''f'', de_inode_id = 9, de_entry_type = File\<rparr>]"
    by (simp add: dir_entries_def live_keys_def get_all_def or_add_def or_default_def adds_at_def entry_of_def sort_dir_entries_def
        fm_keys_single enumerate_eq_zip)
  then show ?thesis by (simp add: materialize_dir_def sample_gc_dirs)
qed

lemma sample_gc_inodes:
  "load_inode sample sample_gc_core 9 = Inr (Some (inode_record_new File 0 0 1 1))"
  "load_inode sample sample_gc_core ROOT_INODE = Inr (Some (inode_record_new Dir 0x41ED 0 0 0))"
  by (simp_all add: sample_gc_core_def set_head_def)

lemma sample_gc_kinds: "kinds sample sample_gc_core (\<lambda>i. if i = 9 then File else Dir)"
  by (auto simp: kinds_def sample_gc_listing ROOT_INODE_def)

lemma sample_gc_runs: "\<exists>rep c'. collect_garbage sample False sample_gc_core = (Inr rep, c') \<and> refused rep = None"
proof -
  let ?c = sample_gc_core
  have f: "TREE_FUEL = Suc MAX_TREE_NODES" by (simp add: TREE_FUEL_def)
  have "\<exists>w. walk_root sample False ?c = (Inr 0, w) \<and> wk_map w = fmupd ROOT_INODE 0 fmempty"
    unfolding walk_root_def f materialize_tree.simps
    by (simp add: walk_dir_def sample_gc_listing walk_entry_def walk_file_def walk_object_def dir_object_def sample_gc_inodes bindE_def
        MAX_TREE_NODES_def fcard.rep_eq inode_record_new_def lww_new_def Let_def sample_object_hash)
  then obtain w where w: "walk_root sample False ?c = (Inr 0, w)" "wk_map w = fmupd ROOT_INODE 0 fmempty" by blast
  have p: "pending_ops sample ?c = Inr []" by (simp add: pending_ops_def sample_gc_core_def set_head_def)
  have "get_object sample ?c 0 = Inr None" by (simp add: get_object_def sample_gc_core_def set_head_def)
  then have "\<exists>H. reachable_hashes sample ?c = Inr H" using w p by (simp add: reachable_hashes_def)
  moreover have "mark_loop sample ?c [ROOT_INODE] {|ROOT_INODE|} = Inr {|9, ROOT_INODE|}"
    by (simp add: sample_gc_listing ROOT_INODE_def MAX_RECORD_SCAN_def fcard.rep_eq)
  then have "\<exists>os. orphaned_records sample ?c = Inr os" using p by (simp add: orphaned_records_def reachable_inodes_def)
  moreover have "sweep_blocker sample ?c = Inr None" by (simp add: sweep_blocker_def sample_gc_inodes) (simp add: sample_gc_core_def)
  ultimately show ?thesis
    by (auto simp: collect_garbage_def bindE_def survey_def gc_report_default_def Let_def)
qed


theorem gc_second_pass_clean_witness:
  "\<exists>rep c' rep'. collect_garbage sample False sample_gc_core = (Inr rep, c') \<and>
     collect_garbage sample True c' = (Inr rep', c') \<and> \<not> has_garbage rep'"
proof -
  obtain rep c' where r: "collect_garbage sample False sample_gc_core = (Inr rep, c')" "refused rep = None" using sample_gc_runs by blast
  with gc_second_pass_clean [OF sample_gc_kinds r] show ?thesis by blast
qed

end
