(* ===== verification/Wire.thy ===== *)
theory Wire
  imports Peers Content
begin

text \<open>
  The messages of \<open>src/crates/proto/src/msg.rs\<close>, the framing of \<open>src/crates/net/src/codec.rs\<close> and the signed
  handshake of \<open>src/crates/net/src/replication.rs\<close>. The byte stream and the postcard encoding of the messages
  are parameters.
\<close>

section \<open>Messages\<close>

record build_info =
  bi_version :: string
  bi_git_hash :: "string option"

record signed_head =
  sh_head_hash :: hash
  sh_device_id :: device_id
  sh_time_unix_ms :: u64
  sh_sig :: bytes

record op_range =
  rg_device_id :: device_id
  rg_start :: u64
  rg_end :: u64

text \<open>The two single-precision readings are rationals here; no code looks at them.\<close>

record telemetry_msg =
  tm_battery_pct :: "byte option"
  tm_charging :: bool
  tm_temp_c :: "int option"
  tm_cpu_load :: rat
  tm_link_cost :: rat
  tm_storage_free_bytes :: u64
  tm_time_unix_ms :: u64

datatype msg =
    Hello device_id key32 "string list" build_info u64 key32 bytes
  | HelloAck bool "string option" "string list" device_id key32 key32 bytes
  | Have clock_summary "signed_head option"
  | WantOps "op_range list" u32
  | OpsBatch "fs_op list" bool
  | WantBlobs "hash list" u64
  | BlobsBatch "(hash \<times> bytes) list" bool
  | SnapshotAnnounce signed_head
  | TelemetryMsg telemetry_msg
  | Ping
  | Pong
  | Bye
  | ErrorMsg u16 string "u64 option"
  | Notify clock_summary
  | Noted bool

record message_envelope =
  protocol_version :: u16
  msg_id :: u64
  reply_to :: "u64 option"
  payload :: msg

record hello_to_sign =
  ht_device_id :: device_id
  ht_pubkey :: key32
  ht_features :: "string list"
  ht_build :: build_info
  ht_time_unix_ms :: u64
  ht_nonce :: key32

record ack_to_sign =
  at_accepted :: bool
  at_reason :: "string option"
  at_features :: "string list"
  at_peer_device :: device_id
  at_peer_pubkey :: key32
  at_nonce :: key32

text \<open>The postcard encodings a session uses.\<close>

record wire =
  enc_env :: "message_envelope \<Rightarrow> bytes"
  dec_env :: "bytes \<Rightarrow> message_envelope option"
  enc_hello :: "hello_to_sign \<Rightarrow> bytes"
  enc_ack :: "ack_to_sign \<Rightarrow> bytes"

definition wire_ok :: "wire \<Rightarrow> bool" where
  "wire_ok W \<longleftrightarrow> (\<forall>e. dec_env W (enc_env W e) = Some e) \<and> inj (enc_hello W) \<and> inj (enc_ack W)"

section \<open>Framing\<close>

text \<open>
  A stream is what \<open>AsyncRead + AsyncWrite\<close> gives: writing a whole buffer, which may fail, and reading an exact
  number of bytes, \<open>None\<close> when the stream ends first. The state of the other end is of any type. Code that runs
  over a stream changes the core and the stream.
\<close>

record 'p stream =
  write_all :: "bytes \<Rightarrow> 'p \<Rightarrow> bool \<times> 'p"
  read_exact :: "nat \<Rightarrow> 'p \<Rightarrow> bytes option \<times> 'p"

type_synonym ('p, 'a) talk = "(core \<times> 'p, 'a) comp"

definition on_core :: "(core, 'a) comp \<Rightarrow> ('p, 'a) talk" where
  "on_core m s = (case m (fst s) of (r, c') \<Rightarrow> (r, c', snd s))"

definition read_bytes :: "'p stream \<Rightarrow> nat \<Rightarrow> string \<Rightarrow> ('p, bytes) talk" where
  "read_bytes S n what s =
     (case read_exact S n (snd s) of
        (None, p') \<Rightarrow> (Inl (Bail what), fst s, p')
      | (Some bs, p') \<Rightarrow> (Inr bs, fst s, p'))"

definition to_le_bytes :: "u32 \<Rightarrow> bytes" where
  "to_le_bytes w = rev (to_be_bytes 4 w)"

definition from_le_bytes :: "bytes \<Rightarrow> u32" where
  "from_le_bytes bs = from_be_bytes (rev bs)"

definition frame :: "wire \<Rightarrow> message_envelope \<Rightarrow> bytes" where
  "frame W e = to_le_bytes (word_of_nat (length (enc_env W e))) @ enc_env W e"

definition send_msg :: "wire \<Rightarrow> 'p stream \<Rightarrow> message_envelope \<Rightarrow> ('p, unit) talk" where
  "send_msg W S e s =
     (case write_all S (frame W e) (snd s) of
        (True, p') \<Rightarrow> (Inr (), fst s, p')
      | (False, p') \<Rightarrow> (Inl (Bail ''write frame''), fst s, p'))"

definition recv_msg :: "wire \<Rightarrow> 'p stream \<Rightarrow> nat \<Rightarrow> ('p, message_envelope) talk" where
  "recv_msg W S max_len =
     bindE (read_bytes S 4 ''read len'') (\<lambda>len_buf.
     let len = unat (from_le_bytes len_buf) in
     if len > max_len then raise (Bail ''frame too large'')
     else bindE (read_bytes S len ''read payload'') (\<lambda>body.
       case dec_env W body of
         None \<Rightarrow> raise (Bail ''postcard decode envelope'')
       | Some e \<Rightarrow> ret e))"

section \<open>The handshake\<close>

definition PROTOCOL_VERSION :: u16 where "PROTOCOL_VERSION = 4"

definition MAX_FRAME_LEN :: nat where "MAX_FRAME_LEN = 8 * 1024 * 1024"

record peer_hello =
  ph_device_id :: device_id
  ph_pubkey :: key32
  ph_features :: "string list"

definition make_hello ::
  "prims \<Rightarrow> wire \<Rightarrow> identity \<Rightarrow> device_id \<Rightarrow> string list \<Rightarrow> build_info \<Rightarrow> u64 \<Rightarrow> (core, msg) comp" where
  "make_hello P W ident device feats build now =
     bindE (draw32 P) (\<lambda>nonce.
     let to_sign = \<lparr>ht_device_id = device, ht_pubkey = pubkey_bytes P ident, ht_features = feats,
           ht_build = build, ht_time_unix_ms = now, ht_nonce = nonce\<rparr>;
         sig = sign P (id_signing ident) (enc_hello W to_sign)
     in ret (Hello device (pubkey_bytes P ident) feats build now nonce sig))"

definition verify_hello :: "prims \<Rightarrow> wire \<Rightarrow> msg \<Rightarrow> peer_hello result" where
  "verify_hello P W m =
     (case m of
        Hello device pk feats build time nonce sig \<Rightarrow>
          rbind (verify P pk (enc_hello W \<lparr>ht_device_id = device, ht_pubkey = pk, ht_features = feats,
                   ht_build = build, ht_time_unix_ms = time, ht_nonce = nonce\<rparr>) sig) (\<lambda>_.
          Inr \<lparr>ph_device_id = device, ph_pubkey = pk, ph_features = feats\<rparr>)
      | _ \<Rightarrow> Inl (Bail ''not a Hello message''))"

definition make_hello_ack ::
  "prims \<Rightarrow> wire \<Rightarrow> identity \<Rightarrow> device_id \<Rightarrow> bool \<Rightarrow> string option \<Rightarrow> string list \<Rightarrow> key32 \<Rightarrow> msg" where
  "make_hello_ack P W ident device accepted why feats nonce =
     (let to_sign = \<lparr>at_accepted = accepted, at_reason = why, at_features = feats, at_peer_device = device,
            at_peer_pubkey = pubkey_bytes P ident, at_nonce = nonce\<rparr>
      in HelloAck accepted why feats device (pubkey_bytes P ident) nonce (sign P (id_signing ident) (enc_ack W to_sign)))"

definition verify_hello_ack :: "prims \<Rightarrow> wire \<Rightarrow> msg \<Rightarrow> key32 \<Rightarrow> peer_hello result" where
  "verify_hello_ack P W m expected =
     (case m of
        HelloAck accepted why feats device pk nonce sig \<Rightarrow>
          if nonce \<noteq> expected then Inl (Bail ''HelloAck answered a different handshake'')
          else rbind (verify P pk (enc_ack W \<lparr>at_accepted = accepted, at_reason = why, at_features = feats,
                   at_peer_device = device, at_peer_pubkey = pk, at_nonce = nonce\<rparr>) sig) (\<lambda>_.
          if \<not> accepted then Inl (Bail ''peer refused the handshake'')
          else Inr \<lparr>ph_device_id = device, ph_pubkey = pk, ph_features = feats\<rparr>)
      | _ \<Rightarrow> Inl (Bail ''not a HelloAck message''))"

definition hello_nonce :: "msg \<Rightarrow> key32 result" where
  "hello_nonce m =
     (case m of Hello _ _ _ _ _ nonce _ \<Rightarrow> Inr nonce | _ \<Rightarrow> Inl (Bail ''not a Hello message''))"

definition env :: "u64 \<Rightarrow> u64 option \<Rightarrow> msg \<Rightarrow> message_envelope" where
  "env i re m = \<lparr>protocol_version = PROTOCOL_VERSION, msg_id = i, reply_to = re, payload = m\<rparr>"

section \<open>Frames survive the stream\<close>

lemma from_to_le_bytes [simp]: "from_le_bytes (to_le_bytes w) = w"
  by (simp add: from_le_bytes_def to_le_bytes_def from_to_be_bytes)

lemma length_to_le_bytes [simp]: "length (to_le_bytes w) = 4"
  by (simp add: to_le_bytes_def)

lemma on_core_eq: "on_core m s = (r, s') \<longleftrightarrow> m (fst s) = (r, fst s') \<and> snd s' = snd s"
  by (cases s') (auto simp: on_core_def split: prod.split)

end
