(* ===== verification/Session.thy ===== *)
theory Session
  imports Wire Drain
begin

text \<open>
  The replication session of \<open>src/crates/net/src/session.rs\<close>: the initiator's pull, notification and
  on-demand fetch, and the responder. The other end of the stream is arbitrary.
\<close>

section \<open>Limits and outcomes\<close>

definition OPS_BATCH :: nat where "OPS_BATCH = 256"

definition BLOB_BATCH_BYTES :: u64 where "BLOB_BATCH_BYTES = 4 * 1024 * 1024"

definition MAX_OPS_PER_SESSION :: nat where "MAX_OPS_PER_SESSION = 100000"

record sync_limits =
  sl_content :: bool
  sl_max_content_bytes :: u64

definition limits_unlimited :: sync_limits where
  "limits_unlimited = \<lparr>sl_content = True, sl_max_content_bytes = - 1\<rparr>"

definition limits_metadata_only :: sync_limits where
  "limits_metadata_only = \<lparr>sl_content = False, sl_max_content_bytes = 0\<rparr>"

record sync_decision =
  sd_sync :: bool
  sd_limits :: sync_limits
  sd_interval_scale :: rat
  sd_reason :: string

definition decision_default :: sync_decision where
  "decision_default = \<lparr>sd_sync = True, sd_limits = limits_unlimited, sd_interval_scale = 1, sd_reason = ''unconstrained''\<rparr>"

text \<open>The core is the state a session runs on; \<open>cx_wake\<close> says whether there is a loop to wake.\<close>

record session_ctx =
  cx_identity :: identity
  cx_device_id :: device_id
  cx_trust :: trust_policy
  cx_wake :: bool

definition build_info :: build_info where
  "build_info = \<lparr>bi_version = ''0.1.0'', bi_git_hash = None\<rparr>"

record sync_outcome =
  so_peer :: "device_id option"
  ops_received :: nat
  ops_applied :: nat
  blobs_received :: nat
  content_bytes :: u64
  still_pending :: nat
  content_deferred :: bool

definition outcome_default :: sync_outcome where
  "outcome_default = \<lparr>so_peer = None, ops_received = 0, ops_applied = 0, blobs_received = 0, content_bytes = 0,
     still_pending = 0, content_deferred = False\<rparr>"

section \<open>The initiator\<close>

text \<open>One request and the payload of its answer.\<close>

definition ask :: "wire \<Rightarrow> 'p stream \<Rightarrow> message_envelope \<Rightarrow> ('p, msg) talk" where
  "ask W S e = bindE (send_msg W S e) (\<lambda>_. bindE (recv_msg W S MAX_FRAME_LEN) (\<lambda>reply. ret (payload reply)))"

text \<open>Every session opens the same way: identify ourselves, then establish who answered.\<close>

definition ack_of :: "msg \<Rightarrow> msg result" where
  "ack_of m = (case m of ErrorMsg _ _ _ \<Rightarrow> Inl (Bail ''peer error'') | _ \<Rightarrow> Inr m)"

definition greet :: "prims \<Rightarrow> wire \<Rightarrow> 'p stream \<Rightarrow> session_ctx \<Rightarrow> string list \<Rightarrow> u64 \<Rightarrow> ('p, peer_hello) talk" where
  "greet P W S ctx feats now =
     bindE (on_core (make_hello P W (cx_identity ctx) (cx_device_id ctx) feats build_info now)) (\<lambda>hello.
     bindE (lift_result (hello_nonce hello)) (\<lambda>nonce.
     bindE (ask W S (env 1 None hello)) (\<lambda>reply.
     bindE (lift_result (ack_of reply)) (\<lambda>ack.
     bindE (lift_result (verify_hello_ack P W ack nonce)) (\<lambda>info.
     bindE (on_core (authorize (cx_trust ctx) (ph_device_id info) (ph_pubkey info))) (\<lambda>_.
     ret info))))))"

text \<open>A send whose failure is ignored, as \<open>.ok()\<close> does.\<close>

definition send_ok :: "wire \<Rightarrow> 'p stream \<Rightarrow> message_envelope \<Rightarrow> ('p, unit) talk" where
  "send_ok W S e s = (Inr (), snd (send_msg W S e s))"

definition noted_of :: "msg \<Rightarrow> bool result" where
  "noted_of m =
     (case m of
        Noted behind \<Rightarrow> Inr behind
      | ErrorMsg _ _ _ \<Rightarrow> Inl (Bail ''peer error'')
      | _ \<Rightarrow> Inl (Bail ''unexpected reply to a notification''))"

definition notify_peer ::
  "prims \<Rightarrow> wire \<Rightarrow> 'p stream \<Rightarrow> session_ctx \<Rightarrow> u64 \<Rightarrow> clock_summary \<Rightarrow> ('p, bool) talk" where
  "notify_peer P W S ctx now summary =
     bindE (greet P W S ctx [''ops'', ''blobs''] now) (\<lambda>_.
     bindE (ask W S (env 2 None (Notify summary))) (\<lambda>reply.
     bindE (lift_result (noted_of reply)) (\<lambda>behind.
     bindE (send_ok W S (env 3 None Bye)) (\<lambda>_.
     ret behind))))"

text \<open>How a round of a loop ends.\<close>

datatype 'a flow = Break 'a | Continue 'a

definition ops_of :: "msg \<Rightarrow> (fs_op list \<times> bool) result" where
  "ops_of m =
     (case m of
        OpsBatch ops again \<Rightarrow> Inr (ops, again)
      | ErrorMsg _ _ _ \<Rightarrow> Inl (Bail ''peer error'')
      | _ \<Rightarrow> Inl (Bail ''expected OpsBatch''))"

fun take_ops :: "prims \<Rightarrow> fs_op list \<Rightarrow> sync_outcome \<Rightarrow> core \<Rightarrow> sync_outcome \<times> core" where
  "take_ops P [] out c = (out, c)"
| "take_ops P (op # ops) out c =
     (case apply_op P op c of
        (r, c') \<Rightarrow> take_ops P ops (if r = Inr Applied then out\<lparr>ops_applied := ops_applied out + 1\<rparr> else out) c')"

text \<open>A batch against the summary it answers.\<close>

definition ops_batch ::
  "prims \<Rightarrow> clock_summary \<Rightarrow> fs_op list \<Rightarrow> bool \<Rightarrow> sync_outcome \<Rightarrow> (core, sync_outcome flow) comp" where
  "ops_batch P summary ops again out c =
     (if ops = [] \<and> \<not> again then (Inr (Break out), c)
      else
        let out = out\<lparr>ops_received := ops_received out + length ops\<rparr> in
        if ops_received out > MAX_OPS_PER_SESSION
        then (Inl (Bail ''peer sent more than MAX_OPS_PER_SESSION operations in one session''), c)
        else
          (case take_ops P ops out c of
             (out, c') \<Rightarrow>
               if \<not> again then (Inr (Break out), c')
               else if clock_summary c' = summary then (Inr (Break out), c')
               else (Inr (Continue out), c')))"

definition ops_round ::
  "prims \<Rightarrow> wire \<Rightarrow> 'p stream \<Rightarrow> u64 \<Rightarrow> sync_outcome \<Rightarrow> ('p, sync_outcome flow) talk" where
  "ops_round P W S i out =
     bindE (on_core (reads (\<lambda>c. Inr (clock_summary c)))) (\<lambda>summary.
     bindE (ask W S (env i None (Have summary None))) (\<lambda>reply.
     bindE (lift_result (ops_of reply)) (\<lambda>(ops, again).
     on_core (ops_batch P summary ops again out))))"

lemma take_ops_counts:
  "take_ops P ops out c = (out', c') \<Longrightarrow>
     ops_received out' = ops_received out \<and> so_peer out' = so_peer out \<and> blobs_received out' = blobs_received out"
  by (induction ops arbitrary: out c) (fastforce split: prod.splits if_splits)+

lemma ask_core: "ask W S e s = (r, s') \<Longrightarrow> fst s' = fst s"
  unfolding ask_def send_msg_def recv_msg_def read_bytes_def
  by (auto simp: bindE_def Let_def split: prod.splits bool.splits option.splits sum.splits if_splits)

lemma ops_round_cases:
  "ops_round P W S i out s = (Inr x, s') \<longleftrightarrow>
     (\<exists>reply s1 ops again. ask W S (env i None (Have (clock_summary (fst s)) None)) s = (Inr reply, s1) \<and>
        ops_of reply = Inr (ops, again) \<and>
        ops_batch P (clock_summary (fst s)) ops again out (fst s1) = (Inr x, fst s') \<and> snd s' = snd s1)"
  unfolding ops_round_def
  by (auto simp: bindE_eq_Inr on_core_eq lift_result_def)

lemma ops_round_Continue:
  assumes "ops_round P W S i out s = (Inr (Continue out'), s')"
  shows "ops_received out < ops_received out' \<and> ops_received out' \<le> MAX_OPS_PER_SESSION"
proof -
  obtain reply s1 ops again where "ask W S (env i None (Have (clock_summary (fst s)) None)) s = (Inr reply, s1)"
    and b: "ops_batch P (clock_summary (fst s)) ops again out (fst s1) = (Inr (Continue out'), fst s')"
    using assms by (auto simp: ops_round_cases)
  then have s1: "fst s1 = fst s" by (blast dest: ask_core)
  obtain out2 c2 where t: "take_ops P ops (out\<lparr>ops_received := ops_received out + length ops\<rparr>) (fst s) = (out2, c2)"
    by (cases "take_ops P ops (out\<lparr>ops_received := ops_received out + length ops\<rparr>) (fst s)")
  have "out' = out2" "ops_received out + length ops \<le> MAX_OPS_PER_SESSION" "clock_summary c2 \<noteq> clock_summary (fst s)"
    using b t s1 by (auto simp: ops_batch_def Let_def split: if_splits)
  moreover have "ops \<noteq> []" using calculation(3) t by auto
  ultimately show ?thesis using take_ops_counts [OF t] by simp
qed

text \<open>The closure counts messages; the loop hands on the last number it used.\<close>

function ops_loop ::
  "prims \<Rightarrow> wire \<Rightarrow> 'p stream \<Rightarrow> u64 \<Rightarrow> sync_outcome \<Rightarrow> ('p, u64 \<times> sync_outcome) talk" where
  "ops_loop P W S i out s =
     (case ops_round P W S (i + 1) out s of
        (Inl e, s') \<Rightarrow> (Inl e, s')
      | (Inr (Break out'), s') \<Rightarrow> (Inr (i + 1, out'), s')
      | (Inr (Continue out'), s') \<Rightarrow> ops_loop P W S (i + 1) out' s')"
  by pat_completeness auto
termination
  by (relation "measure (\<lambda>(P, W, S, i, out, s). MAX_OPS_PER_SESSION + 1 - ops_received out)")
    (auto dest!: ops_round_Continue [OF sym])

declare ops_loop.simps [simp del]

section \<open>Content\<close>

definition saturating_sub :: "'a::len word \<Rightarrow> 'a word \<Rightarrow> 'a word" where
  "saturating_sub a b = (if b \<le> a then a - b else 0)"

definition blobs_of :: "msg \<Rightarrow> ((hash \<times> bytes) list \<times> bool) result" where
  "blobs_of m =
     (case m of
        BlobsBatch blobs again \<Rightarrow> Inr (blobs, again)
      | ErrorMsg _ _ _ \<Rightarrow> Inl (Bail ''peer error'')
      | _ \<Rightarrow> Inl (Bail ''expected BlobsBatch''))"

fun take_blobs :: "prims \<Rightarrow> hash list \<Rightarrow> (hash \<times> bytes) list \<Rightarrow> sync_outcome \<Rightarrow> core \<Rightarrow> sync_outcome \<times> core" where
  "take_blobs P wanted [] out c = (out, c)"
| "take_blobs P wanted ((h, bs) # blobs) out c =
     (if h \<notin> set wanted then take_blobs P wanted blobs out c
      else if blake3 P bs \<noteq> h then take_blobs P wanted blobs out c
      else take_blobs P wanted blobs
             (out\<lparr>content_bytes := content_bytes out + word_of_nat (length bs), blobs_received := blobs_received out + 1\<rparr>)
             (put_blob h bs c))"

definition content_batch ::
  "prims \<Rightarrow> hash list \<Rightarrow> (hash \<times> bytes) list \<Rightarrow> bool \<Rightarrow> sync_outcome \<Rightarrow> (core, sync_outcome flow) comp" where
  "content_batch P wanted blobs again out c =
     (if blobs = [] then (Inr (Break out), c)
      else
        (case take_blobs P wanted blobs out c of
           (out1, c1) \<Rightarrow>
             bindE (retry_pending P) (\<lambda>applied.
             let out2 = out1\<lparr>ops_applied := ops_applied out1 + applied\<rparr> in
             if \<not> again then ret (Break out2)
             else if blobs_received out2 = blobs_received out then ret (Break out2)
             else ret (Continue out2)) c1))"

definition content_round ::
  "prims \<Rightarrow> wire \<Rightarrow> 'p stream \<Rightarrow> sync_limits \<Rightarrow> u64 \<Rightarrow> sync_outcome \<Rightarrow> ('p, u64 \<times> sync_outcome flow) talk" where
  "content_round P W S limits i out =
     bindE (on_core (reads (missing_chunk_hashes P))) (\<lambda>wanted.
     if wanted = [] then ret (i, Break out)
     else if \<not> sl_content limits then ret (i, Break (out\<lparr>content_deferred := True\<rparr>))
     else if content_bytes out \<ge> sl_max_content_bytes limits then ret (i, Break (out\<lparr>content_deferred := True\<rparr>))
     else
       bindE (ask W S (env (i + 1) None (WantBlobs wanted
                (min BLOB_BATCH_BYTES (saturating_sub (sl_max_content_bytes limits) (content_bytes out)))))) (\<lambda>reply.
       bindE (lift_result (blobs_of reply)) (\<lambda>(blobs, again).
       bindE (on_core (content_batch P wanted blobs again out)) (\<lambda>f.
       ret (i + 1, f)))))"

text \<open>What a peer puts into the store is filed under its hash, and nothing filed is dropped.\<close>

definition filed :: "prims \<Rightarrow> core \<Rightarrow> core \<Rightarrow> bool" where
  "filed P c c' \<longleftrightarrow>
     (\<forall>h. blob_has (stores c) h \<longrightarrow> blob_has (stores c') h) \<and>
     (\<forall>h bs. blob_get (stores c') h = Some bs \<longrightarrow> blob_get (stores c) h = Some bs \<or> blake3 P bs = h)"

lemma filed_kv: "blob_get (stores c') = blob_get (stores c) \<Longrightarrow> filed P c c'"
  by (simp add: filed_def mem_blob.has_get)

interpretation fd: apply_rel P "filed P" for P
proof unfold_locales
  show "filed P a c" if "filed P a b" "filed P b c" for a b c using that unfolding filed_def by blast
  show "filed P c (put_blob (blake3 P bs) bs c)" for c bs
    by (auto simp: filed_def blob_has_put_blob)
qed (auto intro!: filed_kv simp: fun_eq_iff mark_op_applied_def clear_pending_def observe_time_def store_pending_def
    set_head_def set_state_root_def append_op_def)

lemma take_blobs_filed: "take_blobs P wanted blobs out c = (out', c') \<Longrightarrow> filed P c c'"
proof (induction P wanted blobs out c rule: take_blobs.induct)
  case (2 P wanted h bs blobs out c)
  then show ?case using fd.trans [OF fd.blob [of P c bs]] by (auto split: if_splits)
qed (simp add: fd.refl)

lemma take_blobs_queue: "take_blobs P wanted blobs out c = (out', c') \<Longrightarrow> queue_shrinks c c'"
proof (induction P wanted blobs out c rule: take_blobs.induct)
  case (2 P wanted h bs blobs out c)
  have "queue_shrinks c (put_blob h bs c)" by (simp add: queue_shrinks_def parked_def)
  then show ?case using 2 transpD [OF queue_shrinks_po(2)] by (auto split: if_splits)
qed (simp add: reflpD [OF queue_shrinks_po(1)])

lemma keeps_queue_drain: "keeps queue_shrinks (drain_pending P)"
proof -
  have "keeps queue_shrinks (drain_loop P fuel)" for fuel
  proof (induction fuel)
    case (Suc fuel)
    then show ?case
      unfolding drain_loop.simps by (intro keeps_queue_intros) (auto intro!: keeps_queue_intros keeps_queue_rows)
  qed (simp add: keeps_def reflpD [OF queue_shrinks_po(1)])
  then show ?thesis unfolding keeps_def drain_pending_def by blast
qed

lemma keeps_queue_snapshot: "keeps queue_shrinks (build_snapshot P)"
proof -
  have m: "queue_shrinks c (kv_put CF_META k v c)" for c k v by (simp add: queue_shrinks_def parked_def)
  have "queue_shrinks c (set_head h c')" if "put_object P ob c = (h', c')" for c c' h h' ob
    using grows_kv(1) [OF grows_put_object [OF that]] by (simp add: queue_shrinks_def parked_def set_head_def)
  then have "keeps queue_shrinks (\<lambda>c. case put_object P (ob c) c of (head, c') \<Rightarrow> (Inr head, set_head head c'))" for ob
    by (auto simp: keeps_def split: prod.split)
  then show ?thesis unfolding build_snapshot_def set_state_root_def Let_def by (intro keeps_queue_intros m)
qed

lemma keeps_queue_retry: "keeps queue_shrinks (retry_pending P)"
  unfolding retry_pending_def by (auto intro!: keeps_queue_intros keeps_queue_drain keeps_queue_snapshot)

lemma take_blobs_stores:
  "take_blobs P wanted blobs out c = (out', c') \<Longrightarrow> blobs_received out' \<noteq> blobs_received out \<Longrightarrow>
     \<exists>h \<in> set wanted. blob_has (stores c') h"
proof (induction P wanted blobs out c rule: take_blobs.induct)
  case (2 P wanted h bs blobs out c)
  show ?case
  proof (cases "h \<in> set wanted \<and> blake3 P bs = h")
    case True
    then have r: "take_blobs P wanted blobs (out\<lparr>content_bytes := content_bytes out + word_of_nat (length bs), blobs_received := blobs_received out + 1\<rparr>)
        (put_blob h bs c) = (out', c')" using 2 by simp
    have "blob_has (stores c') h"
      using take_blobs_filed [OF r] by (simp add: filed_def blob_has_put_blob)
    then show ?thesis using True by blast
  next
    case False
    then show ?thesis using 2 by (auto split: if_splits)
  qed
qed simp

lemma rmap_Inr_in: "rmap f xs = Inr ys \<Longrightarrow> x \<in> set xs \<Longrightarrow> f x = Inr y \<Longrightarrow> y \<in> set ys"
  by (induction xs arbitrary: ys) (auto simp: rbind_Inr_iff)

text \<open>The list asked for shrinks when a wanted blob is stored, so the loop over the content ends for any peer.\<close>

lemma missing_set:
  assumes "missing_chunk_hashes P c = Inr wanted"
  shows "\<exists>ops. pending_ops P c = Inr ops \<and>
    (\<forall>h. h \<in> set wanted \<longleftrightarrow> \<not> blob_has (stores c) h \<and> (\<exists>op \<in> set ops. h \<in> set (op_chunk_hashes op)))"
  using assms by (auto simp: missing_chunk_hashes_def rbind_Inr_iff fset_of_list.rep_eq)

lemma missing_shrinks:
  assumes "queue_shrinks c c'" "filed P c c'"
    and "missing_chunk_hashes P c = Inr wanted" "missing_chunk_hashes P c' = Inr wanted'"
  shows "set wanted' \<subseteq> set wanted \<and> (\<forall>h \<in> set wanted'. \<not> blob_has (stores c') h)"
proof -
  obtain ops where p: "pending_ops P c = Inr ops"
    and w: "\<And>h. h \<in> set wanted \<longleftrightarrow> \<not> blob_has (stores c) h \<and> (\<exists>op \<in> set ops. h \<in> set (op_chunk_hashes op))"
    using missing_set [OF assms(3)] by blast
  obtain ops' where p': "pending_ops P c' = Inr ops'"
    and w': "\<And>h. h \<in> set wanted' \<longleftrightarrow> \<not> blob_has (stores c') h \<and> (\<exists>op \<in> set ops'. h \<in> set (op_chunk_hashes op))"
    using missing_set [OF assms(4)] by blast
  have "op \<in> set ops" if o: "op \<in> set ops'" for op
  proof -
    obtain k v where "(k, v) \<in> set (queue c')" "decode_pending P v = Inr op"
      using rmap_Inr_set [OF p' [unfolded pending_ops_def] o] by auto
    moreover have "(k, v) \<in> set (queue c)" using calculation(1) assms(1) by (auto simp: in_queue queue_shrinks_def)
    ultimately show ?thesis using rmap_Inr_in [OF p [unfolded pending_ops_def]] by fastforce
  qed
  then show ?thesis using assms(2) unfolding filed_def subset_iff Ball_def w w' by meson
qed

definition lacking :: "prims \<Rightarrow> core \<Rightarrow> nat" where
  "lacking P c = (case missing_chunk_hashes P c of Inl _ \<Rightarrow> 0 | Inr hs \<Rightarrow> length hs)"

lemma content_batch_Continue:
  assumes "missing_chunk_hashes P c = Inr wanted" "content_batch P wanted blobs again out c = (Inr (Continue out'), c')"
  shows "lacking P c' < lacking P c"
proof -
  obtain out1 c1 applied where t: "take_blobs P wanted blobs out c = (out1, c1)"
    and r: "retry_pending P c1 = (Inr applied, c')" and n: "blobs_received out1 \<noteq> blobs_received out"
    using assms(2) by (auto simp: content_batch_def bindE_eq_Inr Let_def split: prod.splits if_splits)
  obtain h where h: "h \<in> set wanted" "blob_has (stores c1) h" using take_blobs_stores [OF t n] by blast
  have q: "queue_shrinks c c'"
    using transpD [OF queue_shrinks_po(2) take_blobs_queue [OF t] keepsD [OF keeps_queue_retry r]] .
  have f: "filed P c c'" using fd.trans [OF take_blobs_filed [OF t] keepsD [OF fd.retry r]] .
  have h': "blob_has (stores c') h" using keepsD [OF fd.retry r] h(2) by (simp add: filed_def)
  show ?thesis
  proof (cases "missing_chunk_hashes P c'")
    case (Inr wanted')
    have "set wanted' \<subset> set wanted" using missing_shrinks [OF q f assms(1) Inr] h(1) h' by blast
    then have "card (set wanted') < card (set wanted)" by (simp add: psubset_card_mono)
    moreover have "distinct wanted" "distinct wanted'"
      using assms(1) Inr by (auto simp: missing_chunk_hashes_def rbind_Inr_iff)
    ultimately show ?thesis using assms(1) Inr by (simp add: lacking_def distinct_card)
  next
    case (Inl e)
    then show ?thesis using assms(1) h(1) by (auto simp: lacking_def)
  qed
qed

lemma content_round_Continue:
  assumes "content_round P W S limits i out s = (Inr (i', Continue out'), s')"
  shows "lacking P (fst s') < lacking P (fst s)"
proof -
  obtain wanted e reply s1 blobs again where "missing_chunk_hashes P (fst s) = Inr wanted"
    "ask W S e s = (Inr reply, s1)" "content_batch P wanted blobs again out (fst s1) = (Inr (Continue out'), fst s')"
    using assms unfolding content_round_def
    by (auto simp: bindE_eq_Inr on_core_eq lift_result_def split: if_splits)
  then show ?thesis using content_batch_Continue ask_core by metis
qed

function content_loop ::
  "prims \<Rightarrow> wire \<Rightarrow> 'p stream \<Rightarrow> sync_limits \<Rightarrow> u64 \<Rightarrow> sync_outcome \<Rightarrow> ('p, u64 \<times> sync_outcome) talk" where
  "content_loop P W S limits i out s =
     (case content_round P W S limits i out s of
        (Inl e, s') \<Rightarrow> (Inl e, s')
      | (Inr (i', Break out'), s') \<Rightarrow> (Inr (i', out'), s')
      | (Inr (i', Continue out'), s') \<Rightarrow> content_loop P W S limits i' out' s')"
  by pat_completeness auto
termination
  by (relation "measure (\<lambda>(P, W, S, limits, i, out, s). lacking P (fst s))")
    (auto dest!: content_round_Continue [OF sym])

declare content_loop.simps [simp del]

definition pull_from_peer ::
  "prims \<Rightarrow> wire \<Rightarrow> 'p stream \<Rightarrow> session_ctx \<Rightarrow> u64 \<Rightarrow> sync_limits \<Rightarrow> ('p, sync_outcome) talk" where
  "pull_from_peer P W S ctx now limits =
     bindE (greet P W S ctx [''ops'', ''blobs''] now) (\<lambda>info.
     bindE (ops_loop P W S 1 (outcome_default\<lparr>so_peer := Some (ph_device_id info)\<rparr>)) (\<lambda>(i, out).
     bindE (content_loop P W S limits i out) (\<lambda>(i, out).
     bindE (send_ok W S (env (i + 1) None Bye)) (\<lambda>_.
     bindE (on_core (reads (\<lambda>c. Inr (pending_count c)))) (\<lambda>n.
     ret (out\<lparr>still_pending := n\<rparr>))))))"

section \<open>The responder\<close>

fun serve_blobs :: "core \<Rightarrow> u64 \<Rightarrow> hash list \<Rightarrow> u64 \<Rightarrow> (hash \<times> bytes) list \<Rightarrow> (hash \<times> bytes) list \<times> bool" where
  "serve_blobs c cap [] bytes blobs = (blobs, False)"
| "serve_blobs c cap (h # hs) bytes blobs =
     (if bytes \<ge> cap then (blobs, True)
      else (case blob_get (stores c) h of
              None \<Rightarrow> serve_blobs c cap hs bytes blobs
            | Some data \<Rightarrow> serve_blobs c cap hs (bytes + word_of_nat (length data)) (blobs @ [(h, data)])))"

text \<open>The answer to one request, \<open>None\<close> for the end of the session, and whether the sync loop is woken.\<close>

definition serve_request :: "prims \<Rightarrow> session_ctx \<Rightarrow> core \<Rightarrow> msg \<Rightarrow> (msg option \<times> bool) result" where
  "serve_request P ctx c m =
     (case m of
        Have summary _ \<Rightarrow>
          rbind (ops_missing_for P c summary OPS_BATCH) (\<lambda>ops.
          Inr (Some (OpsBatch ops (length ops = OPS_BATCH)), False))
      | WantBlobs hashes max_bytes \<Rightarrow>
          (case serve_blobs c (min max_bytes BLOB_BATCH_BYTES) hashes 0 [] of
             (blobs, again) \<Rightarrow> Inr (Some (BlobsBatch blobs again), False))
      | Notify summary \<Rightarrow>
          (let behind = is_behind c summary in Inr (Some (Noted behind), behind \<and> cx_wake ctx))
      | Ping \<Rightarrow> Inr (Some Pong, False)
      | Bye \<Rightarrow> Inr (None, False)
      | _ \<Rightarrow> Inr (Some (ErrorMsg 400 ''unexpected message'' None), False))"

text \<open>A peer may keep asking for as long as it likes, so the loop need not end.\<close>

partial_function (option) serve_loop ::
  "prims \<Rightarrow> wire \<Rightarrow> 'p stream \<Rightarrow> session_ctx \<Rightarrow> u64 \<Rightarrow> nat \<Rightarrow> core \<times> 'p \<Rightarrow> ((error + nat) \<times> core \<times> 'p) option" where
  "serve_loop P W S ctx i woken s =
     (case recv_msg W S MAX_FRAME_LEN s of
        (Inl _, s1) \<Rightarrow> Some (Inr woken, s1)
      | (Inr request, s1) \<Rightarrow>
          (case serve_request P ctx (fst s1) (payload request) of
             Inl e \<Rightarrow> Some (Inl e, s1)
           | Inr (None, _) \<Rightarrow> Some (Inr woken, s1)
           | Inr (Some reply, w) \<Rightarrow>
               (case send_msg W S (env (i + 1) (Some (msg_id request)) reply) s1 of
                  (Inl e, s2) \<Rightarrow> Some (Inl e, s2)
                | (Inr _, s2) \<Rightarrow> serve_loop P W S ctx (i + 1) (if w then woken + 1 else woken) s2)))"

text \<open>
  The opening: the peer is refused under our signature when its protocol or its key is not accepted. The value is
  the peer served.
\<close>

definition serve_open :: "prims \<Rightarrow> wire \<Rightarrow> session_ctx \<Rightarrow> message_envelope \<Rightarrow> core \<Rightarrow> (msg option \<times> device_id result) \<times> core" where
  "serve_open P W ctx opening c =
     (let nonce = (case hello_nonce (payload opening) of Inl _ \<Rightarrow> 0 | Inr n \<Rightarrow> n);
          ack = (\<lambda>accepted why feats. make_hello_ack P W (cx_identity ctx) (cx_device_id ctx) accepted why feats nonce)
      in
      if protocol_version opening \<noteq> PROTOCOL_VERSION
      then ((Some (ack False (Some ''protocol version is not supported'') []), Inl (Bail ''protocol version is not supported'')), c)
      else
        (case verify_hello P W (payload opening) of
           Inl e \<Rightarrow> ((None, Inl e), c)
         | Inr hello \<Rightarrow>
             (case authorize (cx_trust ctx) (ph_device_id hello) (ph_pubkey hello) c of
                (Inl e, c') \<Rightarrow> ((Some (ack False (Some ''not authorised'') []), Inl e), c')
              | (Inr _, c') \<Rightarrow> ((Some (ack True None [''ops'', ''blobs'']), Inr (ph_device_id hello)), c'))))"

definition serve_session ::
  "prims \<Rightarrow> wire \<Rightarrow> 'p stream \<Rightarrow> session_ctx \<Rightarrow> core \<times> 'p \<Rightarrow> ((error + device_id \<times> nat) \<times> core \<times> 'p) option" where
  "serve_session P W S ctx s =
     (case recv_msg W S MAX_FRAME_LEN s of
        (Inl e, s1) \<Rightarrow> Some (Inl e, s1)
      | (Inr opening, s1) \<Rightarrow>
          (case serve_open P W ctx opening (fst s1) of
             ((None, Inl e), c2) \<Rightarrow> Some (Inl e, c2, snd s1)
           | ((None, Inr peer), c2) \<Rightarrow> Some (Inr (peer, 0), c2, snd s1)
           | ((Some reply, served), c2) \<Rightarrow>
               (case send_msg W S (env 1 (Some (msg_id opening)) reply) (c2, snd s1) of
                  (Inl e, s3) \<Rightarrow> Some (Inl e, s3)
                | (Inr _, s3) \<Rightarrow>
                    (case served of
                       Inl e \<Rightarrow> Some (Inl e, s3)
                     | Inr peer \<Rightarrow>
                         map_option (\<lambda>(r, s4). (case r of Inl e \<Rightarrow> Inl e | Inr woken \<Rightarrow> Inr (peer, woken), s4))
                           (serve_loop P W S ctx 1 0 s3)))))"

section \<open>On-demand fetch\<close>

fun fetch_blobs :: "prims \<Rightarrow> (hash \<times> bytes) list \<Rightarrow> hash list \<Rightarrow> nat \<Rightarrow> core \<Rightarrow> hash list \<times> nat \<times> core" where
  "fetch_blobs P [] outstanding stored c = (outstanding, stored, c)"
| "fetch_blobs P ((h, bs) # blobs) outstanding stored c =
     (if h \<notin> set outstanding then fetch_blobs P blobs outstanding stored c
      else if blake3 P bs \<noteq> h then fetch_blobs P blobs outstanding stored c
      else fetch_blobs P blobs (filter (\<lambda>x. x \<noteq> h) outstanding) (stored + 1) (put_blob h bs c))"

definition fetch_batch ::
  "prims \<Rightarrow> hash list \<Rightarrow> nat \<Rightarrow> (hash \<times> bytes) list \<Rightarrow> bool \<Rightarrow> (core, (hash list \<times> nat) flow) comp" where
  "fetch_batch P outstanding stored blobs again c =
     (case fetch_blobs P blobs outstanding stored c of
        (rest, got, c') \<Rightarrow>
          (Inr (if got = stored \<or> \<not> again then Break (rest, got) else Continue (rest, got)), c'))"

definition fetch_round ::
  "prims \<Rightarrow> wire \<Rightarrow> 'p stream \<Rightarrow> u64 \<Rightarrow> hash list \<Rightarrow> nat \<Rightarrow> ('p, (hash list \<times> nat) flow) talk" where
  "fetch_round P W S i outstanding stored =
     bindE (ask W S (env i None (WantBlobs outstanding BLOB_BATCH_BYTES))) (\<lambda>reply.
     bindE (lift_result (blobs_of reply)) (\<lambda>(blobs, again).
     on_core (fetch_batch P outstanding stored blobs again)))"

lemma fetch_blobs_shrinks:
  "fetch_blobs P blobs outstanding stored c = (rest, got, c') \<Longrightarrow>
     stored \<le> got \<and> length rest \<le> length outstanding \<and> (got \<noteq> stored \<longrightarrow> length rest < length outstanding)"
proof (induction P blobs outstanding stored c rule: fetch_blobs.induct)
  case (2 P h bs blobs outstanding stored c)
  show ?case
  proof (cases "h \<in> set outstanding \<and> blake3 P bs = h")
    case True
    then have "stored + 1 \<le> got \<and> length rest \<le> length (filter (\<lambda>x. x \<noteq> h) outstanding)" using 2 by simp
    moreover have "length (filter (\<lambda>x. x \<noteq> h) outstanding) < length outstanding"
      using True by (intro length_filter_less [of h]) auto
    ultimately show ?thesis by linarith
  next
    case False
    then show ?thesis using 2 by (auto split: if_splits)
  qed
qed simp

lemma fetch_round_Continue:
  assumes "fetch_round P W S i outstanding stored s = (Inr (Continue (rest, got)), s')"
  shows "length rest < length outstanding"
proof -
  obtain c blobs again c' where "fetch_batch P outstanding stored blobs again c = (Inr (Continue (rest, got)), c')"
    using assms unfolding fetch_round_def by (auto simp: bindE_eq_Inr on_core_eq lift_result_def)
  then have "fetch_blobs P blobs outstanding stored c = (rest, got, c')" "got \<noteq> stored"
    by (auto simp: fetch_batch_def split: prod.splits if_splits)
  then show ?thesis using fetch_blobs_shrinks by metis
qed

function fetch_loop ::
  "prims \<Rightarrow> wire \<Rightarrow> 'p stream \<Rightarrow> u64 \<Rightarrow> hash list \<Rightarrow> nat \<Rightarrow> ('p, u64 \<times> nat) talk" where
  "fetch_loop P W S i outstanding stored s =
     (if outstanding = [] then (Inr (i, stored), s)
      else
        (case fetch_round P W S (i + 1) outstanding stored s of
           (Inl e, s') \<Rightarrow> (Inl e, s')
         | (Inr (Break (rest, got)), s') \<Rightarrow> (Inr (i + 1, got), s')
         | (Inr (Continue (rest, got)), s') \<Rightarrow> fetch_loop P W S (i + 1) rest got s'))"
  by pat_completeness auto
termination
  by (relation "measure (\<lambda>(P, W, S, i, outstanding, stored, s). length outstanding)")
    (auto dest!: fetch_round_Continue [OF sym])

declare fetch_loop.simps [simp del]

definition fetch_chunks ::
  "prims \<Rightarrow> wire \<Rightarrow> 'p stream \<Rightarrow> session_ctx \<Rightarrow> u64 \<Rightarrow> hash list \<Rightarrow> ('p, nat) talk" where
  "fetch_chunks P W S ctx now wanted =
     (if wanted = [] then ret 0
      else
        bindE (greet P W S ctx [''blobs''] now) (\<lambda>_.
        bindE (fetch_loop P W S 1 wanted 0) (\<lambda>(i, stored).
        bindE (on_core (retry_pending P)) (\<lambda>_.
        bindE (send_ok W S (env (i + 1) None Bye)) (\<lambda>_.
        ret stored)))))"

end
