(* ===== verification/Catch_Up.thy ===== *)
theory Catch_Up
  imports Session_Laws Clock
begin

text \<open>
  Two nodes joined by a stream: the initiator runs the pull, the other end the responder. A pull that completes
  leaves the initiator with every operation of the responder's log and, unless the budget deferred it, with
  every piece of missing content the responder holds.
\<close>

section \<open>A node at the other end\<close>

text \<open>
  The responder as a stream: a written frame is handed to it, its answer becomes what can be read. It is the
  opening of a session until a peer is accepted, then answers one request after the other. A buffer too long
  for the 32-bit length of its frame is refused by the link in both directions.
\<close>

record node =
  nd_core :: core
  nd_open :: bool
  nd_next :: u64
  nd_out :: bytes

definition deliver :: "wire \<Rightarrow> u64 option \<Rightarrow> msg \<Rightarrow> node \<Rightarrow> bool \<times> node" where
  "deliver W re reply n =
     (let e = env (nd_next n + 1) re reply in
      if length (enc_env W e) < 2 ^ 32 then (True, n\<lparr>nd_next := nd_next n + 1, nd_out := frame W e\<rparr>)
      else (False, n\<lparr>nd_out := []\<rparr>))"

definition node_write :: "prims \<Rightarrow> wire \<Rightarrow> session_ctx \<Rightarrow> bytes \<Rightarrow> node \<Rightarrow> bool \<times> node" where
  "node_write P W ctx bs n =
     (if 2 ^ 32 + 4 \<le> length bs then (False, n)
      else
        (case recv_msg W pipe MAX_FRAME_LEN (nd_core n, bs, []) of
           (Inl _, _) \<Rightarrow> (True, n\<lparr>nd_out := []\<rparr>)
         | (Inr e, _) \<Rightarrow>
             if \<not> nd_open n
             then (case serve_open P W ctx e (nd_core n) of
                     ((None, _), c') \<Rightarrow> (True, n\<lparr>nd_core := c', nd_out := []\<rparr>)
                   | ((Some reply, served), c') \<Rightarrow>
                       deliver W (Some (msg_id e)) reply (n\<lparr>nd_core := c', nd_open := isl served = False\<rparr>))
             else (case serve_request P ctx (nd_core n) (payload e) of
                     Inr (Some reply, _) \<Rightarrow> deliver W (Some (msg_id e)) reply n
                   | _ \<Rightarrow> (True, n\<lparr>nd_out := []\<rparr>))))"

definition node_read :: "nat \<Rightarrow> node \<Rightarrow> bytes option \<times> node" where
  "node_read k n =
     (if k \<le> length (nd_out n) then (Some (take k (nd_out n)), n\<lparr>nd_out := drop k (nd_out n)\<rparr>)
      else (None, n\<lparr>nd_out := []\<rparr>))"

definition node_stream :: "prims \<Rightarrow> wire \<Rightarrow> session_ctx \<Rightarrow> node stream" where
  "node_stream P W ctx = \<lparr>write_all = node_write P W ctx, read_exact = node_read\<rparr>"

text \<open>What is read after a write is the answer to what was written.\<close>

lemma length_frame: "length (frame W e) = length (enc_env W e) + 4"
  by (simp add: frame_def)

lemma recv_node:
  assumes "wire_ok W" "length (enc_env W e) < 2 ^ 32"
  shows "recv_msg W (node_stream P W ctx) max_len (c, n\<lparr>nd_out := frame W e\<rparr>) =
    (if length (enc_env W e) \<le> max_len then (Inr e, c, n\<lparr>nd_out := []\<rparr>)
     else (Inl (Bail ''frame too large''), c, n\<lparr>nd_out := enc_env W e\<rparr>))"
proof -
  let ?k = "length (enc_env W e)"
  have k: "unat (word_of_nat ?k :: u32) = ?k" using assms(2) by (simp add: unat_of_nat)
  have h: "read_bytes (node_stream P W ctx) 4 ''read len'' (c, n\<lparr>nd_out := frame W e\<rparr>) =
      (Inr (to_le_bytes (word_of_nat ?k)), c, n\<lparr>nd_out := enc_env W e\<rparr>)"
    by (simp add: read_bytes_def node_stream_def node_read_def length_frame) (simp add: frame_def)
  have "read_bytes (node_stream P W ctx) ?k ''read payload'' (c, n\<lparr>nd_out := enc_env W e\<rparr>) =
      (Inr (enc_env W e), c, n\<lparr>nd_out := []\<rparr>)"
    by (simp add: read_bytes_def node_stream_def node_read_def)
  then show ?thesis using assms(1) by (simp add: recv_msg_def bindE_def h k wire_ok_def)
qed

text \<open>One exchange with a node: what came back is what it delivered.\<close>

definition node_answer :: "prims \<Rightarrow> wire \<Rightarrow> session_ctx \<Rightarrow> message_envelope \<Rightarrow> node \<Rightarrow> msg \<Rightarrow> node \<Rightarrow> bool" where
  "node_answer P W ctx e n m n0 \<longleftrightarrow>
     (if nd_open n then n0 = n \<and> (\<exists>w. serve_request P ctx (nd_core n) (payload e) = Inr (Some m, w))
      else \<exists>served c'. serve_open P W ctx e (nd_core n) = ((Some m, served), c') \<and>
        n0 = n\<lparr>nd_core := c', nd_open := isl served = False\<rparr>)"

lemma ask_node:
  assumes "wire_ok W" "ask W (node_stream P W ctx) e (c, n) = (Inr reply, s')"
  shows "\<exists>n0. node_answer P W ctx e n reply n0 \<and> s' = (c, n0\<lparr>nd_next := nd_next n0 + 1, nd_out := []\<rparr>)"
proof -
  obtain n1 r where w: "node_write P W ctx (frame W e) n = (True, n1)"
    and r: "recv_msg W (node_stream P W ctx) MAX_FRAME_LEN (c, n1) = (Inr r, s')" "reply = payload r"
    using assms(2)
    by (auto simp: ask_def bindE_eq_Inr send_msg_def node_stream_def [of P W ctx] split: prod.splits bool.splits)
  have len: "length (enc_env W e) < 2 ^ 32" using w by (auto simp: node_write_def length_frame split: if_splits)
  have ne: "nd_out n1 \<noteq> []"
  proof
    assume "nd_out n1 = []"
    then have "fst (recv_msg W (node_stream P W ctx) MAX_FRAME_LEN (c, n1)) \<noteq> Inr r"
      by (simp add: recv_msg_def bindE_def read_bytes_def node_stream_def node_read_def)
    then show False using r(1) by simp
  qed
  have rec: "recv_msg W pipe MAX_FRAME_LEN (nd_core n, frame W e, []) = (Inr e, nd_core n, [], [])"
    using recv_pipe [OF assms(1) len, of MAX_FRAME_LEN "nd_core n" "[]" "[]"] w ne
    by (auto simp: node_write_def split: if_splits)
  obtain m n0 where m: "node_answer P W ctx e n m n0" and d: "deliver W (Some (msg_id e)) m n0 = (True, n1)"
    using w ne by (auto simp: node_write_def node_answer_def rec split: if_splits sum.splits option.splits prod.splits)
  let ?e = "env (nd_next n0 + 1) (Some (msg_id e)) m"
  have n1: "length (enc_env W ?e) < 2 ^ 32" "n1 = n0\<lparr>nd_next := nd_next n0 + 1, nd_out := frame W ?e\<rparr>"
    using d by (auto simp: deliver_def Let_def split: if_splits)
  then have "r = ?e" "s' = (c, n1\<lparr>nd_out := []\<rparr>)"
    using r(1) recv_node [OF assms(1) n1(1), of P ctx MAX_FRAME_LEN c n1] by (auto split: if_splits)
  then show ?thesis using m r(2) n1(2) by (auto simp: env_def)
qed

lemma ask_open:
  assumes "wire_ok W" "nd_open n" "ask W (node_stream P W ctx) e (c, n) = (Inr reply, s')"
  shows "(\<exists>w. serve_request P ctx (nd_core n) (payload e) = Inr (Some reply, w)) \<and>
    nd_core (snd s') = nd_core n \<and> nd_open (snd s') \<and> fst s' = c"
  using ask_node [OF assms(1,3)] assms(2) by (auto simp: node_answer_def)

text \<open>A handshake that succeeds leaves the node open, with at most a pinned key more.\<close>

lemma greet_node:
  assumes "wire_ok W" "\<not> nd_open n" "greet P W (node_stream P W bctx) ctx feats now (c, n) = (Inr info, s1)"
  shows "nd_open (snd s1) \<and> (nd_core (snd s1) = nd_core n \<or>
    (\<exists>k v. nd_core (snd s1) = kv_put CF_META k v (nd_core n)))"
proof -
  obtain hello reply s2 nonce where a: "ask W (node_stream P W bctx) (env 1 None hello) (c\<lparr>draws := draws c + 1\<rparr>, n) = (Inr reply, s2)"
    and v: "verify_hello_ack P W reply nonce = Inr info" and s: "snd s1 = snd s2"
    using assms(3) unfolding greet_def make_hello_def
    by (auto simp: bindE_eq_Inr on_core_eq lift_result_def draw32_def Let_def dest!: ack_of_same)
  obtain served c' where o: "serve_open P W bctx (env 1 None hello) (nd_core n) = ((Some reply, served), c')"
    and s2: "nd_core (snd s2) = c'" "nd_open (snd s2) = (\<not> isl served)"
    using ask_node [OF assms(1) a] assms(2) by (auto simp: node_answer_def)
  have "\<not> isl served"
    using o v by (auto simp: serve_open_def Let_def verify_hello_ack_def make_hello_ack_def rbind_Inr_iff
        split: if_splits sum.splits prod.splits)
  moreover have "c' = nd_core n \<or> (\<exists>k v. c' = kv_put CF_META k v (nd_core n))"
    using o authorize_cases by (fastforce simp: serve_open_def Let_def split: if_splits sum.splits prod.splits)
  ultimately show ?thesis using s s2 by simp
qed

section \<open>Applied and parked operations are logged\<close>

definition logged_ok :: "prims \<Rightarrow> core \<Rightarrow> bool" where
  "logged_ok P c \<longleftrightarrow>
     (\<forall>i. is_op_applied c i \<longrightarrow> held c i) \<and>
     (\<forall>k v. parked c k = Some v \<longrightarrow> (\<exists>op. decode_pending P v = Inr op \<and> held c (op_id op)))"

text \<open>Kept with a set of operations that are logged throughout.\<close>

definition logged_with :: "prims \<Rightarrow> op_id set \<Rightarrow> core \<Rightarrow> bool" where
  "logged_with P H c \<longleftrightarrow> logged_ok P c \<and> (\<forall>i \<in> H. held c i)"

abbreviation stays :: "('s \<Rightarrow> bool) \<Rightarrow> ('s, 'a) comp \<Rightarrow> bool" where
  "stays I m \<equiv> triple I m (\<lambda>_. I) (\<lambda>_. I)"

lemma staysD: "stays I m \<Longrightarrow> I s \<Longrightarrow> m s = (r, s') \<Longrightarrow> I s'"
  by (cases r) (auto dest: tripleD tripleE)

lemma staysI: "(\<And>s r s'. I s \<Longrightarrow> m s = (r, s') \<Longrightarrow> I s') \<Longrightarrow> stays I m"
  by (rule tripleI) auto

lemma stays_bindE: "stays I m \<Longrightarrow> (\<And>x. stays I (f x)) \<Longrightarrow> stays I (bindE m f)"
  by (rule triple_bindE)

lemma stays_basic:
  "stays I (ret x)" "stays I (reads r)" "stays I (lift_result y)" "(\<And>s. I s \<Longrightarrow> I (u s)) \<Longrightarrow> stays I (upd u)"
  by (auto simp: triple_def lift_result_def split: sum.split)

lemma logged_cong:
  assumes "\<And>k. kv_get c' CF_OPLOG k = kv_get c CF_OPLOG k"
  shows "logged_with P H c' = logged_with P H c"
proof -
  have "is_op_applied c' = is_op_applied c" "parked c' = parked c" "held c' = held c"
    by (simp_all add: fun_eq_iff is_op_applied_def parked_def held_def assms)
  then show ?thesis by (simp add: logged_with_def logged_ok_def)
qed

lemma logged_state_only: "state_only c c' \<Longrightarrow> logged_with P H c \<Longrightarrow> logged_with P H c'"
  using logged_cong [of c' c P H] by (simp add: state_only_def)

lemma logged_writes:
  "logged_with P H c \<Longrightarrow> logged_with P H (observe_time t c)"
  "logged_with P H c \<Longrightarrow> i \<in> H \<Longrightarrow> logged_with P H (mark_op_applied i c)"
  "logged_with P H c \<Longrightarrow> logged_with P H (clear_pending i c)"
  "codec_ok P \<Longrightarrow> logged_with P H c \<Longrightarrow> op_id op \<in> H \<Longrightarrow> logged_with P H (store_pending P op c)"
proof -
  show "logged_with P H c \<Longrightarrow> logged_with P H (observe_time t c)"
    using logged_cong [of "observe_time t c" c P H] by (simp add: observe_time_def)
qed (auto simp: logged_with_def logged_ok_def is_op_applied_def parked_def held_def mark_op_applied_def clear_pending_def store_pending_def
    decode_pending_def op_id.expand split: if_splits)

lemma logged_append: "logged_with P H c \<Longrightarrow> logged_with P (insert (op_id op) H) (append_op P op c)"
  by (auto simp: logged_with_def logged_ok_def) (auto simp: is_op_applied_def parked_def append_op_def split: if_splits, blast)

lemma stays_mutate: "stays (logged_with P H) (mutate P op)"
  by (rule triple_keeps [OF keeps_mutate]) (rule logged_state_only)

lemma stays_finish: "op_id op \<in> H \<Longrightarrow> stays (logged_with P H) (finish_applied P op)"
  unfolding finish_applied_def
  by (intro stays_bindE stays_basic logged_writes triple_keeps [OF keeps_maintain]) (auto intro: logged_state_only)

lemma stays_rows:
  "\<forall>(k, v) \<in> set rows. \<forall>op. decode_pending P v = Inr op \<longrightarrow> op_id op \<in> H \<Longrightarrow> stays (logged_with P H) (drain_rows P rows)"
proof (induction rows)
  case (Cons row rows)
  obtain k v where row: "row = (k, v)" by (cases row)
  show ?case
  proof (cases "decode_pending P v")
    case (Inl e)
    then show ?thesis by (simp add: row triple_def bindE_def lift_result_def)
  next
    case (Inr op)
    then have "bindE (lift_result (decode_pending P v)) f = f op" for f :: "fs_op \<Rightarrow> (core, bool \<times> nat) comp"
      by (simp add: fun_eq_iff bindE_def lift_result_def)
    moreover have "op_id op \<in> H" using Cons.prems Inr row by auto
    moreover have "stays (logged_with P H) (drain_rows P rows)" using Cons by auto
    ultimately show ?thesis
      unfolding row drain_rows.simps
      by (simp only:) (intro stays_bindE stays_basic, auto intro!: stays_bindE stays_basic stays_mutate stays_finish
          logged_writes(3) split: mutation.split)
  qed
qed (simp add: stays_basic)

lemma logged_rows: "logged_with P H c \<Longrightarrow> drain_rows P (queue c) c = (r, c') \<Longrightarrow> logged_with P H c'"
proof -
  assume l: "logged_with P H c" and r: "drain_rows P (queue c) c = (r, c')"
  let ?H = "H \<union> {i. held c i}"
  have "\<forall>(k, v) \<in> set (queue c). \<forall>op. decode_pending P v = Inr op \<longrightarrow> op_id op \<in> ?H"
    using l by (fastforce simp: in_queue logged_with_def logged_ok_def)
  from staysD [OF stays_rows [OF this] _ r] have "logged_with P ?H c'" using l by (auto simp: logged_with_def)
  then show ?thesis by (simp add: logged_with_def)
qed

lemma stays_drain: "stays (logged_with P H) (drain_pending P)"
proof -
  have "stays (logged_with P H) (drain_loop P fuel)" for fuel
  proof (induction fuel)
    case (Suc fuel)
    show ?case
    proof (rule staysI)
      fix c r c'
      assume l: "logged_with P H c" and r: "drain_loop P (Suc fuel) c = (r, c')"
      obtain x c1 where x: "drain_rows P (queue c) c = (x, c1)" by (cases "drain_rows P (queue c) c")
      have "c' = c \<or> c' = c1 \<or> (\<exists>y. drain_loop P fuel c1 = (y, c'))"
        using r x by (auto simp: bindE_def split: if_splits sum.splits prod.splits)
      then show "logged_with P H c'" using l logged_rows [OF l x] staysD [OF Suc] by blast
    qed
  qed (simp add: triple_def)
  then show ?thesis by (intro staysI) (auto simp only: drain_pending_def dest: staysD)
qed

lemma stays_snapshot: "stays (logged_with P H) (build_snapshot P)"
proof -
  have "stays (logged_with P H) (\<lambda>c. case put_object P (ob c) c of (head, c') \<Rightarrow> (Inr head, set_head head c'))" for ob
  proof (rule staysI)
    fix c r c'
    assume l: "logged_with P H c" and "(case put_object P (ob c) c of (head, c') \<Rightarrow> (Inr head, set_head head c')) = (r, c')"
    then obtain h c1 where o: "put_object P (ob c) c = (h, c1)" and c': "c' = set_head h c1" by (auto split: prod.splits)
    have "kv_get c' CF_OPLOG k = kv_get c CF_OPLOG k" for k
      using grows_kv(1) [OF grows_put_object [OF o]] by (simp add: c' set_head_def)
    then show "logged_with P H c'" using l logged_cong by blast
  qed
  moreover have "logged_with P H c \<Longrightarrow> logged_with P H (set_state_root h c)" for h c
    using logged_cong [of "set_state_root h c" c P H] by (simp add: set_state_root_def)
  ultimately show ?thesis unfolding build_snapshot_def Let_def by (intro stays_bindE stays_basic)
qed

lemma stays_retry: "stays (logged_with P H) (retry_pending P)"
  unfolding retry_pending_def by (auto intro!: stays_bindE stays_drain stays_snapshot stays_basic)

lemma stays_tail: "codec_ok P \<Longrightarrow> op_id op \<in> H \<Longrightarrow> stays (logged_with P H) (apply_tail P op)"
  unfolding apply_tail_def
  by (intro stays_bindE stays_mutate)
    (auto intro!: stays_bindE stays_basic stays_finish stays_drain stays_snapshot logged_writes(4) split: mutation.split)

text \<open>An operation whose signature and evidence are accepted is in the log afterwards, and only it is new there.\<close>

lemma apply_logged:
  assumes "codec_ok P" "logged_ok P c" "verify_op P op = Inr ()" "check_proof P op (core_proofs c) = Inr ()"
    and r: "apply_op P op c = (r, c')"
  shows "logged_ok P c'" and "held c' i \<longleftrightarrow> i = op_id op \<or> held c i" and "core_proofs c' = core_proofs c"
proof -
  let ?a = "append_op P op c"
  have "logged_ok P c' \<and> (held c' i \<longleftrightarrow> i = op_id op \<or> held c i) \<and> core_proofs c' = core_proofs c"
  proof (cases "is_op_applied c (op_id op)")
    case True
    then show ?thesis using r assms(2,3,4) by (auto simp: apply_op_def apply_op_inner_cases logged_ok_def)
  next
    case False
    then have t: "apply_tail P op ?a = (r, c')" using r assms(3,4) by (simp add: apply_op_def apply_op_inner_cases)
    have "stays (logged_with P {op_id op}) (apply_tail P op)" by (rule stays_tail) (simp_all add: assms(1))
    moreover have "logged_with P {op_id op} ?a"
      using logged_append [of P "{}" c op] assms(2) by (simp add: logged_with_def)
    ultimately have "logged_ok P c'" using staysD t by (metis logged_with_def)
    moreover have "log_grows ?a c'" using keepsD [OF keeps_tail t] .
    moreover have "held c' i = held ?a i" using \<open>log_grows ?a c'\<close> by (simp add: log_grows_def held_def)
    moreover have "core_proofs ?a = core_proofs c" by (simp add: append_op_def)
    ultimately show ?thesis by (simp add: log_grows_def)
  qed
  then show "logged_ok P c'" "held c' i \<longleftrightarrow> i = op_id op \<or> held c i" "core_proofs c' = core_proofs c" by auto
qed

lemma take_ops_logged:
  assumes "codec_ok P" "logged_ok P c" "\<forall>op \<in> set ops. verify_op P op = Inr () \<and> check_proof P op (core_proofs c) = Inr ()"
    and "take_ops P ops out c = (out', c')"
  shows "logged_ok P c' \<and> core_proofs c' = core_proofs c \<and> (\<forall>i. held c' i \<longleftrightarrow> i \<in> op_id ` set ops \<or> held c i)"
  using assms(2,3,4)
proof (induction ops arbitrary: out c)
  case (Cons op ops)
  obtain r c1 where a: "apply_op P op c = (r, c1)" by (cases "apply_op P op c")
  have v: "verify_op P op = Inr ()" "check_proof P op (core_proofs c) = Inr ()" using Cons.prems(2) by auto
  note l = apply_logged [OF assms(1) Cons.prems(1) v a]
  have "\<exists>o1. take_ops P ops o1 c1 = (out', c')" using Cons.prems(3) a by (auto split: if_splits)
  then obtain o1 where t: "take_ops P ops o1 c1 = (out', c')" ..
  show ?case using Cons.IH [OF l(1) _ t] Cons.prems(2) l(2,3) by auto
qed simp

section \<open>Summaries that are not cut short\<close>

definition untruncated :: "core \<Rightarrow> bool" where
  "untruncated c \<longleftrightarrow> (\<forall>d. card {ctr. held c (OpId d ctr)} \<le> MAX_ABOVE_PER_DEVICE)"

lemma untruncated_claims:
  assumes "untruncated c" "held c (OpId d ctr)"
  shows "claims (clock_summary c) (OpId d ctr)"
proof (cases "ctr \<le> mark c d")
  case True
  then show ?thesis by (simp add: claims_def watermark_summary)
next
  case False
  let ?l = "fs_elems (seen_at (seen_map c) d)"
  have "length ?l = card (set ?l)" by (rule distinct_card [OF distinct_fs_elems, symmetric])
  also have "set ?l = {ctr. held c (OpId d ctr)}" using in_seen by blast
  finally have "length ?l \<le> MAX_ABOVE_PER_DEVICE" using assms(1) by (simp add: untruncated_def)
  then have "length (filter (\<lambda>x. x \<ge> mark c d + 1) ?l) \<le> MAX_ABOVE_PER_DEVICE"
    using length_filter_le le_trans by blast
  moreover have "mark c d + 1 \<le> ctr" using False inc_le by (metis linorder_not_le)
  moreover have "ctr \<in> set ?l" using assms(2) in_seen by blast
  ultimately show ?thesis by (simp add: claims_def extra_summary extras_above_def)
qed

section \<open>The operations of an honest peer\<close>

text \<open>
  What the initiator needs to know of the responder's log: it is well-formed, its operations are accepted here and
  none carries the counter zero.
\<close>

definition offers :: "prims \<Rightarrow> proof_policy \<Rightarrow> core \<Rightarrow> bool" where
  "offers P pol b \<longleftrightarrow> oplog_ok P b \<and>
     (\<forall>op \<in> set (log_ops P b). verify_op P op = Inr () \<and> check_proof P op pol = Inr () \<and> opid_counter (op_id op) \<noteq> 0)"

definition pulling :: "prims \<Rightarrow> core \<Rightarrow> core \<Rightarrow> core \<Rightarrow> bool" where
  "pulling P b a c \<longleftrightarrow> logged_ok P c \<and> core_proofs c = core_proofs a \<and> (\<forall>i. held c i \<longrightarrow> held a i \<or> held b i)"

lemma untruncated_mono:
  assumes "\<forall>d. card {ctr. held a (OpId d ctr) \<or> held b (OpId d ctr)} \<le> MAX_ABOVE_PER_DEVICE" "\<forall>i. held c i \<longrightarrow> held a i \<or> held b i"
  shows "untruncated c"
  unfolding untruncated_def
proof
  fix d
  have "{ctr. held c (OpId d ctr)} \<subseteq> {ctr. held a (OpId d ctr) \<or> held b (OpId d ctr)}" using assms(2) by auto
  then have "card {ctr. held c (OpId d ctr)} \<le> card {ctr. held a (OpId d ctr) \<or> held b (OpId d ctr)}"
    by (intro card_mono) simp_all
  then show "card {ctr. held c (OpId d ctr)} \<le> MAX_ABOVE_PER_DEVICE" using assms(1) le_trans by blast
qed

text \<open>The batch an honest responder answers with, and what taking it does.\<close>

lemma honest_batch:
  assumes "codec_ok P" "offers P (core_proofs a) b" "pulling P b a c"
    and bound: "\<forall>d. card {ctr. held a (OpId d ctr) \<or> held b (OpId d ctr)} \<le> MAX_ABOVE_PER_DEVICE"
    and ops: "ops_missing_for P b (clock_summary c) OPS_BATCH = Inr ops"
    and batch: "ops_batch P (clock_summary c) ops (length ops = OPS_BATCH) out c = (Inr f, c')"
  shows "pulling P b a c' \<and> (\<forall>i. held c i \<longrightarrow> held c' i) \<and> (\<forall>out'. f = Break out' \<longrightarrow> (\<forall>i. held b i \<longrightarrow> held c' i))"
proof -
  have ok: "oplog_ok P b" using assms(2) by (simp add: offers_def)
  let ?ms = "filter (\<lambda>op. \<not> claims (clock_summary c) (op_id op)) (log_ops P b)"
  have o: "ops = take OPS_BATCH ?ms" using ops ops_missing_eq [OF ok] by (simp add: OPS_BATCH_def)
  then have sub: "set ops \<subseteq> set (log_ops P b)" using set_take_subset by fastforce
  have acc: "\<forall>op \<in> set ops. verify_op P op = Inr () \<and> check_proof P op (core_proofs c) = Inr ()"
    using assms(2,3) sub by (auto simp: offers_def pulling_def)
  have lg: "logged_ok P c" using assms(3) by (simp add: pulling_def)
  have claimed: "held c i" if hb: "held b i" and ni: "i \<notin> op_id ` set ?ms" for i
  proof -
    have "i \<in> op_id ` set (log_ops P b)" using hb log_ops_held [OF ok] by simp
    then obtain op where "op \<in> set (log_ops P b)" "op_id op = i" by blast
    then have "claims (clock_summary c) i" "opid_counter i \<noteq> 0" using ni assms(2) by (auto simp: offers_def)
    then show ?thesis using claims_summary_held by (cases i) (auto simp: word_gt_0)
  qed
  obtain out1 c1 where t: "take_ops P ops (out\<lparr>ops_received := ops_received out + length ops\<rparr>) c = (out1, c1)"
    by (cases "take_ops P ops (out\<lparr>ops_received := ops_received out + length ops\<rparr>) c")
  note tl = take_ops_logged [OF assms(1) lg acc t]
  have c': "c' = c1" using batch t by (auto simp: ops_batch_def Let_def OPS_BATCH_def split: if_splits)
  have bh: "held b (op_id op)" if "op \<in> set ops" for op using that sub log_ops_held [OF ok] by blast
  have pl: "pulling P b a c'" using assms(3) tl bh unfolding pulling_def c' by auto
  have "held c' i" if brk: "f = Break out'" and h: "held b i" for i out'
  proof (cases "length ops = OPS_BATCH")
    case False
    then have "length ?ms < OPS_BATCH" unfolding o by (simp add: min_def split: if_splits)
    then have "ops = ?ms" using o by simp
    then show ?thesis using claimed [OF h] tl c' by blast
  next
    case True
    then have same: "clock_summary c' = clock_summary c" and ne: "ops \<noteq> []"
      using batch t brk c' by (auto simp: ops_batch_def Let_def OPS_BATCH_def split: if_splits)
    obtain op where op: "op \<in> set ops" using ne by (meson list.set_sel(1))
    then have "held c' (op_id op)" using tl c' by auto
    moreover have "untruncated c'" using untruncated_mono [OF bound] pl by (simp add: pulling_def)
    ultimately have "claims (clock_summary c') (op_id op)" using untruncated_claims by (cases "op_id op") metis
    moreover have "\<not> claims (clock_summary c) (op_id op)" using op o in_set_takeD by fastforce
    ultimately show ?thesis using same by simp
  qed
  then show ?thesis using pl tl c' by auto
qed

text \<open>The operation phase: every operation of the responder has arrived.\<close>

lemma honest_ops:
  assumes "wire_ok W" "codec_ok P" "offers P (core_proofs a) b"
    and "\<forall>d. card {ctr. held a (OpId d ctr) \<or> held b (OpId d ctr)} \<le> MAX_ABOVE_PER_DEVICE"
    and "pulling P b a (fst s)" "nd_open (snd s)" "nd_core (snd s) = b"
    and "ops_loop P W (node_stream P W bctx) i out s = (Inr (j, out'), s')"
  shows "pulling P b a (fst s') \<and> nd_open (snd s') \<and> nd_core (snd s') = b \<and> (\<forall>i. held b i \<longrightarrow> held (fst s') i)"
proof -
  let ?S = "node_stream P W bctx"
  let ?I = "\<lambda>s. pulling P b a (fst s) \<and> nd_open (snd s) \<and> nd_core (snd s) = b"
  have round: "?I s' \<and> (\<forall>out'. f = Break out' \<longrightarrow> (\<forall>i. held b i \<longrightarrow> held (fst s') i))"
    if I: "?I s" and r: "ops_round P W ?S i out s = (Inr f, s')" for i out s f s'
  proof -
    obtain reply s1 ops again where k: "ask W ?S (env i None (Have (clock_summary (fst s)) None)) s = (Inr reply, s1)"
      and o: "ops_of reply = Inr (ops, again)"
      and t: "ops_batch P (clock_summary (fst s)) ops again out (fst s1) = (Inr f, fst s')" "snd s' = snd s1"
      using r by (auto simp: ops_round_cases)
    have k': "ask W ?S (env i None (Have (clock_summary (fst s)) None)) (fst s, snd s) = (Inr reply, s1)" using k by simp
    have an: "\<exists>w. serve_request P bctx b (Have (clock_summary (fst s)) None) = Inr (Some reply, w)"
      and s1: "nd_core (snd s1) = b" "nd_open (snd s1)" "fst s1 = fst s"
      using ask_open [OF assms(1) _ k'] I by (auto simp: env_def)
    have ms: "ops_missing_for P b (clock_summary (fst s)) OPS_BATCH = Inr ops" "again = (length ops = OPS_BATCH)"
      using an o by (auto simp: serve_request_def rbind_Inr_iff ops_of_def)
    show ?thesis
      using honest_batch [OF assms(2,3) conjunct1 [OF I] assms(4) ms(1), of out f "fst s'"] t s1 ms(2) by simp
  qed
  show ?thesis
    by (rule ops_loop_rule [where I = "\<lambda>out. ?I", OF _ _ _ assms(8)]) (use round assms(5,6,7) in blast)+
qed

section \<open>The content of an honest peer\<close>

lemma serve_blobs_spec:
  assumes "serve_blobs c cap hs bytes acc = (blobs, again)"
  shows "\<exists>new. blobs = acc @ new \<and> (\<forall>x \<in> set new. fst x \<in> set hs \<and> blob_get (stores c) (fst x) = Some (snd x)) \<and>
    (\<not> again \<longrightarrow> (\<forall>h \<in> set hs. blob_has (stores c) h \<longrightarrow> h \<in> fst ` set new)) \<and> (new = [] \<longrightarrow> bytes < cap \<longrightarrow> \<not> again)"
  using assms
proof (induction hs arbitrary: bytes acc)
  case (Cons h hs)
  show ?case
  proof (cases "bytes \<ge> cap")
    case True
    then show ?thesis using Cons.prems by (intro exI [of _ "[]"]) auto
  next
    case False
    show ?thesis
    proof (cases "blob_get (stores c) h")
      case None
      then have "serve_blobs c cap hs bytes acc = (blobs, again)" using Cons.prems False by simp
      then obtain new where "blobs = acc @ new" "\<forall>x \<in> set new. fst x \<in> set hs \<and> blob_get (stores c) (fst x) = Some (snd x)"
        "\<not> again \<longrightarrow> (\<forall>h \<in> set hs. blob_has (stores c) h \<longrightarrow> h \<in> fst ` set new)" "new = [] \<longrightarrow> bytes < cap \<longrightarrow> \<not> again"
        using Cons.IH by blast
      then show ?thesis using None by (intro exI [of _ new]) (simp add: mem_blob.has_get)
    next
      case (Some d)
      then have "serve_blobs c cap hs (bytes + word_of_nat (length d)) (acc @ [(h, d)]) = (blobs, again)"
        using Cons.prems False by simp
      then obtain new where "blobs = (acc @ [(h, d)]) @ new" "\<forall>x \<in> set new. fst x \<in> set hs \<and> blob_get (stores c) (fst x) = Some (snd x)"
        "\<not> again \<longrightarrow> (\<forall>h \<in> set hs. blob_has (stores c) h \<longrightarrow> h \<in> fst ` set new)"
        using Cons.IH by blast
      then show ?thesis using Some by (intro exI [of _ "(h, d) # new"]) simp
    qed
  qed
qed simp

lemma take_blobs_honest:
  assumes "\<forall>(h, d) \<in> set blobs. h \<in> set wanted \<and> blake3 P d = h" "take_blobs P wanted blobs out c = (out', c')"
  shows "blobs_received out' = blobs_received out + length blobs \<and> (\<forall>h \<in> fst ` set blobs. blob_has (stores c') h)"
  using assms
proof (induction blobs arbitrary: out c)
  case (Cons x blobs)
  obtain h d where x: "x = (h, d)" by (cases x)
  let ?o = "out\<lparr>content_bytes := content_bytes out + word_of_nat (length d), blobs_received := blobs_received out + 1\<rparr>"
  have t: "take_blobs P wanted blobs ?o (put_blob h d c) = (out', c')" using Cons.prems by (auto simp: x)
  have "blob_has (stores c') h" using take_blobs_filed [OF t] by (simp add: filed_def blob_has_put_blob)
  moreover have "\<forall>(h, d) \<in> set blobs. h \<in> set wanted \<and> blake3 P d = h" using Cons.prems(1) by simp
  ultimately show ?case using Cons.IH [OF _ t] by (auto simp: x)
qed simp

text \<open>A peer's store in which every blob is filed under its hash.\<close>

definition addressed :: "prims \<Rightarrow> core \<Rightarrow> bool" where
  "addressed P c \<longleftrightarrow> (\<forall>h bs. blob_get (stores c) h = Some bs \<longrightarrow> blake3 P bs = h)"

definition nothing_left :: "prims \<Rightarrow> core \<Rightarrow> core \<Rightarrow> bool" where
  "nothing_left P b c \<longleftrightarrow> (\<forall>ms. missing_chunk_hashes P c = Inr ms \<longrightarrow> (\<forall>h \<in> set ms. \<not> blob_has (stores b) h))"

lemma honest_content_batch:
  assumes "addressed P b" "missing_chunk_hashes P c = Inr wanted" "0 < cap"
    and s: "serve_blobs b cap wanted 0 [] = (blobs, again)"
    and t: "content_batch P wanted blobs again out c = (Inr (Break out'), c')"
  shows "nothing_left P b c'"
proof -
  obtain new where new: "blobs = new" "\<forall>x \<in> set new. fst x \<in> set wanted \<and> blob_get (stores b) (fst x) = Some (snd x)"
    "\<not> again \<longrightarrow> (\<forall>h \<in> set wanted. blob_has (stores b) h \<longrightarrow> h \<in> fst ` set new)" "new = [] \<longrightarrow> \<not> again"
    using serve_blobs_spec [OF s] assms(3) by auto
  show ?thesis
  proof (cases "blobs = []")
    case True
    then show ?thesis using t new assms(2) by (auto simp: content_batch_def nothing_left_def)
  next
    case False
    obtain out1 c1 where tk: "take_blobs P wanted blobs out c = (out1, c1)" by (cases "take_blobs P wanted blobs out c")
    have hon: "\<forall>(h, d) \<in> set blobs. h \<in> set wanted \<and> blake3 P d = h" using new(1,2) assms(1) by (auto simp: addressed_def)
    note th = take_blobs_honest [OF hon tk]
    have "\<not> again" and r: "\<exists>n. retry_pending P c1 = (Inr n, c')"
      using t tk False th by (auto simp: content_batch_def bindE_eq_Inr Let_def split: if_splits)
    then obtain n where r: "retry_pending P c1 = (Inr n, c')" by blast
    have q: "queue_shrinks c c'" using transpD [OF queue_shrinks_po(2) take_blobs_queue [OF tk] keepsD [OF keeps_queue_retry r]] .
    have f: "filed P c c'" using fd.trans [OF take_blobs_filed [OF tk] keepsD [OF fd.retry r]] .
    have got: "blob_has (stores c') h" if "h \<in> fst ` set blobs" for h
      using th that keepsD [OF fd.retry r] by (auto simp: filed_def)
    show ?thesis
      unfolding nothing_left_def
    proof (intro allI impI ballI)
      fix ms h
      assume "missing_chunk_hashes P c' = Inr ms" "h \<in> set ms"
      then have "h \<in> set wanted" "\<not> blob_has (stores c') h" using missing_shrinks [OF q f assms(2)] by blast+
      then show "\<not> blob_has (stores b) h" using got new(1,3) \<open>\<not> again\<close> by blast
    qed
  qed
qed

lemma honest_content:
  assumes "wire_ok W" "addressed P b" "nd_open (snd s)" "nd_core (snd s) = b"
    and l: "content_loop P W (node_stream P W bctx) limits i out s = (Inr (j, out'), s')"
  shows "content_deferred out' \<or> nothing_left P b (fst s')"
proof -
  let ?S = "node_stream P W bctx"
  let ?I = "\<lambda>s. nd_open (snd s) \<and> nd_core (snd s) = b"
  have step: "?I s' \<and> (\<forall>out'. f = Break out' \<longrightarrow> content_deferred out' \<or> nothing_left P b (fst s'))"
    if I: "?I s" and r: "content_round P W ?S limits i out s = (Inr (j, f), s')" for i j out s f s'
  proof -
    obtain wanted where w: "missing_chunk_hashes P (fst s) = Inr wanted"
      using r unfolding content_round_def by (auto simp: bindE_eq_Inr on_core_eq)
    show ?thesis
    proof (cases "wanted = [] \<or> \<not> sl_content limits \<or> content_bytes out \<ge> sl_max_content_bytes limits")
      case True
      then show ?thesis
        using r w I by (auto simp: content_round_def bindE_eq_Inr on_core_eq nothing_left_def split: if_splits)
    next
      case False
      let ?m = "min BLOB_BATCH_BYTES (saturating_sub (sl_max_content_bytes limits) (content_bytes out))"
      obtain reply s1 blobs again where k: "ask W ?S (env (i + 1) None (WantBlobs wanted ?m)) (fst s, snd s) = (Inr reply, s1)"
        and o: "blobs_of reply = Inr (blobs, again)"
        and t: "content_batch P wanted blobs again out (fst s1) = (Inr f, fst s')" "snd s' = snd s1"
        using r w False unfolding content_round_def by (auto simp: bindE_eq_Inr on_core_eq lift_result_def)
      have an: "\<exists>w. serve_request P bctx b (WantBlobs wanted ?m) = Inr (Some reply, w)"
        and s1: "nd_core (snd s1) = b" "nd_open (snd s1)" "fst s1 = fst s"
        using ask_open [OF assms(1) _ k] I by (auto simp: env_def)
      have sv: "serve_blobs b (min ?m BLOB_BATCH_BYTES) wanted 0 [] = (blobs, again)"
        using an o by (auto simp: serve_request_def blobs_of_def split: prod.splits)
      have "content_bytes out < sl_max_content_bytes limits" using False by (simp add: not_le)
      then have cap: "0 < min ?m BLOB_BATCH_BYTES" by (auto simp: saturating_sub_def BLOB_BATCH_BYTES_def min_def word_gt_0)
      have "nothing_left P b (fst s')" if "f = Break out'" for out'
        using honest_content_batch [OF assms(2) w cap sv, of out out' "fst s'"] t(1) s1(3) that by simp
      then show ?thesis using t(2) s1 by simp
    qed
  qed
  show ?thesis
    by (rule content_loop_rule [where I = "\<lambda>out. ?I", OF _ _ _ l]) (use step assms(3,4) in blast)+
qed

section \<open>A completed pull\<close>

text \<open>Logged operations stay logged through any session.\<close>

definition log_kept :: "core \<Rightarrow> core \<Rightarrow> bool" where
  "log_kept c c' \<longleftrightarrow> (\<forall>i. held c i \<longrightarrow> held c' i) \<and> core_proofs c' = core_proofs c"

interpretation lk: session_rel P log_kept for P
proof unfold_locales
  show "log_kept a c" if "log_kept a b" "log_kept b c" for a b c using that by (simp add: log_kept_def)
  show "log_kept c c'" if "authorize pol d k c = (r, c')" for pol d k c r c'
    using authorize_cases [OF that] by (auto simp: log_kept_def held_def)
  show "log_kept c (append_op P op c)" for P op c by (simp add: log_kept_def) (simp add: append_op_def)
qed (auto simp: log_kept_def held_def mark_op_applied_def clear_pending_def observe_time_def store_pending_def
    set_head_def set_state_root_def)

lemma greet_logged:
  assumes "greet P W S ctx feats now (c, p) = (r, s1)"
  shows "pulling P b c (fst s1) \<longleftrightarrow> pulling P b c c"
proof -
  let ?same = "\<lambda>c c'. (\<forall>k. kv_get c' CF_OPLOG k = kv_get c CF_OPLOG k) \<and> core_proofs c' = core_proofs c"
  have po: "reflp (core_part ?same)" "transp (core_part ?same)" by (auto simp: reflp_def transp_def)
  have a: "keeps ?same (authorize pol d k)" for pol d k
    by (rule keepsI) (auto dest!: authorize_cases)
  have h: "keeps ?same (make_hello P W i d fs bi now)" for i d fs bi
    by (rule keepsI) (auto simp: make_hello_def bindE_def draw32_def Let_def)
  have on: "keeps (core_part ?same) (on_core m)" if "keeps ?same m" for m :: "(core, 'x) comp"
    by (rule keepsI) (use keepsD [OF that] in \<open>auto simp: on_core_eq\<close>)
  have "keeps (core_part ?same) (greet P W S ctx feats now)"
    unfolding greet_def
    by (intro keeps_bindE [OF po(2)] keeps_basic [OF po(1)] keeps_lift [OF po(1)] on a h)
      (rule keepsI, simp add: ask_core)
  from keepsD [OF this assms] have s: "\<forall>k. kv_get (fst s1) CF_OPLOG k = kv_get c CF_OPLOG k" "core_proofs (fst s1) = core_proofs c"
    by auto
  have "held (fst s1) = held c" using s(1) by (simp add: fun_eq_iff held_def)
  moreover have "logged_ok P (fst s1) = logged_ok P c" using logged_cong [of "fst s1" c P "{}"] s(1) by (simp add: logged_with_def)
  ultimately show ?thesis using s(2) by (simp add: pulling_def)
qed


section \<open>A session between two nodes\<close>

text \<open>Device 2 has made a directory below one device 1 does not know; device 1 pulls, logs the operation and parks it.\<close>

definition sample_mkdir :: fs_op where
  "sample_mkdir = sample_op (OpId 2 1) (Mkdir 9 ''d'' 0)"

definition sample_peer :: core where
  "sample_peer = append_op sample sample_mkdir sample_core"

definition sample_peer_ctx :: session_ctx where
  "sample_peer_ctx = \<lparr>cx_identity = from_seed sample 8, cx_device_id = 2, cx_trust = \<lparr>tofu = True\<rparr>, cx_wake = False\<rparr>"

definition sample_hello :: msg where
  "sample_hello = Hello 1 7 [''ops'', ''blobs''] build_info 0 0 (replicate 64 0)"

definition sample_ack :: msg where
  "sample_ack = HelloAck True None [''ops'', ''blobs''] 2 8 0 (replicate 64 0)"

definition sample_talk :: "message_envelope list" where
  "sample_talk = [env 1 None sample_hello, env 1 (Some 1) sample_ack, env 2 None (Have empty_summary None),
     env 2 (Some 2) (OpsBatch [sample_mkdir] False)]"

abbreviation talk_wire :: wire where
  "talk_wire \<equiv> sample_wire sample_talk"

lemma talk_short: "e \<in> set sample_talk \<Longrightarrow> length (enc_env talk_wire e) \<le> 4"
  using coded_short [of e sample_talk] by (simp add: sample_talk_def)

lemma ask_runs:
  assumes "wire_ok W" "length (enc_env W e) \<le> MAX_FRAME_LEN" "node_answer P W ctx e n m n0"
    and "length (enc_env W (env (nd_next n0 + 1) (Some (msg_id e)) m)) \<le> MAX_FRAME_LEN"
  shows "ask W (node_stream P W ctx) e (c, n) = (Inr m, c, n0\<lparr>nd_next := nd_next n0 + 1, nd_out := []\<rparr>)"
proof -
  let ?e = "env (nd_next n0 + 1) (Some (msg_id e)) m"
  have lt: "length (enc_env W e) < 2 ^ 32" "length (enc_env W ?e) < 2 ^ 32" using assms(2,4) by (auto simp: MAX_FRAME_LEN_def)
  have "node_write P W ctx (frame W e) n = deliver W (Some (msg_id e)) m n0"
    using assms(2,3) lt recv_pipe [OF assms(1) lt(1), of MAX_FRAME_LEN "nd_core n" "[]" "[]"]
    by (auto simp: node_write_def node_answer_def length_frame)
  also have "\<dots> = (True, n0\<lparr>nd_next := nd_next n0 + 1, nd_out := frame W ?e\<rparr>)" using lt(2) by (simp add: deliver_def)
  finally have "send_msg W (node_stream P W ctx) e (c, n) = (Inr (), c, n0\<lparr>nd_next := nd_next n0 + 1, nd_out := frame W ?e\<rparr>)"
    by (simp add: send_msg_def node_stream_def)
  then show ?thesis
    using recv_node [OF assms(1) lt(2), of P ctx MAX_FRAME_LEN c "n0\<lparr>nd_next := nd_next n0 + 1\<rparr>"] assms(4)
    by (simp add: ask_def bindE_def env_def)
qed

lemma mkdir_fields [simp]: "op_id sample_mkdir = OpId 2 1" "op_kind sample_mkdir = Mkdir 9 ''d'' 0"
  by (simp_all add: sample_mkdir_def sample_op_def)

lemma mkdir_accepted: "verify_op sample sample_mkdir = Inr ()" "check_proof sample sample_mkdir PolicyNone = Inr ()"
  by (simp_all add: verify_op_def check_proof_def sample_mkdir_def sample_op_def verify_def sample_def SIGNATURE_LENGTH_def)

abbreviation peer_after :: core where
  "peer_after \<equiv> kv_put CF_META (peer_key_for 1) (to_be_bytes 32 (7 :: key32)) sample_peer"

lemma peer_log: "log_ops sample peer_after = [sample_mkdir]" "log_ops sample sample_peer = [sample_mkdir]"
proof -
  have "kv_scan sample_peer CF_OPLOG OP_PREFIX = [(op_key 2 1, enc_op sample sample_mkdir)]"
    by (rule single_scan) (auto simp: sample_peer_def append_op_def split: if_splits)
  moreover have "kv_scan peer_after CF_OPLOG OP_PREFIX = [(op_key 2 1, enc_op sample sample_mkdir)]"
    by (rule single_scan) (auto simp: sample_peer_def append_op_def split: if_splits)
  ultimately show "log_ops sample peer_after = [sample_mkdir]" "log_ops sample sample_peer = [sample_mkdir]"
    by (simp_all add: log_ops_def sample_ok)
qed

lemma peer_oplog_ok: "oplog_ok sample sample_peer" "oplog_ok sample peer_after"
proof -
  show p: "oplog_ok sample sample_peer" unfolding sample_peer_def by (rule oplog_ok_append [OF sample_ok(1)]) simp
  then show "oplog_ok sample peer_after" by (simp add: oplog_ok_def)
qed

lemma unclaimed: "\<not> claims empty_summary (OpId 2 1)"
  by (simp add: claims_def empty_summary_def watermark_of_def summary_watermarks_def extra_held_def summary_extras_def collect_map_def)

lemma peer_offer: "ops_missing_for sample peer_after empty_summary OPS_BATCH = Inr [sample_mkdir]"
  by (simp add: ops_missing_eq [OF peer_oplog_ok(2)] peer_log unclaimed OPS_BATCH_def)

abbreviation pinned_core :: core where
  "pinned_core \<equiv> kv_put CF_META (peer_key_for 2) (to_be_bytes 32 (8 :: key32)) (sample_core\<lparr>draws := Suc 0\<rparr>)"

lemma pinned_kv: "kv_get pinned_core CF_OPLOG k = None" "kv_get pinned_core CF_STATE k = None" "kv_scan pinned_core CF_OPLOG pre = []"
proof -
  show "kv_get pinned_core CF_OPLOG k = None" "kv_get pinned_core CF_STATE k = None" for k by simp_all
  then show "kv_scan pinned_core CF_OPLOG pre = []" by (simp only: kv_scan_Nil) simp
qed

lemma pinned_summary: "clock_summary pinned_core = empty_summary"
proof -
  have "scan_prefix_keys (stores pinned_core) CF_OPLOG OP_PREFIX = []" by (simp add: scan_prefix_keys_eq pinned_kv(3))
  then show ?thesis by (simp add: clock_summary_def empty_summary_def)
qed

text \<open>The directory's parent is unknown here: the operation is parked, and asks for no content.\<close>

lemma mkdir_parks:
  assumes "apply_op sample sample_mkdir pinned_core = (r, c')"
  shows "missing_chunk_hashes sample c' = Inr []"
proof -
  let ?c = "append_op sample sample_mkdir pinned_core"
  have m: "\<exists>why. mutate sample sample_mkdir ?c = (Inr (Unmet why), ?c)"
    by (simp add: mutate_def mutate_create_def bindE_def lift_result_def validate_name_def is_dir_def load_inode_def append_op_def)
  then obtain why where m: "mutate sample sample_mkdir ?c = (Inr (Unmet why), ?c)" ..
  have "\<not> is_op_applied pinned_core (OpId 2 1)" by (simp add: is_op_applied_def)
  moreover have "core_proofs pinned_core = PolicyNone" by (simp add: sample_core_def core_new_def)
  ultimately have st: "settle sample (Pending why) (store_pending sample sample_mkdir ?c) = (r, c')"
    using assms mkdir_accepted by (simp add: apply_op_def apply_op_inner_cases apply_tail_eq m)
  have kp: "keeps queue_shrinks (settle sample (Pending why))"
    unfolding settle_def by (auto intro!: keeps_queue_intros keeps_queue_drain keeps_queue_snapshot)
  have q: "queue_shrinks (store_pending sample sample_mkdir ?c) c'" by (rule keepsD [OF kp st])
  have p: "parked (store_pending sample sample_mkdir ?c) k =
      (if k = pending_key (OpId 2 1) then Some (enc_op sample sample_mkdir) else None)" for k
    by (simp add: parked_def store_pending_def append_op_def)
  have d: "decode_pending sample v = Inr sample_mkdir" if "(k, v) \<in> set (queue c')" for k v
  proof -
    have "parked (store_pending sample sample_mkdir ?c) k = Some v" using that q by (simp only: in_queue queue_shrinks_def)
    then have "v = enc_op sample sample_mkdir" unfolding p by (simp split: if_splits)
    then show ?thesis by (simp add: decode_pending_def sample_ok)
  qed
  have "rmap (\<lambda>(_, v). decode_pending sample v) (queue c') = Inr (map (\<lambda>_. sample_mkdir) (queue c'))"
    by (rule rmap_all_Inr) (use d in \<open>simp only: split_paired_all case_prod_conv\<close>)
  then show ?thesis
    by (simp add: missing_chunk_hashes_def pending_ops_def op_chunk_hashes_def comp_def fs_elems_def sorted_list_of_fset.rep_eq
        fset_of_list.rep_eq)
qed

lemma sample_open:
  "serve_open sample talk_wire sample_peer_ctx (env 1 None sample_hello) sample_peer = ((Some sample_ack, Inr 1), peer_after)"
proof -
  have "verify_hello sample talk_wire sample_hello = Inr \<lparr>ph_device_id = 1, ph_pubkey = 7, ph_features = [''ops'', ''blobs'']\<rparr>"
    by (simp add: verify_hello_def sample_hello_def verify_def sample_def SIGNATURE_LENGTH_def)
  moreover have "authorize \<lparr>tofu = True\<rparr> 1 7 sample_peer = (Inr (), peer_after)"
    by (simp add: authorize_def enrol_peer_def enrol_seal_def bindE_def peer_key_def sample_peer_def append_op_def)
  moreover have "make_hello_ack sample talk_wire (from_seed sample 8) 2 True None [''ops'', ''blobs''] 0 = sample_ack"
    by (simp add: make_hello_ack_def sample_ack_def pubkey_bytes_def from_seed_def sign_def sample_def)
  ultimately show ?thesis
    by (simp add: serve_open_def sample_peer_ctx_def env_def PROTOCOL_VERSION_def hello_nonce_def sample_hello_def)
qed

abbreviation talk_stream :: "node stream" where
  "talk_stream \<equiv> node_stream sample talk_wire sample_peer_ctx"

abbreviation node_at :: "core \<Rightarrow> bool \<Rightarrow> u64 \<Rightarrow> node" where
  "node_at b op i \<equiv> \<lparr>nd_core = b, nd_open = op, nd_next = i, nd_out = []\<rparr>"

lemma fits: "e \<in> set sample_talk \<Longrightarrow> length (enc_env talk_wire e) \<le> MAX_FRAME_LEN"
  using talk_short by (fastforce simp: MAX_FRAME_LEN_def)

lemma talk_greets:
  "greet sample talk_wire talk_stream sample_ctx [''ops'', ''blobs''] 0 (sample_core, node_at sample_peer False 0) =
     (Inr \<lparr>ph_device_id = 2, ph_pubkey = 8, ph_features = [''ops'', ''blobs'']\<rparr>, pinned_core, node_at peer_after True 1)"
proof -
  have h: "make_hello sample talk_wire (from_seed sample 7) 1 [''ops'', ''blobs''] build_info 0 sample_core =
      (Inr sample_hello, sample_core\<lparr>draws := Suc 0\<rparr>)"
    by (simp add: make_hello_def bindE_def draw32_def sample_hello_def pubkey_bytes_def from_seed_def sign_def sample_def
        sample_core_def core_new_def)
  have "node_answer sample talk_wire sample_peer_ctx (env 1 None sample_hello) (node_at sample_peer False 0) sample_ack
      (node_at peer_after True 0)"
    by (simp add: node_answer_def sample_open)
  from ask_runs [OF sample_wire_ok fits this, of "sample_core\<lparr>draws := Suc 0\<rparr>"]
  have a: "ask talk_wire talk_stream (env 1 None sample_hello) (sample_core\<lparr>draws := Suc 0\<rparr>, node_at sample_peer False 0) =
      (Inr sample_ack, sample_core\<lparr>draws := Suc 0\<rparr>, node_at peer_after True 1)"
    using fits [of "env 1 (Some 1) sample_ack"] by (simp add: sample_talk_def env_def)
  have v: "verify_hello_ack sample talk_wire sample_ack 0 = Inr \<lparr>ph_device_id = 2, ph_pubkey = 8, ph_features = [''ops'', ''blobs'']\<rparr>"
    by (simp add: verify_hello_ack_def sample_ack_def verify_def sample_def SIGNATURE_LENGTH_def)
  have z: "authorize \<lparr>tofu = True\<rparr> 2 8 (sample_core\<lparr>draws := Suc 0\<rparr>) = (Inr (), pinned_core)"
    by (simp add: authorize_def enrol_peer_def enrol_seal_def bindE_def peer_key_def)
  have "hello_nonce sample_hello = Inr 0" by (simp add: hello_nonce_def sample_hello_def)
  moreover have "ack_of sample_ack = Inr sample_ack" by (simp add: ack_of_def sample_ack_def)
  ultimately show ?thesis
    unfolding greet_def sample_ctx_def
    by (simp add: bindE_def on_core_def lift_result_def h a v z)
qed

lemma talk_pulls:
  "\<exists>out s'. pull_from_peer sample talk_wire talk_stream sample_ctx 0 limits_unlimited (sample_core, node_at sample_peer False 0) =
     (Inr out, s')"
proof -
  let ?e = "env 2 None (Have empty_summary None)" and ?o = "outcome_default\<lparr>so_peer := Some 2\<rparr>"
  obtain r c' where ap: "apply_op sample sample_mkdir pinned_core = (r, c')" by (cases "apply_op sample sample_mkdir pinned_core")
  have "node_answer sample talk_wire sample_peer_ctx ?e (node_at peer_after True 1) (OpsBatch [sample_mkdir] False) (node_at peer_after True 1)"
    by (simp add: node_answer_def serve_request_def env_def peer_offer) (auto simp: OPS_BATCH_def intro: exI [of _ False])
  from ask_runs [OF sample_wire_ok fits this, of pinned_core]
  have a: "ask talk_wire talk_stream ?e (pinned_core, node_at peer_after True 1) =
      (Inr (OpsBatch [sample_mkdir] False), pinned_core, node_at peer_after True 2)"
    using fits [of "env 2 (Some 2) (OpsBatch [sample_mkdir] False)"] by (simp add: sample_talk_def env_def)
  obtain out1 where b: "ops_batch sample empty_summary [sample_mkdir] False ?o pinned_core = (Inr (Break out1), c')"
    using ap by (auto simp: ops_batch_def Let_def MAX_OPS_PER_SESSION_def outcome_default_def)
  have "ops_round sample talk_wire talk_stream 2 ?o (pinned_core, node_at peer_after True 1) =
      (Inr (Break out1), c', node_at peer_after True 2)"
    by (simp add: ops_round_def bindE_def on_core_def pinned_summary a ops_of_def lift_result_def b)
  then have o: "ops_loop sample talk_wire talk_stream 1 ?o (pinned_core, node_at peer_after True 1) =
      (Inr (2, out1), c', node_at peer_after True 2)"
    by (simp add: ops_loop.simps [of _ _ _ 1])
  have "content_loop sample talk_wire talk_stream limits_unlimited 2 out1 (c', node_at peer_after True 2) =
      (Inr (2, out1), c', node_at peer_after True 2)"
    by (simp add: content_loop.simps [of _ _ _ _ 2] content_round_def bindE_def on_core_def mkdir_parks [OF ap])
  then show ?thesis
    unfolding pull_from_peer_def by (simp add: bindE_def talk_greets o send_ok_def on_core_def case_prod_unfold)
qed

abbreviation sample_pull :: "(error + sync_outcome) \<times> core \<times> node" where
  "sample_pull \<equiv> pull_from_peer sample talk_wire talk_stream sample_ctx 0 limits_unlimited (sample_core, node_at sample_peer False 0)"

theorem pull_authenticates_witness:
  "\<exists>out d k. fst sample_pull = Inr out \<and> so_peer out = Some d \<and> peer_key (fst (snd sample_pull)) d = Inr (Some k)"
proof -
  obtain out c' p' where r: "sample_pull = (Inr out, c', p')" using talk_pulls by (metis prod.collapse)
  from pull_authenticates [OF r] r show ?thesis by auto
qed


end
