(* ===== verification/Repository_Audit.thy ===== *)
theory Repository_Audit
  imports Ops_Laws
begin

text \<open>
  The repository audit: \<open>VerifyReport\<close> and \<open>verify_repository\<close> of \<open>src/crates/core/src/proof.rs\<close>, and what a passed audit
  means.
\<close>

record verify_report =
  vr_operations :: nat
  with_proof :: nat
  without_proof :: nat
  malformed :: nat
  roots_matched :: nat
  roots_mismatched :: nat
  signature_failures :: nat
  unreadable_files :: "string list"
  vr_state_root :: "hash option"

definition verify_report_default :: verify_report where
  "verify_report_default = \<lparr>vr_operations = 0, with_proof = 0, without_proof = 0, malformed = 0, roots_matched = 0,
     roots_mismatched = 0, signature_failures = 0, unreadable_files = [], vr_state_root = None\<rparr>"

definition report_ok :: "verify_report \<Rightarrow> bool" where
  "report_ok r \<longleftrightarrow> malformed r = 0 \<and> signature_failures r = 0 \<and> roots_mismatched r = 0 \<and> unreadable_files r = []"

definition audit_proof :: "prims \<Rightarrow> proof_bundle option \<Rightarrow> verify_report \<Rightarrow> verify_report" where
  "audit_proof P proof r =
     (case proof of
        None \<Rightarrow> r\<lparr>without_proof := without_proof r + 1\<rparr>
      | Some bundle \<Rightarrow>
          (case pb_mode bundle of
             PM_Transparent \<Rightarrow>
               (case dec_tproof P (pb_bytes bundle) of
                  Some _ \<Rightarrow> r\<lparr>with_proof := with_proof r + 1\<rparr>
                | None \<Rightarrow> r\<lparr>malformed := malformed r + 1\<rparr>)
           | PM_ZkCommit \<Rightarrow>
               (case dec_cproof P (pb_bytes bundle) of
                  Some p \<Rightarrow>
                    if ip_verify (blake3 P) (cp_entry p) (cp_new_root p) then r\<lparr>with_proof := with_proof r + 1\<rparr>
                    else r\<lparr>malformed := malformed r + 1\<rparr>
                | None \<Rightarrow> r\<lparr>malformed := malformed r + 1\<rparr>)
           | _ \<Rightarrow> r\<lparr>malformed := malformed r + 1\<rparr>))"

definition audit_op :: "prims \<Rightarrow> fs_op \<Rightarrow> verify_report \<Rightarrow> verify_report" where
  "audit_op P op r =
     (let r = r\<lparr>vr_operations := vr_operations r + 1\<rparr>;
          r = (if isl (verify_op P op) then r\<lparr>signature_failures := signature_failures r + 1\<rparr> else r)
      in audit_proof P (op_proof op) r)"

definition unreadable :: "prims \<Rightarrow> core \<Rightarrow> listed_entry list \<Rightarrow> string list" where
  "unreadable P c es = map we_path (filter (\<lambda>e. we_kind e = File \<and> isl (read_file_path P c (we_path e))) es)"

definition verify_repository :: "prims \<Rightarrow> core \<Rightarrow> verify_report result" where
  "verify_repository P c =
     rbind (all_ops P c) (\<lambda>ops.
     let report = fold (audit_op P) ops verify_report_default in
     rbind (walk_path P c ''/'') (\<lambda>es.
     Inr (report\<lparr>unreadable_files := unreadable P c es, vr_state_root := get_state_root c\<rparr>)))"

section \<open>What a passed audit means\<close>

text \<open>Evidence that is acceptable to the audit: absent, or of a known mode and checkable on its own.\<close>

definition evidence_sound :: "prims \<Rightarrow> fs_op \<Rightarrow> bool" where
  "evidence_sound P op \<longleftrightarrow>
     (case op_proof op of
        None \<Rightarrow> True
      | Some b \<Rightarrow>
          (pb_mode b = PM_Transparent \<and> dec_tproof P (pb_bytes b) \<noteq> None) \<or>
          (pb_mode b = PM_ZkCommit \<and>
             (\<exists>p. dec_cproof P (pb_bytes b) = Some p \<and> ip_verify (blake3 P) (cp_entry p) (cp_new_root p))))"

lemma audit_proof_counts:
  "malformed (audit_proof P (op_proof op) r) = malformed r + (if evidence_sound P op then 0 else 1)"
  "with_proof (audit_proof P (op_proof op) r) + without_proof (audit_proof P (op_proof op) r) + malformed (audit_proof P (op_proof op) r) =
     Suc (with_proof r + without_proof r + malformed r)"
  "vr_operations (audit_proof P pr r) = vr_operations r" "signature_failures (audit_proof P pr r) = signature_failures r"
  "roots_mismatched (audit_proof P pr r) = roots_mismatched r"
  by (auto simp: audit_proof_def evidence_sound_def split: option.split proof_mode.split)

definition tally :: "verify_report \<Rightarrow> nat" where
  "tally r = with_proof r + without_proof r + malformed r"

lemma tally_audit_op: "tally (audit_op P op r) = Suc (tally r)"
  by (simp add: audit_op_def Let_def tally_def audit_proof_counts(2))

lemma audit_fold:
  "malformed (fold (audit_op P) ops r) = malformed r + length (filter (\<lambda>op. \<not> evidence_sound P op) ops)"
    "signature_failures (fold (audit_op P) ops r) = signature_failures r + length (filter (\<lambda>op. isl (verify_op P op)) ops)"
    "roots_mismatched (fold (audit_op P) ops r) = roots_mismatched r"
    "vr_operations (fold (audit_op P) ops r) = vr_operations r + length ops"
    "tally (fold (audit_op P) ops r) = tally r + length ops"
proof (induction ops arbitrary: r)
  case (Cons op ops)
  {
    case 5
    show ?case using Cons.IH(5) by (simp add: tally_audit_op)
  }
qed (auto simp: audit_op_def Let_def audit_proof_counts)

lemma unit_result: "\<not> isl r \<longleftrightarrow> r = Inr ()"
  by (cases r) auto


definition sample_logged_core :: core where
  "sample_logged_core = append_op sample (sample_op (OpId 1 1) (CreateFile ROOT_INODE ''f'' 0)) sample_doc_core"

lemma sample_logged_frame:
  "load_dir sample sample_logged_core = load_dir sample sample_doc_core"
  "load_inode sample sample_logged_core = load_inode sample sample_doc_core"
  "all_ops sample sample_logged_core = Inr [sample_op (OpId 1 1) (CreateFile ROOT_INODE ''f'' 0)]"
proof -
  let ?op = "sample_op (OpId 1 1) (CreateFile ROOT_INODE ''f'' 0)"
  show "load_dir sample sample_logged_core = load_dir sample sample_doc_core"
    "load_inode sample sample_logged_core = load_inode sample sample_doc_core"
    by (simp_all add: fun_eq_iff sample_logged_core_def append_op_def load_dir_def load_inode_def)
  have "kv_scan sample_logged_core CF_OPLOG OP_PREFIX = [(op_key 1 1, enc_op sample ?op)]"
    by (rule single_scan) (auto simp: sample_logged_core_def append_op_def sample_op_def)
  then show "all_ops sample sample_logged_core = Inr [?op]"
    using sample_ok(1) by (simp add: all_ops_def decode_op_def)
qed


end
