(* ===== verification/Share.thy ===== *)
theory Share
  imports Ops_Laws
begin

text \<open>
  Re-sealing files to the current recipients and rotating their keys: \<open>src/crates/core/src/share.rs\<close>. Both passes are a loop
  over the live files; the body of each loop is one definition, and the reports count in \<open>nat\<close> where the code counts in
  \<open>usize\<close>.
\<close>

section \<open>Finding the files\<close>

text \<open>\<open>encrypted_files\<close> pushes a directory the first time it sees it, so its stack is bounded by the inodes not yet seen.\<close>

type_synonym scan = "u128 fset \<times> u128 list \<times> (u128 \<times> hash) list"

fun scan_entries :: "prims \<Rightarrow> core \<Rightarrow> dir_entry list \<Rightarrow> scan \<Rightarrow> scan result" where
  "scan_entries P c [] st = Inr st"
| "scan_entries P c (e # es) (seen, stack, out) =
     (if de_inode_id e |\<in>| seen then scan_entries P c es (seen, stack, out)
      else
        let seen = finsert (de_inode_id e) seen in
        case de_entry_type e of
          Dir \<Rightarrow> scan_entries P c es (seen, de_inode_id e # stack, out)
        | File \<Rightarrow>
            rbind (load_inode P c (de_inode_id e)) (\<lambda>record.
            scan_entries P c es
              (seen, stack,
               case record of
                 None \<Rightarrow> out
               | Some r \<Rightarrow>
                   (case ct_node_hash (lww_value (ir_content r)) of None \<Rightarrow> out | Some h \<Rightarrow> out @ [(de_inode_id e, h)]))))"

definition scan_measure :: "scan \<Rightarrow> nat" where
  "scan_measure st = (case st of (seen, stack, _) \<Rightarrow> card (- fset seen) + length stack)"

lemma card_less_seen: "i |\<notin>| seen \<Longrightarrow> Suc (card (- fset (finsert i seen))) = card (- fset (seen :: u128 fset))"
  by (metis Compl_iff Compl_insert card.remove finite finsert.rep_eq)

lemma scan_entries_measure: "scan_entries P c es st = Inr st' \<Longrightarrow> scan_measure st' \<le> scan_measure st"
proof (induction es arbitrary: st)
  case (Cons e es)
  obtain seen stack out where st: "st = (seen, stack, out)" by (cases st)
  show ?case
  proof (cases "de_inode_id e |\<in>| seen")
    case False
    let ?seen = "finsert (de_inode_id e) seen"
    obtain stack' out' where "scan_entries P c es (?seen, stack', out') = Inr st'" "length stack' \<le> Suc (length stack)"
      using Cons.prems False by (cases "de_entry_type e") (auto simp: st Let_def rbind_Inr_iff)
    then show ?thesis using Cons.IH [of "(?seen, stack', out')"] card_less_seen [OF False] by (auto simp: st scan_measure_def)
  qed (use Cons in \<open>simp add: st\<close>)
qed simp

declare rbind_cong [fundef_cong]

function scan_loop :: "prims \<Rightarrow> core \<Rightarrow> scan \<Rightarrow> (u128 \<times> hash) list result" where
  "scan_loop P c (seen, [], out) = Inr out"
| "scan_loop P c (seen, dir # stack, out) =
     rbind (materialize_dir P c dir) (\<lambda>es.
     rbind (scan_entries P c es (seen, stack, out)) (\<lambda>st.
     scan_loop P c st))"
  by pat_completeness auto
termination
  by (relation "measure (\<lambda>(P, c, st). scan_measure st)")
    (auto dest!: scan_entries_measure simp: scan_measure_def split: prod.splits)

definition encrypted_files :: "prims \<Rightarrow> core \<Rightarrow> (u128 \<times> hash) list result" where
  "encrypted_files P c = scan_loop P c ({||}, [ROOT_INODE], [])"

section \<open>Re-sealing\<close>

record share_report =
  sh_files_scanned :: nat
  already_current :: nat
  resealed :: nat
  sh_unreadable :: nat
  sh_plaintext :: nat
  sh_dry_run :: bool

definition share_report_new :: "bool \<Rightarrow> share_report" where
  "share_report_new dry = \<lparr>sh_files_scanned = 0, already_current = 0, resealed = 0, sh_unreadable = 0, sh_plaintext = 0, sh_dry_run = dry\<rparr>"

definition reseal_info ::
    "prims \<Rightarrow> identity \<Rightarrow> u64 \<Rightarrow> bool \<Rightarrow> key32 list \<Rightarrow> u128 \<Rightarrow> file_node \<Rightarrow> key32 \<Rightarrow> file_encryption \<Rightarrow> share_report
     \<Rightarrow> (core, share_report) comp" where
  "reseal_info P ident now dry recips inode node file_key info report =
     (let want = recipients_digest P file_key recips in
      if sealed_key info = None \<and> fe_recipients_digest info = Some want
      then ret (report\<lparr>already_current := already_current report + 1\<rparr>)
      else if dry then ret (report\<lparr>resealed := resealed report + 1\<rparr>)
      else
        bindE (seal_all P file_key recips) (\<lambda>sealed.
        bindE (apply_local P ident
                 (Write inode 0 (fn_chunks node) (fn_size node)
                    (Some \<lparr>sealed_key = None, recipients = sealed, fe_recipients_digest = Some want\<rparr>)) now) (\<lambda>_.
        ret (report\<lparr>resealed := resealed report + 1\<rparr>))))"

definition reseal_file ::
    "prims \<Rightarrow> identity \<Rightarrow> u64 \<Rightarrow> bool \<Rightarrow> key32 list \<Rightarrow> u128 \<times> hash \<Rightarrow> share_report \<Rightarrow> (core, share_report) comp" where
  "reseal_file P ident now dry recips f report =
     (let report = report\<lparr>sh_files_scanned := sh_files_scanned report + 1\<rparr> in
      bindE (reads (\<lambda>c. get_object P c (snd f))) (\<lambda>ob.
      case ob of
        Some (FileNode node) \<Rightarrow>
          (case fn_encryption node of
             None \<Rightarrow> ret (report\<lparr>sh_plaintext := sh_plaintext report + 1\<rparr>)
           | Some info \<Rightarrow>
               bindE (reads (\<lambda>c. Inr (recover_file_key P c info))) (\<lambda>key.
               case key of
                 Inl _ \<Rightarrow> ret (report\<lparr>sh_unreadable := sh_unreadable report + 1\<rparr>)
               | Inr file_key \<Rightarrow> reseal_info P ident now dry recips (fst f) node file_key info report))
      | _ \<Rightarrow> ret report))"

fun reseal_loop ::
    "prims \<Rightarrow> identity \<Rightarrow> u64 \<Rightarrow> bool \<Rightarrow> key32 list \<Rightarrow> (u128 \<times> hash) list \<Rightarrow> share_report \<Rightarrow> (core, share_report) comp" where
  "reseal_loop P ident now dry recips [] report = ret report"
| "reseal_loop P ident now dry recips (f # fs) report =
     bindE (reseal_file P ident now dry recips f report) (\<lambda>report. reseal_loop P ident now dry recips fs report)"

definition reseal_to_recipients :: "prims \<Rightarrow> identity \<Rightarrow> u64 \<Rightarrow> bool \<Rightarrow> (core, share_report) comp" where
  "reseal_to_recipients P ident now dry =
     bindE (reads (sealing_recipient_keys P)) (\<lambda>recips.
     if recips = [] then raise (Bail ''this node has no sealing key'')
     else
       bindE (reads (encrypted_files P)) (\<lambda>files.
       reseal_loop P ident now dry recips files (share_report_new dry)))"

section \<open>Rotation\<close>

record rotate_report =
  ro_files_scanned :: nat
  rotated :: nat
  ro_unreadable :: nat
  ro_plaintext :: nat
  ro_bytes :: u64
  ro_dry_run :: bool

definition rotate_report_new :: "bool \<Rightarrow> rotate_report" where
  "rotate_report_new dry = \<lparr>ro_files_scanned = 0, rotated = 0, ro_unreadable = 0, ro_plaintext = 0, ro_bytes = 0, ro_dry_run = dry\<rparr>"

definition rotate_node ::
    "prims \<Rightarrow> identity \<Rightarrow> u64 \<Rightarrow> bool \<Rightarrow> u128 \<Rightarrow> bytes \<Rightarrow> rotate_report \<Rightarrow> (core, rotate_report) comp" where
  "rotate_node P ident now dry inode plain report =
     (let report = report\<lparr>ro_bytes := ro_bytes report + word_of_nat (length plain)\<rparr> in
      if dry then ret (report\<lparr>rotated := rotated report + 1\<rparr>)
      else
        bindE (store_content P plain) (\<lambda>(chunks, encryption).
        bindE (apply_local P ident (Write inode 0 chunks (word_of_nat (length plain)) encryption) now) (\<lambda>_.
        ret (report\<lparr>rotated := rotated report + 1\<rparr>))))"

definition rotate_file ::
    "prims \<Rightarrow> identity \<Rightarrow> u64 \<Rightarrow> bool \<Rightarrow> u128 option \<Rightarrow> u128 \<times> hash \<Rightarrow> rotate_report \<Rightarrow> (core, rotate_report) comp" where
  "rotate_file P ident now dry target f report =
     (if (case target of Some want \<Rightarrow> want \<noteq> fst f | None \<Rightarrow> False) then ret report
      else
        let report = report\<lparr>ro_files_scanned := ro_files_scanned report + 1\<rparr> in
        bindE (reads (\<lambda>c. get_object P c (snd f))) (\<lambda>ob.
        case ob of
          Some (FileNode node) \<Rightarrow>
            if fn_encryption node = None then ret (report\<lparr>ro_plaintext := ro_plaintext report + 1\<rparr>)
            else
              bindE (reads (\<lambda>c. Inr (materialize_file P c node))) (\<lambda>content.
              case content of
                Inl _ \<Rightarrow> ret (report\<lparr>ro_unreadable := ro_unreadable report + 1\<rparr>)
              | Inr plain \<Rightarrow> rotate_node P ident now dry (fst f) plain report)
        | _ \<Rightarrow> ret report))"

fun rotate_loop ::
    "prims \<Rightarrow> identity \<Rightarrow> u64 \<Rightarrow> bool \<Rightarrow> u128 option \<Rightarrow> (u128 \<times> hash) list \<Rightarrow> rotate_report \<Rightarrow> (core, rotate_report) comp" where
  "rotate_loop P ident now dry target [] report = ret report"
| "rotate_loop P ident now dry target (f # fs) report =
     bindE (rotate_file P ident now dry target f report) (\<lambda>report. rotate_loop P ident now dry target fs report)"

definition rotate_target :: "prims \<Rightarrow> core \<Rightarrow> string option \<Rightarrow> u128 option result" where
  "rotate_target P c only_path =
     (case only_path of
        None \<Rightarrow> Inr None
      | Some path \<Rightarrow>
          rbind (stat_file P c path) (\<lambda>s.
          case s of None \<Rightarrow> Inl (Bail ''no such file'') | Some (inode, _, _) \<Rightarrow> Inr (Some inode)))"

definition rotate_content :: "prims \<Rightarrow> identity \<Rightarrow> string option \<Rightarrow> u64 \<Rightarrow> bool \<Rightarrow> (core, rotate_report) comp" where
  "rotate_content P ident only_path now dry =
     bindE (reads (\<lambda>c. Inr (cipher c = None \<and> sealing_secret c = None))) (\<lambda>keyless.
     if keyless then raise (Bail ''this node has no key material configured'')
     else
       bindE (reads (\<lambda>c. rotate_target P c only_path)) (\<lambda>target.
       bindE (reads (encrypted_files P)) (\<lambda>files.
       bindE (rotate_loop P ident now dry target files (rotate_report_new dry)) (\<lambda>report.
       if only_path \<noteq> None \<and> ro_files_scanned report = 0
       then raise (Bail ''is not an encrypted file, so it has no key to rotate'')
       else ret report))))"

end
