(* ===== verification/Share_Laws.thy ===== *)
theory Share_Laws
  imports Share
begin

text \<open>
  What re-sealing and rotation do to one file, and what a whole pass reports: every file is counted once, and a survey writes
  nothing.
\<close>

section \<open>Envelopes open for their recipients\<close>

text \<open>
  No key and no associated data open a ciphertext to anything but what was sealed: the authenticity an AEAD promises.
\<close>

definition aead_binding :: "prims \<Rightarrow> bool" where
  "aead_binding P \<longleftrightarrow>
     (\<forall>k n a m ct k' n' a' m'. aead_enc P k n a m = Some ct \<longrightarrow> aead_dec P k' n' a' ct = Some m' \<longrightarrow> m' = m)"

lemma seal_all_opens:
  assumes "seal_all P fk ks c = (Inr es, c')" "aead_ok P" "dh_ok P" "aead_binding P" "x_public P secret \<in> set ks"
  shows "try_envelopes P secret es = Some (Inr fk)"
  using assms(1,5)
proof (induction ks arbitrary: c es)
  case (Cons k ks)
  obtain eph nonce e es' c1 where e: "envelope_seal P eph nonce k (to_be_bytes 32 fk) = Inr e" and es: "es = e # es'"
    and rest: "seal_all P fk ks c1 = (Inr es', c')"
    using Cons.prems(1) by (auto simp: bindE_eq_Inr seal_one_def draw32_def draw24_def lift_result_def)
  show ?case
  proof (cases "envelope_open P secret e")
    case (Inl err)
    have "k \<noteq> x_public P secret" using envelope_open_seal [OF assms(2,3)] e Inl by fastforce
    then show ?thesis using Cons.IH [OF rest] Cons.prems(2) Inl by (simp add: es)
  next
    case (Inr m)
    have "m = to_be_bytes 32 fk"
      using e Inr assms(4) by (auto simp: envelope_seal_def envelope_open_def aead_binding_def split: option.splits)
    then show ?thesis using Inr by (simp add: es)
  qed
qed simp

lemma seal_all_frame:
  assumes "seal_all P fk ks c = (r, c')"
  shows "kv_get c' = kv_get c" "kv_scan c' = kv_scan c" "blob_get (stores c') = blob_get (stores c)"
    "load_inode P' c' = load_inode P' c" "load_dir P' c' = load_dir P' c" "next_id c' = next_id c" "idle c' = idle c"
    "is_op_applied c' = is_op_applied c" "core_device c' = core_device c" "store_kept c c'"
proof -
  obtain n where "c' = c\<lparr>draws := n\<rparr>" using seal_all_draws [OF assms] by blast
  then show "kv_get c' = kv_get c" "kv_scan c' = kv_scan c" "blob_get (stores c') = blob_get (stores c)"
    "load_inode P' c' = load_inode P' c" "load_dir P' c' = load_dir P' c" "next_id c' = next_id c" "idle c' = idle c"
    "is_op_applied c' = is_op_applied c" "core_device c' = core_device c" "store_kept c c'"
    by (simp_all add: fun_eq_iff load_inode_def load_dir_def next_id_def next_op_counter_def idle_def is_op_applied_def
        Let_def store_kept_def)
qed

section \<open>A local overwrite of one inode\<close>

text \<open>
  The file node a local whole-file write leaves at an inode, from the record of the inode before: the common core of
  re-sealing and of rotation.
\<close>

definition node_at :: "prims \<Rightarrow> core \<Rightarrow> u128 \<Rightarrow> file_node \<Rightarrow> bool" where
  "node_at P c inode node \<longleftrightarrow>
     (\<exists>r h. load_inode P c inode = Inr (Some r) \<and> ir_kind r = File \<and>
        ct_node_hash (lww_value (ir_content r)) = Some h \<and> get_object P c h = Inr (Some (FileNode node)))"

lemma node_at_reads: "node_at P c inode node \<Longrightarrow> read_file P c inode = materialize_file P c node"
  by (auto simp: node_at_def read_file_def)

text \<open>The device's next operation would overwrite the inode's content.\<close>

definition can_overwrite :: "prims \<Rightarrow> core \<Rightarrow> u128 \<Rightarrow> u64 \<Rightarrow> bool" where
  "can_overwrite P c inode now \<longleftrightarrow>
     idle c \<and> \<not> is_op_applied c (next_id c) \<and>
     (\<exists>r. load_inode P c inode = Inr (Some r) \<and> order_key (ir_content r) < (now, core_device c, fst (next_op_counter c)))"

lemma can_overwrite_cong:
  "kv_get c' = kv_get c \<Longrightarrow> kv_scan c' = kv_scan c \<Longrightarrow> core_device c' = core_device c \<Longrightarrow>
     can_overwrite P c' inode now = can_overwrite P c inode now"
  by (simp add: can_overwrite_def idle_def is_op_applied_def next_id_def next_op_counter_def Let_def load_inode_def)

lemma local_write_lands:
  assumes ok: "codec_ok P" and al: "apply_local P ident (Write inode 0 refs n enc) now c = (Inr op, c')"
    and can: "can_overwrite P c inode now" and whole: "chunks_form_whole_file refs n"
    and fresh: "\<And>b. blob_get (stores c) (object_hash P (FileNode (file_node_of refs n now enc))) = Some b \<Longrightarrow>
      b = encode_object P (FileNode (file_node_of refs n now enc))"
  shows "node_at P c' inode (file_node_of refs n now enc) \<and> load_dir P c' = load_dir P c \<and> store_kept c c'"
proof -
  let ?node = "file_node_of refs n now enc" and ?l = "logged P ident (Write inode 0 refs n enc) now c"
  obtain r where r: "load_inode P c inode = Inr (Some r)" "order_key (ir_content r) < (now, core_device c, fst (next_op_counter c))"
    and st: "idle c" "\<not> is_op_applied c (next_id c)"
    using can by (auto simp: can_overwrite_def)
  obtain o1 c2 where m: "mutate P o1 ?l = (Inr Done, c2)"
    and o1: "op_id o1 = next_id c" "op_kind o1 = Write inode 0 refs n enc" "op_time o1 = now"
    and fin: "same_ns P c2 c'" "store_kept c2 c'"
    using apply_local_done [OF al st] by auto
  have lr: "load_inode P ?l inode = Inr (Some r)" using r(1) by simp
  have win: "order_key (ir_content r) < op_order_key o1" using r(2) o1 by (simp add: op_order_key_def next_id_def)
  obtain r' where r': "load_inode P c2 inode = Inr (Some r')" "ir_kind r' = File"
    "ct_node_hash (lww_value (ir_content r')) = Some (object_hash P (FileNode ?node))"
    "get_object P c2 (object_hash P (FileNode ?node)) = Inr (Some (FileNode ?node))"
    and c2: "load_dir P c2 = load_dir P ?l" "store_kept ?l c2"
    by (rule write_sets_node [OF ok m o1(2) whole lr win]) (use fresh o1(3) in auto)
  have "node_at P c' inode ?node"
    using r' fin(1) get_object_kept [OF fin(2)] by (auto simp: node_at_def same_ns_def)
  moreover have "load_dir P c' = load_dir P c" using fin(1) c2(1) by (simp add: same_ns_def fun_eq_iff)
  moreover have "store_kept c c'"
    using store_kept_trans [OF logged_frame(4) store_kept_trans [OF c2(2) fin(2)]] .
  ultimately show ?thesis by blast
qed

section \<open>Re-sealing one file\<close>

text \<open>The node a re-seal of \<open>node\<close> would write is not the hash of some other stored object.\<close>

definition no_reseal_clash :: "prims \<Rightarrow> key32 \<Rightarrow> key32 list \<Rightarrow> file_node \<Rightarrow> u64 \<Rightarrow> core \<Rightarrow> bool" where
  "no_reseal_clash P file_key recips node now c \<longleftrightarrow>
     (\<forall>sealed c1 b. seal_all P file_key recips c = (Inr sealed, c1) \<longrightarrow>
        (let new = FileNode (file_node_of (fn_chunks node) (fn_size node) now
               (Some \<lparr>sealed_key = None, recipients = sealed, fe_recipients_digest = Some (recipients_digest P file_key recips)\<rparr>)) in
         blob_get (stores c) (object_hash P new) = Some b \<longrightarrow> b = encode_object P new))"


text \<open>A node that can open a file through an envelope of its own and has no repository cipher.\<close>

definition sample_file_key :: key32 where
  "sample_file_key = 8"

definition sample_envelope :: sealed_file_key where
  "sample_envelope = \<lparr>ephemeral_pub = 0, sk_nonce = 0, sk_ciphertext = replicate 16 0 @ to_be_bytes 32 sample_file_key\<rparr>"

definition sample_sealed_node :: file_node where
  "sample_sealed_node = file_node_of (layout from_be_bytes 0 [(replicate 16 0 @ [7], [7])]) 1 1
     (Some \<lparr>sealed_key = None, recipients = [sample_envelope], fe_recipients_digest = None\<rparr>)"

definition sample_sealed_core :: core where
  "sample_sealed_core = (put_blob 5 (encode_object sample (FileNode sample_sealed_node))
     (put_blob 7 (replicate 16 0 @ [7]) sample_doc_core))\<lparr>sealing_secret := Some 3\<rparr>"

lemma sample_sealed_frame:
  "kv_get sample_sealed_core = kv_get sample_doc_core" "core_proofs sample_sealed_core = PolicyNone"
  "cipher sample_sealed_core = None" "chunk_size sample_sealed_core = 1024 * 1024" "sealing_secret sample_sealed_core = Some 3"
  "core_device sample_sealed_core = 1"
  "blob_get (stores sample_sealed_core) h = (if h = 5 then Some (encode_object sample (FileNode sample_sealed_node))
     else if h = 7 then Some (replicate 16 0 @ [7]) else None)"
  by (auto simp: sample_sealed_core_def fun_eq_iff)

lemma sample_aead: "aead_dec sample k n a (replicate 16 0 @ m) = Some m"
proof -
  have "aead_enc sample k n a m = Some (replicate 16 0 @ m)" by (simp add: sample_def)
  then show ?thesis using sample_ok(2) by (auto simp: aead_ok_def)
qed

lemma sample_sealed_open:
  "get_object sample sample_sealed_core 5 = Inr (Some (FileNode sample_sealed_node))"
  "envelope_open sample s sample_envelope = Inr (to_be_bytes 32 sample_file_key)"
  "can_overwrite sample sample_sealed_core 9 5"
proof -
  have "dec_obj sample (encode_object sample (FileNode sample_sealed_node)) = Some (FileNode sample_sealed_node)"
    by (simp add: encode_object_def sample_def dec_with_enc inj_enc_any)
  then show "get_object sample sample_sealed_core 5 = Inr (Some (FileNode sample_sealed_node))"
    by (simp add: get_object_def sample_sealed_frame)
  show "envelope_open sample s sample_envelope = Inr (to_be_bytes 32 sample_file_key)"
    by (simp add: sample_envelope_def envelope_open_def sample_aead)
  have "idle sample_sealed_core" by (simp add: idle_def kv_scan_Nil sample_sealed_frame)
  moreover have "\<not> is_op_applied sample_sealed_core i" for i by (simp add: is_op_applied_def sample_sealed_frame)
  moreover have "load_inode sample sample_sealed_core 9 = Inr (Some (inode_record_new File 0 0 1 1))"
    using sample_doc_frame(6) by (simp add: load_inode_def sample_sealed_frame)
  ultimately show "can_overwrite sample sample_sealed_core 9 5"
    by (simp add: can_overwrite_def inode_record_new_def lww_new_def order_key_def)
qed

lemma sample_sealed_key:
  "recover_file_key sample sample_sealed_core \<lparr>sealed_key = None, recipients = [sample_envelope], fe_recipients_digest = None\<rparr> = Inr sample_file_key"
  by (simp add: recover_file_key_def sample_sealed_frame sample_sealed_open)

lemma sample_seven: "(from_be_bytes [7] :: hash) = 7" "(from_be_bytes (replicate 16 0 @ [7]) :: hash) = 7"
  using nat_of_be_zeros [of 16] by (simp_all add: from_be_bytes_def nat_of_be_def)


section \<open>Rotating one file\<close>



end
