(* ===== verification/Sync.thy ===== *)
theory Sync
  imports Session_Laws
begin

text \<open>
  The peer manager: \<open>src/crates/net/src/peers.rs\<close>, with the on-demand read of \<open>src/crates/core/src/fetch.rs\<close>.

  The world outside this node is a value of type \<open>'p\<close>, reached through a \<open>network\<close>: how an address text parses, whether a
  connection with an open stream comes about, the bytes of that stream, the clock, and whether the attempt outlived its
  deadline. \<open>tokio::time::timeout\<close> drops a session at a point where it waits on its stream: the stream fails from there on,
  and the answer is the error of the deadline. A registry row keeps the device id and the error where the code keeps their
  rendering as text.
\<close>

section \<open>The network\<close>

record ('a, 'p) network =
  parse_addr :: "string \<Rightarrow> 'a option"
  dial :: "'a \<Rightarrow> 'p \<Rightarrow> bool \<times> 'p"
  link :: "'a \<Rightarrow> 'p stream"
  now_ms :: "'p \<Rightarrow> u64"
  expired :: "'p \<Rightarrow> bool"

definition open_stream :: "('a, 'p) network \<Rightarrow> 'a \<Rightarrow> ('p, unit) talk" where
  "open_stream N addr s =
     (case dial N addr (snd s) of (ok, p') \<Rightarrow> (if ok then Inr () else Inl (Bail ''open replication stream''), fst s, p'))"

definition timeout :: "('a, 'p) network \<Rightarrow> ('p, 'b) talk \<Rightarrow> ('p, 'b) talk" where
  "timeout N m s =
     (case m s of (r, s') \<Rightarrow> (if expired N (snd s') then Inl (Bail ''peer did not finish in time'') else r, s'))"

definition clock :: "('a, 'p) network \<Rightarrow> ('p, u64) talk" where
  "clock N s = (Inr (now_ms N (snd s)), s)"

section \<open>The registry\<close>

record peer_status =
  ps_address :: string
  ps_device_id :: "device_id option"
  last_attempt_ms :: u64
  last_success_ms :: "u64 option"
  last_error :: "error option"
  ps_ops_received :: nat
  ps_blobs_received :: nat
  ps_content_bytes :: u64
  ps_content_deferred :: bool
  syncs :: u64

definition peer_status_new :: "string \<Rightarrow> peer_status" where
  "peer_status_new addr = \<lparr>ps_address = addr, ps_device_id = None, last_attempt_ms = 0, last_success_ms = None, last_error = None,
     ps_ops_received = 0, ps_blobs_received = 0, ps_content_bytes = 0, ps_content_deferred = False, syncs = 0\<rparr>"

record peer_registry =
  rg_inner :: "(string, peer_status) fmap"
  rg_paused :: "string option"

definition registry_new :: peer_registry where
  "registry_new = \<lparr>rg_inner = fmempty, rg_paused = None\<rparr>"

definition registry_snapshot :: "peer_registry \<Rightarrow> peer_status list" where
  "registry_snapshot reg = map snd (fm_entries (rg_inner reg))"

definition paused_reason :: "peer_registry \<Rightarrow> string option" where
  "paused_reason reg = rg_paused reg"

definition record_skip :: "string \<Rightarrow> peer_registry \<Rightarrow> peer_registry" where
  "record_skip reason reg = reg\<lparr>rg_paused := Some reason\<rparr>"

definition clear_skip :: "peer_registry \<Rightarrow> peer_registry" where
  "clear_skip reg = reg\<lparr>rg_paused := None\<rparr>"

definition record_peer :: "string \<Rightarrow> (peer_status \<Rightarrow> peer_status) \<Rightarrow> peer_registry \<Rightarrow> peer_registry" where
  "record_peer addr update reg =
     (let entry = (case fmlookup (rg_inner reg) addr of None \<Rightarrow> peer_status_new addr | Some s \<Rightarrow> s)
      in reg\<lparr>rg_inner := fmupd addr (update entry) (rg_inner reg)\<rparr>)"

section \<open>One peer\<close>

definition sync_once ::
    "prims \<Rightarrow> wire \<Rightarrow> ('a, 'p) network \<Rightarrow> session_ctx \<Rightarrow> 'a \<Rightarrow> sync_limits \<Rightarrow> ('p, sync_outcome) talk" where
  "sync_once P W N ctx addr limits =
     bindE (open_stream N addr) (\<lambda>_.
     bindE (clock N) (\<lambda>now.
     pull_from_peer P W (link N addr) ctx now limits))"

definition notify_one ::
    "prims \<Rightarrow> wire \<Rightarrow> ('a, 'p) network \<Rightarrow> session_ctx \<Rightarrow> 'a \<Rightarrow> clock_summary \<Rightarrow> ('p, bool) talk" where
  "notify_one P W N ctx addr summary =
     bindE (open_stream N addr) (\<lambda>_.
     bindE (clock N) (\<lambda>now.
     notify_peer P W (link N addr) ctx now summary))"

definition fetch_one ::
    "prims \<Rightarrow> wire \<Rightarrow> ('a, 'p) network \<Rightarrow> session_ctx \<Rightarrow> 'a \<Rightarrow> hash list \<Rightarrow> ('p, nat) talk" where
  "fetch_one P W N ctx addr outstanding =
     bindE (open_stream N addr) (\<lambda>_.
     bindE (clock N) (\<lambda>now.
     fetch_chunks P W (link N addr) ctx now outstanding))"

section \<open>Every configured peer\<close>

fun notify_loop ::
    "prims \<Rightarrow> wire \<Rightarrow> ('a, 'p) network \<Rightarrow> session_ctx \<Rightarrow> clock_summary \<Rightarrow> string list \<Rightarrow> core \<times> 'p \<Rightarrow> core \<times> 'p" where
  "notify_loop P W N ctx summary [] s = s"
| "notify_loop P W N ctx summary (peer # peers) s =
     (case parse_addr N peer of
        None \<Rightarrow> notify_loop P W N ctx summary peers s
      | Some addr \<Rightarrow>
          notify_loop P W N ctx summary peers (snd (timeout N (notify_one P W N ctx addr summary) s)))"

definition notify_peers :: "prims \<Rightarrow> wire \<Rightarrow> ('a, 'p) network \<Rightarrow> session_ctx \<Rightarrow> string list \<Rightarrow> core \<times> 'p \<Rightarrow> core \<times> 'p" where
  "notify_peers P W N ctx peers s = notify_loop P W N ctx (clock_summary (fst s)) peers s"

fun fetch_from ::
    "prims \<Rightarrow> wire \<Rightarrow> ('a, 'p) network \<Rightarrow> session_ctx \<Rightarrow> hash list \<Rightarrow> string list \<Rightarrow> nat \<Rightarrow> core \<times> 'p \<Rightarrow> nat \<times> core \<times> 'p" where
  "fetch_from P W N ctx wanted [] stored s = (stored, s)"
| "fetch_from P W N ctx wanted (peer # peers) stored s =
     (case parse_addr N peer of
        None \<Rightarrow> fetch_from P W N ctx wanted peers stored s
      | Some addr \<Rightarrow>
          let outstanding = missing_chunk_subset (fst s) wanted in
          if outstanding = [] then (stored, s)
          else
            case timeout N (fetch_one P W N ctx addr outstanding) s of
              (Inr got, s') \<Rightarrow> fetch_from P W N ctx wanted peers (stored + got) s'
            | (Inl _, s') \<Rightarrow> fetch_from P W N ctx wanted peers stored s')"

definition fetch_from_peers ::
    "prims \<Rightarrow> wire \<Rightarrow> ('a, 'p) network \<Rightarrow> session_ctx \<Rightarrow> string list \<Rightarrow> hash list \<Rightarrow> core \<times> 'p \<Rightarrow> nat \<times> core \<times> 'p" where
  "fetch_from_peers P W N ctx peers wanted s = fetch_from P W N ctx wanted peers 0 s"

text \<open>What a finished attempt leaves in the row of its peer.\<close>

definition note_outcome :: "u64 \<Rightarrow> sync_outcome result \<Rightarrow> peer_status \<Rightarrow> peer_status" where
  "note_outcome now attempt st =
     (case attempt of
        Inr out \<Rightarrow>
          st\<lparr>last_success_ms := Some now, last_error := None, syncs := syncs st + 1,
             ps_ops_received := ps_ops_received st + ops_received out,
             ps_blobs_received := ps_blobs_received st + blobs_received out,
             ps_content_bytes := ps_content_bytes st + content_bytes out,
             ps_content_deferred := content_deferred out, ps_device_id := so_peer out\<rparr>
      | Inl e \<Rightarrow> st\<lparr>last_error := Some e\<rparr>)"

definition sync_peer ::
    "prims \<Rightarrow> wire \<Rightarrow> ('a, 'p) network \<Rightarrow> session_ctx \<Rightarrow> sync_limits \<Rightarrow> string \<Rightarrow> peer_registry \<times> core \<times> 'p
     \<Rightarrow> peer_registry \<times> core \<times> 'p" where
  "sync_peer P W N ctx limits peer rs =
     (case parse_addr N peer of
        None \<Rightarrow> (record_peer peer (\<lambda>st. st\<lparr>last_error := Some (Bail ''not a valid socket address'')\<rparr>) (fst rs), snd rs)
      | Some addr \<Rightarrow>
          let now = now_ms N (snd (snd rs));
              reg = record_peer peer (\<lambda>st. st\<lparr>last_attempt_ms := now\<rparr>) (fst rs)
          in case timeout N (sync_once P W N ctx addr limits) (snd rs) of
               (attempt, s') \<Rightarrow> (record_peer peer (note_outcome now attempt) reg, s'))"

definition sync_pass ::
    "prims \<Rightarrow> wire \<Rightarrow> ('a, 'p) network \<Rightarrow> session_ctx \<Rightarrow> sync_limits \<Rightarrow> string list \<Rightarrow> peer_registry \<times> core \<times> 'p
     \<Rightarrow> peer_registry \<times> core \<times> 'p" where
  "sync_pass P W N ctx limits peers rs = fold (sync_peer P W N ctx limits) peers rs"

section \<open>The loop\<close>

text \<open>Times are in milliseconds, as rationals: \<open>mul_f32\<close> and the \<open>Instant\<close> arithmetic without their rounding.\<close>

definition NOTIFY_FLOOR :: rat where "NOTIFY_FLOOR = 500"

definition nap :: "rat \<Rightarrow> sync_decision \<Rightarrow> rat" where
  "nap interval d = interval * max (sd_interval_scale d) (1 / 10)"

text \<open>
  The wait before a pass: \<open>notified\<close> is when, counted from its beginning, a notification arrives. The result is when the
  pass starts, whether a notification started it, and the new \<open>last_woken\<close>.
\<close>

definition sync_wait :: "rat \<Rightarrow> sync_decision \<Rightarrow> bool \<Rightarrow> rat option \<Rightarrow> rat \<Rightarrow> rat \<Rightarrow> rat \<times> bool \<times> rat" where
  "sync_wait interval d wake notified last_woken now =
     (case (if wake then notified else None) of
        Some t \<Rightarrow>
          if t < nap interval d
          then
            let since = now + t - last_woken;
                start = now + t + (if since < NOTIFY_FLOOR then NOTIFY_FLOOR - since else 0)
            in (start, True, start)
          else (now + nap interval d, False, last_woken)
      | None \<Rightarrow> (now + nap interval d, False, last_woken))"

text \<open>A round of the loop after its wait.\<close>

definition sync_round ::
    "prims \<Rightarrow> wire \<Rightarrow> ('a, 'p) network \<Rightarrow> session_ctx \<Rightarrow> string list \<Rightarrow> sync_decision option \<Rightarrow> peer_registry \<times> core \<times> 'p
     \<Rightarrow> peer_registry \<times> core \<times> 'p" where
  "sync_round P W N ctx peers gate rs =
     (let d = (case gate of None \<Rightarrow> decision_default | Some d \<Rightarrow> d) in
      if \<not> sd_sync d then (record_skip (sd_reason d) (fst rs), snd rs)
      else sync_pass P W N ctx (sd_limits d) peers (clear_skip (fst rs), snd rs))"

text \<open>The first rounds of the endless loop, one for each decision of the gate.\<close>

definition sync_loop ::
    "prims \<Rightarrow> wire \<Rightarrow> ('a, 'p) network \<Rightarrow> session_ctx \<Rightarrow> string list \<Rightarrow> sync_decision option list \<Rightarrow> peer_registry \<times> core \<times> 'p
     \<Rightarrow> peer_registry \<times> core \<times> 'p" where
  "sync_loop P W N ctx peers gates rs = (if peers = [] then rs else fold (sync_round P W N ctx peers) gates rs)"

fun waits :: "rat \<Rightarrow> bool \<Rightarrow> (sync_decision \<times> rat option \<times> rat) list \<Rightarrow> rat \<Rightarrow> rat \<Rightarrow> (rat \<times> bool) list" where
  "waits interval wake [] last_woken now = []"
| "waits interval wake ((d, notified, took) # rounds) last_woken now =
     (case sync_wait interval d wake notified last_woken now of
        (start, woken, last_woken') \<Rightarrow> (start, woken) # waits interval wake rounds last_woken' (start + took))"

section \<open>Content on demand\<close>

definition MAX_ROUNDS :: nat where "MAX_ROUNDS = 4"

fun ensure_rounds ::
    "prims \<Rightarrow> (hash list \<Rightarrow> ('p, nat) talk) \<Rightarrow> string \<Rightarrow> nat \<Rightarrow> hash list \<Rightarrow> ('p, hash list) talk" where
  "ensure_rounds P fetch path 0 wanted = ret wanted"
| "ensure_rounds P fetch path (Suc n) wanted =
     (if wanted = [] then ret wanted
      else
        bindE (fetch wanted) (\<lambda>_.
        bindE (on_core (reads (\<lambda>c. missing_chunks_for_path P c path))) (\<lambda>next.
        if next = wanted then ret wanted else ensure_rounds P fetch path n next)))"

definition ensure_content :: "prims \<Rightarrow> (hash list \<Rightarrow> ('p, nat) talk) \<Rightarrow> string \<Rightarrow> ('p, hash list) talk" where
  "ensure_content P fetch path =
     bindE (on_core (reads (\<lambda>c. missing_chunks_for_path P c path))) (\<lambda>wanted.
     ensure_rounds P fetch path MAX_ROUNDS wanted)"

definition is_not_a_recipient :: "error \<Rightarrow> bool" where
  "is_not_a_recipient e \<longleftrightarrow> (case e of NotARecipient _ \<Rightarrow> True | _ \<Rightarrow> False)"

section \<open>The loop is safe\<close>

context session_rel
begin

lemma talk_stream: "keeps (core_part R) (open_stream N addr)"
  by (rule keepsI) (auto simp: open_stream_def refl split: prod.splits if_splits)

lemma talk_clock: "keeps (core_part R) (clock N)"
  by (simp add: keeps_def clock_def refl)

lemma talk_notify: "keeps (core_part R) (notify_peer P W S ctx now summary)"
  unfolding notify_peer_def by (intro talk_seq talk_greet talk_lift talk_ask talk_bye)

lemma talk_timeout: "keeps (core_part R) m \<Longrightarrow> core_part R s (snd (timeout N m s))"
  by (cases "m s") (auto simp: timeout_def dest: keepsD)

lemma talk_attempts:
  "keeps (core_part R) (sync_once P W N ctx addr limits)" "keeps (core_part R) (notify_one P W N ctx addr summary)"
  "keeps (core_part R) (fetch_one P W N ctx addr hs)"
  unfolding sync_once_def notify_one_def fetch_one_def by (intro talk_seq talk_stream talk_clock pull fetch talk_notify)+

lemma notify_all: "R (fst s) (fst (notify_peers P W N ctx peers s))"
proof -
  have "R (fst s) (fst (notify_loop P W N ctx summary peers s))" for summary
  proof (induction peers arbitrary: s)
    case (Cons peer peers)
    have "R (fst s) (fst (snd (timeout N (notify_one P W N ctx addr summary) s)))" for addr
      by (rule talk_timeout [OF talk_attempts(2)])
    from trans [OF this Cons] show ?case using Cons [of s] by (cases "parse_addr N peer") simp_all
  qed (simp add: refl)
  then show ?thesis by (simp add: notify_peers_def)
qed

lemma fetch_all: "R (fst s) (fst (snd (fetch_from_peers P W N ctx peers wanted s)))"
proof -
  have "R (fst s) (fst (snd (fetch_from P W N ctx wanted peers stored s)))" for stored
  proof (induction peers arbitrary: stored s)
    case (Cons peer peers)
    have "R (fst s) (fst s')" if "timeout N (fetch_one P W N ctx addr hs) s = (r, s')" for addr hs r s'
      using talk_timeout [OF talk_attempts(3)] that by (metis snd_conv)
    then show ?case using Cons trans [OF _ Cons] by (auto simp: Let_def refl split: option.split sum.split prod.split)
  qed (simp add: refl)
  then show ?thesis by (simp add: fetch_from_peers_def)
qed

lemma sync_peer: "R (fst (snd rs)) (fst (snd (sync_peer P W N ctx limits peer rs)))"
proof -
  have "R (fst s) (fst s')" if "timeout N (sync_once P W N ctx addr limits) s = (r, s')" for addr r s s'
    using talk_timeout [OF talk_attempts(1)] that by (metis snd_conv)
  then show ?thesis by (auto simp: sync_peer_def Let_def refl split: option.split prod.split)
qed

lemma loop: "R (fst (snd rs)) (fst (snd (sync_loop P W N ctx peers gates rs)))"
proof -
  let ?R = "\<lambda>rs rs'. R (fst (snd rs)) (fst (snd rs'))"
  have po: "reflp ?R" "transp ?R" by (auto simp: reflp_def transp_def refl intro: trans)
  have pass: "?R rs (sync_pass P W N ctx limits ps rs)" for limits ps rs
    unfolding sync_pass_def by (rule fold_rel [OF po sync_peer])
  have round: "?R rs (sync_round P W N ctx peers gate rs)" for gate rs
    using pass [of "(clear_skip (fst rs), snd rs)"] by (simp add: sync_round_def Let_def refl)
  have "?R rs (fold (sync_round P W N ctx peers) gates rs)" by (rule fold_rel [OF po round])
  then show ?thesis by (simp add: sync_loop_def refl)
qed

end

text \<open>
  C29. The replication loop is safe against its peers. Over any number of rounds, whatever the gate decides, whatever the
  configured peers answer and however the attempts fail or run out of time, the same holds of the peer notifications and of
  the on-demand fetch: every operation that enters the log carries a signature that verifies, every blob that enters the
  store is filed under the hash of its bytes, no blob is lost, and no pinned key is replaced.
\<close>

theorem replication_loop_safe:
  assumes "codec_ok P"
    and "c' = fst (snd (sync_loop P W N ctx peers gates (reg, c, p))) \<or> c' = fst (notify_peers P W N ctx peers (c, p)) \<or>
         c' = fst (snd (fetch_from_peers P W N ctx peers wanted (c, p)))"
  shows "(\<forall>i op. get_op P c' i = Inr (Some op) \<longrightarrow> get_op P c i = Inr (Some op) \<or> verify_op P op = Inr ()) \<and>
    (\<forall>h bs. blob_get (stores c') h = Some bs \<longrightarrow> blob_get (stores c) h = Some bs \<or> blake3 P bs = h) \<and>
    (\<forall>h. blob_has (stores c) h \<longrightarrow> blob_has (stores c') h) \<and>
    (\<forall>d k. peer_key c d = Inr (Some k) \<longrightarrow> peer_key c' d = Inr (Some k))"
proof -
  have "vetted P c c'"
    using assms(2) vt.loop [of P "(reg, c, p)"] vt.notify_all [of P "(c, p)"] vt.fetch_all [of P "(c, p)"] by auto
  moreover have "pins_kept c c'"
    using assms(2) pk.loop [where P = P, of "(reg, c, p)"] pk.notify_all [where P = P, of "(c, p)"] pk.fetch_all [where P = P, of "(c, p)"]
    by auto
  moreover have "filed P c c'"
    using assms(2) fs.loop [of P "(reg, c, p)"] fs.notify_all [of P "(c, p)"] fs.fetch_all [of P "(c, p)"] by auto
  ultimately show ?thesis
    using vetted_get_op [OF _ assms(1)] unfolding pins_kept_def filed_def by blast
qed

text \<open>A network of one address whose peer delivers the same bytes in every session.\<close>

definition sample_net :: "bytes \<Rightarrow> (string, bytes \<times> bytes) network" where
  "sample_net inp = \<lparr>parse_addr = (\<lambda>t. if t = ''a'' then Some t else None), dial = (\<lambda>_ _. (True, inp, [])), link = (\<lambda>_. pipe),
     now_ms = (\<lambda>_. 0), expired = (\<lambda>_. False)\<rparr>"

theorem replication_loop_safe_witness:
  "get_op sample (fst (snd (sync_loop sample (sample_wire []) (sample_net hostile_input) sample_ctx [''a'', ''b''] [None, None]
      (registry_new, sample_core, [], [])))) (OpId 2 1) \<noteq> Inr (Some unsigned_op)"
proof -
  let ?c = "fst (snd (sync_loop sample (sample_wire []) (sample_net hostile_input) sample_ctx [''a'', ''b''] [None, None]
      (registry_new, sample_core, [], [])))"
  have "get_op sample sample_core (OpId 2 1) = Inr None" by (simp add: get_op_def)
  with replication_loop_safe [OF sample_ok(1) disjI1 [OF refl]]
  have "verify_op sample unsigned_op = Inr ()" if "get_op sample ?c (OpId 2 1) = Inr (Some unsigned_op)"
    using that by (metis sum.inject(2) option.distinct(1))
  then show ?thesis by (auto simp: unsigned_op_def verify_op_def verify_def SIGNATURE_LENGTH_def)
qed

section \<open>How often a peer can wake the loop\<close>

definition timed_round :: "sync_decision \<times> rat option \<times> rat \<Rightarrow> bool" where
  "timed_round r \<longleftrightarrow> (case r of (d, notified, took) \<Rightarrow> 0 \<le> took \<and> (case notified of None \<Rightarrow> True | Some t \<Rightarrow> 0 \<le> t))"

lemma sync_wait_bounds:
  assumes "sync_wait interval d wake notified prev now = (start, woken, prev')" "timed_round (d, notified, took)" "0 \<le> interval"
  shows "now \<le> start" "woken \<Longrightarrow> prev + NOTIFY_FLOOR \<le> start \<and> prev' = start" "\<not> woken \<Longrightarrow> prev' = prev \<and> now + nap interval d = start"
proof -
  have "0 \<le> nap interval d" using assms(3) by (simp add: nap_def)
  then show "now \<le> start" "woken \<Longrightarrow> prev + NOTIFY_FLOOR \<le> start \<and> prev' = start" "\<not> woken \<Longrightarrow> prev' = prev \<and> now + nap interval d = start"
    using assms(1,2) by (auto simp: sync_wait_def timed_round_def Let_def split: if_splits option.splits)
qed

lemma waits_after:
  assumes "list_all timed_round rounds" "0 \<le> interval" "prev \<le> now" "(start, True) \<in> set (waits interval wake rounds prev now)"
  shows "prev + NOTIFY_FLOOR \<le> start"
  using assms(1,3,4)
proof (induction rounds arbitrary: prev now)
  case (Cons r rounds)
  obtain d notified took where r: "r = (d, notified, took)" by (cases r)
  obtain s w p where w: "sync_wait interval d wake notified prev now = (s, w, p)" by (cases "sync_wait interval d wake notified prev now")
  have t: "timed_round (d, notified, took)" "list_all timed_round rounds" using Cons.prems(1) by (simp_all add: r)
  have took: "0 \<le> took" using t(1) by (simp add: timed_round_def)
  note b = sync_wait_bounds [OF w t(1) assms(2)]
  have p: "p \<le> s + took \<and> prev \<le> p" using b took Cons.prems(2) by (cases w) (auto simp: NOTIFY_FLOOR_def)
  consider "w" "s = start" | "(start, True) \<in> set (waits interval wake rounds p (s + took))"
    using Cons.prems(3) w by (auto simp: r)
  then show ?case
  proof cases
    case 1
    then show ?thesis using b(2) by simp
  next
    case 2
    then show ?thesis using Cons.IH [OF t(2) _ 2] p by linarith
  qed
qed simp

text \<open>
  C33. A peer cannot make this node synchronise faster than the floor. Whatever notifications arrive and however long the passes
  take, two passes that notifications started are at least \<open>NOTIFY_FLOOR\<close> apart, and a pass that no notification started comes
  a whole nap after the end of the previous one.
\<close>

theorem wakes_are_throttled:
  assumes "list_all timed_round rounds" "0 \<le> interval" "prev \<le> now"
  shows "sorted_wrt (\<lambda>x y. snd x \<and> snd y \<longrightarrow> fst x + NOTIFY_FLOOR \<le> fst y) (waits interval wake rounds prev now)"
  using assms(1,3)
proof (induction rounds arbitrary: prev now)
  case (Cons r rounds)
  obtain d notified took where r: "r = (d, notified, took)" by (cases r)
  obtain s w p where w: "sync_wait interval d wake notified prev now = (s, w, p)" by (cases "sync_wait interval d wake notified prev now")
  have t: "timed_round (d, notified, took)" "list_all timed_round rounds" using Cons.prems(1) by (simp_all add: r)
  have took: "0 \<le> took" using t(1) by (simp add: timed_round_def)
  note b = sync_wait_bounds [OF w t(1) assms(2)]
  have p: "p \<le> s + took" using b took Cons.prems(2) by (cases w; force)
  have "s + NOTIFY_FLOOR \<le> fst y" if "w" "y \<in> set (waits interval wake rounds p (s + took))" "snd y" for y
    using waits_after [OF t(2) assms(2) p] b(2) that by (cases y) auto
  then show ?case using Cons.IH [OF t(2) p] w by (auto simp: r)
qed simp

theorem wakes_are_throttled_witness:
  "waits 1000 True [(decision_default, Some 0, 0), (decision_default, Some 0, 0)] 0 0 = [(500, True), (1000, True)] \<and>
   sorted_wrt (\<lambda>x y. fst x + NOTIFY_FLOOR \<le> fst y) (waits 1000 True [(decision_default, Some 0, 0), (decision_default, Some 0, 0)] 0 0)"
proof -
  have w: "waits 1000 True [(decision_default, Some 0, 0), (decision_default, Some 0, 0)] 0 0 = [(500, True), (1000, True)]"
    by (simp add: sync_wait_def nap_def decision_default_def NOTIFY_FLOOR_def)
  have "list_all timed_round [(decision_default, Some 0, 0), (decision_default, Some 0, 0)]" by (simp add: timed_round_def)
  from wakes_are_throttled [OF this, of 1000 0 0 True] w show ?thesis by simp
qed

section \<open>The answer of an on-demand read\<close>

lemma on_core_reads: "on_core (reads f) s = (r, s') \<longleftrightarrow> f (fst s) = r \<and> s' = s"
  by (cases s, cases s') (auto simp: on_core_def reads_def)

lemma ensure_rounds_current:
  "ensure_rounds P fetch path n wanted s = (Inr missing, s') \<Longrightarrow> missing_chunks_for_path P (fst s) path = Inr wanted \<Longrightarrow>
     missing_chunks_for_path P (fst s') path = Inr missing"
proof (induction n arbitrary: wanted s)
  case (Suc n)
  show ?case
  proof (cases "wanted = []")
    case False
    then obtain nxt s1 where m: "missing_chunks_for_path P (fst s1) path = Inr nxt"
      and t: "(if nxt = wanted then ret wanted else ensure_rounds P fetch path n nxt) s1 = (Inr missing, s')"
      using Suc.prems(1) by (auto simp: bindE_eq_Inr on_core_reads)
    show ?thesis
    proof (cases "nxt = wanted")
      case False
      then show ?thesis using Suc.IH [of nxt s1] m t by simp
    qed (use m t in simp)
  qed (use Suc.prems in simp)
qed simp

lemma nothing_missing:
  assumes "missing_chunks_for_path P c path = Inr []" "resolve_path P c path = Inr (Some (inode, File))"
    and "load_inode P c inode = Inr (Some r)" "ct_node_hash (lww_value (ir_content r)) = Some h"
  shows "\<exists>ob. get_object P c h = Inr (Some ob) \<and>
    (\<forall>node. ob = FileNode node \<longrightarrow> (\<forall>ch \<in> set (fn_chunks node). blob_has (stores c) (cr_hash ch)))"
proof -
  obtain ops ob where o: "get_object P c h = Inr ob"
    and w: "remdups_adj (sort (case ob of Some (FileNode node) \<Rightarrow>
        pending_wanted c inode ops @ filter (\<lambda>h. \<not> blob_has (stores c) h) (map cr_hash (fn_chunks node))
      | None \<Rightarrow> pending_wanted c inode ops @ [h] | Some _ \<Rightarrow> pending_wanted c inode ops)) = []"
    using assms by (auto simp: missing_chunks_for_path_def rbind_Inr_iff Let_def)
  have empty: "sort xs = [] \<longleftrightarrow> xs = []" for xs :: "hash list"
    by (metis set_empty set_sort)
  show ?thesis
  proof (cases ob)
    case (Some ob')
    then show ?thesis using o w by (cases ob') (auto simp: empty filter_empty_conv)
  qed (use w in \<open>simp add: empty\<close>)
qed

text \<open>
  C32. An on-demand read answers honestly. Whatever the fetcher does, what \<open>ensure_content\<close> reports as missing is exactly what a
  read of the path lacks in the state it leaves, and when it reports nothing missing for a file with content, the file object
  and every chunk it names are in the store.
\<close>

theorem ensure_content_honest:
  assumes "ensure_content P fetch path s = (Inr missing, s')"
  shows "missing_chunks_for_path P (fst s') path = Inr missing \<and>
    (\<forall>inode r h. missing = [] \<and> resolve_path P (fst s') path = Inr (Some (inode, File)) \<and>
       load_inode P (fst s') inode = Inr (Some r) \<and> ct_node_hash (lww_value (ir_content r)) = Some h \<longrightarrow>
       (\<exists>ob. get_object P (fst s') h = Inr (Some ob) \<and>
          (\<forall>node. ob = FileNode node \<longrightarrow> (\<forall>ch \<in> set (fn_chunks node). blob_has (stores (fst s')) (cr_hash ch)))))"
proof -
  have "missing_chunks_for_path P (fst s') path = Inr missing"
    using assms by (auto simp: ensure_content_def bindE_eq_Inr on_core_reads intro: ensure_rounds_current)
  then show ?thesis using nothing_missing by blast
qed

text \<open>A file whose object was deferred, and a fetcher that brings it.\<close>

definition sample_deferred_core :: core where
  "sample_deferred_core = store_dir sample ROOT_INODE
     (or_add ''f'' (Dot 1 1) \<lparr>ev_inode_id = 9, ev_entry_type = File, ev_created = 0\<rparr> or_default)
     (store_inode sample 9 ((inode_record_new File 0 0 1 1)\<lparr>ir_content := lww_new \<lparr>ct_node_hash = Some 5, ct_size = 0, ct_mtime = 1\<rparr> 1 1 1\<rparr>)
     sample_core)"

definition bring :: "hash list \<Rightarrow> (unit, nat) talk" where
  "bring hs = bindE (on_core (upd (put_blob 5 (encode_object sample (FileNode (file_node_of [] 0 1 None)))))) (\<lambda>_. ret 1)"

theorem ensure_content_honest_witness:
  "\<exists>s'. ensure_content sample bring ''/f'' (sample_deferred_core, ()) = (Inr [], s') \<and>
     missing_chunks_for_path sample sample_deferred_core ''/f'' = Inr [5] \<and> missing_chunks_for_path sample (fst s') ''/f'' = Inr []"
proof -
  let ?c = sample_deferred_core and ?b = "encode_object sample (FileNode (file_node_of [] 0 1 None))"
  let ?c' = "put_blob 5 ?b ?c"
  have lk: "lookup sample c ROOT_INODE ''f'' = Inr (Some \<lparr>de_name = ''f'', de_inode_id = 9, de_entry_type = File\<rparr>)"
    if "load_dir sample c = load_dir sample ?c" for c
    by (simp add: lookup_def that) (simp add: sample_deferred_core_def sample_ok or_add_def or_default_def get_all_def adds_at_def)
  have "load_dir sample ?c' = load_dir sample ?c" by (simp add: fun_eq_iff load_dir_def)
  then have path: "resolve_path sample ?c ''/f'' = Inr (Some (9, File))" "resolve_path sample ?c' ''/f'' = Inr (Some (9, File))"
    using lk by (simp_all add: resolve_path_def split_path_def)
  obtain r where r: "load_inode sample ?c 9 = Inr (Some r)" "ct_node_hash (lww_value (ir_content r)) = Some 5"
    by (simp add: sample_deferred_core_def sample_ok lww_new_def)
  have kv: "kv_get ?c CF_OPLOG k = None" "blob_get (stores ?c) h = None" for k h
    by (simp_all add: sample_deferred_core_def store_dir_def store_inode_def)
  have pend: "pending_ops sample ?c = Inr []" "pending_ops sample ?c' = Inr []"
    using kv(1) by (simp_all add: pending_ops_def kv_scan_Nil [THEN iffD2])
  have "dec_obj sample ?b = Some (FileNode (file_node_of [] 0 1 None))"
    by (simp add: encode_object_def sample_def dec_with_enc inj_enc_any)
  then have ob: "get_object sample ?c 5 = Inr None" "get_object sample ?c' 5 = Inr (Some (FileNode (file_node_of [] 0 1 None)))"
    using kv(2) by (simp_all add: get_object_def)
  have chunks: "fn_chunks (file_node_of [] 0 1 None) = []" by (simp add: file_node_of_def)
  have m: "missing_chunks_for_path sample ?c ''/f'' = Inr [5]"
    by (simp add: missing_chunks_for_path_def path pend r ob pending_wanted_def Let_def)
  moreover have "missing_chunks_for_path sample ?c' ''/f'' = Inr []"
    by (simp add: missing_chunks_for_path_def path pend r ob chunks pending_wanted_def Let_def)
  ultimately have run: "ensure_content sample bring ''/f'' (?c, ()) = (Inr [], (?c', ()))"
    by (simp add: ensure_content_def bring_def on_core_def bindE_def MAX_ROUNDS_def numeral_eq_Suc)
  from ensure_content_honest [OF this] run m show ?thesis by auto
qed

end
