(* ===== verification/S3.thy ===== *)
theory S3
  imports Sync Ops_Laws Text
begin

text \<open>
  The S3 facade: \<open>src/crates/s3/src/routes.rs\<close> and \<open>xml.rs\<close>. A handler is a function of the request and of the node's state
  into a response and the state after it. What the \<open>time\<close>, \<open>hex\<close> and \<open>anyhow\<close> crates render as text is a parameter. The router,
  which binds the handlers to their paths, and the limit on the size of a body are framework configuration.
\<close>

unbundle bit_operations_syntax

section \<open>Documents\<close>

record rendering =
  iso8601 :: "u64 \<Rightarrow> string"
  hex_encode :: "hash \<Rightarrow> string"
  error_text :: "error \<Rightarrow> string"

definition esc_char :: "char \<Rightarrow> string" where
  "esc_char c =
     (if c = CHR ''&'' then ''&amp;''
      else if c = CHR ''<'' then ''&lt;''
      else if c = CHR ''>'' then ''&gt;''
      else if c = CHR 0x22 then ''&quot;''
      else if c = CHR 0x27 then ''&apos;''
      else [c])"

definition esc :: "string \<Rightarrow> string" where
  "esc s = concat (map esc_char s)"

definition quoted :: "string \<Rightarrow> string" where
  "quoted s = [CHR 0x22] @ s @ [CHR 0x22]"

definition HEADER :: string where
  "HEADER = ''<?xml version='' @ quoted ''1.0'' @ '' encoding='' @ quoted ''UTF-8'' @ ''?>''"

definition NS :: string where
  "NS = ''xmlns='' @ quoted ''http://s3.amazonaws.com/doc/2006-03-01/''"

definition elem :: "string \<Rightarrow> string \<Rightarrow> string" where
  "elem name content = ''<'' @ name @ ''>'' @ content @ ''</'' @ name @ ''>''"

record object_row =
  or_key :: string
  or_size :: u64
  or_etag :: string
  or_last_modified :: string

definition xml_list_buckets :: "(string \<times> string) list \<Rightarrow> string" where
  "xml_list_buckets buckets =
     (let rows = concat (map (\<lambda>(name, created). elem ''Bucket'' (elem ''Name'' (esc name) @ elem ''CreationDate'' (esc created))) buckets)
      in HEADER @ ''<ListAllMyBucketsResult '' @ NS @ ''>'' @
         elem ''Owner'' (elem ''ID'' ''nexusfs'' @ elem ''DisplayName'' ''nexusfs'') @
         elem ''Buckets'' rows @ ''</ListAllMyBucketsResult>'')"

definition object_xml :: "object_row \<Rightarrow> string" where
  "object_xml row =
     elem ''Contents''
       (elem ''Key'' (esc (or_key row)) @ elem ''LastModified'' (esc (or_last_modified row)) @
        elem ''ETag'' (''&quot;'' @ esc (or_etag row) @ ''&quot;'') @ elem ''Size'' (digits (unat (or_size row))) @
        elem ''StorageClass'' ''STANDARD'')"

definition opt_elem :: "string \<Rightarrow> string option \<Rightarrow> string" where
  "opt_elem name v = (case v of None \<Rightarrow> [] | Some t \<Rightarrow> elem name (esc t))"

definition list_objects_v2 ::
    "string \<Rightarrow> string \<Rightarrow> string option \<Rightarrow> nat \<Rightarrow> bool \<Rightarrow> string option \<Rightarrow> object_row list \<Rightarrow> string list \<Rightarrow> string" where
  "list_objects_v2 bucket prefix delimiter max_keys truncated next_token objects common_prefixes =
     (let contents = concat (map object_xml objects);
          prefixes = concat (map (\<lambda>p. elem ''CommonPrefixes'' (elem ''Prefix'' (esc p))) common_prefixes)
      in HEADER @ ''<ListBucketResult '' @ NS @ ''>'' @
         elem ''Name'' (esc bucket) @ elem ''Prefix'' (esc prefix) @ opt_elem ''Delimiter'' delimiter @
         elem ''KeyCount'' (digits (length objects + length common_prefixes)) @
         elem ''MaxKeys'' (digits max_keys) @ elem ''IsTruncated'' (if truncated then ''true'' else ''false'') @
         opt_elem ''NextContinuationToken'' next_token @ contents @ prefixes @ ''</ListBucketResult>'')"

definition xml_error :: "string \<Rightarrow> string \<Rightarrow> string \<Rightarrow> string" where
  "xml_error code message resource =
     HEADER @ elem ''Error'' (elem ''Code'' (esc code) @ elem ''Message'' (esc message) @ elem ''Resource'' (esc resource))"

section \<open>Answers\<close>

datatype body = NoBody | XmlBody string | ContentBody bytes

record response =
  rs_status :: nat
  rs_headers :: "(string \<times> string) list"
  rs_body :: body

datatype s3_error = S3Error (s3_status: nat) (s3_code: string) (s3_message: string) (s3_resource: string)

definition into_response :: "s3_error \<Rightarrow> response" where
  "into_response e =
     \<lparr>rs_status = s3_status e, rs_headers = [(''content-type'', ''application/xml'')],
      rs_body = XmlBody (xml_error (s3_code e) (s3_message e) (s3_resource e))\<rparr>"

definition no_such_key :: "string \<Rightarrow> s3_error" where
  "no_such_key resource = S3Error 404 ''NoSuchKey'' ''The specified key does not exist.'' resource"

definition no_such_bucket :: "string \<Rightarrow> s3_error" where
  "no_such_bucket bucket = S3Error 404 ''NoSuchBucket'' ''The specified bucket does not exist.'' (''/'' @ bucket)"

definition internal :: "rendering \<Rightarrow> error \<Rightarrow> string \<Rightarrow> s3_error" where
  "internal T e resource = S3Error 500 ''InternalError'' (error_text T e) resource"

definition invalid :: "string \<Rightarrow> string \<Rightarrow> s3_error" where
  "invalid message resource = S3Error 400 ''InvalidRequest'' message resource"

section \<open>Requests\<close>

record 'p s3_state =
  st_identity :: identity
  st_token :: string
  st_content :: "(hash list \<Rightarrow> ('p, nat) talk) option"

definition constant_time_eq :: "bytes \<Rightarrow> bytes \<Rightarrow> bool" where
  "constant_time_eq a b \<longleftrightarrow>
     (if length a \<noteq> length b then False
      else foldl (\<lambda>diff (x, y). diff OR (x XOR y)) 0 (zip a b) = 0)"

text \<open>\<open>header\<close> is the value of \<open>x-nexusfs-token\<close>, when there is one and it is visible ASCII.\<close>

definition check_auth :: "string option \<Rightarrow> 'p s3_state \<Rightarrow> string \<Rightarrow> s3_error + unit" where
  "check_auth header st resource =
     (if st_token st = [] then Inr ()
      else if (case header of None \<Rightarrow> False | Some t \<Rightarrow> constant_time_eq (str_bytes t) (str_bytes (st_token st))) then Inr ()
      else Inl (S3Error 403 ''AccessDenied'' ''Access denied.'' resource))"

definition check_bucket :: "string \<Rightarrow> string \<Rightarrow> s3_error + unit" where
  "check_bucket bucket resource =
     (if bucket = [] \<or> CHR ''/'' \<in> set bucket \<or> bucket = ''.'' \<or> bucket = ''..''
      then Inl (invalid ''invalid bucket name'' resource) else Inr ())"

definition object_path :: "string \<Rightarrow> string \<Rightarrow> s3_error + string" where
  "object_path bucket key =
     (let resource = ''/'' @ bucket @ ''/'' @ key in
      case check_bucket bucket resource of
        Inl e \<Rightarrow> Inl e
      | Inr _ \<Rightarrow>
          if key = [] then Inl (invalid ''empty object key'' resource)
          else if list_ex (\<lambda>p. p = [] \<or> p = ''.'' \<or> p = ''..'') (split_on CHR ''/'' key)
          then Inl (invalid ''object key must not contain empty or relative path segments'' resource)
          else Inr resource)"

definition etag_for :: "prims \<Rightarrow> rendering \<Rightarrow> core \<Rightarrow> string \<Rightarrow> string option" where
  "etag_for P T c path =
     (case stat_file P c path of
        Inr (Some (inode, _, _)) \<Rightarrow>
          (case load_inode P c inode of
             Inr (Some record) \<Rightarrow> map_option (hex_encode T) (ct_node_hash (lww_value (ir_content record)))
           | _ \<Rightarrow> None)
      | _ \<Rightarrow> None)"

definition etag_or_default :: "prims \<Rightarrow> rendering \<Rightarrow> core \<Rightarrow> string \<Rightarrow> string" where
  "etag_or_default P T c path = (case etag_for P T c path of None \<Rightarrow> [] | Some t \<Rightarrow> t)"

section \<open>Handlers\<close>

text \<open>A handler answers or fails, and threads the node's state; \<open>from_core\<close> is \<open>map_err(internal)\<close>.\<close>

type_synonym ('e, 'p, 'a) http = "core \<times> 'p \<Rightarrow> ('e + 'a) \<times> core \<times> 'p"
type_synonym ('p, 'a) handler = "(s3_error, 'p, 'a) http"

definition andThen :: "('e, 'p, 'a) http \<Rightarrow> ('a \<Rightarrow> ('e, 'p, 'b) http) \<Rightarrow> ('e, 'p, 'b) http" where
  "andThen m f s = (case m s of (Inl e, s') \<Rightarrow> (Inl e, s') | (Inr x, s') \<Rightarrow> f x s')"

definition answer :: "'e + 'a \<Rightarrow> ('e, 'p, 'a) http" where
  "answer r s = (r, s)"

definition from_core :: "(error \<Rightarrow> 'e) \<Rightarrow> ('p, 'a) talk \<Rightarrow> ('e, 'p, 'a) http" where
  "from_core f m s = (case m s of (Inl e, s') \<Rightarrow> (Inl (f e), s') | (Inr x, s') \<Rightarrow> (Inr x, s'))"

definition list_buckets :: "prims \<Rightarrow> rendering \<Rightarrow> 'p s3_state \<Rightarrow> string option \<Rightarrow> ('p, response) handler" where
  "list_buckets P T st header =
     andThen (answer (check_auth header st ''/'')) (\<lambda>_.
     andThen (from_core (\<lambda>e. internal T e ''/'') (on_core (reads (\<lambda>c. read_dir_path P c ''/'')))) (\<lambda>entries s.
     let created = (\<lambda>e. case load_inode P (fst s) (de_inode_id e) of
                      Inr (Some r) \<Rightarrow> iso8601 T (ir_ctime r) | _ \<Rightarrow> iso8601 T 0);
         buckets = map (\<lambda>e. (de_name e, created e)) (filter (\<lambda>e. de_entry_type e = Dir) entries)
     in (Inr \<lparr>rs_status = 200, rs_headers = [(''content-type'', ''application/xml'')], rs_body = XmlBody (xml_list_buckets buckets)\<rparr>, s)))"

definition create_bucket :: "prims \<Rightarrow> rendering \<Rightarrow> 'p s3_state \<Rightarrow> u64 \<Rightarrow> string \<Rightarrow> string option \<Rightarrow> ('p, response) handler" where
  "create_bucket P T st now bucket header =
     (let resource = ''/'' @ bucket in
      andThen (answer (check_auth header st resource)) (\<lambda>_.
      andThen (answer (check_bucket bucket resource)) (\<lambda>_.
      andThen (from_core (\<lambda>e. internal T e resource) (on_core (mkdir_p P (st_identity st) resource now))) (\<lambda>_.
      answer (Inr \<lparr>rs_status = 200, rs_headers = [(''location'', resource)], rs_body = NoBody\<rparr>)))))"

definition MAX_KEYS_LIMIT :: nat where "MAX_KEYS_LIMIT = 1000"

record list_query =
  lq_prefix :: "string option"
  lq_delimiter :: "string option"
  lq_max_keys :: "nat option"
  lq_token :: "string option"

definition page_size :: "nat option \<Rightarrow> nat" where
  "page_size q = (let n = (case q of None \<Rightarrow> MAX_KEYS_LIMIT | Some n \<Rightarrow> n) in min (max n 1) MAX_KEYS_LIMIT)"

text \<open>The first occurrence of a text in another: \<open>str::find\<close>.\<close>

fun find_text :: "string \<Rightarrow> string \<Rightarrow> nat option" where
  "find_text p [] = (if p = [] then Some 0 else None)"
| "find_text p (c # cs) = (if text_starts p (c # cs) then Some 0 else map_option Suc (find_text p cs))"

definition group_of :: "string \<Rightarrow> string option \<Rightarrow> string \<Rightarrow> string option" where
  "group_of prefix delimiter key =
     (case delimiter of
        None \<Rightarrow> None
      | Some delim \<Rightarrow>
          if delim = [] then None
          else (case find_text delim (drop (length prefix) key) of
                  None \<Rightarrow> None
                | Some idx \<Rightarrow> Some (take (length prefix + idx) key @ delim)))"

record page =
  pg_objects :: "(string \<times> u64 \<times> u64) list"
  pg_common :: "string list"
  pg_last :: "string option"
  pg_truncated :: bool

fun page_loop :: "(string \<Rightarrow> string option) \<Rightarrow> nat \<Rightarrow> (string \<times> u64 \<times> u64) list \<Rightarrow> page \<Rightarrow> page" where
  "page_loop grp max_keys [] pg = pg"
| "page_loop grp max_keys (row # rows) pg =
     (if length (pg_objects pg) + length (pg_common pg) \<ge> max_keys then pg\<lparr>pg_truncated := True\<rparr>
      else
        let pg = pg\<lparr>pg_last := Some (fst row)\<rparr> in
        case grp (fst row) of
          Some g \<Rightarrow>
            page_loop grp max_keys rows
              (if g \<in> set (pg_common pg) then pg else pg\<lparr>pg_common := pg_common pg @ [g]\<rparr>)
        | None \<Rightarrow> page_loop grp max_keys rows (pg\<lparr>pg_objects := pg_objects pg @ [row]\<rparr>))"

definition page_of :: "(string \<Rightarrow> string option) \<Rightarrow> nat \<Rightarrow> string option \<Rightarrow> (string \<times> u64 \<times> u64) list \<Rightarrow> page" where
  "page_of grp max_keys token keys =
     page_loop grp max_keys (case token of None \<Rightarrow> keys | Some t \<Rightarrow> filter (\<lambda>row. t < fst row) keys)
       \<lparr>pg_objects = [], pg_common = [], pg_last = None, pg_truncated = False\<rparr>"

definition next_token :: "page \<Rightarrow> string option" where
  "next_token pg = (if pg_truncated pg then pg_last pg else None)"

definition keys_of :: "string \<Rightarrow> string \<Rightarrow> listed_entry list \<Rightarrow> (string \<times> u64 \<times> u64) list" where
  "keys_of strip prefix walked =
     sort_key fst
       (filter (\<lambda>row. text_starts prefix (fst row))
         (map (\<lambda>e. ((case strip_prefix strip (we_path e) of None \<Rightarrow> we_path e | Some k \<Rightarrow> k), we_size e, we_mtime e))
           (filter (\<lambda>e. we_kind e = File) walked)))"

definition object_row_of :: "prims \<Rightarrow> rendering \<Rightarrow> core \<Rightarrow> string \<Rightarrow> string \<times> u64 \<times> u64 \<Rightarrow> object_row" where
  "object_row_of P T c resource row =
     (case row of (key, sz, mtime) \<Rightarrow>
        \<lparr>or_key = key, or_size = sz, or_etag = etag_or_default P T c (resource @ ''/'' @ key), or_last_modified = iso8601 T mtime\<rparr>)"

definition list_objects ::
    "prims \<Rightarrow> rendering \<Rightarrow> 'p s3_state \<Rightarrow> string \<Rightarrow> list_query \<Rightarrow> string option \<Rightarrow> ('p, response) handler" where
  "list_objects P T st bucket q header =
     (let resource = ''/'' @ bucket in
      andThen (answer (check_auth header st resource)) (\<lambda>_.
      andThen (answer (check_bucket bucket resource)) (\<lambda>_ s.
      case resolve_path P (fst s) resource of
        Inl e \<Rightarrow> (Inl (internal T e resource), s)
      | Inr (Some (_, Dir)) \<Rightarrow>
          andThen (from_core (\<lambda>e. internal T e resource) (on_core (reads (\<lambda>c. walk_path P c resource)))) (\<lambda>walked s.
          let prefix = (case lq_prefix q of None \<Rightarrow> [] | Some p \<Rightarrow> p);
              max_keys = page_size (lq_max_keys q);
              pg = page_of (group_of prefix (lq_delimiter q)) max_keys (lq_token q) (keys_of (resource @ ''/'') prefix walked)
          in (Inr \<lparr>rs_status = 200, rs_headers = [(''content-type'', ''application/xml'')],
                   rs_body = XmlBody (list_objects_v2 bucket prefix (lq_delimiter q) max_keys (pg_truncated pg) (next_token pg)
                     (map (object_row_of P T (fst s) resource) (pg_objects pg)) (pg_common pg))\<rparr>, s)) s
      | Inr _ \<Rightarrow> (Inl (no_such_bucket bucket), s))))"

definition put_object_s3 ::
    "prims \<Rightarrow> rendering \<Rightarrow> 'p s3_state \<Rightarrow> u64 \<Rightarrow> string \<Rightarrow> string \<Rightarrow> string option \<Rightarrow> bytes \<Rightarrow> ('p, response) handler" where
  "put_object_s3 P T st now bucket key header content =
     andThen (answer (check_auth header st (''/'' @ bucket @ ''/'' @ key))) (\<lambda>_.
     andThen (answer (object_path bucket key)) (\<lambda>path.
     andThen (from_core (\<lambda>e. internal T e path) (on_core (write_file P (st_identity st) path content now))) (\<lambda>_ s.
     (Inr \<lparr>rs_status = 200, rs_headers = [(''etag'', quoted (etag_or_default P T (fst s) path))], rs_body = NoBody\<rparr>, s))))"

definition require_key :: "prims \<Rightarrow> rendering \<Rightarrow> string \<Rightarrow> ('p, u128 \<times> u64 \<times> u64) handler" where
  "require_key P T path =
     andThen (from_core (\<lambda>e. internal T e path) (on_core (reads (\<lambda>c. stat_file P c path)))) (\<lambda>found.
     answer (case found of None \<Rightarrow> Inl (no_such_key path) | Some x \<Rightarrow> Inr x))"

definition outstanding :: "prims \<Rightarrow> 'p s3_state \<Rightarrow> string \<Rightarrow> ('p, hash list) talk" where
  "outstanding P st path =
     (case st_content st of
        Some fetch \<Rightarrow> ensure_content P fetch path
      | None \<Rightarrow> on_core (reads (\<lambda>c. missing_chunks_for_path P c path)))"

definition read_refusal :: "rendering \<Rightarrow> string \<Rightarrow> error \<Rightarrow> s3_error" where
  "read_refusal T path e =
     (if is_not_a_recipient e then S3Error 403 ''AccessDenied'' (error_text T e) path else internal T e path)"

definition get_object_s3 ::
    "prims \<Rightarrow> rendering \<Rightarrow> 'p s3_state \<Rightarrow> string \<Rightarrow> string \<Rightarrow> string option \<Rightarrow> ('p, response) handler" where
  "get_object_s3 P T st bucket key header =
     andThen (answer (object_path bucket key)) (\<lambda>path.
     andThen (answer (check_auth header st path)) (\<lambda>_.
     andThen (require_key P T path) (\<lambda>(_, _, mtime).
     andThen (from_core (\<lambda>e. internal T e path) (outstanding P st path)) (\<lambda>missing.
     if missing \<noteq> [] then
       answer (Inl (S3Error 503 ''ContentUnavailable''
         (''The object exists but '' @ digits (length missing) @
          '' chunk(s) of its content are not held by this node and could not be fetched.'') path))
     else
       andThen (from_core (read_refusal T path) (on_core (reads (\<lambda>c. read_file_path P c path)))) (\<lambda>content s.
       (Inr \<lparr>rs_status = 200,
             rs_headers = [(''content-type'', ''application/octet-stream''),
                           (''etag'', quoted (etag_or_default P T (fst s) path)), (''last-modified'', iso8601 T mtime)],
             rs_body = ContentBody content\<rparr>, s))))))"

definition head_object ::
    "prims \<Rightarrow> rendering \<Rightarrow> 'p s3_state \<Rightarrow> string \<Rightarrow> string \<Rightarrow> string option \<Rightarrow> ('p, response) handler" where
  "head_object P T st bucket key header =
     andThen (answer (object_path bucket key)) (\<lambda>path.
     andThen (answer (check_auth header st path)) (\<lambda>_.
     andThen (require_key P T path) (\<lambda>(_, sz, mtime) s.
     (Inr \<lparr>rs_status = 200,
           rs_headers = [(''content-length'', digits (unat sz)),
                         (''etag'', quoted (etag_or_default P T (fst s) path)), (''last-modified'', iso8601 T mtime)],
           rs_body = NoBody\<rparr>, s))))"

definition delete_object ::
    "prims \<Rightarrow> rendering \<Rightarrow> 'p s3_state \<Rightarrow> u64 \<Rightarrow> string \<Rightarrow> string \<Rightarrow> string option \<Rightarrow> ('p, response) handler" where
  "delete_object P T st now bucket key header =
     andThen (answer (object_path bucket key)) (\<lambda>path.
     andThen (answer (check_auth header st path)) (\<lambda>_.
     andThen (from_core (\<lambda>e. internal T e path) (on_core (reads (\<lambda>c. stat_file P c path)))) (\<lambda>found.
     andThen (if found \<noteq> None
              then from_core (\<lambda>e. internal T e path) (on_core (remove_path P (st_identity st) path now))
              else answer (Inr ())) (\<lambda>_.
     answer (Inr \<lparr>rs_status = 204, rs_headers = [], rs_body = NoBody\<rparr>)))))"

end
