(* ===== verification/S3_Laws.thy ===== *)
theory S3_Laws
  imports S3
begin

text \<open>
  What the S3 facade promises: escaping, the check of the shared secret, and the paging of a bucket's listing.
\<close>

unbundle bit_operations_syntax

section \<open>Escaping and secrets\<close>

text \<open>Escaped text carries none of the characters that delimit markup.\<close>

lemma esc_clean: "c \<in> set (esc s) \<Longrightarrow> c \<noteq> CHR ''<'' \<and> c \<noteq> CHR ''>'' \<and> c \<noteq> CHR 0x22 \<and> c \<noteq> CHR 0x27"
  by (auto simp: esc_def esc_char_def split: if_splits)

lemma or_zero_iff: "(a OR b :: byte) = 0 \<longleftrightarrow> a = 0 \<and> b = 0"
  by (auto simp: bit_eq_iff bit_simps)

lemma xor_zero_iff: "(a XOR b :: byte) = 0 \<longleftrightarrow> a = b"
  by (auto simp: bit_eq_iff bit_simps)

lemma diff_fold: "length a = length b \<Longrightarrow> foldl (\<lambda>diff (x, y). diff OR (x XOR y)) d (zip a b) = (0 :: byte) \<longleftrightarrow> d = 0 \<and> a = b"
  by (induction a b arbitrary: d rule: list_induct2) (auto simp: or_zero_iff xor_zero_iff)

lemma constant_time_eq_iff: "constant_time_eq a b \<longleftrightarrow> a = b"
  by (auto simp: constant_time_eq_def diff_fold)

lemma str_bytes_inject: "str_bytes s = str_bytes t \<longleftrightarrow> s = t"
proof -
  have "(word_of_nat (of_char c) :: byte) = word_of_nat (of_char d) \<longleftrightarrow> c = d" for c d :: char
  proof
    assume "(word_of_nat (of_char c) :: byte) = word_of_nat (of_char d)"
    then have "unat (word_of_nat (of_char c) :: byte) = unat (word_of_nat (of_char d) :: byte)" by simp
    then have "(of_char c :: nat) = of_char d" by (simp add: unat_of_nat)
    then show "c = d" by simp
  qed simp
  then have "inj (\<lambda>c :: char. word_of_nat (of_char c) :: byte)" by (auto simp: inj_def)
  then show ?thesis by (auto simp: str_bytes_def inj_map_eq_map)
qed

lemma check_auth_iff: "check_auth header st resource = Inr () \<longleftrightarrow> st_token st = [] \<or> header = Some (st_token st)"
  by (auto simp: check_auth_def constant_time_eq_iff str_bytes_inject split: option.split)

lemma check_auth_refuses:
  "st_token st \<noteq> [] \<Longrightarrow> header \<noteq> Some (st_token st) \<Longrightarrow> \<exists>e. check_auth header st resource = Inl e \<and> s3_status e = 403"
  by (auto simp: check_auth_def constant_time_eq_iff str_bytes_inject split: option.split)

lemma object_path_refuses: "object_path bucket key = Inl e \<Longrightarrow> s3_status e = 400"
  by (auto simp: object_path_def check_bucket_def invalid_def Let_def split: if_splits)

text \<open>
  C31. Without the shared secret nothing is answered and nothing changes. When a token is configured and the request does not carry
  it, every handler fails and leaves the state alone: listing and writing answer 403 whatever the key, while reading,
  probing and deleting answer 400 for a malformed key and 403 only for a well-formed one.
\<close>

theorem s3_unauthorized:
  assumes "st_token st \<noteq> []" "header \<noteq> Some (st_token st)"
  shows "(\<exists>e. list_buckets P T st header s = (Inl e, s) \<and> s3_status e = 403) \<and>
    (\<exists>e. create_bucket P T st now bucket header s = (Inl e, s) \<and> s3_status e = 403) \<and>
    (\<exists>e. list_objects P T st bucket q header s = (Inl e, s) \<and> s3_status e = 403) \<and>
    (\<exists>e. put_object_s3 P T st now bucket key header content s = (Inl e, s) \<and> s3_status e = 403) \<and>
    (\<exists>e. get_object_s3 P T st bucket key header s = (Inl e, s) \<and> s3_status e = (if isl (object_path bucket key) then 400 else 403)) \<and>
    (\<exists>e. head_object P T st bucket key header s = (Inl e, s) \<and> s3_status e = (if isl (object_path bucket key) then 400 else 403)) \<and>
    (\<exists>e. delete_object P T st now bucket key header s = (Inl e, s) \<and> s3_status e = (if isl (object_path bucket key) then 400 else 403))"
proof -
  have auth: "\<exists>e. check_auth header st r = Inl e \<and> s3_status e = 403" for r
    by (rule check_auth_refuses [OF assms])
  have first: "\<exists>e. andThen (answer (check_auth header st r)) f s = (Inl e, s) \<and> s3_status e = 403" for r f
    using auth [of r] by (auto simp: andThen_def answer_def)
  have second: "\<exists>e. andThen (answer (object_path bucket key)) (\<lambda>path. andThen (answer (check_auth header st path)) (f path)) s = (Inl e, s) \<and>
      s3_status e = (if isl (object_path bucket key) then 400 else 403)" for f
  proof (cases "object_path bucket key")
    case (Inl e)
    then show ?thesis using object_path_refuses [OF Inl] by (simp add: andThen_def answer_def)
  next
    case (Inr path)
    then show ?thesis using auth [of path] by (auto simp: andThen_def answer_def)
  qed
  show ?thesis
    unfolding list_buckets_def create_bucket_def list_objects_def put_object_s3_def get_object_s3_def head_object_def
      delete_object_def Let_def
    by (intro conjI first second)
qed

theorem s3_unauthorized_witness:
  "\<exists>e. put_object_s3 sample \<lparr>iso8601 = (\<lambda>_. []), hex_encode = (\<lambda>_. []), error_text = (\<lambda>_. [])\<rparr>
        \<lparr>st_identity = sample_ident, st_token = ''secret'', st_content = None\<rparr> 5 ''b'' ''k'' (Some ''guess'') [7] (sample_core, ()) =
      (Inl e, (sample_core, ())) \<and> s3_status e = 403"
proof -
  let ?st = "\<lparr>st_identity = sample_ident, st_token = ''secret'', st_content = None\<rparr> :: unit s3_state"
  have "st_token ?st \<noteq> []" "Some ''guess'' \<noteq> Some (st_token ?st)" by simp_all
  from s3_unauthorized [OF this] show ?thesis by blast
qed

section \<open>Paging\<close>

type_synonym row = "string \<times> u64 \<times> u64"

definition remaining :: "string option \<Rightarrow> row list \<Rightarrow> row list" where
  "remaining token keys = (case token of None \<Rightarrow> keys | Some t \<Rightarrow> filter (\<lambda>row. t < fst row) keys)"

definition blank :: page where
  "blank = \<lparr>pg_objects = [], pg_common = [], pg_last = None, pg_truncated = False\<rparr>"

lemma page_of_eq: "page_of grp n token keys = page_loop grp n (remaining token keys) blank"
  by (simp add: page_of_def remaining_def blank_def)

definition groups :: "(string \<Rightarrow> string option) \<Rightarrow> row list \<Rightarrow> string set" where
  "groups grp rows = {g. \<exists>row \<in> set rows. grp (fst row) = Some g}"

lemma groups_simps [simp]:
  "groups grp [] = {}" "groups grp (row # rows) = (case grp (fst row) of None \<Rightarrow> {} | Some g \<Rightarrow> {g}) \<union> groups grp rows"
  "groups grp (xs @ ys) = groups grp xs \<union> groups grp ys"
  by (auto simp: groups_def split: option.split)

abbreviation room :: "page \<Rightarrow> nat" where
  "room pg \<equiv> length (pg_objects pg) + length (pg_common pg)"

text \<open>A page takes a prefix of the rows it is offered, and says so.\<close>

definition takes :: "(string \<Rightarrow> string option) \<Rightarrow> row list \<Rightarrow> page \<Rightarrow> page \<Rightarrow> row list \<Rightarrow> row list \<Rightarrow> bool" where
  "takes grp rows pg pg' xs ys \<longleftrightarrow>
     rows = xs @ ys \<and> pg_objects pg' = pg_objects pg @ filter (\<lambda>row. grp (fst row) = None) xs \<and>
     set (pg_common pg') = set (pg_common pg) \<union> groups grp xs \<and>
     pg_last pg' = (if xs = [] then pg_last pg else Some (fst (last xs))) \<and> pg_truncated pg' = (ys \<noteq> [])"

definition place :: "(string \<Rightarrow> string option) \<Rightarrow> row \<Rightarrow> page \<Rightarrow> page" where
  "place grp row pg =
     (let pg = pg\<lparr>pg_last := Some (fst row)\<rparr> in
      case grp (fst row) of
        Some g \<Rightarrow> if g \<in> set (pg_common pg) then pg else pg\<lparr>pg_common := pg_common pg @ [g]\<rparr>
      | None \<Rightarrow> pg\<lparr>pg_objects := pg_objects pg @ [row]\<rparr>)"

lemma takes_Cons: "takes grp rows (place grp row pg) pg' xs ys \<Longrightarrow> takes grp (row # rows) pg pg' (row # xs) ys"
  by (auto simp: takes_def place_def Let_def split: option.splits if_splits)

lemma page_loop_takes:
  assumes "\<not> pg_truncated pg" "room pg \<le> n"
  shows "\<exists>xs ys. takes grp rows pg (page_loop grp n rows pg) xs ys \<and> room (page_loop grp n rows pg) \<le> n \<and>
    (rows \<noteq> [] \<and> room pg < n \<longrightarrow> xs \<noteq> [])"
  using assms
proof (induction rows arbitrary: pg)
  case Nil
  then show ?case by (simp add: takes_def)
next
  case (Cons row rows)
  show ?case
  proof (cases "room pg \<ge> n")
    case True
    then show ?thesis using Cons.prems by (intro exI [of _ "[]"] exI [of _ "row # rows"]) (simp add: takes_def)
  next
    case False
    let ?pg = "place grp row pg"
    have step: "page_loop grp n (row # rows) pg = page_loop grp n rows ?pg"
      using False by (simp add: place_def Let_def split: option.split)
    have "\<not> pg_truncated ?pg" "room ?pg \<le> n"
      using Cons.prems False by (auto simp: place_def Let_def split: option.split)
    then obtain xs ys where "takes grp rows ?pg (page_loop grp n rows ?pg) xs ys" "room (page_loop grp n rows ?pg) \<le> n"
      using Cons.IH by blast
    then show ?thesis unfolding step by (intro exI [of _ "row # xs"] exI [of _ ys]) (simp add: takes_Cons)
  qed
qed

lemma page_of_takes:
  assumes "0 < n"
  shows "\<exists>xs ys. remaining token keys = xs @ ys \<and> pg_objects (page_of grp n token keys) = filter (\<lambda>row. grp (fst row) = None) xs \<and>
    set (pg_common (page_of grp n token keys)) = groups grp xs \<and> room (page_of grp n token keys) \<le> n \<and>
    next_token (page_of grp n token keys) = (if ys = [] then None else Some (fst (last xs))) \<and> (ys \<noteq> [] \<longrightarrow> xs \<noteq> [])"
proof -
  have "\<not> pg_truncated blank" "room blank \<le> n" "room blank < n" using assms by (simp_all add: blank_def)
  then obtain xs ys where t: "takes grp (remaining token keys) blank (page_of grp n token keys) xs ys"
      "room (page_of grp n token keys) \<le> n" "remaining token keys \<noteq> [] \<longrightarrow> xs \<noteq> []"
    using page_loop_takes [of blank n grp "remaining token keys"] by (auto simp: page_of_eq)
  show ?thesis
    using t by (intro exI [of _ xs] exI [of _ ys]) (auto simp: takes_def next_token_def blank_def)
qed

lemma remaining_after:
  assumes "sorted_wrt (<) (map fst keys)" "remaining token keys = xs @ ys" "xs \<noteq> []"
  shows "remaining (Some (fst (last xs))) keys = ys"
proof -
  have cut: "filter (\<lambda>row. fst (last us) < fst row) (us @ ys) = ys"
    if srt: "sorted_wrt (<) (map fst (us @ ys))" and us0: "us \<noteq> []" for us ys :: "row list"
  proof -
    obtain vs v where us: "us = vs @ [v]" using us0 by (metis rev_exhaust)
    have "filter (\<lambda>row. fst v < fst row) vs = []"
      using srt by (force simp: us sorted_wrt_append filter_empty_conv)
    moreover have "filter (\<lambda>row. fst v < fst row) ys = ys"
      using srt by (intro filter_True) (force simp: us sorted_wrt_append)
    ultimately show ?thesis by (simp add: us)
  qed
  show ?thesis
  proof (cases token)
    case None
    then show ?thesis using assms cut [of xs ys] by (simp add: remaining_def)
  next
    case (Some t)
    have "last xs \<in> set (remaining token keys)" using assms(2,3) by simp
    then have "t < fst (last xs)" by (simp add: Some remaining_def)
    then have "filter (\<lambda>row. fst (last xs) < fst row) keys = filter (\<lambda>row. fst (last xs) < fst row) (remaining token keys)"
      by (auto simp: Some remaining_def filter_filter intro!: filter_cong)
    then have "remaining (Some (fst (last xs))) keys = filter (\<lambda>row. fst (last xs) < fst row) (xs @ ys)"
      unfolding assms(2) by (simp add: remaining_def)
    moreover have "sorted_wrt (<) (map fst (xs @ ys))"
      using assms(1) by (simp add: Some remaining_def assms(2) [symmetric, unfolded Some remaining_def option.case] sorted_wrt_map sorted_wrt_filter)
    ultimately show ?thesis using cut [OF _ assms(3)] by (simp only:)
  qed
qed

text \<open>
  A client that follows the continuation tokens. It stops because every page of positive size that names a token has moved past
  a row.
\<close>

lemma token_progress:
  assumes "0 < n" "next_token (page_of grp n token keys) = Some t"
  shows "length (remaining (Some t) keys) < length (remaining token keys)"
proof -
  obtain xs ys where r: "remaining token keys = xs @ ys" and t: "t = fst (last xs)" and xs: "xs \<noteq> []"
    using page_of_takes [OF assms(1), of token keys grp] assms(2) by (metis option.distinct(1) option.inject)
  have mem: "last xs \<in> set (remaining token keys)" using r xs by simp
  show ?thesis
  proof (cases token)
    case None
    then show ?thesis using mem length_filter_less [of "last xs" keys "\<lambda>row. t < fst row"] by (simp add: remaining_def t)
  next
    case (Some u)
    have u: "u < t" using mem by (simp add: Some remaining_def t)
    then have "filter (\<lambda>row. t < fst row) keys = filter (\<lambda>row. t < fst row) (remaining token keys)"
      by (auto simp: Some remaining_def filter_filter intro!: filter_cong)
    then show ?thesis using length_filter_less [OF mem, of "\<lambda>row. t < fst row"] by (simp add: remaining_def t)
  qed
qed

function all_pages :: "(string \<Rightarrow> string option) \<Rightarrow> nat \<Rightarrow> string option \<Rightarrow> row list \<Rightarrow> page list" where
  "all_pages grp n token keys =
     (let pg = page_of grp n token keys in
      case next_token pg of
        None \<Rightarrow> [pg]
      | Some t \<Rightarrow> if n = 0 then [pg] else pg # all_pages grp n (Some t) keys)"
  by auto
termination
  by (relation "measure (\<lambda>(grp, n, token, keys). length (remaining token keys))") (auto intro: token_progress)

declare all_pages.simps [simp del]

lemma all_pages_rows:
  assumes "sorted_wrt (<) (map fst keys)" "0 < n"
  shows "concat (map pg_objects (all_pages grp n token keys)) = filter (\<lambda>row. grp (fst row) = None) (remaining token keys) \<and>
    set (concat (map pg_common (all_pages grp n token keys))) = groups grp (remaining token keys) \<and>
    list_all (\<lambda>pg. room pg \<le> n) (all_pages grp n token keys)"
  using assms
proof (induction grp n token keys rule: all_pages.induct)
  case (1 grp n token keys)
  let ?pg = "page_of grp n token keys"
  obtain xs ys where r: "remaining token keys = xs @ ys" and pg: "pg_objects ?pg = filter (\<lambda>row. grp (fst row) = None) xs"
    "set (pg_common ?pg) = groups grp xs" "room ?pg \<le> n" "next_token ?pg = (if ys = [] then None else Some (fst (last xs)))"
    and xs: "ys \<noteq> [] \<longrightarrow> xs \<noteq> []"
    using page_of_takes [OF "1.prems"(2), of token keys grp] by blast
  show ?case
  proof (cases "ys = []")
    case True
    then show ?thesis using r pg by (simp add: all_pages.simps [of grp n token])
  next
    case False
    let ?t = "fst (last xs)"
    have rest: "remaining (Some ?t) keys = ys" by (rule remaining_after [OF "1.prems"(1) r mp [OF xs False]])
    have "all_pages grp n token keys = ?pg # all_pages grp n (Some ?t) keys"
      using False pg(4) "1.prems"(2) by (simp add: all_pages.simps [of grp n token])
    moreover have "concat (map pg_objects (all_pages grp n (Some ?t) keys)) = filter (\<lambda>row. grp (fst row) = None) ys \<and>
      set (concat (map pg_common (all_pages grp n (Some ?t) keys))) = groups grp ys \<and>
      list_all (\<lambda>pg. room pg \<le> n) (all_pages grp n (Some ?t) keys)"
      using "1.IH" [OF refl, of ?t] False pg(4) "1.prems" rest by simp
    ultimately show ?thesis using r pg by simp
  qed
qed

text \<open>
  C30. Paging loses nothing and repeats no object. For a sorted listing without repeated keys and any positive page size, a client that
  follows the continuation tokens stops; the objects of its pages, in order, are exactly the keys that fall into no group, each
  once; the groups of its pages are exactly the groups of the keys; and no page holds more rows than the page size.
\<close>

theorem s3_pagination_complete:
  assumes "sorted_wrt (<) (map fst keys)" "0 < n"
  shows "concat (map pg_objects (all_pages grp n None keys)) = filter (\<lambda>row. grp (fst row) = None) keys \<and>
    set (concat (map pg_common (all_pages grp n None keys))) = {g. \<exists>row \<in> set keys. grp (fst row) = Some g} \<and>
    list_all (\<lambda>pg. length (pg_objects pg) + length (pg_common pg) \<le> n) (all_pages grp n None keys)"
  using all_pages_rows [OF assms, of grp None] by (simp add: remaining_def groups_def)

definition sample_keys :: "row list" where
  "sample_keys = [(''a/1'', 1, 1), (''a/2'', 2, 1), (''b'', 3, 1)]"

theorem s3_pagination_complete_witness:
  "concat (map pg_objects (all_pages (group_of [] (Some ''/'')) 1 None sample_keys)) = [(''b'', 3, 1)]"
proof -
  have "sorted_wrt (<) (map fst sample_keys)" by (simp add: sample_keys_def)
  from s3_pagination_complete [OF this, of 1 "group_of [] (Some ''/'')"]
  show ?thesis by (simp add: sample_keys_def group_of_def text_starts_def)
qed

text \<open>A group whose keys straddle two pages is listed on both.\<close>

lemma group_listed_twice:
  "map pg_common (all_pages (group_of [] (Some ''/'')) 1 None sample_keys) = [[''a/''], [''a/''], []]"
  by (simp add: all_pages.simps page_of_def sample_keys_def group_of_def text_starts_def next_token_def Let_def)

end
