(* ===== verification/Padding.thy ===== *)
theory Padding
  imports Prelude
begin

text \<open>
  Size padding and the cover traffic policy: \<open>src/crates/privacy/src/padding.rs\<close> and \<open>cover_traffic.rs\<close>. The search for a power
  of two is a loop that need not end, so it is a partial function whose value \<open>None\<close> is not returning; \<open>u64\<close> arithmetic wraps,
  as in a release build.
\<close>

unbundle bit_operations_syntax

datatype padding_policy = NoPadding | PowerOfTwo | FixedBucket u64

partial_function (option) pow_loop :: "u64 \<Rightarrow> u64 \<Rightarrow> u64 option" where
  "pow_loop sz b = (if b < sz then pow_loop sz (push_bit 1 b) else Some b)"

definition padded_size :: "padding_policy \<Rightarrow> u64 \<Rightarrow> u64 option" where
  "padded_size policy sz =
     (case policy of
        NoPadding \<Rightarrow> Some sz
      | PowerOfTwo \<Rightarrow> pow_loop sz 1
      | FixedBucket bucket_bytes \<Rightarrow>
          if bucket_bytes = 0 then Some sz
          else let rem = sz mod bucket_bytes in
               if rem = 0 then Some sz else Some (sz + (bucket_bytes - rem)))"

record cover_traffic_policy =
  ct_enabled :: bool
  avg_interval_ms :: u64
  max_bytes_per_min :: u64

definition cover_traffic_default :: cover_traffic_policy where
  "cover_traffic_default = \<lparr>ct_enabled = False, avg_interval_ms = 30000, max_bytes_per_min = 1024 * 1024\<rparr>"

section \<open>The search for a power of two\<close>

text \<open>Once the probe has been shifted to zero, the loop never returns.\<close>

lemma pow_loop_zero: "0 < sz \<Longrightarrow> pow_loop sz 0 = None"
proof -
  have "\<not> (b = 0 \<and> 0 < sz)" if "pow_loop sz b = Some y" for b y
    using that by (rule pow_loop.raw_induct [rotated]) (auto split: if_splits)
  then show "0 < sz \<Longrightarrow> pow_loop sz 0 = None" by (cases "pow_loop sz 0") auto
qed

lemma shift_power: "push_bit 1 (2 ^ k :: u64) = 2 ^ Suc k"
  by (simp add: push_bit_eq_mult)

lemma unat_power: "k < 64 \<Longrightarrow> unat (2 ^ k :: u64) = 2 ^ k"
proof -
  assume "k < 64"
  then have "(2 :: nat) ^ k < 2 ^ 64" by (intro power_strict_increasing) auto
  moreover have "(2 ^ k :: u64) = word_of_nat (2 ^ k)" by simp
  ultimately show ?thesis by (simp only: unat_of_nat) simp
qed

lemma power_less: "k < 64 \<Longrightarrow> (2 ^ k :: u64) < sz \<longleftrightarrow> 2 ^ k < unat sz"
  by (simp add: word_less_nat_alt unat_power)

lemma pow_step: "pow_loop sz b = (if b < sz then pow_loop sz (push_bit 1 b) else Some b)"
  by (rule pow_loop.simps)

lemma pow_step_power: "k < 64 \<Longrightarrow> pow_loop sz (2 ^ k) = (if 2 ^ k < unat sz then pow_loop sz (2 ^ Suc k) else Some (2 ^ k))"
  by (simp only: pow_step [of sz "2 ^ k"] power_less shift_power)

lemma pow_loop_diverges:
  assumes "2 ^ n < unat sz" "n = 63" "k \<le> n"
  shows "pow_loop sz (2 ^ k) = None"
  using assms(3)
proof (induction rule: inc_induct)
  case base
  have n: "n < 64" "(2 ^ Suc n :: u64) = 0" by (simp_all add: assms(2))
  have "0 < sz" using assms(1) by (simp add: word_less_nat_alt)
  then show ?case using assms(1) pow_loop_zero [of sz] pow_step_power [of n sz] n by (simp del: power_Suc)
next
  case (step k)
  have "(2 :: nat) ^ k \<le> 2 ^ n" using step(2) by (intro power_increasing) auto
  then show ?case using step assms(1,2) pow_step_power [of k sz] by simp
qed

lemma pow_loop_finds:
  assumes "unat sz \<le> 2 ^ n" "n = 63" "k \<le> n" "k = 0 \<or> 2 ^ (k - 1) < unat sz"
  shows "\<exists>m \<le> n. pow_loop sz (2 ^ k) = Some (2 ^ m) \<and> unat sz \<le> 2 ^ m \<and> (m = 0 \<or> 2 ^ (m - 1) < unat sz)"
  using assms(3,4)
proof (induction rule: inc_induct)
  case base
  then show ?case using assms(1,2) pow_step_power [of n sz] by auto
next
  case (step k)
  show ?case
  proof (cases "2 ^ k < unat sz")
    case True
    then show ?thesis using step assms(2) pow_step_power [of k sz] by simp
  next
    case False
    then show ?thesis using step assms(2) pow_step_power [of k sz] by (intro exI [of _ k]) auto
  qed
qed

text \<open>
  C34. Padding to a power of two. For a size of at most \<open>2 ^ 63\<close> the loop returns the least power of two that is not below it; for
  every larger size it never returns, because the probe is shifted to zero before it reaches the size.
\<close>

theorem padded_size_power_of_two:
  "if unat sz \<le> 2 ^ 63
   then \<exists>m \<le> 63. padded_size PowerOfTwo sz = Some (2 ^ m) \<and> unat sz \<le> 2 ^ m \<and> (m = 0 \<or> 2 ^ (m - 1) < unat sz)
   else padded_size PowerOfTwo sz = None"
  using pow_loop_finds [of sz 63 0] pow_loop_diverges [of 63 sz 0] by (simp add: padded_size_def)

text \<open>A bucket pads up to the next multiple, unless that multiple does not fit in 64 bits.\<close>

lemma padded_size_bucket:
  assumes "0 < unat b" "unat sz + unat b \<le> 2 ^ 64"
  shows "\<exists>n. padded_size (FixedBucket b) sz = Some n \<and> unat b dvd unat n \<and> unat sz \<le> unat n \<and> unat n < unat sz + unat b"
proof -
  have b: "b \<noteq> 0" using assms(1) by auto
  define r where "r = unat sz mod unat b"
  have r: "unat (sz mod b) = r" "r < unat b" using assms(1) by (simp_all add: unat_mod_distrib r_def)
  show ?thesis
  proof (cases "sz mod b = 0")
    case True
    then have "unat b dvd unat sz" using r(1) by (simp add: r_def mod_eq_0_iff_dvd)
    then show ?thesis using True b assms(1) by (simp add: padded_size_def)
  next
    case False
    then have r0: "r \<noteq> 0" using r(1) by (metis unat_eq_0)
    have "unat (b - sz mod b) = unat b - r" using r by (simp add: unat_sub word_le_nat_alt)
    then have n: "unat (sz + (b - sz mod b)) = unat sz + (unat b - r)"
      using assms r r0 by (subst unat_add_lem [THEN iffD1]) auto
    have "unat sz + (unat b - r) = (unat sz div unat b + 1) * unat b"
      using r(2) div_mult_mod_eq [of "unat sz" "unat b"] unfolding r_def distrib_right by linarith
    then have "unat b dvd unat sz + (unat b - r)" by simp
    then show ?thesis using False b n r r0 by (auto simp: padded_size_def Let_def)
  qed
qed

end
