(* ===== verification/Transparent.thy ===== *)
theory Transparent
  imports Crypto
begin

text \<open>
  The proof interface of \<open>src/crates/zk/src/lib.rs\<close> and the transparent bundles of \<open>transparent.rs\<close>. The postcard encoding of
  the bundle is a parameter: \<open>enc\<close> and \<open>dec\<close> with the law that decoding undoes encoding.
\<close>

datatype local_proof_mode = LocalNone | LocalTransparent | LocalZkCommit | LocalZkFull

fun proof_mode_from :: "local_proof_mode \<Rightarrow> proof_mode" where
  "proof_mode_from LocalNone = PM_None"
| "proof_mode_from LocalTransparent = PM_Transparent"
| "proof_mode_from LocalZkCommit = PM_ZkCommit"
| "proof_mode_from LocalZkFull = PM_ZkFull"

record head_proof =
  old_head :: "hash option"
  new_head :: "hash option"
  hp_changed_hashes :: "hash list"

definition make_bundle :: "(head_proof \<Rightarrow> bytes) \<Rightarrow> head_proof \<Rightarrow> proof_bundle" where
  "make_bundle enc p = \<lparr>pb_mode = PM_Transparent, pb_bytes = enc p\<rparr>"

definition verify_bundle :: "(bytes \<Rightarrow> head_proof option) \<Rightarrow> fs_op \<Rightarrow> proof_bundle \<Rightarrow> unit result" where
  "verify_bundle dec op bundle =
     (if pb_mode bundle \<noteq> PM_Transparent then Inl (Bail ''expected transparent proof mode'')
      else case dec (pb_bytes bundle) of
        None \<Rightarrow> Inl (Bail ''decode transparent proof'')
      | Some _ \<Rightarrow> Inr ())"

text \<open>
  The verifier looks at the encoding alone: a bundle made for any pair of heads is accepted with any operation, and the mode
  of a bundle decides before its bytes are looked at.
\<close>

lemma verify_make_bundle: "(\<And>p. dec (enc p) = Some p) \<Longrightarrow> verify_bundle dec op (make_bundle enc p) = Inr ()"
  by (simp add: verify_bundle_def make_bundle_def)

lemma verify_bundle_mode: "verify_bundle dec op b = Inr () \<Longrightarrow> pb_mode b = proof_mode_from LocalTransparent"
  by (simp add: verify_bundle_def split: if_splits)

end
