(* ===== verification/State_Root.thy ===== *)
theory State_Root
  imports Ops_Laws Share
begin

text \<open>
  The state root a node reports is the commitment of the inode map it maintains. \<open>root_current\<close> says so of a state; the bootstrap
  establishes it, and every operation that returns successfully, local or received, keeps it. \<open>repo_step\<close> collects these
  operations into a step relation. The proofs a node issues (\<open>Portable_Proofs\<close>, \<open>Admin\<close>) rest on the invariant.
\<close>

definition root_current :: "prims \<Rightarrow> core \<Rightarrow> bool" where
  "root_current P c \<longleftrightarrow> imap_ok c \<and> (\<exists>root. compute_state_root P c = Inr root \<and> get_state_root c = Some root)"

lemma root_currentD:
  assumes "root_current P c"
  obtains m where "inode_map c = Inr m" "sorted_wrt (<) (map fst m)" "get_state_root c = Some (commit (blake3 P) m)"
proof -
  obtain m where "inode_map c = Inr m" "sorted_wrt (<) (map fst m)"
    using assms inode_map_eq unfolding root_current_def by blast
  then show thesis using assms that by (auto simp: root_current_def compute_state_root_def)
qed

section \<open>What leaves the map and the root alone\<close>

definition same_root :: "core \<Rightarrow> core \<Rightarrow> bool" where
  "same_root c c' \<longleftrightarrow>
     (\<forall>k. starts_with k IMAP_PREFIX \<longrightarrow> kv_get c' CF_STATE k = kv_get c CF_STATE k) \<and> get_state_root c' = get_state_root c"

lemma same_root_current:
  assumes "same_root c c'" "root_current P c"
  shows "root_current P c'"
proof -
  have "kv_scan c' CF_STATE IMAP_PREFIX = kv_scan c CF_STATE IMAP_PREFIX"
    using assms(1) by (intro mem_kv.scan_cong) (simp add: same_root_def)
  then have "inode_map c' = inode_map c" by (simp add: inode_map_def)
  moreover have "imap_ok c'" using assms unfolding root_current_def imap_ok_def same_root_def by metis
  ultimately show ?thesis using assms by (simp add: root_current_def same_root_def compute_state_root_def)
qed

lemma same_root_rows [simp]:
  "\<not> starts_with k IMAP_PREFIX \<Longrightarrow> same_root c (kv_put CF_STATE k v c)"
  "cf \<noteq> CF_STATE \<Longrightarrow> (cf, k) \<noteq> (CF_META, KEY_STATE_ROOT) \<Longrightarrow> same_root c (kv_put cf k v c)"
  "cf \<noteq> CF_STATE \<Longrightarrow> (cf, k) \<noteq> (CF_META, KEY_STATE_ROOT) \<Longrightarrow> same_root c (kv_del cf k c)"
  "same_root c (put_blob h b c)" "same_root c (c\<lparr>draws := n\<rparr>)" "same_root c (announce_local_op c)"
  by (auto simp: same_root_def get_state_root_def read_hash_def announce_local_op_def)

lemma same_root_trans: "same_root a b \<Longrightarrow> same_root b c \<Longrightarrow> same_root a c"
  by (simp add: same_root_def)

interpretation sr: record_rel P same_root for P
proof unfold_locales
  show "same_root c c" for c by (simp add: same_root_def)
qed (auto simp: store_dir_def store_inode_def set_parent_def intro: same_root_trans)

lemma same_root_marks [simp]:
  "same_root c (mark_op_applied i c)" "same_root c (clear_pending i c)" "same_root c (observe_time t c)"
  "same_root c (store_pending P op c)" "same_root c (append_op P op c)" "same_root c (set_head h c)"
  by (simp_all add: mark_op_applied_def clear_pending_def observe_time_def store_pending_def append_op_def set_head_def sr.refl)

interpretation io: op_rel P "\<lambda>c c'. imap_ok c \<longrightarrow> imap_ok c'" for P
proof unfold_locales
  show "imap_ok c \<longrightarrow> imap_ok (del_imap i c)" for c i by (simp add: del_imap_def imap_ok_del)
  have same: "same_root c c' \<Longrightarrow> imap_ok c \<longrightarrow> imap_ok c'" for c c' unfolding same_root_def imap_ok_def by metis
  show "imap_ok c \<longrightarrow> imap_ok (set_state_root h c)" for c h by (simp add: imap_ok_def set_state_root_def)
  show "imap_ok c \<longrightarrow> imap_ok (store_dir P i m c)" "imap_ok c \<longrightarrow> imap_ok (store_inode P i r c)" "imap_ok c \<longrightarrow> imap_ok (set_parent i p c)"
    "imap_ok c \<longrightarrow> imap_ok (put_blob (blake3 P bs) bs c)" "imap_ok c \<longrightarrow> imap_ok (c\<lparr>draws := n\<rparr>)"
    "imap_ok c \<longrightarrow> imap_ok (clear_pending j (mark_op_applied j c))" "imap_ok c \<longrightarrow> imap_ok (clear_pending j c)"
    "imap_ok c \<longrightarrow> imap_ok (observe_time t c)" "imap_ok c \<longrightarrow> imap_ok (store_pending P op c)" "imap_ok c \<longrightarrow> imap_ok (set_head h c)"
    "imap_ok c \<longrightarrow> imap_ok (append_op P op c)" for c i m r p bs n j t op h
    by (rule same, simp add: sr.records same_root_trans [OF same_root_marks(1,2)])+
qed auto

section \<open>Draining and the snapshot\<close>

text \<open>A pass over the queue that applies nothing touches neither the map nor the root.\<close>

lemma drain_rows_idle: "drain_rows P rows c = (Inr (progressed, 0), c') \<Longrightarrow> same_root c c'"
proof (induction rows arbitrary: c progressed)
  case (Cons row rows)
  obtain k v where row: "row = (k, v)" by (cases row)
  obtain op where op: "decode_pending P v = Inr op"
    using Cons.prems by (auto simp: row bindE_eq_Inr lift_result_def)
  show ?case
  proof (cases "is_op_applied c (op_id op)")
    case True
    then obtain pg where "drain_rows P rows (clear_pending (op_id op) c) = (Inr (pg, 0), c')"
      using Cons.prems op by (auto simp: row bindE_eq_Inr lift_result_def bindE_def split: prod.splits sum.splits)
    then show ?thesis using Cons.IH same_root_trans [OF same_root_marks(2)] by blast
  next
    case False
    then obtain m c1 where m: "mutate P op c = (Inr m, c1)"
      using Cons.prems op by (auto simp: row bindE_eq_Inr lift_result_def bindE_def split: prod.splits sum.splits)
    show ?thesis
    proof (cases m)
      case Done
      then show ?thesis using Cons.prems op m False by (auto simp: row lift_result_def bindE_def split: prod.splits sum.splits)
    next
      case (Unmet r)
      then have "c1 = c" using m mutate_Unmet by blast
      then show ?thesis using Cons m op Unmet False by (auto simp: row lift_result_def bindE_def)
    qed
  qed
qed (simp add: sr.refl)

lemma drain_pending_idle: "drain_pending P c = (Inr 0, c') \<Longrightarrow> same_root c c'"
proof -
  have "drain_loop P fuel c = (Inr 0, c') \<Longrightarrow> same_root c c'" for fuel
  proof (induction fuel arbitrary: c)
    case (Suc fuel)
    show ?case
    proof (cases "kv_scan c CF_OPLOG PENDING_PREFIX = []")
      case True
      then show ?thesis using Suc.prems by (simp add: bindE_def sr.refl)
    next
      case False
      then obtain pg t c1 where r: "drain_rows P (kv_scan c CF_OPLOG PENDING_PREFIX) c = (Inr (pg, t), c1)"
        and rest: "(if \<not> pg then ret t else bindE (drain_loop P fuel) (\<lambda>more. ret (t + more))) c1 = (Inr 0, c')"
        using Suc.prems by (auto simp: bindE_eq_Inr)
      have "t = 0" "c1 = c' \<or> drain_loop P fuel c1 = (Inr 0, c')"
        using rest by (auto simp: bindE_eq_Inr split: if_splits)
      then show ?thesis using drain_rows_idle r Suc.IH same_root_trans by metis
    qed
  qed simp
  then show "drain_pending P c = (Inr 0, c') \<Longrightarrow> same_root c c'" unfolding drain_pending_def by blast
qed

lemma snapshot_current:
  assumes "build_snapshot P c = (Inr h, c')" "imap_ok c"
  shows "root_current P c'"
proof -
  obtain root where root: "compute_state_root P c = Inr root" using assms(1) by (auto simp: build_snapshot_def bindE_eq_Inr)
  let ?c = "set_state_root root c"
  obtain h' c1 where po: "put_object P (SnapshotRoot (new_snapshot_root ROOT_INODE (Some root) (core_device ?c) (state_time ?c))) ?c = (h', c1)"
    by fastforce
  have c': "c' = set_head h' c1" using assms(1) root po by (auto simp: build_snapshot_def bindE_def)
  have "inode_map ?c = inode_map c" by (simp add: inode_map_def set_state_root_def)
  moreover have "imap_ok ?c" using assms(2) by (simp add: imap_ok_def set_state_root_def)
  ultimately have "root_current P ?c" using root by (simp add: root_current_def compute_state_root_def)
  moreover have "same_root ?c c'" using same_root_trans [OF sr.put_object_rel [OF po] same_root_marks(6)] c' by simp
  ultimately show ?thesis using same_root_current by blast
qed

section \<open>Operations keep the root current\<close>

definition preserves :: "('s \<Rightarrow> bool) \<Rightarrow> ('s, 'a) comp \<Rightarrow> bool" where
  "preserves Q m \<longleftrightarrow> (\<forall>s x s'. Q s \<longrightarrow> m s = (Inr x, s') \<longrightarrow> Q s')"

lemma preservesD: "preserves Q m \<Longrightarrow> m s = (Inr x, s') \<Longrightarrow> Q s \<Longrightarrow> Q s'"
  unfolding preserves_def by blast

lemma preserves_bindE: "preserves Q m \<Longrightarrow> (\<And>x. preserves Q (f x)) \<Longrightarrow> preserves Q (bindE m f)"
  unfolding preserves_def bindE_eq_Inr by blast

lemma preserves_basic: "preserves Q (ret x)" "preserves Q (raise e)" "preserves Q (reads f)" "preserves Q (lift_result r)"
  by (auto simp: preserves_def lift_result_def)

lemma preserves_same_root: "keeps same_root m \<Longrightarrow> preserves (root_current P) m"
  unfolding preserves_def using keepsD same_root_current by metis

lemmas preserves_intros = preserves_bindE preserves_basic

lemma preserves_upd: "(\<And>c. same_root c (f c)) \<Longrightarrow> preserves (root_current P) (upd f)"
  by (intro preserves_same_root keeps_upd)

lemma snapshot_if:
  assumes "imap_ok c" "b \<or> root_current P c" "(if b then bindE (build_snapshot P) (\<lambda>_. ret ()) else ret ()) c = (Inr u, c')"
  shows "root_current P c'"
  using assms snapshot_current by (auto simp: bindE_eq_Inr split: if_splits)

lemma drained_current:
  assumes "imap_ok c" "b \<or> root_current P c" "drain_pending P c = (Inr n, c1)"
    "(if b \<or> n > 0 then bindE (build_snapshot P) (\<lambda>_. ret ()) else ret ()) c1 = (Inr u, c')"
  shows "root_current P c'"
proof (rule snapshot_if [OF _ _ assms(4)])
  show "imap_ok c1" using keepsD [OF io.drain assms(3)] assms(1) by blast
  show "(b \<or> n > 0) \<or> root_current P c1" using assms(2,3) drain_pending_idle same_root_current by (cases n) blast+
qed

lemma settle_current:
  assumes "imap_ok c" "out = Applied \<or> root_current P c" "settle P out c = (Inr x, c')"
  shows "root_current P c'"
proof -
  obtain n c1 u where "drain_pending P c = (Inr n, c1)"
    "(if out = Applied \<or> n > 0 then bindE (build_snapshot P) (\<lambda>_. ret ()) else ret ()) c1 = (Inr u, c')"
    using assms(3) by (auto simp: settle_def bindE_eq_Inr)
  then show ?thesis using drained_current [OF assms(1,2)] by blast
qed

lemma tail_current:
  assumes "root_current P c" "apply_tail P op c = (Inr out, c')"
  shows "root_current P c'"
proof -
  obtain m c1 where m: "mutate P op c = (Inr m, c1)" using assms(2) by (auto simp: apply_tail_eq split: prod.splits sum.splits)
  have c1: "root_current P c1" using keepsD [OF sr.mutate m] assms(1) same_root_current by blast
  show ?thesis
  proof (cases m)
    case Done
    then obtain u c2 where f: "finish_applied P op c1 = (Inr u, c2)" "settle P Applied c2 = (Inr out, c')"
      using assms(2) m by (auto simp: apply_tail_eq split: prod.splits sum.splits)
    have "imap_ok c2" using keepsD [OF io.finish f(1)] c1 by (simp add: root_current_def)
    then show ?thesis using settle_current f(2) by blast
  next
    case (Unmet r)
    have "root_current P (store_pending P op c1)" using c1 same_root_current same_root_marks(4) by blast
    moreover have "settle P (Pending r) (store_pending P op c1) = (Inr out, c')" using assms(2) m Unmet by (simp add: apply_tail_eq)
    ultimately show ?thesis using settle_current unfolding root_current_def by blast
  qed
qed

lemma preserves_apply: "preserves (root_current P) (apply_op_inner P op pol)"
  unfolding preserves_def
proof (intro allI impI)
  fix c out c'
  assume c: "root_current P c" and r: "apply_op_inner P op pol c = (Inr out, c')"
  have "root_current P (append_op P op c)" using c same_root_current same_root_marks(5) by blast
  then show "root_current P c'"
    using r c tail_current by (auto simp: apply_op_inner_cases split: sum.splits if_splits)
qed

lemma preserves_retry: "preserves (root_current P) (retry_pending P)"
  unfolding preserves_def
proof (intro allI impI)
  fix c n c'
  assume c: "root_current P c" and r: "retry_pending P c = (Inr n, c')"
  then obtain c1 u where "drain_pending P c = (Inr n, c1)"
    "(if False \<or> n > 0 then bindE (build_snapshot P) (\<lambda>_. ret ()) else ret ()) c1 = (Inr u, c')"
    by (auto simp: retry_pending_def bindE_eq_Inr)
  then show "root_current P c'" using c drained_current [of c False] unfolding root_current_def by blast
qed

lemma preserves_local: "preserves (root_current P) (apply_local P ident kind now)"
proof -
  have made: "preserves (root_current P) (made_op P ident kind now)"
    by (rule preserves_same_root) (auto simp: keeps_def made_op_def make_op_def next_op_counter_def Let_def split: prod.split)
  have req: "preserves (root_current P) (require_applied out)" for out
    by (auto simp: require_applied_def intro: preserves_basic split: apply_outcome.split)
  show ?thesis
    unfolding apply_local_def apply_plain_def apply_proven_def apply_op_def apply_op_unproven_def Let_def
    by (intro preserves_intros) (auto intro!: preserves_intros made req preserves_apply preserves_upd)
qed

lemma preserves_mkdir: "preserves (root_current P) (mkdir_p P ident path now)"
proof -
  have "preserves (root_current P) (mkdir_loop P ident now current parts)" for current parts
    by (induction parts arbitrary: current) (auto intro!: preserves_intros preserves_local split: option.split)
  then show ?thesis unfolding mkdir_p_def by (auto intro!: preserves_intros)
qed

lemma preserves_write: "preserves (root_current P) (write_file P ident path content now)"
  unfolding write_file_def open_or_create_def
  by (auto intro!: preserves_intros preserves_local preserves_mkdir preserves_same_root [OF sr.store_content] split: option.split)

lemma preserves_move:
  "preserves (root_current P) (remove_path P ident path now)" "preserves (root_current P) (rename_path P ident path dest now)"
  unfolding remove_path_def rename_path_def
  by (auto intro!: preserves_intros preserves_local split: option.split)

lemma bootstrap_current:
  assumes "bootstrap_if_needed P c = (Inr u, c')" "imap_ok c" "get_head c = None"
  shows "root_current P c'"
proof -
  let ?c = "store_dir P ROOT_INODE or_default (store_inode P ROOT_INODE (inode_record_new Dir 0x41ED 0 0 0) c)"
  obtain es c1 h c2 where rb: "rebuild_inode_map P ?c = (Inr es, c1)" and bs: "build_snapshot P c1 = (Inr h, c2)"
    and c': "c' = stamp_current_format c2"
    using assms(1,3) by (auto simp: bootstrap_if_needed_def bindE_eq_Inr)
  have "imap_ok ?c" using assms(2) io.records by blast
  then have "imap_ok c1" using keepsD [OF io.rebuild rb] by blast
  then have "root_current P c2" using snapshot_current [OF bs] by blast
  moreover have "same_root c2 c'" by (simp add: c' stamp_current_format_def set_format_version_def)
  ultimately show ?thesis using same_root_current by blast
qed

lemma preserves_share:
  "preserves (root_current P) (reseal_to_recipients P ident now dry)" "preserves (root_current P) (rotate_content P ident only now dry)"
proof -
  have seal: "preserves (root_current P) (seal_all P k recips)" for k recips
    by (rule preserves_same_root) (induction recips; auto simp: seal_one_def intro!: sr.seq sr.draws sr.lifted)
  have "preserves (root_current P) (reseal_file P ident now dry recips f report)" for recips f report
    unfolding reseal_file_def reseal_info_def Let_def
    by (auto intro!: preserves_intros seal preserves_local split: option.split object.split sum.split)
  then have "preserves (root_current P) (reseal_loop P ident now dry recips fs report)" for recips fs report
    by (induction fs arbitrary: report) (auto intro!: preserves_intros)
  then show "preserves (root_current P) (reseal_to_recipients P ident now dry)"
    unfolding reseal_to_recipients_def by (auto intro!: preserves_intros)
  have "preserves (root_current P) (rotate_file P ident now dry target f report)" for target f report
    unfolding rotate_file_def rotate_node_def Let_def
    by (auto intro!: preserves_intros preserves_local preserves_same_root [OF sr.store_content] split: option.split object.split sum.split)
  then have "preserves (root_current P) (rotate_loop P ident now dry target fs report)" for target fs report
    by (induction fs arbitrary: report) (auto intro!: preserves_intros)
  then show "preserves (root_current P) (rotate_content P ident only now dry)"
    unfolding rotate_content_def by (auto intro!: preserves_intros)
qed

section \<open>The life of a repository\<close>

text \<open>
  What may happen to a repository between two looks at it: an operation received from a peer, a retry of the parked ones, content
  filed under its hash, a local change through the high-level interface, a re-sealing or rotation pass, a change to the
  enrolled peers.
\<close>

inductive repo_step :: "prims \<Rightarrow> core \<Rightarrow> core \<Rightarrow> bool" for P where
  received: "apply_op P op c = (Inr out, c') \<Longrightarrow> repo_step P c c'"
| retried: "retry_pending P c = (Inr n, c') \<Longrightarrow> repo_step P c c'"
| fetched: "repo_step P c (put_blob (blake3 P bs) bs c)"
| made_dirs: "mkdir_p P ident path now c = (Inr i, c') \<Longrightarrow> repo_step P c c'"
| wrote: "write_file P ident path content now c = (Inr i, c') \<Longrightarrow> repo_step P c c'"
| removed: "remove_path P ident path now c = (Inr u, c') \<Longrightarrow> repo_step P c c'"
| renamed: "rename_path P ident path dest now c = (Inr u, c') \<Longrightarrow> repo_step P c c'"
| resealed: "reseal_to_recipients P ident now dry c = (Inr sh, c') \<Longrightarrow> repo_step P c c'"
| rotated: "rotate_content P ident only now dry c = (Inr ro, c') \<Longrightarrow> repo_step P c c'"
| enrolled: "enrol_peer d k seal force c = (r, c') \<Longrightarrow> repo_step P c c'"
| revoked: "revoke_peer d c = (r, c') \<Longrightarrow> repo_step P c c'"

lemma same_root_peers:
  "enrol_peer d k seal force c = (r, c') \<Longrightarrow> same_root c c'" "revoke_peer d c = (b, c') \<Longrightarrow> same_root c c'"
  by (auto simp: enrol_peer_def enrol_seal_def revoke_peer_def bindE_def Let_def same_root_def get_state_root_def read_hash_def
      split: sum.splits option.splits prod.splits if_splits)

lemma step_keeps_root: "repo_step P c c' \<Longrightarrow> root_current P c \<Longrightarrow> root_current P c'"
proof (induction rule: repo_step.induct)
  case (received op c out c')
  then show ?case by (simp add: apply_op_def preservesD [OF preserves_apply])
next
  case (fetched c bs)
  then show ?case using same_root_current same_root_rows(4) by blast
next
  case (enrolled d k seal force c r c')
  then show ?case using same_root_current same_root_peers(1) by blast
next
  case (revoked d c r c')
  then show ?case using same_root_current same_root_peers(2) by blast
qed (erule (1) preservesD [OF preserves_retry] preservesD [OF preserves_mkdir] preservesD [OF preserves_write]
      preservesD [OF preserves_move(1)] preservesD [OF preserves_move(2)] preservesD [OF preserves_share(1)]
      preservesD [OF preserves_share(2)])+

lemma steps_keep_root: "(repo_step P)\<^sup>*\<^sup>* c c' \<Longrightarrow> root_current P c \<Longrightarrow> root_current P c'"
  by (induction rule: rtranclp_induct) (auto intro: step_keeps_root)

text \<open>
  C11. The state root is never stale. Bootstrapping an empty store and then running any sequence of operations that succeed,
  received or local, with any content fetched, peers enrolled or revoked and keys re-sealed or rotated in between, ends in
  a state whose stored root is the Merkle commitment of the inode map it maintains, which is readable and strictly sorted.
\<close>

theorem state_root_current:
  assumes "imap_ok c" "get_head c = None" "bootstrap_if_needed P c = (Inr u, c0)" "(repo_step P)\<^sup>*\<^sup>* c0 c'"
  shows "\<exists>m. inode_map c' = Inr m \<and> sorted_wrt (<) (map fst m) \<and> get_state_root c' = Some (commit (blake3 P) m)"
  using steps_keep_root [OF assms(4) bootstrap_current [OF assms(3,1,2)]] by (rule root_currentD) blast

theorem state_root_current_witness:
  "\<exists>c0 m. bootstrap_if_needed sample sample_core = (Inr (), c0) \<and>
     inode_map (put_blob (blake3 sample []) [] c0) = Inr m \<and> get_state_root (put_blob (blake3 sample []) [] c0) = Some (commit (blake3 sample) m)"
proof -
  have s: "imap_ok sample_core" "get_head sample_core = None" by (simp_all add: imap_ok_def get_head_def read_hash_def)
  from bootstrap_ok [OF sample_ok(1) s] obtain c0 where b: "bootstrap_if_needed sample sample_core = (Inr (), c0)" by blast
  have "(repo_step sample)\<^sup>*\<^sup>* c0 (put_blob (blake3 sample []) [] c0)" using repo_step.fetched by blast
  from state_root_current [OF s b this] b show ?thesis by blast
qed

end
