(* ===== verification/Sled_Store.thy ===== *)
theory Sled_Store
  imports State
begin

text \<open>
  The persistent backend: \<open>src/crates/storage/src/sled_store.rs\<close>. The \<open>sled\<close> crate is the record \<open>sled\<close>, over an arbitrary type of databases;
  each of its calls may fail. \<open>sled_ok\<close> states what its documentation says of a call that succeeds: a named tree is an
  ordered map from byte strings to byte strings. The result is that the backend refines \<open>MemStore\<close>, on which the core is
  modelled.
\<close>

section \<open>The backend\<close>

record 'd sled =
  open_tree :: "string \<Rightarrow> ('d, unit) comp"
  tree_insert :: "string \<Rightarrow> bytes \<Rightarrow> bytes \<Rightarrow> ('d, unit) comp"
  tree_remove :: "string \<Rightarrow> bytes \<Rightarrow> ('d, unit) comp"
  tree_get :: "string \<Rightarrow> bytes \<Rightarrow> 'd \<Rightarrow> bytes option result"
  tree_contains_key :: "string \<Rightarrow> bytes \<Rightarrow> 'd \<Rightarrow> bool result"
  tree_iter :: "string \<Rightarrow> 'd \<Rightarrow> (bytes \<times> bytes) list result"
  tree_scan_prefix :: "string \<Rightarrow> bytes \<Rightarrow> 'd \<Rightarrow> (bytes \<times> bytes) list result"
  db_flush :: "('d, unit) comp"

definition kv_name :: "string \<Rightarrow> string" where
  "kv_name cf = ''kv/'' @ cf"

definition blobs_tree :: "'d sled \<Rightarrow> ('d, string) comp" where
  "blobs_tree S = bindE (open_tree S ''blobs'') (\<lambda>_. ret ''blobs'')"

definition kv_tree :: "'d sled \<Rightarrow> string \<Rightarrow> ('d, string) comp" where
  "kv_tree S cf = bindE (open_tree S (kv_name cf)) (\<lambda>_. ret (kv_name cf))"

definition sled_put :: "'d sled \<Rightarrow> hash \<Rightarrow> bytes \<Rightarrow> ('d, unit) comp" where
  "sled_put S key data = bindE (blobs_tree S) (\<lambda>t. tree_insert S t (to_be_bytes 32 key) data)"

definition sled_get :: "'d sled \<Rightarrow> hash \<Rightarrow> ('d, bytes option) comp" where
  "sled_get S key = bindE (blobs_tree S) (\<lambda>t. reads (tree_get S t (to_be_bytes 32 key)))"

definition sled_has :: "'d sled \<Rightarrow> hash \<Rightarrow> ('d, bool) comp" where
  "sled_has S key = bindE (blobs_tree S) (\<lambda>t. reads (tree_contains_key S t (to_be_bytes 32 key)))"

definition sled_delete :: "'d sled \<Rightarrow> hash \<Rightarrow> ('d, unit) comp" where
  "sled_delete S key = bindE (blobs_tree S) (\<lambda>t. tree_remove S t (to_be_bytes 32 key))"

definition sled_list :: "'d sled \<Rightarrow> ('d, (hash \<times> u64) list) comp" where
  "sled_list S =
     bindE (blobs_tree S) (\<lambda>t.
     bindE (reads (tree_iter S t)) (\<lambda>rows.
     ret (map (\<lambda>(k, v). (from_be_bytes k, word_of_nat (length v))) (filter (\<lambda>(k, _). length k = 32) rows))))"

definition sled_stats :: "'d sled \<Rightarrow> ('d, nat \<times> u64) comp" where
  "sled_stats S =
     bindE (blobs_tree S) (\<lambda>t.
     bindE (reads (tree_iter S t)) (\<lambda>rows.
     ret (length rows, sum_list (map (\<lambda>(_, v). word_of_nat (length v)) rows))))"

definition sled_put_kv :: "'d sled \<Rightarrow> string \<Rightarrow> bytes \<Rightarrow> bytes \<Rightarrow> ('d, unit) comp" where
  "sled_put_kv S cf key val = bindE (kv_tree S cf) (\<lambda>t. tree_insert S t key val)"

definition sled_get_kv :: "'d sled \<Rightarrow> string \<Rightarrow> bytes \<Rightarrow> ('d, bytes option) comp" where
  "sled_get_kv S cf key = bindE (kv_tree S cf) (\<lambda>t. reads (tree_get S t key))"

definition sled_delete_kv :: "'d sled \<Rightarrow> string \<Rightarrow> bytes \<Rightarrow> ('d, unit) comp" where
  "sled_delete_kv S cf key = bindE (kv_tree S cf) (\<lambda>t. tree_remove S t key)"

definition sled_scan_prefix :: "'d sled \<Rightarrow> string \<Rightarrow> bytes \<Rightarrow> ('d, (bytes \<times> bytes) list) comp" where
  "sled_scan_prefix S cf pre = bindE (kv_tree S cf) (\<lambda>t. reads (tree_scan_prefix S t pre))"

definition sled_scan_prefix_keys :: "'d sled \<Rightarrow> string \<Rightarrow> bytes \<Rightarrow> ('d, bytes list) comp" where
  "sled_scan_prefix_keys S cf pre =
     bindE (kv_tree S cf) (\<lambda>t. bindE (reads (tree_scan_prefix S t pre)) (\<lambda>rows. ret (map fst rows)))"

definition sled_count_prefix :: "'d sled \<Rightarrow> string \<Rightarrow> bytes \<Rightarrow> ('d, nat) comp" where
  "sled_count_prefix S cf pre =
     bindE (kv_tree S cf) (\<lambda>t. bindE (reads (tree_scan_prefix S t pre)) (\<lambda>rows. ret (length rows)))"

definition sled_flush :: "'d sled \<Rightarrow> ('d, unit) comp" where
  "sled_flush S = db_flush S"

section \<open>What the crate promises\<close>

text \<open>\<open>rows d t k\<close> is the value under key \<open>k\<close> in the tree named \<open>t\<close>.\<close>

definition sled_ok :: "'d sled \<Rightarrow> ('d \<Rightarrow> string \<Rightarrow> bytes \<Rightarrow> bytes option) \<Rightarrow> bool" where
  "sled_ok S rows \<longleftrightarrow>
     (\<forall>t d d'. open_tree S t d = (Inr (), d') \<longrightarrow> rows d' = rows d) \<and>
     (\<forall>d d'. db_flush S d = (Inr (), d') \<longrightarrow> rows d' = rows d) \<and>
     (\<forall>t k v d d'. tree_insert S t k v d = (Inr (), d') \<longrightarrow> rows d' = (rows d)(t := (rows d t)(k \<mapsto> v))) \<and>
     (\<forall>t k d d'. tree_remove S t k d = (Inr (), d') \<longrightarrow> rows d' = (rows d)(t := (rows d t)(k := None))) \<and>
     (\<forall>t k d x. tree_get S t k d = Inr x \<longrightarrow> x = rows d t k) \<and>
     (\<forall>t k d x. tree_contains_key S t k d = Inr x \<longrightarrow> x = (rows d t k \<noteq> None)) \<and>
     (\<forall>t d xs. tree_iter S t d = Inr xs \<longrightarrow> sorted_wrt (<) (map fst xs) \<and> (\<forall>k v. (k, v) \<in> set xs \<longleftrightarrow> rows d t k = Some v)) \<and>
     (\<forall>t pre d xs. tree_scan_prefix S t pre d = Inr xs \<longrightarrow>
        sorted_wrt (<) (map fst xs) \<and> (\<forall>k v. (k, v) \<in> set xs \<longleftrightarrow> rows d t k = Some v \<and> starts_with k pre))"

section \<open>Refinement\<close>

definition stored_as :: "('d \<Rightarrow> string \<Rightarrow> bytes \<Rightarrow> bytes option) \<Rightarrow> 'd \<Rightarrow> mem_store \<Rightarrow> bool" where
  "stored_as rows d st \<longleftrightarrow>
     (\<forall>k. rows d ''blobs'' k = (if length k = 32 then blob_get st (from_be_bytes k) else None)) \<and>
     (\<forall>cf k. rows d (kv_name cf) k = get_kv st cf k)"

lemma kv_name_simps [simp]: "kv_name cf \<noteq> ''blobs''" "''blobs'' \<noteq> kv_name cf" "kv_name cf = kv_name cf' \<longleftrightarrow> cf = cf'"
  by (simp_all add: kv_name_def)

lemma hash_of_key: "length k = 32 \<Longrightarrow> (from_be_bytes k :: hash) = h \<longleftrightarrow> k = to_be_bytes 32 h"
  using to_from_be_bytes [of k 32, where 'a = 256] by auto

lemma sled_okD:
  assumes "sled_ok S rows"
  shows "tree_get S t k d = Inr x \<Longrightarrow> x = rows d t k" "tree_contains_key S t k d = Inr b \<Longrightarrow> b = (rows d t k \<noteq> None)"
    "tree_insert S t k v d = (Inr (), d') \<Longrightarrow> rows d' = (rows d)(t := (rows d t)(k \<mapsto> v))"
    "tree_remove S t k d = (Inr (), d') \<Longrightarrow> rows d' = (rows d)(t := (rows d t)(k := None))"
    "db_flush S d = (Inr (), d') \<Longrightarrow> rows d' = rows d" "open_tree S t d = (Inr (), d') \<Longrightarrow> rows d' = rows d"
proof -
  note c = assms [unfolded sled_ok_def]
  note d = c [THEN conjunct2] and e = c [THEN conjunct2, THEN conjunct2]
  note f = e [THEN conjunct2, THEN conjunct2]
  show "tree_get S t k d = Inr x \<Longrightarrow> x = rows d t k" by (rule f [THEN conjunct1, rule_format])
  show "tree_contains_key S t k d = Inr b \<Longrightarrow> b = (rows d t k \<noteq> None)" by (rule f [THEN conjunct2, THEN conjunct1, rule_format])
  show "tree_insert S t k v d = (Inr (), d') \<Longrightarrow> rows d' = (rows d)(t := (rows d t)(k \<mapsto> v))" by (rule e [THEN conjunct1, rule_format])
  show "tree_remove S t k d = (Inr (), d') \<Longrightarrow> rows d' = (rows d)(t := (rows d t)(k := None))"
    by (rule e [THEN conjunct2, THEN conjunct1, rule_format])
  show "db_flush S d = (Inr (), d') \<Longrightarrow> rows d' = rows d" by (rule d [THEN conjunct1, rule_format])
  show "open_tree S t d = (Inr (), d') \<Longrightarrow> rows d' = rows d" by (rule c [THEN conjunct1, rule_format])
qed

lemma stored_reads:
  assumes "stored_as rows d st"
  shows "rows d ''blobs'' (to_be_bytes 32 h) = blob_get st h" "rows d (kv_name cf) k = get_kv st cf k"
  using assms by (simp_all add: stored_as_def)

lemma stored_as_cong: "rows d' = rows d \<Longrightarrow> stored_as rows d' st = stored_as rows d st"
  by (simp add: stored_as_def)

lemma stored_blob_writes:
  assumes "stored_as rows d st"
  shows "rows d' = (rows d)(''blobs'' := (rows d ''blobs'')(to_be_bytes 32 h \<mapsto> v)) \<Longrightarrow> stored_as rows d' (blob_put h v st)"
    and "rows d' = (rows d)(''blobs'' := (rows d ''blobs'')(to_be_bytes 32 h := None)) \<Longrightarrow> stored_as rows d' (blob_delete h st)"
  using assms by (auto simp: stored_as_def mem_blob.get_put mem_blob.get_del hash_of_key)

lemma stored_kv_writes:
  assumes "stored_as rows d st"
  shows "rows d' = (rows d)(kv_name cf := (rows d (kv_name cf))(k \<mapsto> v)) \<Longrightarrow> stored_as rows d' (put_kv cf k v st)"
    and "rows d' = (rows d)(kv_name cf := (rows d (kv_name cf))(k := None)) \<Longrightarrow> stored_as rows d' (delete_kv cf k st)"
  using assms by (auto simp: stored_as_def mem_kv.get_put mem_kv.get_del)

text \<open>The rows of the blob tree, in its order, are the blobs of the map, in the order of their hashes.\<close>

lemma blob_rows:
  assumes "stored_as rows d st" "sorted_wrt (<) (map fst xs)" "\<And>k v. (k, v) \<in> set xs \<longleftrightarrow> rows d ''blobs'' k = Some v"
  shows "xs = map (\<lambda>(h, v). (to_be_bytes 32 h, v)) (fm_entries (ms_blobs st))"
proof (rule strict_sorted_assoc_unique [OF assms(2)])
  let ?ys = "map (\<lambda>(h, v). (to_be_bytes 32 h, v)) (fm_entries (ms_blobs st))"
  have r: "rows d ''blobs'' k = Some v \<longleftrightarrow> length k = 32 \<and> blob_get st (from_be_bytes k) = Some v" for k v
    using assms(1) by (simp add: stored_as_def)
  have "(k, v) \<in> set xs \<longleftrightarrow> (k, v) \<in> set ?ys" for k v
  proof -
    have "(k, v) \<in> set ?ys \<longleftrightarrow> (\<exists>h. k = to_be_bytes 32 h \<and> blob_get st h = Some v)" by (auto simp: blob_get_def image_iff Bex_def split: prod.splits)
    also have "\<dots> \<longleftrightarrow> length k = 32 \<and> blob_get st (from_be_bytes k) = Some v" using hash_of_key by fastforce
    finally show ?thesis by (simp add: assms(3) r)
  qed
  then show "set xs = set ?ys" by (intro set_eqI) (metis surj_pair)
  have "sorted_wrt (<) (map (to_be_bytes 32) (map fst (fm_entries (ms_blobs st))))"
    using fm_entries_strict [of "ms_blobs st"] by (simp add: sorted_wrt_map to_be_bytes_less_iff)
  moreover have "map fst ?ys = map (to_be_bytes 32) (map fst (fm_entries (ms_blobs st)))"
    by (simp add: comp_def case_prod_unfold del: map_fst_fm_entries)
  ultimately show "sorted_wrt (<) (map fst ?ys)" by (simp only:)
qed

lemma kv_rows:
  assumes "stored_as rows d st" "sorted_wrt (<) (map fst xs)"
    "\<And>k v. (k, v) \<in> set xs \<longleftrightarrow> rows d (kv_name cf) k = Some v \<and> starts_with k pre"
  shows "xs = scan_prefix st cf pre"
proof (rule strict_sorted_assoc_unique [OF assms(2) _ mem_kv.scan_sorted])
  show "set xs = set (scan_prefix st cf pre)" using assms(1,3) by (auto simp: stored_as_def mem_kv.scan_set)
qed

text \<open>
  \<open>matches\<close>: a call on the database that returns gives what the operation on the map gives and leaves a database that stores the
  map that operation leaves; it fails only if a call of the crate failed.
\<close>

definition sled_total :: "'d sled \<Rightarrow> bool" where
  "sled_total S \<longleftrightarrow>
     (\<forall>d t k v. \<not> isl (fst (open_tree S t d)) \<and> \<not> isl (fst (tree_insert S t k v d)) \<and> \<not> isl (fst (tree_remove S t k d)) \<and>
        \<not> isl (tree_get S t k d) \<and> \<not> isl (tree_contains_key S t k d) \<and> \<not> isl (tree_iter S t d) \<and>
        \<not> isl (tree_scan_prefix S t k d) \<and> \<not> isl (fst (db_flush S d)))"

definition matches :: "'d sled \<Rightarrow> ('d \<Rightarrow> string \<Rightarrow> bytes \<Rightarrow> bytes option) \<Rightarrow> ('d, 'a) comp \<Rightarrow> (mem_store \<Rightarrow> 'a \<times> mem_store) \<Rightarrow> bool" where
  "matches S rows m f \<longleftrightarrow>
     (\<forall>d st. stored_as rows d st \<longrightarrow>
        (case m d of
           (Inr x, d') \<Rightarrow> x = fst (f st) \<and> stored_as rows d' (snd (f st))
         | (Inl _, _) \<Rightarrow> \<not> sled_total S))"

lemma matches_tree:
  assumes "sled_ok S rows"
  shows "matches S rows (g ''blobs'') f \<Longrightarrow> matches S rows (bindE (blobs_tree S) g) f"
    and "matches S rows (g (kv_name cf)) f \<Longrightarrow> matches S rows (bindE (kv_tree S cf) g) f"
proof -
  have "matches S rows (bindE (bindE (open_tree S t) (\<lambda>_. ret t)) g) f" if m: "matches S rows (g t) f" for t
    unfolding matches_def
  proof (intro allI impI)
    fix d st
    assume st: "stored_as rows d st"
    obtain r d1 where o: "open_tree S t d = (r, d1)" by (cases "open_tree S t d")
    show "case bindE (bindE (open_tree S t) (\<lambda>_. ret t)) g d of
        (Inr x, d') \<Rightarrow> x = fst (f st) \<and> stored_as rows d' (snd (f st)) | (Inl _, _) \<Rightarrow> \<not> sled_total S"
    proof (cases r)
      case (Inl e)
      then have "\<not> sled_total S" using o unfolding sled_total_def by (metis fst_conv isl_def)
      then show ?thesis using o Inl by (simp add: bindE_def)
    next
      case (Inr u)
      then have "stored_as rows d1 st" using assms o st stored_as_cong [of rows d1 d st] by (simp add: sled_ok_def)
      then show ?thesis using m o Inr unfolding matches_def by (simp add: bindE_def ret_def)
    qed
  qed
  then show "matches S rows (g ''blobs'') f \<Longrightarrow> matches S rows (bindE (blobs_tree S) g) f"
    and "matches S rows (g (kv_name cf)) f \<Longrightarrow> matches S rows (bindE (kv_tree S cf) g) f"
    unfolding blobs_tree_def kv_tree_def by blast+
qed

lemma matches_write:
  assumes "\<And>d st d'. stored_as rows d st \<Longrightarrow> m d = (Inr (), d') \<Longrightarrow> stored_as rows d' (w st)" "\<And>d. sled_total S \<Longrightarrow> \<not> isl (fst (m d))"
  shows "matches S rows m (\<lambda>st. ((), w st))"
proof -
  have "case m d of (Inr x, d') \<Rightarrow> x = () \<and> stored_as rows d' (w st) | (Inl _, _) \<Rightarrow> \<not> sled_total S" if "stored_as rows d st" for d st
    using assms(1) [OF that] assms(2) [of d] by (cases "m d"; cases "fst (m d)") auto
  then show ?thesis unfolding matches_def fst_conv snd_conv by blast
qed

lemma matches_read:
  assumes "\<And>d st x. stored_as rows d st \<Longrightarrow> r d = Inr x \<Longrightarrow> x = v st" "\<And>d. sled_total S \<Longrightarrow> \<not> isl (r d)"
  shows "matches S rows (reads r) (\<lambda>st. (v st, st))"
proof -
  have "case reads r d of (Inr x, d') \<Rightarrow> x = v st \<and> stored_as rows d' st | (Inl _, _) \<Rightarrow> \<not> sled_total S" if "stored_as rows d st" for d st
    using assms(1) [OF that] assms(2) [of d] that by (cases "r d") (auto simp: reads_def)
  then show ?thesis unfolding matches_def fst_conv snd_conv by blast
qed

lemma matches_map:
  "matches S rows (reads r) (\<lambda>st. (v st, st)) \<Longrightarrow> matches S rows (bindE (reads r) (\<lambda>x. ret (h x))) (\<lambda>st. (h (v st), st))"
  unfolding matches_def by (fastforce simp: bindE_def reads_def ret_def split: sum.splits)

lemma matches_value: "matches S rows m (\<lambda>st. (v st, st)) \<Longrightarrow> (\<And>st. v st = w st) \<Longrightarrow> matches S rows m (\<lambda>st. (w st, st))"
  by simp

lemma iter_matches:
  assumes "sled_ok S rows"
  shows "matches S rows (reads (tree_iter S ''blobs'')) (\<lambda>st. (map (\<lambda>(h, v). (to_be_bytes 32 h, v)) (fm_entries (ms_blobs st)), st))"
proof (rule matches_read)
  show "x = map (\<lambda>(h, v). (to_be_bytes 32 h, v)) (fm_entries (ms_blobs st))" if "stored_as rows d st" "tree_iter S ''blobs'' d = Inr x" for d st x
    using assms that(2) by (intro blob_rows [OF that(1)]) (auto simp: sled_ok_def)
qed (simp add: sled_total_def)

lemma scan_matches:
  assumes "sled_ok S rows"
  shows "matches S rows (reads (tree_scan_prefix S (kv_name cf) pre)) (\<lambda>st. (scan_prefix st cf pre, st))"
proof (rule matches_read)
  show "x = scan_prefix st cf pre" if "stored_as rows d st" "tree_scan_prefix S (kv_name cf) pre d = Inr x" for d st x
    using assms that(2) by (intro kv_rows [OF that(1)]) (auto simp: sled_ok_def)
qed (simp add: sled_total_def)

text \<open>
  C20. The persistent backend refines the in-memory one. Whenever the trees of the database hold a map's blobs and rows, each of the
  twelve calls of \<open>SledStore\<close> that returns gives exactly what \<open>MemStore\<close> gives on that map, order included, and leaves the
  database holding the map \<open>MemStore\<close> leaves; flushing changes nothing; and a call fails only if a call of the crate failed.
\<close>

theorem sled_refines_mem:
  assumes "sled_ok S rows"
  shows "matches S rows (sled_put S h data) (\<lambda>st. ((), blob_put h data st)) \<and>
    matches S rows (sled_get S h) (\<lambda>st. (blob_get st h, st)) \<and>
    matches S rows (sled_has S h) (\<lambda>st. (blob_has st h, st)) \<and>
    matches S rows (sled_delete S h) (\<lambda>st. ((), blob_delete h st)) \<and>
    matches S rows (sled_list S) (\<lambda>st. (blob_list st, st)) \<and>
    matches S rows (sled_stats S) (\<lambda>st. (blob_stats st, st)) \<and>
    matches S rows (sled_put_kv S cf k v) (\<lambda>st. ((), put_kv cf k v st)) \<and>
    matches S rows (sled_get_kv S cf k) (\<lambda>st. (get_kv st cf k, st)) \<and>
    matches S rows (sled_delete_kv S cf k) (\<lambda>st. ((), delete_kv cf k st)) \<and>
    matches S rows (sled_scan_prefix S cf pre) (\<lambda>st. (scan_prefix st cf pre, st)) \<and>
    matches S rows (sled_scan_prefix_keys S cf pre) (\<lambda>st. (scan_prefix_keys st cf pre, st)) \<and>
    matches S rows (sled_count_prefix S cf pre) (\<lambda>st. (count_prefix st cf pre, st)) \<and>
    matches S rows (sled_flush S) (\<lambda>st. ((), st))"
proof (intro conjI)
  note ok = sled_okD [OF assms]
  show "matches S rows (sled_put S h data) (\<lambda>st. ((), blob_put h data st))"
    unfolding sled_put_def
    by (rule matches_tree [OF assms], rule matches_write, erule stored_blob_writes(1), erule ok(3)) (simp add: sled_total_def)
  show "matches S rows (sled_get S h) (\<lambda>st. (blob_get st h, st))" "matches S rows (sled_has S h) (\<lambda>st. (blob_has st h, st))"
    unfolding sled_get_def sled_has_def
    by (rule matches_tree [OF assms], rule matches_read,
        auto simp: sled_total_def stored_reads mem_blob.has_get dest: ok)+
  show "matches S rows (sled_delete S h) (\<lambda>st. ((), blob_delete h st))"
    unfolding sled_delete_def
    by (rule matches_tree [OF assms], rule matches_write, erule stored_blob_writes(2), erule ok(4)) (simp add: sled_total_def)
  show "matches S rows (sled_list S) (\<lambda>st. (blob_list st, st))"
    unfolding sled_list_def
    by (rule matches_tree [OF assms], rule matches_value [OF matches_map [OF iter_matches [OF assms]]])
      (simp add: blob_list_def filter_map comp_def case_prod_unfold)
  show "matches S rows (sled_stats S) (\<lambda>st. (blob_stats st, st))"
    unfolding sled_stats_def
    by (rule matches_tree [OF assms], rule matches_value [OF matches_map [OF iter_matches [OF assms]]])
      (simp add: blob_stats_def comp_def case_prod_unfold)
  show "matches S rows (sled_put_kv S cf k v) (\<lambda>st. ((), put_kv cf k v st))"
    unfolding sled_put_kv_def
    by (rule matches_tree [OF assms], rule matches_write, erule stored_kv_writes(1), erule ok(3)) (simp add: sled_total_def)
  show "matches S rows (sled_get_kv S cf k) (\<lambda>st. (get_kv st cf k, st))"
    unfolding sled_get_kv_def
    by (rule matches_tree [OF assms], rule matches_read, auto simp: sled_total_def stored_reads dest: ok)
  show "matches S rows (sled_delete_kv S cf k) (\<lambda>st. ((), delete_kv cf k st))"
    unfolding sled_delete_kv_def
    by (rule matches_tree [OF assms], rule matches_write, erule stored_kv_writes(2), erule ok(4)) (simp add: sled_total_def)
  show "matches S rows (sled_scan_prefix S cf pre) (\<lambda>st. (scan_prefix st cf pre, st))"
    unfolding sled_scan_prefix_def by (intro matches_tree [OF assms] scan_matches [OF assms])
  show "matches S rows (sled_scan_prefix_keys S cf pre) (\<lambda>st. (scan_prefix_keys st cf pre, st))"
    unfolding sled_scan_prefix_keys_def
    by (rule matches_tree [OF assms], rule matches_value [OF matches_map [OF scan_matches [OF assms]]]) (simp add: scan_prefix_keys_eq)
  show "matches S rows (sled_count_prefix S cf pre) (\<lambda>st. (count_prefix st cf pre, st))"
    unfolding sled_count_prefix_def
    by (rule matches_tree [OF assms], rule matches_value [OF matches_map [OF scan_matches [OF assms]]]) (simp add: count_prefix_eq)
  have "stored_as rows d' st" if "stored_as rows d st" "db_flush S d = (Inr (), d')" for d st d'
    using stored_as_cong [of rows d' d st, OF ok(5) [OF that(2)]] that(1) by blast
  moreover have "\<not> isl (fst (db_flush S d))" if "sled_total S" for d using that by (simp add: sled_total_def)
  ultimately show "matches S rows (sled_flush S) (\<lambda>st. ((), st))"
    unfolding sled_flush_def by (rule matches_write [of rows "db_flush S" "\<lambda>st. st" S])
qed

text \<open>A database of named maps that never fails.\<close>

definition sample_sled :: "(string \<Rightarrow> (bytes, bytes) fmap) sled" where
  "sample_sled = \<lparr>open_tree = (\<lambda>_. ret ()), tree_insert = (\<lambda>t k v. upd (\<lambda>d. d(t := fmupd k v (d t)))),
     tree_remove = (\<lambda>t k. upd (\<lambda>d. d(t := fmdrop k (d t)))), tree_get = (\<lambda>t k d. Inr (fmlookup (d t) k)),
     tree_contains_key = (\<lambda>t k d. Inr (k |\<in>| fmdom (d t))), tree_iter = (\<lambda>t d. Inr (fm_entries (d t))),
     tree_scan_prefix = (\<lambda>t pre d. Inr (filter (\<lambda>(k, _). starts_with k pre) (fm_entries (d t)))), db_flush = ret ()\<rparr>"

lemma sample_sled_simps:
  "open_tree sample_sled t d = (Inr (), d)" "db_flush sample_sled d = (Inr (), d)"
  "tree_insert sample_sled t k v d = (Inr (), d(t := fmupd k v (d t)))" "tree_remove sample_sled t k d = (Inr (), d(t := fmdrop k (d t)))"
  "tree_get sample_sled t k d = Inr (fmlookup (d t) k)" "tree_contains_key sample_sled t k d = Inr (k |\<in>| fmdom (d t))"
  "tree_iter sample_sled t d = Inr (fm_entries (d t))"
  "tree_scan_prefix sample_sled t k d = Inr (filter (\<lambda>(j, _). starts_with j k) (fm_entries (d t)))"
  by (simp_all add: sample_sled_def ret_def upd_def)

lemma sample_sled_ok: "sled_ok sample_sled (\<lambda>d t. fmlookup (d t))"
proof -
  have flt: "sorted_wrt (<) (map fst (filter q (fm_entries (m :: (bytes, bytes) fmap))))" for q m
    using fm_entries_strict [of m] unfolding sorted_wrt_map by (rule sorted_wrt_filter)
  have ins: "(\<lambda>t'. fmlookup ((d(t := fmupd k v (d t))) t')) = (\<lambda>t'. fmlookup (d t'))(t := (fmlookup (d t))(k \<mapsto> v))"
    for d :: "string \<Rightarrow> (bytes, bytes) fmap" and t k v by (intro ext) simp
  have rem: "(\<lambda>t'. fmlookup ((d(t := fmdrop k (d t))) t')) = (\<lambda>t'. fmlookup (d t'))(t := (fmlookup (d t))(k := None))"
    for d :: "string \<Rightarrow> (bytes, bytes) fmap" and t k by (intro ext) simp
  show ?thesis
    unfolding sled_ok_def sample_sled_simps prod.inject sum.inject
    by (safe; (rule ins | rule rem | simp add: fmlookup_dom_iff flt fm_entries_strict del: map_fst_fm_entries))
qed

theorem sled_refines_mem_witness:
  "\<exists>d. sled_put sample_sled 5 [1, 2] (\<lambda>_. fmempty) = (Inr (), d) \<and> stored_as (\<lambda>d t. fmlookup (d t)) d (blob_put 5 [1, 2] mem_new)"
proof -
  have e: "stored_as (\<lambda>d t. fmlookup (d t)) (\<lambda>_. fmempty) mem_new"
    by (simp add: stored_as_def mem_new_def blob_get_def get_kv_def)
  obtain d where p: "sled_put sample_sled 5 [1, 2] (\<lambda>_. fmempty) = (Inr (), d)"
    by (simp add: sled_put_def blobs_tree_def sample_sled_def bindE_def ret_def upd_def)
  have "matches sample_sled (\<lambda>d t. fmlookup (d t)) (sled_put sample_sled 5 [1, 2]) (\<lambda>st. ((), blob_put 5 [1, 2] st))"
    using sled_refines_mem [OF sample_sled_ok, of 5 "[1, 2]"] by blast
  then show ?thesis using e p unfolding matches_def by fastforce
qed

end
