(* ===== verification/Chunk_Reader.thy ===== *)
theory Chunk_Reader
  imports Content
begin

text \<open>
  The streaming half of \<open>src/crates/core/src/chunker.rs\<close>. A reader is any state with a \<open>read\<close> that fills a buffer of a given size:
  it returns the bytes it put there, none at the end. A reader need not end, so reading it to the end is a partial function whose
  value \<open>None\<close> is not returning. \<open>byte_source\<close> is the contract of \<open>std::io::Read\<close> for a reader over finitely many bytes, which
  may return fewer bytes than asked for; it is interpreted on slices and on two slices one after the other.
\<close>

section \<open>Chunking\<close>

partial_function (option) reader_loop :: "(nat \<Rightarrow> ('r, bytes) comp) \<Rightarrow> nat \<Rightarrow> bytes list \<Rightarrow> 'r \<Rightarrow> (bytes list result \<times> 'r) option" where
  "reader_loop rd n out r =
     (case rd n r of
        (Inl e, r') \<Rightarrow> Some (Inl e, r')
      | (Inr buf, r') \<Rightarrow> if buf = [] then Some (Inr out, r') else reader_loop rd n (out @ [buf]) r')"

definition chunk_reader :: "(nat \<Rightarrow> ('r, bytes) comp) \<Rightarrow> nat \<Rightarrow> 'r \<Rightarrow> (bytes list result \<times> 'r) option" where
  "chunk_reader rd csize r = reader_loop rd (max csize 1) [] r"

fun hashes_loop :: "(hash \<Rightarrow> bytes \<Rightarrow> ('s, unit) comp) \<Rightarrow> (hash \<times> bytes) list \<Rightarrow> ('s, hash list) comp" where
  "hashes_loop put [] = ret []"
| "hashes_loop put ((h, bs) # rest) = bindE (put h bs) (\<lambda>_. bindE (hashes_loop put rest) (\<lambda>out. ret (h # out)))"

definition store_chunk_hashes :: "(bytes \<Rightarrow> hash) \<Rightarrow> bytes \<Rightarrow> nat \<Rightarrow> (hash \<Rightarrow> bytes \<Rightarrow> ('s, unit) comp) \<Rightarrow> ('s, hash list) comp" where
  "store_chunk_hashes H data csize put = hashes_loop put (chunk_and_hash H data csize)"

definition store_reader_chunks_with_refs ::
  "(bytes \<Rightarrow> hash) \<Rightarrow> (nat \<Rightarrow> ('r, bytes) comp) \<Rightarrow> 'r \<Rightarrow> nat \<Rightarrow> (hash \<Rightarrow> bytes \<Rightarrow> ('s, unit) comp) \<Rightarrow> 's
    \<Rightarrow> (chunk_ref list result \<times> 's) option" where
  "store_reader_chunks_with_refs H rd r csize put s =
     (case chunk_reader rd csize r of
        None \<Rightarrow> None
      | Some (Inl e, _) \<Rightarrow> Some (Inl e, s)
      | Some (Inr chunks, _) \<Rightarrow> Some (refs_loop H put 0 chunks s))"

section \<open>Readers over finitely many bytes\<close>

locale byte_source =
  fixes rd :: "nat \<Rightarrow> ('r, bytes) comp" and unread :: "'r \<Rightarrow> bytes"
  assumes read_some: "\<exists>buf r'. rd n r = (Inr buf, r') \<and> unread r = buf @ unread r' \<and> length buf \<le> n \<and> (buf = [] \<longrightarrow> n = 0 \<or> unread r = [])"
begin

lemma reader_loop_total:
  assumes "0 < n"
  shows "\<exists>cs r'. reader_loop rd n out r = Some (Inr (out @ cs), r') \<and> concat cs = unread r \<and> (\<forall>c \<in> set cs. c \<noteq> [] \<and> length c \<le> n)"
proof (induction "length (unread r)" arbitrary: r out rule: less_induct)
  case less
  obtain buf r1 where b: "rd n r = (Inr buf, r1)" "unread r = buf @ unread r1" "length buf \<le> n" "buf = [] \<longrightarrow> n = 0 \<or> unread r = []"
    using read_some [of n r] by blast
  show ?case
  proof (cases "buf = []")
    case True
    then show ?thesis using b assms by (subst reader_loop.simps) auto
  next
    case False
    then have "length (unread r1) < length (unread r)" using b(2) by simp
    then obtain cs r' where "reader_loop rd n (out @ [buf]) r1 = Some (Inr ((out @ [buf]) @ cs), r')" "concat cs = unread r1"
      "\<forall>c \<in> set cs. c \<noteq> [] \<and> length c \<le> n" using less [of r1 "out @ [buf]"] by blast
    then show ?thesis using b False by (subst reader_loop.simps) (auto intro!: exI [of _ "buf # cs"])
  qed
qed

lemma chunk_reader_total:
  "\<exists>cs r'. chunk_reader rd n r = Some (Inr cs, r') \<and> concat cs = unread r \<and> (\<forall>c \<in> set cs. c \<noteq> [] \<and> length c \<le> max n 1)"
  using reader_loop_total [of "max n 1" "[]" r] by (simp add: chunk_reader_def)

lemma stored_reader_reads_back:
  assumes "\<And>cs r'. chunk_reader rd n r = Some (Inr cs, r') \<Longrightarrow> inj_on (blake3 P) (set cs)" "max n 1 < 2 ^ 32" "length (unread r) < 2 ^ 64"
  shows "\<exists>refs c'. store_reader_chunks_with_refs (blake3 P) rd r n put_chunk c = Some (Inr refs, c') \<and>
    read_chunks P c' None 0 refs [] = Inr (unread r)"
proof -
  obtain cs r' where cs: "chunk_reader rd n r = Some (Inr cs, r')" "concat cs = unread r" "\<forall>b \<in> set cs. b \<noteq> [] \<and> length b \<le> max n 1"
    using chunk_reader_total by blast
  let ?c = "put_all (blake3 P) cs c"
  have parts: "set (zip cs cs) \<subseteq> {(b, b) | b. b \<in> set cs}" by (induction cs) auto
  have "\<forall>(s, p) \<in> set (zip cs cs). blob_get (stores ?c) (blake3 P s) = Some s \<and> length s < 2 ^ 32"
    using parts cs(3) assms(2) put_all_get [OF assms(1) [OF cs(1)]] by fastforce
  moreover have "opens P None i (zip cs cs)" for i by (induction cs arbitrary: i) auto
  moreover have "map snd (zip cs cs) = cs" by simp
  ultimately have "read_chunks P ?c None 0 (layout (blake3 P) 0 (zip cs cs)) [] = Inr (unread r)"
    using read_layout [of "zip cs cs" ?c P None 0 0 "[]"] cs(2) assms(3) by simp
  then show ?thesis by (simp add: store_reader_chunks_with_refs_def cs(1) refs_loop_layout)
qed

end

text \<open>\<open>Read for &[u8]\<close> copies as much as fits; \<open>Chain\<close> reads its first half to the end and then its second.\<close>

definition slice_read :: "nat \<Rightarrow> (bytes, bytes) comp" where
  "slice_read n data = (Inr (take n data), drop n data)"

fun chain_read :: "nat \<Rightarrow> (bytes \<times> bytes, bytes) comp" where
  "chain_read n (a, b) = (if a = [] then (Inr (take n b), ([], drop n b)) else (Inr (take n a), (drop n a, b)))"

interpretation slice: byte_source slice_read "\<lambda>data. data"
  by unfold_locales (simp add: slice_read_def)

interpretation chain: byte_source chain_read "\<lambda>(a, b). a @ b"
proof
  fix n and r :: "bytes \<times> bytes"
  obtain a b where "r = (a, b)" by (cases r)
  then show "\<exists>buf r'. chain_read n r = (Inr buf, r') \<and> (case r of (a, b) \<Rightarrow> a @ b) = buf @ (case r' of (a, b) \<Rightarrow> a @ b) \<and>
      length buf \<le> n \<and> (buf = [] \<longrightarrow> n = 0 \<or> (case r of (a, b) \<Rightarrow> a @ b) = [])" by auto
qed

section \<open>What the streaming functions do\<close>

lemma reader_loop_slice: "0 < n \<Longrightarrow> reader_loop slice_read n out data = Some (Inr (out @ chunks_of n data), [])"
proof (induction n data arbitrary: out rule: chunks_of.induct)
  case (1 n data)
  show ?case
  proof (cases "data = []")
    case True
    then show ?thesis by (subst reader_loop.simps, subst chunks_of.simps) (simp add: slice_read_def)
  next
    case False
    have n: "max n 1 = n" using 1(2) by simp
    have "reader_loop slice_read n (out @ [take n data]) (drop n data) = Some (Inr ((out @ [take n data]) @ chunks_of n (drop n data)), [])"
      using 1(1) [OF False 1(2)] n by simp
    then show ?thesis using False 1(2) n by (subst reader_loop.simps, subst chunks_of.simps) (simp add: slice_read_def)
  qed
qed

lemma chunks_of_max: "chunks_of (max n (Suc 0)) data = chunks_of n data"
  by (induction n data rule: chunks_of.induct) (subst chunks_of.simps, subst (2) chunks_of.simps, simp)

text \<open>Streaming a slice is chunking it: the two ways of storing the same bytes give the same references and the same store.\<close>

theorem stream_slice_eq:
  "chunk_reader slice_read n data = Some (Inr (chunk_bytes data n), [])"
  "store_reader_chunks_with_refs H slice_read data n put s = Some (store_chunks_with_refs H data n put s)"
  by (simp_all add: chunk_reader_def store_reader_chunks_with_refs_def store_chunks_with_refs_def chunk_bytes_def
      reader_loop_slice chunks_of_max)

text \<open>A reader that fails part way has stored nothing: every chunk is read before the first is put.\<close>

theorem failed_read_stores_nothing:
  "chunk_reader rd n r = Some (Inl e, r') \<Longrightarrow> store_reader_chunks_with_refs H rd r n put s = Some (Inl e, s)"
  by (simp add: store_reader_chunks_with_refs_def)

text \<open>
  Short reads become short chunks: the bytes 1, 2 and 3, 4 read one slice after the other are cut differently from the same bytes
  read as one slice, so the same content streamed from different readers is addressed by different hashes.
\<close>

theorem short_reads_cut_differently:
  "\<exists>r r' s s'. chunk_reader chain_read 3 ([1, 2], [3, 4]) = Some (Inr r, r') \<and> chunk_reader slice_read 3 [1, 2, 3, 4] = Some (Inr s, s') \<and>
     concat r = concat s \<and> r \<noteq> s"
proof -
  have "chunk_reader chain_read 3 ([1, 2], [3, 4]) = Some (Inr [[1, 2], [3, 4]], ([], []))"
    by (simp add: chunk_reader_def reader_loop.simps)
  moreover have "chunk_reader slice_read 3 [1, 2, 3, 4] = Some (Inr [[1, 2, 3], [4]], [])"
    by (simp add: chunk_reader_def reader_loop.simps slice_read_def)
  ultimately show ?thesis by auto
qed

text \<open>However a reader cuts the bytes, what was streamed into the store reads back.\<close>

theorem streamed_content_reads_back:
  assumes "\<And>cs r'. chunk_reader chain_read n (a, b) = Some (Inr cs, r') \<Longrightarrow> inj_on (blake3 P) (set cs)"
    and "max n 1 < 2 ^ 32" "length (a @ b) < 2 ^ 64"
  shows "\<exists>refs c'. store_reader_chunks_with_refs (blake3 P) chain_read (a, b) n put_chunk c = Some (Inr refs, c') \<and>
    read_chunks P c' None 0 refs [] = Inr (a @ b)"
  using chain.stored_reader_reads_back [of n "(a, b)" P c] assms by simp

text \<open>Storing by hashes alone stores the same blobs as storing with references, and returns their hashes.\<close>

lemma hashes_loop_put: "hashes_loop put_chunk (map (\<lambda>b. (H b, b)) bs) c = (Inr (map H bs), put_all H bs c)"
  by (induction bs arbitrary: c) (simp_all add: put_chunk_def put_all_def bindE_def)

lemma layout_hashes: "map cr_hash (layout H off (zip bs bs)) = map H bs"
  by (induction bs arbitrary: off) simp_all

theorem store_chunk_hashes_agrees:
  "store_chunk_hashes H data n put_chunk c =
     (case store_chunks_with_refs H data n put_chunk c of (Inr refs, c') \<Rightarrow> (Inr (map cr_hash refs), c') | (Inl e, c') \<Rightarrow> (Inl e, c'))"
  by (simp add: store_chunk_hashes_def chunk_and_hash_def store_chunks_with_refs_def chunk_bytes_def chunks_of_max
      hashes_loop_put refs_loop_layout layout_hashes)

end
