(* ===== verification/Commands.thy ===== *)
theory Commands
  imports Gc Repository_Audit Share Text Wire
begin

text \<open>
  The commands of the binary: \<open>src/crates/nexusfs/src/fsops.rs\<close> and the verbs of \<open>cli.rs\<close>. A command works on the opened
  repository and on a terminal: what it prints, the files it names and its standard input. What it printed before an error
  stays printed. The \<open>hex\<close> and \<open>serde_json\<close> crates are the fields of \<open>crates\<close>, and so is \<open>human_bytes\<close>, which formats binary
  floating-point numbers; messages of errors are shortened as elsewhere. Portable proofs are in \<open>Portable_Proofs\<close>.
\<close>

section \<open>The terminal\<close>

datatype claim = Present inclusion_proof | Absent absence_proof

record portable_proof =
  pp_path :: "string option"
  pp_state_root :: string
  pp_issuer :: string
  pp_inode :: string
  pp_claim :: claim

record crates =
  hex_enc :: "bytes \<Rightarrow> string"
  hex_dec :: "string \<Rightarrow> bytes option"
  human_bytes :: "u64 \<Rightarrow> string"
  json_enc :: "portable_proof \<Rightarrow> string"
  json_dec :: "string \<Rightarrow> portable_proof option"

definition hex32 :: "crates \<Rightarrow> hash \<Rightarrow> string" where
  "hex32 J h = hex_enc J (to_be_bytes 32 h)"

datatype printed = Line string | Raw bytes

record terminal =
  tm_out :: "printed list"
  tm_files :: "string \<Rightarrow> bytes option"
  tm_stdin :: bytes

type_synonym 'a command = "(terminal, 'a) talk"

definition prints :: "printed list \<Rightarrow> unit command" where
  "prints ps s = (Inr (), fst s, (snd s)\<lparr>tm_out := tm_out (snd s) @ ps\<rparr>)"

definition says :: "string list \<Rightarrow> unit command" where
  "says ls = prints (map Line ls)"

definition read_bytes_of :: "string \<Rightarrow> bytes command" where
  "read_bytes_of f s = ((case tm_files (snd s) f of None \<Rightarrow> Inl (Bail ''read'') | Some bs \<Rightarrow> Inr bs), s)"

text \<open>A width in a format string pads on the left.\<close>

definition pad_left :: "char \<Rightarrow> nat \<Rightarrow> string \<Rightarrow> string" where
  "pad_left c n s = replicate (n - length s) c @ s"

definition or_none :: "string option \<Rightarrow> string" where
  "or_none v = (case v of None \<Rightarrow> ''(none)'' | Some t \<Rightarrow> t)"

section \<open>Files and directories\<close>

definition open_repo :: "prims \<Rightarrow> unit command" where
  "open_repo P = bindE (on_core require_current_format) (\<lambda>_. on_core (bootstrap_if_needed P))"

definition require_new :: "prims \<Rightarrow> string \<Rightarrow> unit command" where
  "require_new P path =
     bindE (on_core (reads (\<lambda>c. resolve_parent P c path))) (\<lambda>found.
     case found of
       None \<Rightarrow> raise (Bail ''parent directory does not exist (use -p to create it)'')
     | Some (parent, name) \<Rightarrow>
         bindE (on_core (reads (\<lambda>c. lookup P c parent name))) (\<lambda>entry.
         if entry \<noteq> None then raise (Bail ''already exists'') else ret ()))"

definition run_mkdir :: "prims \<Rightarrow> identity \<Rightarrow> u64 \<Rightarrow> string \<Rightarrow> bool \<Rightarrow> unit command" where
  "run_mkdir P ident now path parents =
     bindE (open_repo P) (\<lambda>_.
     bindE (if \<not> parents then require_new P path else ret ()) (\<lambda>_.
     bindE (on_core (mkdir_p P ident path now)) (\<lambda>_.
     says [''created '' @ path])))"

definition run_put :: "prims \<Rightarrow> identity \<Rightarrow> u64 \<Rightarrow> string \<Rightarrow> string \<Rightarrow> unit command" where
  "run_put P ident now source dest =
     bindE (open_repo P) (\<lambda>_.
     bindE (read_bytes_of source) (\<lambda>content.
     bindE (on_core (write_file P ident dest content now)) (\<lambda>_.
     says [''wrote '' @ digits (length content) @ '' bytes to '' @ dest])))"

definition run_cat :: "prims \<Rightarrow> string \<Rightarrow> unit command" where
  "run_cat P path =
     bindE (open_repo P) (\<lambda>_.
     bindE (on_core (reads (\<lambda>c. read_file_path P c path))) (\<lambda>content.
     prints [Raw content]))"

fun ls_loop :: "prims \<Rightarrow> dir_entry list \<Rightarrow> unit command" where
  "ls_loop P [] = ret ()"
| "ls_loop P (e # es) =
     bindE (case de_entry_type e of
              Dir \<Rightarrow> ret (''/'', [])
            | File \<Rightarrow>
                bindE (on_core (reads (\<lambda>c. load_inode P c (de_inode_id e)))) (\<lambda>r.
                let sz = (case r of None \<Rightarrow> 0 | Some r \<Rightarrow> ct_size (lww_value (ir_content r))) in
                ret ([], pad_left CHR '' '' 10 (digits (unat sz)) @ ''  ''))) (\<lambda>(marker, size).
     bindE (says [size @ de_name e @ marker]) (\<lambda>_. ls_loop P es))"

definition run_ls :: "prims \<Rightarrow> string \<Rightarrow> unit command" where
  "run_ls P path =
     bindE (open_repo P) (\<lambda>_.
     bindE (on_core (reads (\<lambda>c. read_dir_path P c path))) (\<lambda>es. ls_loop P es))"

definition run_rm :: "prims \<Rightarrow> identity \<Rightarrow> u64 \<Rightarrow> string \<Rightarrow> unit command" where
  "run_rm P ident now path =
     bindE (open_repo P) (\<lambda>_.
     bindE (on_core (remove_path P ident path now)) (\<lambda>_. says [''removed '' @ path]))"

definition run_mv :: "prims \<Rightarrow> identity \<Rightarrow> u64 \<Rightarrow> string \<Rightarrow> string \<Rightarrow> unit command" where
  "run_mv P ident now from_path to_path =
     bindE (open_repo P) (\<lambda>_.
     bindE (on_core (rename_path P ident from_path to_path now)) (\<lambda>_.
     says [''moved '' @ from_path @ '' -> '' @ to_path]))"

section \<open>Maintenance\<close>

definition run_verify :: "prims \<Rightarrow> crates \<Rightarrow> unit command" where
  "run_verify P J =
     bindE (open_repo P) (\<lambda>_.
     bindE (on_core (reads (verify_repository P))) (\<lambda>r.
     bindE (on_core (reads (\<lambda>c. Inr (encryption_enabled c)))) (\<lambda>enc.
     bindE (says ([''operations:        '' @ digits (vr_operations r),
                   ''  with proof:      '' @ digits (with_proof r) @ '' ('' @ digits (without_proof r) @ '' without)'',
                   ''  malformed proof: '' @ digits (malformed r),
                   ''  bad signature:   '' @ digits (signature_failures r),
                   ''state root:        '' @ or_none (map_option (hex32 J) (vr_state_root r)),
                   ''encryption:        '' @ (if enc then ''on'' else ''off'')] @
                  (if unreadable_files r = [] then [''files:             all readable'']
                   else (''files:             '' @ digits (length (unreadable_files r)) @ '' UNREADABLE'') #
                        map (\<lambda>path. ''  '' @ path) (unreadable_files r)))) (\<lambda>_.
     if report_ok r then says ['''', ''repository verified''] else raise (Bail ''verification found problems'')))))"

definition run_gc :: "prims \<Rightarrow> crates \<Rightarrow> bool \<Rightarrow> unit command" where
  "run_gc P J do_apply =
     bindE (open_repo P) (\<lambda>_.
     bindE (on_core (collect_garbage P (\<not> do_apply))) (\<lambda>r.
     bindE (says [''blobs scanned:  '' @ digits (blobs_scanned r),
                  ''  reachable:    '' @ digits (gr_reachable r),
                  ''  unreachable:  '' @ digits (gr_unreachable r),
                  ''stored:         '' @ human_bytes J (bytes_scanned r) @ '' ('' @ human_bytes J (bytes_reclaimable r) @ '' reclaimable)'',
                  ''records:        '' @ digits (records_scanned r),
                  ''  orphaned:     '' @ digits (records_unreachable r)]) (\<lambda>_.
     if refused r \<noteq> None then raise (Bail ''refused to collect'')
     else if gr_dry_run r then
       says (if has_garbage r then ['''', ''nothing was deleted. Re-run with --apply to reclaim.''] else ['''', ''nothing to reclaim.''])
     else
       says ['''', ''deleted '' @ digits (gr_deleted r) @ '' blobs, freeing '' @ human_bytes J (bytes_deleted r) @ '', and '' @
                   digits (records_deleted r) @ '' orphaned records''])))"

definition run_share :: "prims \<Rightarrow> identity \<Rightarrow> u64 \<Rightarrow> bool \<Rightarrow> unit command" where
  "run_share P ident now do_apply =
     bindE (open_repo P) (\<lambda>_.
     bindE (on_core (reads (sealing_recipient_keys P))) (\<lambda>recips.
     bindE (on_core (reseal_to_recipients P ident now (\<not> do_apply))) (\<lambda>r.
     bindE (says ([''recipients:     '' @ digits (length recips) @ '' (this node included)'',
                   ''files scanned:  '' @ digits (sh_files_scanned r),
                   ''  plaintext:    '' @ digits (sh_plaintext r),
                   ''  up to date:   '' @ digits (already_current r),
                   ''  to re-seal:   '' @ digits (resealed r)] @
                  (if sh_unreadable r > 0
                   then [''  unreadable:   '' @ digits (sh_unreadable r) @ '' (this node is not a recipient)''] else []))) (\<lambda>_.
     bindE (if sh_dry_run r then
              says (if resealed r > 0 then ['''', ''nothing was written. Re-run with --apply to re-seal.''] else ['''', ''nothing to re-seal.''])
            else says ['''', ''re-sealed '' @ digits (resealed r) @ '' file(s), one operation each'']) (\<lambda>_.
     says ['''',
           ''note: this grants access and never withdraws it. The ciphertext is unchanged, '',
           ''so anyone who already held a key for these files still holds one. Withdrawing '',
           ''access means re-encrypting under fresh keys, which this does not do.''])))))"

definition run_rotate :: "prims \<Rightarrow> crates \<Rightarrow> identity \<Rightarrow> u64 \<Rightarrow> string option \<Rightarrow> bool \<Rightarrow> unit command" where
  "run_rotate P J ident now path do_apply =
     bindE (open_repo P) (\<lambda>_.
     bindE (on_core (reads (sealing_recipient_keys P))) (\<lambda>recips.
     bindE (on_core (rotate_content P ident path now (\<not> do_apply))) (\<lambda>r.
     bindE (says ([''recipients:     '' @ digits (length recips) @ '' (this node included)'',
                   ''files scanned:  '' @ digits (ro_files_scanned r),
                   ''  to rotate:    '' @ digits (rotated r)] @
                  (if ro_plaintext r > 0 then [''  plaintext:    '' @ digits (ro_plaintext r) @ '' (no key to rotate)''] else []) @
                  (if ro_unreadable r > 0
                   then [''  unreadable:   '' @ digits (ro_unreadable r) @ '' (this node is not a recipient)''] else []) @
                  [''content:        '' @ human_bytes J (ro_bytes r)])) (\<lambda>_.
     bindE (if ro_dry_run r then
              says (if rotated r > 0
                    then ['''', ''nothing was written. Re-run with --apply to re-encrypt '' @ human_bytes J (ro_bytes r) @ ''.'']
                    else ['''', ''nothing to rotate.''])
            else says ['''', ''rotated '' @ digits (rotated r) @ '' file(s), re-encrypting '' @ human_bytes J (ro_bytes r),
                       ''run `nexusfs gc --apply` to reclaim the superseded ciphertext'']) (\<lambda>_.
     says ['''',
           ''note: this withdraws access to the content from here on. A device that already '',
           ''copied the old ciphertext and held a key for it can still read that version.''])))))"

definition version_text :: "u32 \<Rightarrow> string" where
  "version_text v = ''v'' @ digits (unat v)"

definition run_migrate :: "prims \<Rightarrow> unit command" where
  "run_migrate P =
     bindE (on_core (reads format_version)) (\<lambda>found.
     bindE (says [''on-disk format: '' @ (case found of None \<Rightarrow> ''unstamped (treated as v1)'' | Some v \<Rightarrow> version_text v),
                  ''this build:     '' @ version_text CURRENT_FORMAT_VERSION]) (\<lambda>_.
     bindE (on_core (migrate P)) (\<lambda>applied.
     if applied = [] then says ['''', ''already current; nothing to do'']
     else says (map (\<lambda>v. ''  migrated to '' @ version_text v) applied @ ['''', ''migration complete'']))))"

section \<open>Peer enrolment\<close>

datatype peer_action =
    PeerIdentity
  | PeerList
  | PeerAdd string string "string option" bool
  | PeerRemove string

definition parse_device_id :: "string \<Rightarrow> device_id result" where
  "parse_device_id s =
     (case from_hex (trim_start_matches ''0x'' (trim s)) of
        None \<Rightarrow> Inl (Bail ''device id is not hexadecimal'') | Some value \<Rightarrow> Inr value)"

definition parse_pubkey :: "crates \<Rightarrow> string \<Rightarrow> key32 result" where
  "parse_pubkey J s =
     (case hex_dec J (trim s) of
        None \<Rightarrow> Inl (Bail ''public key is not hexadecimal'')
      | Some raw \<Rightarrow>
          if length raw \<noteq> 32 then Inl (Bail ''public key is not 32 bytes'') else Inr (from_be_bytes raw))"

definition parse_seal_key :: "crates \<Rightarrow> string option \<Rightarrow> key32 option result" where
  "parse_seal_key J s = (case s of None \<Rightarrow> Inr None | Some t \<Rightarrow> rbind (parse_pubkey J t) (\<lambda>k. Inr (Some k)))"

definition peer_line :: "crates \<Rightarrow> enrolled_peer \<Rightarrow> string" where
  "peer_line J p =
     pad_left CHR ''0'' 32 (lower_hex (unat (ep_device_id p))) @ ''  '' @ hex32 J (ep_pubkey p) @ ''  '' @
     (case ep_seal_key p of Some k \<Rightarrow> hex32 J k | None \<Rightarrow> ''(no sealing key)'')"

definition run_peer :: "prims \<Rightarrow> crates \<Rightarrow> identity \<Rightarrow> peer_action \<Rightarrow> unit command" where
  "run_peer P J ident action =
     bindE (open_repo P) (\<lambda>_.
     case action of
       PeerIdentity \<Rightarrow>
         bindE (on_core (reads (\<lambda>c. Inr (lower_hex (unat (core_device c)))))) (\<lambda>device.
         says [''device_id: '' @ device, ''pubkey:    '' @ hex32 J (pubkey_bytes P ident),
               ''seal_key:  '' @ hex32 J (id_sealing_pubkey P ident), '''', ''Enrol this node on a peer with:'',
               ''  nexusfs peer add --config <peer-config> '' @ device @ '' '' @ hex32 J (pubkey_bytes P ident) @ '' '' @
                 hex32 J (id_sealing_pubkey P ident)])
     | PeerList \<Rightarrow>
         bindE (on_core (reads enrolled_peers)) (\<lambda>peers.
         says (if peers = [] then [''no peers enrolled''] else map (peer_line J) peers))
     | PeerAdd device pubkey seal_key allow \<Rightarrow>
         bindE (lift_result (parse_device_id device)) (\<lambda>dev.
         bindE (lift_result (parse_pubkey J pubkey)) (\<lambda>key.
         bindE (lift_result (parse_seal_key J seal_key)) (\<lambda>seal.
         bindE (on_core (enrol_peer dev key seal allow)) (\<lambda>outcome.
         let d = lower_hex (unat dev) in
         says ((case outcome of
                  Added \<Rightarrow> ''enrolled '' @ d
                | Unchanged \<Rightarrow> d @ '' was already enrolled with this key''
                | Rotated \<Rightarrow> ''rotated the key for '' @ d) #
               (if seal = None
                then [''note: no sealing key given, so this peer cannot be a recipient of '' @
                      ''newly written encrypted content. Re-run with the seal_key from '' @
                      ''`nexusfs peer identity` on that node to add one.''] else []))))))
     | PeerRemove device \<Rightarrow>
         bindE (lift_result (parse_device_id device)) (\<lambda>dev.
         bindE (on_core (revoke_peer dev)) (\<lambda>was.
         says (if was then [''removed '' @ lower_hex (unat dev),
                            ''note: with net.tofu = true this device will be pinned again on its '' @ ''next connection'']
               else [lower_hex (unat dev) @ '' was not enrolled'']))))"

end
