(* ===== verification/Portable_Proofs.thy ===== *)
theory Portable_Proofs
  imports Commands State_Root Merkle_Tree "HOL-Library.Countable"
begin

text \<open>
  Proofs that travel: \<open>prove\<close> and \<open>check-proof\<close> of \<open>src/crates/nexusfs/src/fsops.rs\<close>. The first writes a claim about one inode
  with the state root it is against; the second opens no repository. A file is its bytes, writing one succeeds, and
  reading one as text fails unless it is UTF-8.
\<close>

section \<open>Issuing\<close>

definition subject_of :: "prims \<Rightarrow> core \<Rightarrow> string option \<Rightarrow> string option \<Rightarrow> (u128 \<times> string option) result" where
  "subject_of P c path inode_arg =
     (case (path, inode_arg) of
        (Some _, Some _) \<Rightarrow> Inl (Bail ''give a path or --inode, not both'')
      | (Some p, None) \<Rightarrow>
          rbind (resolve_path P c p) (\<lambda>found.
          case found of None \<Rightarrow> Inl (Bail ''no such path'') | Some (inode, _) \<Rightarrow> Inr (inode, Some p))
      | (None, Some hex_inode) \<Rightarrow>
          (case from_hex (trim_start_matches ''0x'' (trim hex_inode)) of
             None \<Rightarrow> Inl (Bail ''inode is not hexadecimal'') | Some inode \<Rightarrow> Inr (inode, None))
      | (None, None) \<Rightarrow> Inl (Bail ''give a path, or --inode''))"

definition claim_about :: "prims \<Rightarrow> core \<Rightarrow> u128 \<Rightarrow> claim result" where
  "claim_about P c inode =
     rbind (core_inclusion_proof P c inode) (\<lambda>found.
     case found of
       Some p \<Rightarrow> Inr (Present p)
     | None \<Rightarrow>
         rbind (core_absence_proof P c inode) (\<lambda>missing.
         case missing of
           Some p \<Rightarrow> Inr (Absent p)
         | None \<Rightarrow> Inl (Bail ''inode is neither present nor provably absent'')))"

definition required_root :: "core \<Rightarrow> hash result" where
  "required_root c =
     (case get_state_root c of None \<Rightarrow> Inl (Bail ''this repository has no state root yet'') | Some r \<Rightarrow> Inr r)"

definition portable_of :: "crates \<Rightarrow> core \<Rightarrow> u128 \<Rightarrow> string option \<Rightarrow> hash \<Rightarrow> claim \<Rightarrow> portable_proof" where
  "portable_of J c inode path root cl =
     \<lparr>pp_path = path, pp_state_root = hex32 J root, pp_issuer = lower_hex (unat (core_device c)),
      pp_inode = lower_hex (unat inode), pp_claim = cl\<rparr>"

definition write_text :: "string \<Rightarrow> string \<Rightarrow> unit command" where
  "write_text f txt s = (Inr (), fst s, (snd s)\<lparr>tm_files := (tm_files (snd s))(f \<mapsto> str_bytes txt)\<rparr>)"

definition run_prove :: "prims \<Rightarrow> crates \<Rightarrow> string option \<Rightarrow> string option \<Rightarrow> string option \<Rightarrow> unit command" where
  "run_prove P J path inode_arg out =
     bindE (open_repo P) (\<lambda>_.
     bindE (on_core (reads (\<lambda>c. subject_of P c path inode_arg))) (\<lambda>(inode, label).
     bindE (on_core (reads required_root)) (\<lambda>root.
     bindE (on_core (reads (\<lambda>c. claim_about P c inode))) (\<lambda>cl.
     bindE (on_core (reads (\<lambda>c. Inr (portable_of J c inode label root cl)))) (\<lambda>portable.
     let json = json_enc J portable;
         subject = (case pp_path portable of None \<Rightarrow> ''inode '' @ pp_inode portable | Some p \<Rightarrow> p)
     in case out of
          Some f \<Rightarrow> bindE (write_text f json) (\<lambda>_. says [''wrote proof for '' @ subject @ '' to '' @ f])
        | None \<Rightarrow> says [json])))))"

section \<open>Checking\<close>

definition text_of :: "bytes \<Rightarrow> string" where
  "text_of bs = map (\<lambda>b. char_of (unat b)) bs"

definition read_text :: "string \<Rightarrow> terminal \<Rightarrow> string result" where
  "read_text f t =
     (case (if f = ''-'' then Some (tm_stdin t) else tm_files t f) of
        None \<Rightarrow> Inl (Bail ''read'')
      | Some bs \<Rightarrow> if utf8_ok bs then Inr (text_of bs) else Inl (Bail ''stream did not contain valid UTF-8''))"

definition parse_portable :: "crates \<Rightarrow> string \<Rightarrow> portable_proof result" where
  "parse_portable J txt = (case json_dec J txt of None \<Rightarrow> Inl (Bail ''parse proof'') | Some p \<Rightarrow> Inr p)"

definition expected_root :: "crates \<Rightarrow> portable_proof \<Rightarrow> string option \<Rightarrow> hash result" where
  "expected_root J p root =
     (let expected_hex = (case root of Some r \<Rightarrow> r | None \<Rightarrow> pp_state_root p) in
      case hex_dec J (trim expected_hex) of
        None \<Rightarrow> Inl (Bail ''state root is not hexadecimal'')
      | Some raw \<Rightarrow> if length raw \<noteq> 32 then Inl (Bail ''state root is not 32 bytes'') else Inr (from_be_bytes raw))"

definition check_claim :: "prims \<Rightarrow> claim \<Rightarrow> hash \<Rightarrow> unit result" where
  "check_claim P cl root =
     (case cl of Present p \<Rightarrow> check (blake3 P) p root | Absent p \<Rightarrow> check_absent (blake3 P) p root)"

definition proven_inode :: "claim \<Rightarrow> u128" where
  "proven_inode cl = (case cl of Present p \<Rightarrow> ip_inode p | Absent p \<Rightarrow> ap_inode p)"

definition em_dash :: string where
  "em_dash = [CHR 0xE2, CHR 0x80, CHR 0x94]"

definition verdict_lines :: "crates \<Rightarrow> portable_proof \<Rightarrow> hash \<Rightarrow> bool \<Rightarrow> string list" where
  "verdict_lines J p expected supplied =
     [''inode:      '' @ lower_hex (unat (proven_inode (pp_claim p))) @ ''   (from the proof)'',
      ''state root: '' @ hex32 J expected] @
     (case pp_claim p of
        Present pr \<Rightarrow> [''claim:      present'', ''object:     '' @ hex32 J (ip_value pr),
                       ''path steps: '' @ digits (length (ip_steps pr))]
      | Absent pr \<Rightarrow> [''claim:      absent'', ''map size:   '' @ digits (ap_len pr) @ '' entries'']) @
     ['''', ''unverified labels from the file (not covered by the proof):'',
      ''  path:     '' @ or_none (pp_path p), ''  inode:    '' @ pp_inode p, ''  issuer:   '' @ pp_issuer p] @
     (if from_hex (trim_start_matches ''0x'' (pp_inode p)) \<noteq> Some (proven_inode (pp_claim p))
      then [''  WARNING:  the file'' @ [CHR 0x27] @ ''s inode label does not match the proof'' @ [CHR 0x27] @ ''s subject''] else []) @
     (if supplied then ['''', ''proof holds against the supplied state root'']
      else ['''', ''proof is internally consistent. It was checked against the root recorded '' @
                  ''inside it, so this does not establish that root is one you trust '' @ em_dash @ '' pass '' @
                  ''--root to check against a root you obtained independently.''])"

definition run_check_proof :: "prims \<Rightarrow> crates \<Rightarrow> string \<Rightarrow> string option \<Rightarrow> (terminal, unit) comp" where
  "run_check_proof P J f root =
     bindE (reads (read_text f)) (\<lambda>json.
     bindE (lift_result (parse_portable J json)) (\<lambda>p.
     bindE (lift_result (expected_root J p root)) (\<lambda>expected.
     bindE (lift_result (check_claim P (pp_claim p) expected)) (\<lambda>_.
     upd (\<lambda>t. t\<lparr>tm_out := tm_out t @ map Line (verdict_lines J p expected (root \<noteq> None))\<rparr>)))))"

section \<open>What the libraries promise\<close>

text \<open>
  \<open>hex\<close> decodes what it encoded and writes hexadecimal digits only; \<open>serde_json\<close> reads back what it wrote, which is UTF-8, for
  a value whose texts are.
\<close>

definition hex_ok :: "crates \<Rightarrow> bool" where
  "hex_ok J \<longleftrightarrow> (\<forall>bs. hex_dec J (hex_enc J bs) = Some bs \<and> (\<forall>ch \<in> set (hex_enc J bs). hex_value ch \<noteq> None))"

definition label_ok :: "string option \<Rightarrow> bool" where
  "label_ok l \<longleftrightarrow> (case l of None \<Rightarrow> True | Some t \<Rightarrow> utf8_ok (str_bytes t))"

definition json_ok :: "crates \<Rightarrow> bool" where
  "json_ok J \<longleftrightarrow>
     (\<forall>p. label_ok (pp_path p) \<and> label_ok (Some (pp_state_root p)) \<and> label_ok (Some (pp_issuer p)) \<and> label_ok (Some (pp_inode p)) \<longrightarrow>
        json_dec J (json_enc J p) = Some p \<and> label_ok (Some (json_enc J p)))"

section \<open>An issued proof is accepted\<close>

lemma text_of_str_bytes [simp]: "text_of (str_bytes s) = s"
proof -
  have "(char_of (unat (word_of_nat (of_char ch) :: byte)) :: char) = ch" for ch :: char
    by (simp add: unat_of_nat)
  then show ?thesis by (simp add: text_of_def str_bytes_def comp_def)
qed

lemma hex_label: "(\<And>ch. ch \<in> set s \<Longrightarrow> hex_value ch \<noteq> None) \<Longrightarrow> label_ok (Some s)"
proof -
  assume s: "\<And>ch. ch \<in> set s \<Longrightarrow> hex_value ch \<noteq> None"
  have "(word_of_nat (of_char ch) :: byte) \<le> 0x7F" if "ch \<in> set s" for ch
  proof -
    have "(of_char ch :: nat) \<le> 102" using s [OF that] by (auto simp: hex_value_def Let_def split: if_splits)
    then show ?thesis by (simp add: word_le_nat_alt unat_of_nat)
  qed
  then show ?thesis by (simp add: label_ok_def str_bytes_def utf8_ascii list_all_iff)
qed

lemma claim_complete:
  assumes m: "inode_map c = Inr m" "sorted_wrt (<) (map fst m)" "length m \<le> 2 ^ 64"
  shows "\<exists>cl. claim_about P c i = Inr cl \<and> proven_inode cl = i \<and> check_claim P cl (commit (blake3 P) m) = Inr () \<and>
     (case cl of Present p \<Rightarrow> (i, ip_value p) \<in> set m | Absent _ \<Rightarrow> i \<notin> fst ` set m)"
proof (cases "prove (blake3 P) m i")
  case (Some p)
  from Some obtain k where "k < length m" "fst (m ! k) = i" "ip_inode p = i" "ip_value p = snd (m ! k)" by (rule prove_SomeD)
  moreover from this have "(i, ip_value p) \<in> set m" by (metis nth_mem prod.collapse)
  ultimately show ?thesis
    using Some check_prove [OF Some m(3)]
    by (intro exI [of _ "Present p"]) (simp add: claim_about_def core_inclusion_proof_def m(1) proven_inode_def check_claim_def)
next
  case None
  then have "i \<notin> fst ` set m" by (simp add: prove_None)
  from absent_complete [OF m(2,3) this] obtain p where "prove_absent (blake3 P) m i = Some p" "ap_inode p = i"
    "check_absent (blake3 P) p (commit (blake3 P) m) = Inr ()" by blast
  then show ?thesis
    using None \<open>i \<notin> fst ` set m\<close>
    by (intro exI [of _ "Absent p"])
      (simp add: claim_about_def core_inclusion_proof_def core_absence_proof_def m(1) proven_inode_def check_claim_def)
qed

lemma expected_hex: "hex_ok J \<Longrightarrow> expected_root J p (Some (hex32 J r)) = Inr r"
  "hex_ok J \<Longrightarrow> pp_state_root p = hex32 J r \<Longrightarrow> expected_root J p None = Inr r"
proof -
  have "expected_root J p (Some (hex32 J r)) = Inr r" if "hex_ok J"
  proof -
    have "trim (hex32 J r) = hex32 J r"
      using that hex_value_graphic by (intro trim_graphic) (auto simp: list_all_iff hex32_def hex_ok_def)
    then show ?thesis using that by (simp add: expected_root_def hex32_def hex_ok_def hash_be_roundtrip)
  qed
  then show "hex_ok J \<Longrightarrow> expected_root J p (Some (hex32 J r)) = Inr r"
    "hex_ok J \<Longrightarrow> pp_state_root p = hex32 J r \<Longrightarrow> expected_root J p None = Inr r"
    by (simp_all add: expected_root_def)
qed

definition opened :: "core \<Rightarrow> bool" where
  "opened c \<longleftrightarrow> format_version c = Inr (Some CURRENT_FORMAT_VERSION) \<and> get_head c \<noteq> None"

lemma open_repo_opened: "opened c \<Longrightarrow> open_repo P (c, t) = (Inr (), c, t)"
  by (simp add: opened_def open_repo_def on_core_def bindE_def require_current_format_def check_format_def classify_format_def
      bootstrap_if_needed_def)

text \<open>
  C14. A proof travels. On an opened repository with a current state root, \<open>prove\<close> succeeds for every inode, present or not, named
  in hexadecimal or by a path that resolves to it, and changes nothing but the file it writes; the claim says present
  exactly for the inodes of the map, with the object the map holds for it; and \<open>check-proof\<close>, given that file and no repository,
  accepts it, against the root recorded inside and against the root the repository reports.
\<close>

theorem portable_proof_accepted:
  assumes J: "hex_ok J" "json_ok J"
    and c: "opened c" "root_current P c" "inode_map c = Inr m" "length m \<le> 2 ^ 64"
    and subject: "subject_of P c path arg = Inr (i, label)" "label_ok label" and f: "f \<noteq> ''-''"
  shows "\<exists>root cl t'. get_state_root c = Some root \<and> run_prove P J path arg (Some f) (c, t) = (Inr (), c, t') \<and>
     (\<forall>g. g \<noteq> f \<longrightarrow> tm_files t' g = tm_files t g) \<and>
     parse_portable J (text_of (the (tm_files t' f))) = Inr (portable_of J c i label root cl) \<and>
     (case cl of Present p \<Rightarrow> ip_inode p = i \<and> (i, ip_value p) \<in> set m | Absent p \<Rightarrow> ap_inode p = i \<and> i \<notin> fst ` set m) \<and>
     (\<exists>t2 t3. run_check_proof P J f None t' = (Inr (), t2) \<and> run_check_proof P J f (Some (hex32 J root)) t' = (Inr (), t3))"
proof -
  let ?root = "commit (blake3 P) m"
  have m: "sorted_wrt (<) (map fst m)" and root: "get_state_root c = Some ?root"
    using c(2,3) by (auto elim!: root_currentD)
  obtain cl where cl: "claim_about P c i = Inr cl" "proven_inode cl = i" "check_claim P cl ?root = Inr ()"
    "case cl of Present p \<Rightarrow> (i, ip_value p) \<in> set m | Absent _ \<Rightarrow> i \<notin> fst ` set m"
    using claim_complete [OF c(3) m c(4)] by blast
  let ?p = "portable_of J c i label ?root cl"
  have "label_ok (Some (hex32 J ?root))" using J(1) by (intro hex_label) (simp add: hex_ok_def hex32_def)
  moreover have "label_ok (Some (lower_hex n))" for n by (rule hex_label) (rule lower_hex_chars)
  ultimately have json: "json_dec J (json_enc J ?p) = Some ?p" "utf8_ok (str_bytes (json_enc J ?p))"
    using J(2) subject(2) by (auto simp: json_ok_def portable_of_def label_ok_def)
  let ?name = "case label of None \<Rightarrow> ''inode '' @ pp_inode ?p | Some q \<Rightarrow> q"
  let ?t = "t\<lparr>tm_files := (tm_files t)(f \<mapsto> str_bytes (json_enc J ?p)),
               tm_out := tm_out t @ [Line (''wrote proof for '' @ ?name @ '' to '' @ f)]\<rparr>"
  have run: "run_prove P J path arg (Some f) (c, t) = (Inr (), c, ?t)"
    by (simp add: run_prove_def bindE_def open_repo_opened [OF c(1)] on_core_def subject(1) required_root_def root cl(1)
        write_text_def says_def prints_def Let_def) (simp add: portable_of_def)
  have chk: "\<exists>t2. run_check_proof P J f r ?t = (Inr (), t2)" if "expected_root J ?p r = Inr ?root" for r
    using that cl(3) json f
    by (simp add: run_check_proof_def bindE_def read_text_def parse_portable_def lift_result_def) (simp add: portable_of_def)
  have "expected_root J ?p None = Inr ?root" by (rule expected_hex(2) [OF J(1)]) (simp add: portable_of_def)
  then have "\<exists>t2 t3. run_check_proof P J f None ?t = (Inr (), t2) \<and> run_check_proof P J f (Some (hex32 J ?root)) ?t = (Inr (), t3)"
    using chk [OF expected_hex(1) [OF J(1)]] chk by blast
  moreover have "parse_portable J (text_of (the (tm_files ?t f))) = Inr ?p" by (simp add: parse_portable_def json(1))
  moreover have "case cl of Present p \<Rightarrow> ip_inode p = i \<and> (i, ip_value p) \<in> set m | Absent p \<Rightarrow> ap_inode p = i \<and> i \<notin> fst ` set m"
    using cl(2,4) by (simp add: proven_inode_def split: claim.splits)
  ultimately show ?thesis using root run by (intro exI [of _ ?root] exI [of _ cl] exI [of _ ?t]) simp
qed

section \<open>An accepted proof is true\<close>

definition claim_inputs :: "prims \<Rightarrow> claim \<Rightarrow> bytes list" where
  "claim_inputs P cl = (case cl of Present p \<Rightarrow> proof_inputs (blake3 P) p | Absent p \<Rightarrow> absence_inputs (blake3 P) p)"

text \<open>
  C13. \<open>check-proof\<close> is not fooled. When it accepts a file against a root given on the command line, and that root is the
  commitment of a sorted map, then the inode it prints as coming from the proof either is printed as present with the
  object the map holds for it, or is printed as absent and is not in the map, whatever the labels of the file say; the only
  way out is a collision of the hash function among the inputs of that commitment and of the claim.
\<close>

theorem check_proof_not_fooled:
  assumes acc: "run_check_proof P J f (Some r) t = (Inr (), t')"
    and parsed: "read_text f t = Inr txt" "parse_portable J txt = Inr p"
    and root: "hex_dec J (trim r) = Some (to_be_bytes 32 (commit (blake3 P) m))" and sorted: "sorted_wrt (<) (map fst m)"
    and inj: "inj_on (blake3 P) (set (commit_inputs (blake3 P) m) \<union> set (claim_inputs P (pp_claim p)))"
  shows "\<exists>i lines. tm_out t' = tm_out t @ map Line lines \<and>
     lines ! 0 = ''inode:      '' @ lower_hex (unat i) @ ''   (from the proof)'' \<and>
     ((\<exists>v. lines ! 2 = ''claim:      present'' \<and> lines ! 3 = ''object:     '' @ hex32 J v \<and> (i, v) \<in> set m) \<or>
      (lines ! 2 = ''claim:      absent'' \<and> i \<notin> fst ` set m))"
proof -
  let ?root = "commit (blake3 P) m" and ?i = "proven_inode (pp_claim p)"
  have e: "expected_root J p (Some r) = Inr ?root" using root by (simp add: expected_root_def hash_be_roundtrip)
  have out: "tm_out t' = tm_out t @ map Line (verdict_lines J p ?root True)" and ok: "check_claim P (pp_claim p) ?root = Inr ()"
    using acc parsed e by (auto simp: run_check_proof_def bindE_eq_Inr lift_result_def)
  have "(\<exists>v. verdict_lines J p ?root True ! 2 = ''claim:      present'' \<and>
             verdict_lines J p ?root True ! 3 = ''object:     '' @ hex32 J v \<and> (?i, v) \<in> set m) \<or>
        (verdict_lines J p ?root True ! 2 = ''claim:      absent'' \<and> ?i \<notin> fst ` set m)"
  proof (cases "pp_claim p")
    case (Present pr)
    have "compute_root (blake3 P) pr = ?root" using ok Present by (simp add: check_claim_def check_compute_root)
    then have "(ip_inode pr, ip_value pr) \<in> set m" using inj Present by (intro accepted_in_entries) (simp_all add: claim_inputs_def)
    then show ?thesis using Present by (intro disjI1 exI [of _ "ip_value pr"]) (simp add: verdict_lines_def proven_inode_def)
  next
    case (Absent pr)
    have "ap_inode pr \<notin> fst ` set m" using ok inj Absent by (intro absent_sound [OF sorted]) (simp_all add: claim_inputs_def check_claim_def)
    then show ?thesis using Absent by (simp add: verdict_lines_def proven_inode_def)
  qed
  moreover have "verdict_lines J p ?root True ! 0 = ''inode:      '' @ lower_hex (unat ?i) @ ''   (from the proof)''"
    by (simp add: verdict_lines_def)
  ultimately show ?thesis using out by blast
qed

section \<open>Instances\<close>

text \<open>Plain hexadecimal, and a text format that writes the number of a portable proof.\<close>

fun unhex :: "string \<Rightarrow> bytes option" where
  "unhex [] = Some []"
| "unhex [_] = None"
| "unhex (a # b # r) =
     (case (hex_value a, hex_value b, unhex r) of
        (Some x, Some y, Some bs) \<Rightarrow> Some (word_of_nat (x * 16 + y) # bs) | _ \<Rightarrow> None)"

definition enhex :: "bytes \<Rightarrow> string" where
  "enhex bs = concat (map (\<lambda>b. [hex_char (unat b div 16), hex_char (unat b mod 16)]) bs)"

lemma unat_div16: "unat (b :: byte) div 16 < 16"
proof -
  have "unat b < 256" using unsigned_less [of b] by simp
  then show ?thesis by simp
qed

lemma unhex_enhex: "unhex (enhex bs) = Some bs"
proof (induction bs)
  case (Cons b bs)
  have "unat b div 16 < 16" by (rule unat_div16)
  moreover have "unhex (enhex (b # bs)) = unhex (hex_char (unat b div 16) # hex_char (unat b mod 16) # enhex bs)" by (simp add: enhex_def)
  ultimately show ?case using Cons by (simp add: hex_value_char)
qed (simp add: enhex_def)

lemma enhex_chars: "ch \<in> set (enhex bs) \<Longrightarrow> hex_value ch \<noteq> None"
proof -
  assume "ch \<in> set (enhex bs)"
  then obtain b where "b \<in> set bs" "ch = hex_char (unat b div 16) \<or> ch = hex_char (unat b mod 16)" by (auto simp: enhex_def)
  moreover have "unat b div 16 < 16" by (rule unat_div16)
  ultimately show ?thesis using hex_value_char by auto
qed

type_synonym proof_nats = "nat \<times> nat \<times> (nat \<times> nat) list"

definition proof_nats :: "inclusion_proof \<Rightarrow> proof_nats" where
  "proof_nats p = (unat (ip_inode p), unat (ip_value p), map (\<lambda>s. (unat (sibling s), of_bool (sibling_is_left s))) (ip_steps p))"

definition nats_proof :: "proof_nats \<Rightarrow> inclusion_proof" where
  "nats_proof x = (case x of (i, v, ss) \<Rightarrow>
     \<lparr>ip_inode = word_of_nat i, ip_value = word_of_nat v,
      ip_steps = map (\<lambda>(h, l). \<lparr>sibling = word_of_nat h, sibling_is_left = (l \<noteq> 0)\<rparr>) ss\<rparr>)"

lemma nats_proof_nats [simp]: "nats_proof (proof_nats p) = p"
  by (cases p) (auto simp: nats_proof_def proof_nats_def intro!: map_idI)

definition side_nats :: "neighbour option \<Rightarrow> (nat \<times> proof_nats) option" where
  "side_nats n = map_option (\<lambda>n. (nb_index n, proof_nats (nb_proof n))) n"

definition nats_side :: "(nat \<times> proof_nats) option \<Rightarrow> neighbour option" where
  "nats_side x = map_option (\<lambda>(k, p). \<lparr>nb_index = k, nb_proof = nats_proof p\<rparr>) x"

lemma nats_side_nats [simp]: "nats_side (side_nats n) = n"
  by (cases n) (simp_all add: nats_side_def side_nats_def)

type_synonym portable_nats =
  "nat list option \<times> nat list \<times> nat list \<times> nat list \<times> (proof_nats + (nat \<times> nat \<times> (nat \<times> proof_nats) option \<times> (nat \<times> proof_nats) option))"

definition portable_nats :: "portable_proof \<Rightarrow> portable_nats" where
  "portable_nats p =
     (map_option (map of_char) (pp_path p), map of_char (pp_state_root p), map of_char (pp_issuer p), map of_char (pp_inode p),
      case pp_claim p of
        Present q \<Rightarrow> Inl (proof_nats q)
      | Absent q \<Rightarrow> Inr (unat (ap_inode q), ap_len q, side_nats (ap_left q), side_nats (ap_right q)))"

definition nats_portable :: "portable_nats \<Rightarrow> portable_proof" where
  "nats_portable x = (case x of (l, r, d, i, cl) \<Rightarrow>
     \<lparr>pp_path = map_option (map char_of) l, pp_state_root = map char_of r, pp_issuer = map char_of d, pp_inode = map char_of i,
      pp_claim = (case cl of
        Inl q \<Rightarrow> Present (nats_proof q)
      | Inr (j, n, a, b) \<Rightarrow> Absent \<lparr>ap_inode = word_of_nat j, ap_len = n, ap_left = nats_side a, ap_right = nats_side b\<rparr>)\<rparr>)"

lemma nats_portable_nats: "nats_portable (portable_nats p) = p"
  by (cases p; cases "pp_claim p") (simp_all add: nats_portable_def portable_nats_def comp_def option.map_comp option.map_ident)

definition sample_crates :: crates where
  "sample_crates = \<lparr>hex_enc = enhex, hex_dec = unhex, human_bytes = (\<lambda>n. digits (unat n)),
     json_enc = (\<lambda>p. lower_hex (to_nat (portable_nats p))),
     json_dec = (\<lambda>s. map_option (\<lambda>n. nats_portable (from_nat n)) (hex_loop 0 s))\<rparr>"

lemma sample_crates_ok: "hex_ok sample_crates" "json_ok sample_crates"
  by (auto simp: hex_ok_def json_ok_def sample_crates_def unhex_enhex enhex_chars hex_loop_lower nats_portable_nats
      intro!: hex_label lower_hex_chars)

definition sample_rooted_core :: core where
  "sample_rooted_core = set_head 0 (set_state_root (commit (blake3 sample) []) (stamp_current_format sample_core))"

lemma sample_rooted: "opened sample_rooted_core" "root_current sample sample_rooted_core" "inode_map sample_rooted_core = Inr []"
proof -
  have "inode_map sample_rooted_core = Inr []"
    by (simp add: sample_rooted_core_def inode_map_def set_head_def set_state_root_def stamp_current_format_def set_format_version_def)
  moreover have "get_state_root sample_rooted_core = Some (commit (blake3 sample) [])"
    using get_set_state_root [of _ "stamp_current_format sample_core"]
    by (simp add: sample_rooted_core_def set_head_def get_state_root_def read_hash_def)
  moreover have "imap_ok sample_rooted_core"
    by (simp add: imap_ok_def sample_rooted_core_def set_head_def set_state_root_def stamp_current_format_def set_format_version_def)
  ultimately show "inode_map sample_rooted_core = Inr []" "root_current sample sample_rooted_core"
    by (simp_all add: root_current_def compute_state_root_def)
  have "format_version sample_rooted_core = Inr (Some CURRENT_FORMAT_VERSION)"
    using format_version_set [of CURRENT_FORMAT_VERSION sample_core]
    by (simp add: format_version_def sample_rooted_core_def set_head_def set_state_root_def stamp_current_format_def)
  then show "opened sample_rooted_core" by (simp add: opened_def) (simp add: sample_rooted_core_def)
qed

definition blank :: terminal where
  "blank = \<lparr>tm_out = [], tm_files = Map.empty, tm_stdin = []\<rparr>"

theorem portable_proof_accepted_witness:
  "\<exists>t'. run_prove sample sample_crates None (Some ''2a'') (Some ''p'') (sample_rooted_core, blank) = (Inr (), sample_rooted_core, t') \<and>
     (\<exists>t2. run_check_proof sample sample_crates ''p'' None t' = (Inr (), t2))"
proof -
  have "subject_of sample sample_rooted_core None (Some ''2a'') = Inr (0x2A, None)"
  proof -
    have "trim_start_matches ''0x'' (trim ''2a'') = ''2a''" by (rule trim_hex) (auto simp: hex_value_def)
    then show ?thesis by (simp add: subject_of_def from_hex_def hex_value_def)
  qed
  then show ?thesis
    using portable_proof_accepted [OF sample_crates_ok sample_rooted _ _ _, of None "Some ''2a''" "0x2A" None "''p''" blank]
    by (auto simp: label_ok_def)
qed

definition demo_prims :: prims where
  "demo_prims = sample\<lparr>blake3 := demo_hash\<rparr>"

definition demo_portable :: portable_proof where
  "demo_portable = \<lparr>pp_path = None, pp_state_root = ''ab'', pp_issuer = ''1'', pp_inode = ''7'',
     pp_claim = Present \<lparr>ip_inode = 5, ip_value = 7, ip_steps = [\<lparr>sibling = 2, sibling_is_left = False\<rparr>]\<rparr>\<rparr>"

definition demo_terminal :: terminal where
  "demo_terminal = blank\<lparr>tm_stdin := str_bytes (json_enc sample_crates demo_portable)\<rparr>"

theorem check_proof_not_fooled_witness:
  "\<exists>t' (i :: u128) lines. run_check_proof demo_prims sample_crates ''-'' (Some (hex32 sample_crates 3)) demo_terminal = (Inr (), t') \<and>
     tm_out t' = map Line lines \<and> lines ! 0 = ''inode:      '' @ lower_hex (unat i) @ ''   (from the proof)''"
proof -
  let ?pr = "\<lparr>ip_inode = 5, ip_value = 7, ip_steps = [\<lparr>sibling = 2, sibling_is_left = False\<rparr>]\<rparr>"
  have blake: "blake3 demo_prims = demo_hash" by (simp add: demo_prims_def)
  have "label_ok (Some ''ab'')" "label_ok (Some ''1'')" "label_ok (Some ''7'')" by (auto intro!: hex_label simp: hex_value_def)
  then have json: "json_dec sample_crates (json_enc sample_crates demo_portable) = Some demo_portable"
    "utf8_ok (str_bytes (json_enc sample_crates demo_portable))"
    using sample_crates_ok(2) by (auto simp: json_ok_def demo_portable_def label_ok_def)
  have r: "read_text ''-'' demo_terminal = Inr (json_enc sample_crates demo_portable)"
    using json(2) by (simp add: read_text_def demo_terminal_def)
  have p: "parse_portable sample_crates (json_enc sample_crates demo_portable) = Inr demo_portable" by (simp add: parse_portable_def json(1))
  have ok: "check demo_hash ?pr 3 = Inr ()" by (simp add: check_def MAX_STEPS_def compute_root_def step_hash_def)
  obtain t' where t': "run_check_proof demo_prims sample_crates ''-'' (Some (hex32 sample_crates 3)) demo_terminal = (Inr (), t')"
    using r p ok expected_hex(1) [OF sample_crates_ok(1)]
    by (simp add: run_check_proof_def bindE_def lift_result_def) (simp add: check_claim_def demo_portable_def blake)
  have root: "hex_dec sample_crates (trim (hex32 sample_crates 3)) = Some (to_be_bytes 32 (commit (blake3 demo_prims) demo_entries))"
    using sample_crates_ok(1) trim_graphic [of "hex32 sample_crates 3"] hex_value_graphic
    by (simp add: blake demo_commit) (auto simp: hex32_def hex_ok_def list_all_iff)
  have "inj_on demo_hash (set (commit_inputs demo_hash demo_entries) \<union> set (proof_inputs demo_hash ?pr))"
    by (intro inj_on_subset [OF demo_inj]) (auto simp: demo_inputs proof_inputs_def)
  then have inj: "inj_on (blake3 demo_prims) (set (commit_inputs (blake3 demo_prims) demo_entries) \<union> set (claim_inputs demo_prims (pp_claim demo_portable)))"
    by (simp add: blake claim_inputs_def demo_portable_def)
  have "sorted_wrt (<) (map fst demo_entries)" by (simp add: demo_entries_def)
  from check_proof_not_fooled [OF t' r p root this inj] obtain i :: u128 and lines where "tm_out t' = tm_out demo_terminal @ map Line lines"
    "lines ! 0 = ''inode:      '' @ lower_hex (unat i) @ ''   (from the proof)''" by blast
  moreover have "tm_out demo_terminal = []" by (simp add: demo_terminal_def blank_def)
  ultimately show ?thesis using t' by (intro exI [of _ t'] exI [of _ i] exI [of _ lines]) simp
qed

end
