(* ===== verification/Key_Files.thy ===== *)
theory Key_Files
  imports Portable_Proofs
begin

text \<open>
  The key material kept on disk: \<open>load_or_create\<close> of the identity (\<open>src/crates/crypto/src/identity.rs\<close>) and of the repository
  key (\<open>src/crates/crypto/src/repo.rs\<close>). The files are a map from paths to bytes; creating the directory and setting the mode of a
  file are not part of it. \<open>base64\<close> and \<open>toml\<close> are the fields of \<open>key_crates\<close>, \<open>hex\<close> that of \<open>crates\<close>. The values drawn from the
  operating system are an argument.
\<close>

section \<open>Reading and writing\<close>

type_synonym files = "string \<Rightarrow> bytes option"

record identity_file =
  ed25519_seed_b64 :: string
  x25519_secret_b64 :: "string option"

record key_crates =
  b64_enc :: "bytes \<Rightarrow> string"
  b64_dec :: "string \<Rightarrow> bytes option"
  toml_enc :: "identity_file \<Rightarrow> string"
  toml_dec :: "string \<Rightarrow> identity_file option"

definition read_to_string :: "string \<Rightarrow> files \<Rightarrow> string result" where
  "read_to_string path fs =
     (case fs path of
        None \<Rightarrow> Inl (Bail ''read'')
      | Some bs \<Rightarrow> if utf8_ok bs then Inr (text_of bs) else Inl (Bail ''stream did not contain valid UTF-8''))"

definition write_string :: "string \<Rightarrow> string \<Rightarrow> (files, unit) comp" where
  "write_string path txt = upd (\<lambda>fs. fs(path \<mapsto> str_bytes txt))"

definition decode_key :: "key_crates \<Rightarrow> string \<Rightarrow> key32 result" where
  "decode_key K encoded =
     (case b64_dec K (trim encoded) of
        None \<Rightarrow> Inl (Bail ''decode base64'')
      | Some raw \<Rightarrow> if length raw \<noteq> 32 then Inl (Bail ''key material must be 32 bytes'') else Inr (from_be_bytes raw))"

section \<open>The identity\<close>

definition generate :: "(nat \<Rightarrow> key32) \<Rightarrow> identity" where
  "generate draw = \<lparr>id_signing = draw 0, id_sealing = draw 1\<rparr>"

definition identity_save :: "key_crates \<Rightarrow> string \<Rightarrow> identity \<Rightarrow> (files, unit) comp" where
  "identity_save K path ident =
     write_string path (toml_enc K \<lparr>ed25519_seed_b64 = b64_enc K (to_be_bytes 32 (id_signing ident)),
                                    x25519_secret_b64 = Some (b64_enc K (to_be_bytes 32 (id_sealing ident)))\<rparr>)"

definition sealing_of :: "prims \<Rightarrow> key_crates \<Rightarrow> key32 \<Rightarrow> string option \<Rightarrow> (key32 \<times> bool) result" where
  "sealing_of P K seed secret =
     (case secret of
        Some encoded \<Rightarrow> rbind (decode_key K encoded) (\<lambda>k. Inr (k, False))
      | None \<Rightarrow> Inr (derive_sealing_seed P seed, True))"

definition identity_load_or_create :: "prims \<Rightarrow> key_crates \<Rightarrow> (nat \<Rightarrow> key32) \<Rightarrow> string \<Rightarrow> (files, identity) comp" where
  "identity_load_or_create P K draw path =
     bindE (reads (\<lambda>fs. Inr (fs path))) (\<lambda>found.
     if found = None then
       (let ident = generate draw in bindE (identity_save K path ident) (\<lambda>_. ret ident))
     else
       bindE (reads (read_to_string path)) (\<lambda>txt.
       case toml_dec K txt of
         None \<Rightarrow> raise (Bail ''parse identity file toml'')
       | Some f \<Rightarrow>
           bindE (reads (\<lambda>_. decode_key K (ed25519_seed_b64 f))) (\<lambda>seed.
           bindE (reads (\<lambda>_. sealing_of P K seed (x25519_secret_b64 f))) (\<lambda>(sealing, needs_write).
           let ident = \<lparr>id_signing = seed, id_sealing = sealing\<rparr> in
           bindE (if needs_write then identity_save K path ident else ret ()) (\<lambda>_. ret ident)))))"

section \<open>The repository key\<close>

definition cipher_load_or_create :: "crates \<Rightarrow> key32 \<Rightarrow> string \<Rightarrow> (files, key32) comp" where
  "cipher_load_or_create J fresh path =
     bindE (reads (\<lambda>fs. Inr (fs path))) (\<lambda>found.
     if found \<noteq> None then
       bindE (reads (read_to_string path)) (\<lambda>encoded.
       case hex_dec J (trim encoded) of
         None \<Rightarrow> raise (Bail ''decode repository key'')
       | Some raw \<Rightarrow>
           if length raw \<noteq> 32 then raise (Bail ''repository key must be 32 bytes'') else ret (from_be_bytes raw))
     else
       bindE (write_string path (hex_enc J (to_be_bytes 32 fresh))) (\<lambda>_. ret fresh))"

section \<open>What is loaded is what was saved\<close>

text \<open>
  \<open>base64\<close> decodes what it encoded and writes ASCII without white space; \<open>toml\<close> reads back what it wrote, which is UTF-8, for a
  value whose texts are.
\<close>

definition key_crates_ok :: "key_crates \<Rightarrow> bool" where
  "key_crates_ok K \<longleftrightarrow>
     (\<forall>bs. b64_dec K (b64_enc K bs) = Some bs \<and> (\<forall>ch \<in> set (b64_enc K bs). \<not> is_ws ch \<and> of_char ch \<le> (127 :: nat))) \<and>
     (\<forall>f. label_ok (Some (ed25519_seed_b64 f)) \<and> label_ok (x25519_secret_b64 f) \<longrightarrow>
        toml_dec K (toml_enc K f) = Some f \<and> label_ok (Some (toml_enc K f)))"

lemma ascii_utf8: "list_all (\<lambda>ch. of_char ch \<le> (127 :: nat)) s \<Longrightarrow> utf8_ok (str_bytes s)"
  by (auto simp: str_bytes_def list_all_iff word_le_nat_alt unat_of_nat intro!: utf8_ascii)

lemma b64_label: "key_crates_ok K \<Longrightarrow> label_ok (Some (b64_enc K bs))"
  by (auto simp: label_ok_def key_crates_ok_def list_all_iff intro!: ascii_utf8)

lemma toml_written:
  fixes bs
  assumes "key_crates_ok K" "label_ok secret"
  defines "f \<equiv> \<lparr>ed25519_seed_b64 = b64_enc K bs, x25519_secret_b64 = secret\<rparr>"
  shows "toml_dec K (toml_enc K f) = Some f" "utf8_ok (str_bytes (toml_enc K f))"
proof -
  have "label_ok (Some (ed25519_seed_b64 f)) \<and> label_ok (x25519_secret_b64 f)" using b64_label [OF assms(1)] assms(2) by (simp add: f_def)
  then have "toml_dec K (toml_enc K f) = Some f \<and> label_ok (Some (toml_enc K f))"
    using assms(1) unfolding key_crates_ok_def by blast
  then show "toml_dec K (toml_enc K f) = Some f" "utf8_ok (str_bytes (toml_enc K f))" by (simp_all add: label_ok_def)
qed

text \<open>
  What \<open>load_or_create\<close> promises its caller, whatever is loaded: as long as the text formats round-trip (\<open>formats\<close>), a value that
  was given is held from then on, and a value that is held is given again, without a write and without a draw.
\<close>

locale persistent =
  fixes formats :: bool and load :: "'d \<Rightarrow> ('s, 'a) comp" and held :: "'s \<Rightarrow> 'a \<Rightarrow> bool"
  assumes created: "formats \<Longrightarrow> load d s = (Inr x, s') \<Longrightarrow> held s' x"
    and loaded: "held s x \<Longrightarrow> load d s = (Inr x, s)"
begin

lemma again: "formats \<Longrightarrow> load d s = (Inr x, s') \<Longrightarrow> load d' s' = (Inr x, s')"
  by (rule loaded) (rule created)

lemma functional: "held s x \<Longrightarrow> held s y \<Longrightarrow> x = y"
  using loaded [of s x] loaded [of s y] by auto

end

definition identity_held :: "key_crates \<Rightarrow> string \<Rightarrow> files \<Rightarrow> identity \<Rightarrow> bool" where
  "identity_held K path fs ident \<longleftrightarrow>
     (\<exists>txt f e. read_to_string path fs = Inr txt \<and> toml_dec K txt = Some f \<and> x25519_secret_b64 f = Some e \<and>
        decode_key K (ed25519_seed_b64 f) = Inr (id_signing ident) \<and> decode_key K e = Inr (id_sealing ident))"

definition key_held :: "crates \<Rightarrow> string \<Rightarrow> files \<Rightarrow> key32 \<Rightarrow> bool" where
  "key_held J path fs k \<longleftrightarrow>
     (\<exists>txt raw. read_to_string path fs = Inr txt \<and> hex_dec J (trim txt) = Some raw \<and> length raw = 32 \<and> from_be_bytes raw = k)"

lemma decode_b64: "key_crates_ok K \<Longrightarrow> decode_key K (b64_enc K (to_be_bytes 32 k)) = Inr k"
proof -
  assume K: "key_crates_ok K"
  then have "trim (b64_enc K (to_be_bytes 32 k)) = b64_enc K (to_be_bytes 32 k)"
    by (intro trim_graphic) (auto simp: key_crates_ok_def list_all_iff)
  then show ?thesis using K by (simp add: decode_key_def key_crates_ok_def hash_be_roundtrip)
qed

lemma saved_identity:
  assumes "key_crates_ok K" "identity_save K path ident fs = (r, fs')"
  shows "r = Inr ()" "identity_held K path fs' ident"
  using assms(2) decode_b64 [OF assms(1)] toml_written [OF assms(1) b64_label [OF assms(1)]]
  by (auto simp: identity_save_def write_string_def upd_def identity_held_def read_to_string_def)

lemma read_to_string_found: "read_to_string path fs = Inr txt \<Longrightarrow> fs path \<noteq> None"
  by (cases "fs path") (auto simp: read_to_string_def)

lemma identity_load_held:
  "identity_held K path fs ident \<Longrightarrow> identity_load_or_create P K draw path fs = (Inr ident, fs)"
  by (auto simp: identity_held_def identity_load_or_create_def bindE_def reads_def ret_def sealing_of_def rbind_def
      dest: read_to_string_found)

lemma identity_load_created:
  assumes "key_crates_ok K" "identity_load_or_create P K draw path fs = (Inr ident, fs')"
  shows "identity_held K path fs' ident"
proof (cases "fs path")
  case None
  then have "identity_save K path (generate draw) fs = (Inr (), fs')" "ident = generate draw"
    using assms(2) by (auto simp: identity_load_or_create_def bindE_eq_Inr Let_def ret_def reads_def)
  then show ?thesis using saved_identity(2) [OF assms(1)] by blast
next
  case (Some bs)
  then obtain t f seed sealing w where f: "read_to_string path fs = Inr t" "toml_dec K t = Some f"
      "decode_key K (ed25519_seed_b64 f) = Inr seed" "sealing_of P K seed (x25519_secret_b64 f) = Inr (sealing, w)"
      "ident = \<lparr>id_signing = seed, id_sealing = sealing\<rparr>" "(if w then identity_save K path ident else ret ()) fs = (Inr (), fs')"
    using assms(2) by (auto simp: identity_load_or_create_def bindE_eq_Inr Let_def split: option.splits)
  show ?thesis
  proof (cases w)
    case True
    then show ?thesis using f(6) saved_identity(2) [OF assms(1)] by simp
  next
    case False
    then obtain e where "x25519_secret_b64 f = Some e" "decode_key K e = Inr sealing" "fs' = fs"
      using f(4,6) by (auto simp: sealing_of_def ret_def rbind_def split: option.splits sum.splits)
    then show ?thesis using f by (auto simp: identity_held_def)
  qed
qed

lemma key_load_held: "key_held J path fs k \<Longrightarrow> cipher_load_or_create J fresh path fs = (Inr k, fs)"
  by (auto simp: key_held_def cipher_load_or_create_def bindE_def reads_def ret_def dest: read_to_string_found)

lemma key_load_created:
  assumes "hex_ok J" "cipher_load_or_create J fresh path fs = (Inr k, fs')"
  shows "key_held J path fs' k"
proof (cases "fs path")
  case None
  then have k: "k = fresh" "fs' = fs(path \<mapsto> str_bytes (hex32 J fresh))"
    using assms(2) by (auto simp: cipher_load_or_create_def bindE_def reads_def ret_def write_string_def upd_def hex32_def)
  have g: "\<forall>ch \<in> set (hex32 J fresh). hex_value ch \<noteq> None" using assms(1) by (simp add: hex_ok_def hex32_def)
  then have "trim (hex32 J fresh) = hex32 J fresh" using hex_value_graphic by (intro trim_graphic) (auto simp: list_all_iff)
  moreover have "utf8_ok (str_bytes (hex32 J fresh))" using hex_label [of "hex32 J fresh"] g by (simp add: label_ok_def)
  ultimately show ?thesis
    using k assms(1) by (simp add: key_held_def read_to_string_def hex32_def hex_ok_def hash_be_roundtrip)
next
  case (Some bs)
  then show ?thesis using assms(2)
    by (auto simp: key_held_def cipher_load_or_create_def bindE_def reads_def ret_def raise_def split: option.splits sum.splits if_splits prod.splits)
qed

interpretation idf: persistent "key_crates_ok K" "\<lambda>draw. identity_load_or_create P K draw path" "identity_held K path" for P K path
  by unfold_locales (auto intro: identity_load_created identity_load_held)

interpretation rkf: persistent "hex_ok J" "\<lambda>fresh. cipher_load_or_create J fresh path" "key_held J path" for J path
  by unfold_locales (auto intro: key_load_created key_load_held)

text \<open>An identity written before sealing keys existed keeps its signing key and gets the sealing key its seed determines.\<close>

lemma old_identity_upgraded:
  assumes "key_crates_ok K" "fs path = Some (str_bytes (toml_enc K \<lparr>ed25519_seed_b64 = b64_enc K (to_be_bytes 32 seed), x25519_secret_b64 = None\<rparr>))"
  shows "\<exists>fs'. identity_load_or_create P K draw path fs = (Inr (from_seed P seed), fs') \<and> identity_held K path fs' (from_seed P seed)"
proof -
  obtain fs' where s: "identity_save K path (from_seed P seed) fs = (Inr (), fs')"
    using saved_identity(1) [OF assms(1)] by (metis surj_pair)
  have "identity_load_or_create P K draw path fs = (Inr (from_seed P seed), fs')"
    using assms(2) s decode_b64 [OF assms(1), of seed] toml_written [OF assms(1), of None]
    by (simp add: identity_load_or_create_def bindE_def reads_def ret_def read_to_string_def label_ok_def sealing_of_def
        from_seed_def Let_def)
  then show ?thesis using saved_identity(2) [OF assms(1) s] by blast
qed

text \<open>A key file format for the example: hexadecimal, and the two texts separated by a blank.\<close>

definition sample_key_crates :: key_crates where
  "sample_key_crates = \<lparr>b64_enc = enhex, b64_dec = unhex,
     toml_enc = (\<lambda>f. lower_hex (to_nat (map of_char (ed25519_seed_b64 f) :: nat list, map_option (map of_char) (x25519_secret_b64 f) :: nat list option))),
     toml_dec = (\<lambda>t. case hex_loop 0 t of None \<Rightarrow> None
       | Some n \<Rightarrow> Some (case from_nat n of (a :: nat list, b) \<Rightarrow>
           \<lparr>ed25519_seed_b64 = map char_of a, x25519_secret_b64 = map_option (map char_of) (b :: nat list option)\<rparr>))\<rparr>"

lemma hex_value_ascii: "hex_value ch \<noteq> None \<Longrightarrow> of_char ch \<le> (127 :: nat)"
  by (auto simp: hex_value_def Let_def split: if_splits)

lemma sample_key_crates_ok: "key_crates_ok sample_key_crates"
  using hex_value_graphic hex_value_ascii
  by (auto simp: key_crates_ok_def sample_key_crates_def unhex_enhex hex_loop_lower comp_def option.map_comp option.map_ident
      dest!: enhex_chars intro!: hex_label lower_hex_chars)

end
