(* ===== verification/Browser.thy ===== *)
theory Browser
  imports Key_Files Ops
begin

text \<open>
  The browser build: \<open>src/crates/wasm/src/replica.rs\<close>, \<open>api.rs\<close> and \<open>rng.rs\<close>. A replica is a core over an in-memory store with its
  identity; the page holds a list of them and sends one request after the other. The JSON text of requests and replies is a pair
  of functions, a reply is the value that is rendered; \<open>base64\<close> and \<open>hex\<close> are those of \<open>key_crates\<close> and \<open>crates\<close>. The exported
  functions of \<open>lib.rs\<close> only move buffers between the page and these functions.
\<close>

section \<open>A replica\<close>

record replica_node =
  rp_name :: string
  rp_core :: core
  rp_identity :: identity
  rp_online :: bool

definition replica_new :: "prims \<Rightarrow> string \<Rightarrow> device_id \<Rightarrow> key32 \<Rightarrow> replica_node result" where
  "replica_new P name device seed =
     (case bootstrap_if_needed P ((core_new mem_new device)\<lparr>chunk_size := 64\<rparr>) of
        (Inl e, _) \<Rightarrow> Inl e
      | (Inr _, c) \<Rightarrow> Inr \<lparr>rp_name = name, rp_core = c, rp_identity = from_seed P seed, rp_online = True\<rparr>)"

definition rp_mkdir :: "prims \<Rightarrow> identity \<Rightarrow> string \<Rightarrow> u64 \<Rightarrow> (core, unit) comp" where
  "rp_mkdir P ident path now =
     bindE (reads (\<lambda>c. resolve_parent P c path)) (\<lambda>found.
     case found of
       None \<Rightarrow> raise (Bail ''parent directory does not exist'')
     | Some (parent, name) \<Rightarrow>
         bindE (reads (\<lambda>c. lookup P c parent name)) (\<lambda>entry.
         if entry \<noteq> None then raise (Bail ''already exists'')
         else bindE (mkdir_p P ident path now) (\<lambda>_. ret ())))"

definition rp_put :: "prims \<Rightarrow> identity \<Rightarrow> string \<Rightarrow> bytes \<Rightarrow> u64 \<Rightarrow> (core, unit) comp" where
  "rp_put P ident path content now = bindE (write_file P ident path content now) (\<lambda>_. ret ())"

definition rp_rm :: "prims \<Rightarrow> identity \<Rightarrow> string \<Rightarrow> u64 \<Rightarrow> (core, unit) comp" where
  "rp_rm P ident path now = remove_path P ident path now"

definition rp_mv :: "prims \<Rightarrow> identity \<Rightarrow> string \<Rightarrow> string \<Rightarrow> u64 \<Rightarrow> (core, unit) comp" where
  "rp_mv P ident from_path to_path now = rename_path P ident from_path to_path now"

definition rp_export :: "prims \<Rightarrow> core \<Rightarrow> (fs_op list \<times> (hash \<times> bytes) list) result" where
  "rp_export P c = rbind (all_ops P c) (\<lambda>ops. Inr (ops, all_blobs (stores c)))"

fun import_blobs :: "prims \<Rightarrow> (hash \<times> bytes) list \<Rightarrow> (core, unit) comp" where
  "import_blobs P [] = ret ()"
| "import_blobs P ((h, bs) # blobs) =
     (if blake3 P bs \<noteq> h then raise (Bail ''blob hash mismatch on import'')
      else bindE (upd (put_blob h bs)) (\<lambda>_. import_blobs P blobs))"

fun import_ops :: "prims \<Rightarrow> fs_op list \<Rightarrow> (core, unit) comp" where
  "import_ops P [] = ret ()"
| "import_ops P (op # ops) = bindE (apply_op P op) (\<lambda>_. import_ops P ops)"

definition rp_import :: "prims \<Rightarrow> fs_op list \<Rightarrow> (hash \<times> bytes) list \<Rightarrow> (core, nat) comp" where
  "rp_import P ops blobs =
     bindE (import_blobs P blobs) (\<lambda>_.
     bindE (reads (\<lambda>c. Inr (applied_count c))) (\<lambda>before.
     bindE (import_ops P ops) (\<lambda>_.
     bindE (retry_pending P) (\<lambda>_.
     bindE (reads (\<lambda>c. Inr (applied_count c))) (\<lambda>after. ret (after - before))))))"

section \<open>\<open>String::from_utf8_lossy\<close>\<close>

text \<open>
  One step of the decoder: whether a character starts here, and how many bytes after the first belong to it, or to the longest
  beginning of one, which is replaced as a whole.
\<close>

definition second_ok :: "byte \<Rightarrow> byte \<Rightarrow> bool" where
  "second_ok a b \<longleftrightarrow> cont b \<and> (a = 0xE0 \<longrightarrow> 0xA0 \<le> b) \<and> (a = 0xED \<longrightarrow> b \<le> 0x9F) \<and> (a = 0xF0 \<longrightarrow> 0x90 \<le> b) \<and> (a = 0xF4 \<longrightarrow> b \<le> 0x8F)"

definition utf8_step :: "byte \<Rightarrow> bytes \<Rightarrow> bool \<times> nat" where
  "utf8_step a bs =
     (let tails = length (takeWhile cont (take 3 bs)) in
      if a \<le> 0x7F then (True, 0)
      else if 0xC2 \<le> a \<and> a \<le> 0xDF then (if tails \<ge> 1 then (True, 1) else (False, 0))
      else if 0xE0 \<le> a \<and> a \<le> 0xEF then
        (if tails = 0 \<or> \<not> second_ok a (hd bs) then (False, 0) else if tails \<ge> 2 then (True, 2) else (False, 1))
      else if 0xF0 \<le> a \<and> a \<le> 0xF4 then
        (if tails = 0 \<or> \<not> second_ok a (hd bs) then (False, 0) else if tails = 3 then (True, 3) else (False, tails))
      else (False, 0))"

function utf8_lossy :: "bytes \<Rightarrow> bytes" where
  "utf8_lossy [] = []"
| "utf8_lossy (a # bs) =
     (case utf8_step a bs of (valid, n) \<Rightarrow>
        (if valid then a # take n bs else [0xEF, 0xBF, 0xBD]) @ utf8_lossy (drop n bs))"
  by pat_completeness auto
termination by (relation "measure length") auto

section \<open>The page\<close>

record sync_payload =
  sp_ops :: "string list"
  sp_blobs :: "(string \<times> string) list"

text \<open>\<open>payload\<close> is what \<open>serde_json::from_value\<close> makes of the field.\<close>

record request =
  rq_op :: string
  rq_replica :: nat
  rq_now :: u64
  rq_path :: string
  rq_content :: string
  rq_from :: string
  rq_to :: string
  rq_names :: "string list"
  rq_payload :: "sync_payload option"

definition request_default :: request where
  "request_default = \<lparr>rq_op = [], rq_replica = 0, rq_now = 0, rq_path = [], rq_content = [], rq_from = [], rq_to = [], rq_names = [],
     rq_payload = None\<rparr>"

record tree_row =
  tw_path :: string
  tw_name :: string
  tw_kind :: string
  tw_depth :: nat
  tw_size :: u64

record state_view =
  sv_name :: string
  sv_device_id :: string
  sv_state_root :: string
  sv_head :: "string option"
  sv_ops :: nat
  sv_applied :: nat
  sv_pending :: nat
  sv_blob_count :: nat
  sv_blob_bytes :: u64

datatype reply =
    NullReply
  | TextReply string
  | TreeReply "tree_row list"
  | StateReply state_view
  | PayloadReply sync_payload
  | AppliedReply nat
  | ResetReply "(nat \<times> string) list"

definition with_replica :: "nat \<Rightarrow> (replica_node \<Rightarrow> (core, 'a) comp) \<Rightarrow> (replica_node list, 'a) comp" where
  "with_replica i f rs =
     (if i < length rs
      then (case f (rs ! i) (rp_core (rs ! i)) of (r, c') \<Rightarrow> (r, rs[i := (rs ! i)\<lparr>rp_core := c'\<rparr>]))
      else (Inl (Bail ''no replica''), rs))"

text \<open>The key seed of a replica has its number, as a byte that wraps, in front of zeros.\<close>

definition replica_seed :: "nat \<Rightarrow> key32" where
  "replica_seed i = from_be_bytes ((word_of_nat i + 1) # replicate 31 0)"

definition reset_replicas :: "prims \<Rightarrow> string list \<Rightarrow> (replica_node list, reply) comp" where
  "reset_replicas P names =
     (let names = (if names = [] then [''A'', ''B''] else names) in
      bindE (reads (\<lambda>_. rmap (\<lambda>(i, name). replica_new P name (word_of_nat i + 1) (replica_seed i)) (enumerate 0 names))) (\<lambda>replicas.
      bindE (upd (\<lambda>_. replicas)) (\<lambda>_.
      ret (ResetReply (map (\<lambda>(i, r). (i, rp_name r)) (enumerate 0 replicas))))))"

definition api_state :: "prims \<Rightarrow> crates \<Rightarrow> string \<Rightarrow> core \<Rightarrow> reply result" where
  "api_state P J name c =
     rbind (compute_state_root P c) (\<lambda>root.
     Inr (StateReply \<lparr>sv_name = name, sv_device_id = lower_hex (unat (core_device c)), sv_state_root = hex32 J root,
       sv_head = map_option (hex32 J) (get_head c), sv_ops = op_count c, sv_applied = applied_count c, sv_pending = pending_count c,
       sv_blob_count = fst (blob_stats_of c), sv_blob_bytes = snd (blob_stats_of c)\<rparr>))"

definition child_path :: "string \<Rightarrow> string \<Rightarrow> string" where
  "child_path path name = (if path = ''/'' then ''/'' @ name else path @ ''/'' @ name)"

text \<open>The bound on the depth is the recursion: \<open>room\<close> counts the levels still allowed, 33 from the root.\<close>

primrec api_walk :: "prims \<Rightarrow> core \<Rightarrow> nat \<Rightarrow> string \<Rightarrow> nat \<Rightarrow> tree_row list result" where
  "api_walk P c 0 path depth = Inr []"
| "api_walk P c (Suc room) path depth =
     rbind (read_dir_path P c path) (\<lambda>es.
     rbind (rmap (\<lambda>e.
        let child = child_path path (de_name e) in
        case de_entry_type e of
          Dir \<Rightarrow>
            rbind (api_walk P c room child (Suc depth)) (\<lambda>below.
            Inr (\<lparr>tw_path = child, tw_name = de_name e, tw_kind = ''dir'', tw_depth = depth, tw_size = 0\<rparr> # below))
        | File \<Rightarrow>
            rbind (load_inode P c (de_inode_id e)) (\<lambda>r.
            Inr [\<lparr>tw_path = child, tw_name = de_name e, tw_kind = ''file'', tw_depth = depth,
                  tw_size = (case r of None \<Rightarrow> 0 | Some rec \<Rightarrow> ct_size (lww_value (ir_content rec)))\<rparr>])) es) (\<lambda>rows.
     Inr (concat rows)))"

definition api_tree :: "prims \<Rightarrow> string \<Rightarrow> core \<Rightarrow> reply result" where
  "api_tree P path c = rbind (api_walk P c 33 path 0) (\<lambda>rows. Inr (TreeReply rows))"

definition api_export :: "prims \<Rightarrow> crates \<Rightarrow> key_crates \<Rightarrow> core \<Rightarrow> sync_payload result" where
  "api_export P J K c =
     rbind (rp_export P c) (\<lambda>(ops, blobs).
     Inr \<lparr>sp_ops = map (\<lambda>op. b64_enc K (enc_op P op)) ops, sp_blobs = map (\<lambda>(h, v). (hex32 J h, b64_enc K v)) blobs\<rparr>)"

definition payload_op :: "prims \<Rightarrow> key_crates \<Rightarrow> string \<Rightarrow> fs_op result" where
  "payload_op P K encoded =
     (case b64_dec K encoded of
        None \<Rightarrow> Inl (Bail ''decode op'')
      | Some bs \<Rightarrow> (case dec_op P bs of None \<Rightarrow> Inl (Bail ''decode op'') | Some op \<Rightarrow> Inr op))"

definition payload_blob :: "crates \<Rightarrow> key_crates \<Rightarrow> string \<times> string \<Rightarrow> (hash \<times> bytes) result" where
  "payload_blob J K row =
     (case hex_dec J (fst row) of
        None \<Rightarrow> Inl (Bail ''decode blob hash'')
      | Some raw \<Rightarrow>
          if length raw \<noteq> 32 then Inl (Bail ''blob hash is not 32 bytes'')
          else (case b64_dec K (snd row) of None \<Rightarrow> Inl (Bail ''decode blob'') | Some bs \<Rightarrow> Inr (from_be_bytes raw, bs)))"

definition api_import :: "prims \<Rightarrow> crates \<Rightarrow> key_crates \<Rightarrow> nat \<Rightarrow> sync_payload option \<Rightarrow> (replica_node list, reply) comp" where
  "api_import P J K index sent =
     (case sent of
        None \<Rightarrow> raise (Bail ''parse sync payload'')
      | Some p \<Rightarrow>
          bindE (reads (\<lambda>_. rmap (payload_op P K) (sp_ops p))) (\<lambda>ops.
          bindE (reads (\<lambda>_. rmap (payload_blob J K) (sp_blobs p))) (\<lambda>blobs.
          bindE (with_replica index (\<lambda>_. rp_import P ops blobs)) (\<lambda>applied. ret (AppliedReply applied)))))"

definition run_request :: "prims \<Rightarrow> crates \<Rightarrow> key_crates \<Rightarrow> request \<Rightarrow> (replica_node list, reply) comp" where
  "run_request P J K req =
     (let change = (\<lambda>f. bindE (with_replica (rq_replica req) (\<lambda>r. f (rp_identity r))) (\<lambda>_ :: unit. ret NullReply));
          look = (\<lambda>f. with_replica (rq_replica req) (\<lambda>r. reads (f (rp_name r))));
          op = rq_op req
      in if op = ''reset'' then reset_replicas P (rq_names req)
         else if op = ''mkdir'' then change (\<lambda>ident. rp_mkdir P ident (rq_path req) (rq_now req))
         else if op = ''put'' then change (\<lambda>ident. rp_put P ident (rq_path req) (str_bytes (rq_content req)) (rq_now req))
         else if op = ''rm'' then change (\<lambda>ident. rp_rm P ident (rq_path req) (rq_now req))
         else if op = ''mv'' then change (\<lambda>ident. rp_mv P ident (rq_from req) (rq_to req) (rq_now req))
         else if op = ''cat'' then
           look (\<lambda>_ c. rbind (read_file_path P c (rq_path req)) (\<lambda>bs. Inr (TextReply (text_of (utf8_lossy bs)))))
         else if op = ''tree'' then look (\<lambda>_. api_tree P ''/'')
         else if op = ''state'' then look (api_state P J)
         else if op = ''export'' then look (\<lambda>_ c. rbind (api_export P J K c) (\<lambda>p. Inr (PayloadReply p)))
         else if op = ''import'' then api_import P J K (rq_replica req) (rq_payload req)
         else raise (Bail ''unknown command''))"

record page_json =
  pj_request :: "bytes \<Rightarrow> request option"
  pj_response :: "reply result \<Rightarrow> bytes option"

definition dispatch :: "prims \<Rightarrow> crates \<Rightarrow> key_crates \<Rightarrow> page_json \<Rightarrow> bytes \<Rightarrow> replica_node list \<Rightarrow> bytes \<times> replica_node list" where
  "dispatch P J K X bs rs =
     (case (case pj_request X bs of None \<Rightarrow> raise (Bail ''parse request'') | Some req \<Rightarrow> run_request P J K req) rs of
        (r, rs') \<Rightarrow>
          (case pj_response X r of
             Some out \<Rightarrow> out
           | None \<Rightarrow> str_bytes (''{'' @ [CHR 0x22] @ ''ok'' @ [CHR 0x22] @ '':false,'' @ [CHR 0x22] @ ''error'' @ [CHR 0x22] @ '':'' @
               [CHR 0x22] @ ''encode'' @ [CHR 0x22] @ ''}''), rs'))"

section \<open>Entropy\<close>

text \<open>The keyed extendable output of BLAKE3 is an argument. The counter wraps.\<close>

record rng_state =
  rg_seed :: key32
  rg_seeded :: bool
  rg_counter :: u64

definition rng_initial :: rng_state where
  "rng_initial = \<lparr>rg_seed = 0, rg_seeded = False, rg_counter = 0\<rparr>"

definition rng_seed :: "key32 \<Rightarrow> rng_state \<Rightarrow> rng_state" where
  "rng_seed k g = g\<lparr>rg_seed := k, rg_seeded := True\<rparr>"

definition rng_fill :: "(key32 \<Rightarrow> bytes \<Rightarrow> nat \<Rightarrow> bytes) \<Rightarrow> nat \<Rightarrow> rng_state \<Rightarrow> bytes \<times> rng_state" where
  "rng_fill xof len g =
     (xof (rg_seed g) (rev (to_be_bytes 8 (rg_counter g))) len, g\<lparr>rg_counter := rg_counter g + 1\<rparr>)"

definition getrandom_shim :: "(key32 \<Rightarrow> bytes \<Rightarrow> nat \<Rightarrow> bytes) \<Rightarrow> nat \<Rightarrow> rng_state \<Rightarrow> bytes option \<times> rng_state" where
  "getrandom_shim xof len g =
     (if \<not> rg_seeded g then (None, g) else (case rng_fill xof len g of (out, g') \<Rightarrow> (Some out, g')))"

end
