(* ===== verification/Log_Laws.thy ===== *)
theory Log_Laws
  imports Catch_Up Convergence
begin

text \<open>
  The log as bookkeeping of the replicated state: an operation the core accepted is applied or parked from then on, and the log,
  the applied markers and the queue of every reachable replica are well-formed.
\<close>

section \<open>No accepted operation is lost\<close>

text \<open>An operation is accounted for when it is applied or waits in the queue. Nothing the core does afterwards loses it.\<close>

definition accounted :: "core \<Rightarrow> op_id \<Rightarrow> bool" where
  "accounted c i \<longleftrightarrow> is_op_applied c i \<or> parked c (pending_key i) \<noteq> None"

definition keeps_account :: "core \<Rightarrow> core \<Rightarrow> bool" where
  "keeps_account c c' \<longleftrightarrow> (\<forall>i. accounted c i \<longrightarrow> accounted c' i)"

lemma keeps_account_rows [simp]:
  "cf \<noteq> CF_OPLOG \<Longrightarrow> keeps_account c (kv_put cf k v c)" "cf \<noteq> CF_OPLOG \<Longrightarrow> keeps_account c (kv_del cf k c)"
  "keeps_account c (kv_put CF_OPLOG k v c)" "keeps_account c (put_blob h b c)" "keeps_account c (c\<lparr>draws := n\<rparr>)" "keeps_account c c"
  by (auto simp: keeps_account_def accounted_def is_op_applied_def parked_def)

lemma keeps_account_trans: "keeps_account a b \<Longrightarrow> keeps_account b c \<Longrightarrow> keeps_account a c"
  by (simp add: keeps_account_def)

lemma keeps_account_clear:
  assumes "is_op_applied c i" shows "keeps_account c (clear_pending i c)"
proof -
  have "accounted (clear_pending i c) j" if "accounted c j" for j
  proof (cases "j = i")
    case True
    then show ?thesis using assms by (simp add: accounted_def is_op_applied_def clear_pending_def)
  next
    case False
    then have "pending_key j \<noteq> pending_key i" by simp
    then show ?thesis using that by (auto simp: accounted_def is_op_applied_def clear_pending_def parked_def)
  qed
  then show ?thesis by (simp add: keeps_account_def)
qed

interpretation ac: op_rel P keeps_account for P
proof unfold_locales
  show "keeps_account c (clear_pending i (mark_op_applied i c))" for c i
    using keeps_account_clear [of "mark_op_applied i c" i] keeps_account_trans [OF keeps_account_rows(3)]
    by (simp add: mark_op_applied_def is_op_applied_def)
qed (auto simp: store_dir_def store_inode_def set_parent_def put_imap_def del_imap_def observe_time_def store_pending_def
    set_head_def set_state_root_def append_op_def keeps_account_clear intro: keeps_account_trans)

lemma apply_accounts:
  assumes "apply_op P op c = (Inr out, c')"
  shows "accounted c' (op_id op)" "verify_op P op = Inr ()" "check_proof P op (core_proofs c) = Inr ()"
proof -
  show v: "verify_op P op = Inr ()" "check_proof P op (core_proofs c) = Inr ()"
    using assms by (auto simp: apply_op_def apply_op_inner_cases split: sum.splits)
  show "accounted c' (op_id op)"
  proof (cases "is_op_applied c (op_id op)")
    case True
    then show ?thesis using assms v by (auto simp: apply_op_def apply_op_inner_cases accounted_def)
  next
    case False
    then have t: "apply_tail P op (append_op P op c) = (Inr out, c')" using assms v by (simp add: apply_op_def apply_op_inner_cases)
    then consider (finished) c1 u c2 where "finish_applied P op c1 = (Inr u, c2)" "settle P Applied c2 = (Inr out, c')"
      | (waits) reason x where "settle P (Pending reason) (store_pending P op x) = (Inr out, c')"
      by (auto simp: apply_tail_eq split: prod.splits sum.splits mutation.splits)
    then obtain o1 c2 where acc: "accounted c2 (op_id op)" and s: "settle P o1 c2 = (Inr out, c')"
    proof cases
      case (finished c1 u c2)
      have "accounted c2 (op_id op)" using finish_marks [OF finished(1)] by (simp add: accounted_def)
      then show ?thesis using finished(2) by (rule that)
    next
      case (waits reason x)
      have "accounted (store_pending P op x) (op_id op)" by (simp add: accounted_def store_pending_def parked_def)
      then show ?thesis using waits by (rule that)
    qed
    have "keeps keeps_account (settle P o1)" unfolding settle_def by (auto intro!: ac.seq ac.drain ac.snapshot)
    from keepsD [OF this s] acc show ?thesis by (simp add: keeps_account_def)
  qed
qed

section \<open>The log of a reachable replica\<close>

definition log_inv :: "prims \<Rightarrow> fs_op set \<Rightarrow> core \<Rightarrow> bool" where
  "log_inv P U c \<longleftrightarrow> oplog_ok P c \<and> logged_ok P c \<and>
     (\<forall>k v op. kv_get c CF_OPLOG k = Some v \<longrightarrow> starts_with k OP_PREFIX \<longrightarrow> dec_op P v = Some op \<longrightarrow> op \<in> U)"

lemma log_inv_cong:
  assumes "\<And>k. kv_get c' CF_OPLOG k = kv_get c CF_OPLOG k"
  shows "log_inv P U c' = log_inv P U c"
  using logged_cong [of c' c P "{}"] assms by (simp add: log_inv_def oplog_ok_def logged_with_def)

lemma log_inv_grows: "log_grows c c' \<Longrightarrow> logged_ok P c' \<Longrightarrow> log_inv P U c \<Longrightarrow> log_inv P U c'"
  unfolding log_inv_def log_grows_def oplog_ok_def by metis

lemma log_inv_append: "codec_ok P \<Longrightarrow> op \<in> U \<Longrightarrow> log_inv P U c \<Longrightarrow> log_inv P U (append_op P op c)"
  using oplog_ok_append [of P c op] logged_append [of P "{}" c op]
  by (auto simp: log_inv_def logged_with_def) (auto simp: append_op_def split: if_splits)

lemma log_inv_apply:
  assumes "codec_ok P" "op \<in> U" "log_inv P U c" "apply_op_inner P op pol c = (r, c')"
  shows "log_inv P U c'"
proof -
  let ?a = "append_op P op c"
  consider "c' = c" | "apply_tail P op ?a = (r, c')"
    using assms(4) by (auto simp: apply_op_inner_cases split: sum.splits if_splits)
  then show ?thesis
  proof cases
    case 2
    have "stays (logged_with P {op_id op}) (apply_tail P op)" by (rule stays_tail) (simp_all add: assms(1))
    moreover have "logged_with P {op_id op} ?a" using logged_append [of P "{}" c op] assms(3) by (simp add: logged_with_def log_inv_def)
    ultimately have "logged_ok P c'" using staysD 2 by (metis logged_with_def)
    then show ?thesis using log_inv_grows [OF keepsD [OF keeps_tail 2]] log_inv_append [OF assms(1-3)] by blast
  qed (simp add: assms(3))
qed

lemma bootstrap_oplog: "bootstrap_if_needed P c = (r, c') \<Longrightarrow> kv_get c' CF_OPLOG k = kv_get c CF_OPLOG k"
proof -
  assume b: "bootstrap_if_needed P c = (r, c')"
  let ?R = "\<lambda>a b. \<forall>k. kv_get b CF_OPLOG k = kv_get a CF_OPLOG k"
  have po: "reflp ?R" "transp ?R" by (auto simp: reflp_def transp_def)
  have "keeps ?R (rebuild_inode_map P)" by (rule keeps_mono [OF keeps_rebuild]) (simp add: state_only_def)
  moreover have "keeps ?R (build_snapshot P)" by (rule keepsI) (simp add: snapshot_oplog)
  ultimately have "keeps ?R (bootstrap_if_needed P)"
    unfolding bootstrap_if_needed_def
    by (auto intro!: keeps_bindE [OF po(2)] keeps_basic [OF po(1)] keeps_upd
        simp: store_inode_def store_dir_def stamp_current_format_def set_format_version_def)
  from keepsD [OF this b] show ?thesis by blast
qed

lemma reached_log:
  assumes "codec_ok P" "reached P U c"
  shows "log_inv P U c"
  using assms(2)
proof (induction rule: reached.induct)
  case (reached_bootstrap c r c')
  have "kv_get c cf k = None" for cf k using reached_bootstrap(1) by (simp add: mem_new_def get_kv_def)
  then have "log_inv P U c" by (simp add: log_inv_def oplog_ok_def logged_ok_def is_op_applied_def parked_def)
  then show ?case using log_inv_cong [of c' c P U] bootstrap_oplog [OF reached_bootstrap(2)] by blast
next
  case (reached_apply c op r c')
  then show ?case using log_inv_apply [OF assms(1)] unfolding apply_op_def by blast
next
  case (reached_unproven c op r c')
  then show ?case using log_inv_apply [OF assms(1)] unfolding apply_op_unproven_def by blast
next
  case (reached_retry c r c')
  then have "logged_ok P c'" using staysD [OF stays_retry [of P "{}"], of c r c'] by (simp add: logged_with_def log_inv_def)
  moreover have "keeps log_grows (retry_pending P)"
    unfolding retry_pending_def by (auto intro!: keeps_log_intros keeps_drain keeps_snapshot)
  ultimately show ?case using log_inv_grows keepsD reached_retry by metis
next
  case (reached_content c h b)
  then show ?case using log_inv_cong [of "put_blob h b c" c P U] by simp
qed



end
