(* ===== verification/Browser_Laws.thy ===== *)
theory Browser_Laws
  imports Browser Log_Laws
begin

text \<open>
  What an exchange between two browser replicas achieves: both hold the union of their logs and of their content, and, once nothing
  is parked, the same namespace. The same holds when the exchange goes through the text of the page.
\<close>

section \<open>One import\<close>

lemma import_blobs_result:
  assumes "import_blobs P blobs c = (Inr u, c')"
  shows "filed P c c'" and "\<forall>(h, bs) \<in> set blobs. blob_has (stores c') h" and "reached P U c \<Longrightarrow> reached P U c'"
    and "kv_get c' = kv_get c"
proof -
  have "filed P c c' \<and> (\<forall>(h, bs) \<in> set blobs. blob_has (stores c') h) \<and> (reached P U c \<longrightarrow> reached P U c') \<and> kv_get c' = kv_get c"
    using assms
  proof (induction blobs arbitrary: c)
    case (Cons row blobs)
    obtain h bs where row: "row = (h, bs)" by (cases row)
    then have h: "h = blake3 P bs" and t: "import_blobs P blobs (put_blob h bs c) = (Inr u, c')"
      using Cons.prems by (auto simp: raise_def bindE_def upd_def split: if_splits)
    have f: "filed P (put_blob h bs c) c'" using Cons.IH [OF t] by blast
    then have "blob_has (stores c') h" by (simp add: filed_def blob_has_put_blob)
    moreover have "filed P c c'" using fd.trans [OF fd.blob [of P c bs]] f h by blast
    moreover have "kv_get (put_blob h bs c) = kv_get c" by (simp add: fun_eq_iff)
    ultimately show ?case using Cons.IH [OF t] row by (auto intro: reached_content)
  qed (simp add: fd.refl ret_def)
  then show "filed P c c'" "\<forall>(h, bs) \<in> set blobs. blob_has (stores c') h" "reached P U c \<Longrightarrow> reached P U c'" "kv_get c' = kv_get c"
    by blast+
qed

lemma keeps_log_apply: "apply_op P op c = (r, c') \<Longrightarrow> is_op_applied c i \<Longrightarrow> is_op_applied c' i"
proof -
  assume a: "apply_op P op c = (r, c')" and i: "is_op_applied c i"
  have "is_op_applied (append_op P op c) i" using i by (simp add: is_op_applied_def append_op_def)
  then show ?thesis
    using a i keepsD [OF keeps_tail, of P op "append_op P op c" r c']
    by (auto simp: apply_op_def apply_op_inner_cases log_grows_def split: sum.splits if_splits)
qed

lemma import_ops_result:
  assumes "codec_ok P" "log_inv P U c" "set ops \<subseteq> U" "import_ops P ops c = (Inr u, c')"
  shows "(reached P U c \<longrightarrow> reached P U c') \<and> log_inv P U c' \<and> filed P c c' \<and> keeps_account c c' \<and>
    (\<forall>i. held c' i \<longleftrightarrow> held c i \<or> i \<in> op_id ` set ops) \<and> (\<forall>op \<in> set ops. accounted c' (op_id op)) \<and>
    (\<forall>i. is_op_applied c i \<longrightarrow> is_op_applied c' i)"
  using assms(2-)
proof (induction ops arbitrary: c)
  case (Cons op ops)
  then obtain out c1 where a: "apply_op P op c = (Inr out, c1)" and t: "import_ops P ops c1 = (Inr u, c')"
    by (auto simp: bindE_eq_Inr)
  note acc = apply_accounts [OF a]
  have "log_inv P U c1" using log_inv_apply [OF assms(1) _ Cons.prems(1) a [unfolded apply_op_def]] Cons.prems(2) by simp
  note IH = Cons.IH [OF this _ t]
  have U: "set ops \<subseteq> U" "op \<in> U" using Cons.prems(2) by auto
  have "logged_ok P c" using Cons.prems(1) by (simp add: log_inv_def)
  note lg = apply_logged [OF assms(1) this acc(2,3) a]
  have "reached P U c \<longrightarrow> reached P U c'" "filed P c c'" "keeps_account c c'"
    using IH [OF U(1)] reached_apply [OF _ U(2) a] fd.trans [OF keepsD [OF fd.apply_whole a]]
      keeps_account_trans [OF keepsD [OF ac.apply_whole a]] by blast+
  moreover have "held c' i \<longleftrightarrow> held c i \<or> i \<in> op_id ` set (op # ops)" for i using IH [OF U(1)] lg(2) [of i] by auto
  moreover have "accounted c' (op_id op)" using IH [OF U(1)] acc(1) unfolding keeps_account_def by blast
  moreover have "is_op_applied c i \<longrightarrow> is_op_applied c' i" for i using IH [OF U(1)] keeps_log_apply [OF a] by blast
  ultimately show ?case using IH [OF U(1)] by simp
qed (simp add: fd.refl ret_def)

text \<open>
  Importing what a replica exported: every operation of the other log is held and accounted for, and all its content is stored.
\<close>

lemma import_result:
  assumes ok: "codec_ok P" and r: "reached P U c" "reached P U b" and e: "rp_export P b = Inr (ops, blobs)"
    and im: "rp_import P ops blobs c = (Inr n, c')"
  shows "reached P U c'" "held c' i \<longleftrightarrow> held c i \<or> held b i" "held b i \<Longrightarrow> accounted c' i" "is_op_applied c i \<Longrightarrow> is_op_applied c' i"
    "blob_has (stores b) h \<or> blob_has (stores c) h \<Longrightarrow> blob_has (stores c') h" "filed P c c'"
    "n = applied_count c' - applied_count c" "is_op_applied c' i \<Longrightarrow> held c' i"
proof -
  note lb = reached_log [OF ok r(2)]
  have ops: "ops = log_ops P b" "blobs = all_blobs (stores b)"
    using e lb all_ops_eq [of P b] by (auto simp: rp_export_def log_inv_def)
  have ids: "op_id ` set ops = {i. held b i}" using log_ops_held [of P b] lb ops by (simp add: log_inv_def)
  have U: "set ops \<subseteq> U" using lb oplog_row(1) [of P b] by (fastforce simp: ops log_ops_def log_inv_def in_kv_scan)
  obtain c1 c2 x where i1: "import_blobs P blobs c = (Inr (), c1)" and i2: "import_ops P ops c1 = (Inr (), c2)"
    and i3: "retry_pending P c2 = (Inr x, c')" and n: "n = applied_count c' - applied_count c1"
    using im by (auto simp: rp_import_def bindE_eq_Inr reads_def ret_def)
  note b1 = import_blobs_result [OF i1]
  note b2 = import_ops_result [OF ok reached_log [OF ok b1(3) [OF r(1)]] U i2]
  have grow: "log_grows c2 c'"
  proof -
    have "keeps log_grows (retry_pending P)" unfolding retry_pending_def by (auto intro!: keeps_log_intros keeps_drain keeps_snapshot)
    then show ?thesis using i3 by (rule keepsD)
  qed
  have f3: "filed P c2 c'" using keepsD [OF fd.retry i3] .
  have k3: "keeps_account c2 c'" using keepsD [OF ac.retry i3] .
  have h1: "held c1 = held c" "is_op_applied c1 = is_op_applied c" using b1(4) by (simp_all add: fun_eq_iff held_def is_op_applied_def)
  have h3: "held c' j = held c2 j" for j using grow by (simp add: log_grows_def held_def)
  show rc: "reached P U c'" using reached_retry [OF _ i3] b2 b1(3) [OF r(1)] by blast
  then show "is_op_applied c' i \<Longrightarrow> held c' i" using reached_log [OF ok] by (auto simp: log_inv_def logged_ok_def)
  show "held c' i \<longleftrightarrow> held c i \<or> held b i" using b2 h1 h3 ids by auto
  show "accounted c' i" if "held b i"
  proof -
    obtain op where "op \<in> set ops" "i = op_id op" using \<open>held b i\<close> ids by blast
    then show ?thesis using b2 k3 unfolding keeps_account_def by blast
  qed
  show "is_op_applied c i \<Longrightarrow> is_op_applied c' i" using b2 h1 grow by (auto simp: log_grows_def)
  show f: "filed P c c'" using fd.trans [OF fd.trans [OF b1(1)] f3] b2 by blast
  have "blob_has (stores c') h" if hb: "blob_has (stores b) h"
  proof -
    obtain bs where "(h, bs) \<in> set blobs" using hb by (auto simp: ops(2) all_blobs_def blob_has_def blob_get_def fmlookup_dom_iff)
    then have "blob_has (stores c1) h" using b1(2) by blast
    then show ?thesis using b2 f3 by (auto simp: filed_def)
  qed
  then show "blob_has (stores b) h \<or> blob_has (stores c) h \<Longrightarrow> blob_has (stores c') h" using f by (auto simp: filed_def)
  have "applied_count c1 = applied_count c"
  proof -
    show ?thesis using i1
      by (induction blobs arbitrary: c) (auto simp: raise_def bindE_def upd_def ret_def applied_count_def count_prefix_def put_blob_def blob_put_def split: if_splits)
  qed
  then show "n = applied_count c' - applied_count c" using n by simp
qed

section \<open>Through the page\<close>

lemma rmap_undo: "(\<And>x. g (f x) = Inr x) \<Longrightarrow> rmap g (map f xs) = Inr xs"
  by (induction xs) simp_all

lemma payload_read_back:
  assumes "codec_ok P" "key_crates_ok K" "hex_ok J" "api_export P J K c = Inr p"
  obtains ops blobs where "rp_export P c = Inr (ops, blobs)" "rmap (payload_op P K) (sp_ops p) = Inr ops"
    "rmap (payload_blob J K) (sp_blobs p) = Inr blobs"
proof -
  obtain ops blobs where e: "rp_export P c = Inr (ops, blobs)"
    and p: "p = \<lparr>sp_ops = map (\<lambda>op. b64_enc K (enc_op P op)) ops, sp_blobs = map (\<lambda>(h, v). (hex32 J h, b64_enc K v)) blobs\<rparr>"
    using assms(4) by (cases "rp_export P c") (auto simp: api_export_def)
  have "payload_op P K (b64_enc K (enc_op P op)) = Inr op" for op
    using assms(1,2) by (simp add: payload_op_def key_crates_ok_def)
  then have "rmap (payload_op P K) (sp_ops p) = Inr ops" by (simp add: p rmap_undo)
  moreover have "payload_blob J K (hex32 J h, b64_enc K v) = Inr (h, v)" for h v
    using assms(2,3) by (simp add: payload_blob_def key_crates_ok_def hex_ok_def hex32_def hash_be_roundtrip)
  then have "rmap (payload_blob J K) (sp_blobs p) = Inr blobs" by (simp add: p rmap_undo case_prod_unfold)
  ultimately show ?thesis using e that by blast
qed

definition export_request :: "nat \<Rightarrow> request" where
  "export_request i = request_default\<lparr>rq_op := ''export'', rq_replica := i\<rparr>"

definition import_request :: "nat \<Rightarrow> sync_payload \<Rightarrow> request" where
  "import_request i p = request_default\<lparr>rq_op := ''import'', rq_replica := i, rq_payload := Some p\<rparr>"

lemma exported:
  assumes "run_request P J K (export_request i) rs = (Inr (PayloadReply p), rs')" "i < length rs"
  shows "api_export P J K (rp_core (rs ! i)) = Inr p" "rs' = rs"
  using assms
  by (cases "api_export P J K (rp_core (rs ! i))",
      auto simp: run_request_def export_request_def request_default_def with_replica_def reads_def Let_def)

lemma imported:
  assumes "run_request P J K (import_request i p) rs = (Inr (AppliedReply n), rs')" "i < length rs"
    and "rmap (payload_op P K) (sp_ops p) = Inr ops" "rmap (payload_blob J K) (sp_blobs p) = Inr blobs"
  obtains c' where "rp_import P ops blobs (rp_core (rs ! i)) = (Inr n, c')" "rs' = rs[i := (rs ! i)\<lparr>rp_core := c'\<rparr>]"
  using assms
  by (auto simp: run_request_def import_request_def request_default_def api_import_def with_replica_def bindE_eq_Inr reads_def ret_def
      split: prod.splits)

definition settled :: "core \<Rightarrow> bool" where
  "settled c \<longleftrightarrow> (\<forall>i. held c i \<longrightarrow> is_op_applied c i)"

lemma no_pending: "pending_count c = 0 \<Longrightarrow> accounted c i \<Longrightarrow> is_op_applied c i"
proof -
  assume "pending_count c = 0" and a: "accounted c i"
  then have "queue c = []" by (simp add: pending_count_def count_prefix_eq)
  then have "parked c (pending_key i) = None" using in_queue [of "pending_key i" _ c] by (cases "parked c (pending_key i)") auto
  then show ?thesis using a by (simp add: accounted_def)
qed

text \<open>After an import with nothing parked, what is applied is exactly the union of the two logs.\<close>

lemma applied_union:
  assumes "codec_ok P" "reached P U c" "reached P U b" "settled c" "rp_export P b = Inr (ops, blobs)"
    "rp_import P ops blobs c = (Inr n, c')" "pending_count c' = 0"
  shows "is_op_applied c' i \<longleftrightarrow> held c i \<or> held b i"
  using import_result(2,3,4,8) [OF assms(1,2,3,5,6), of i] no_pending [OF assms(7), of i] assms(4) by (auto simp: settled_def)


section \<open>Text and entropy\<close>

text \<open>Text that is UTF-8 is shown as it is.\<close>

lemma utf8_step_valid:
  assumes "utf8_ok (a # bs)"
  shows "\<exists>n. utf8_step a bs = (True, n) \<and> n \<le> length bs \<and> utf8_ok (drop n bs)"
proof (cases "a \<le> 0x7F")
  case True
  then show ?thesis using assms by (simp add: utf8_step_def Let_def)
next
  case n1: False
  show ?thesis
  proof (cases "0xC2 \<le> a \<and> a \<le> 0xDF")
    case True
    then obtain b r where "bs = b # r" "cont b" "utf8_ok r" using assms n1 by (cases bs) simp_all
    then show ?thesis using n1 True by (simp add: utf8_step_def Let_def)
  next
    case n2: False
    show ?thesis
    proof (cases "0xE0 \<le> a \<and> a \<le> 0xEF")
      case True
      then obtain b c r where bs: "bs = b # c # r" and w: "cont b" "a = 0xE0 \<longrightarrow> 0xA0 \<le> b" "a = 0xED \<longrightarrow> b \<le> 0x9F" "cont c" "utf8_ok r"
        using assms n1 n2 by (cases bs; cases "tl bs") simp_all
      have "a \<noteq> 0xF0" "a \<noteq> 0xF4" using True by auto
      then have "second_ok a b" using w by (simp add: second_ok_def)
      then have "utf8_step a bs = (True, 2)" using n1 n2 True w by (simp add: bs utf8_step_def Let_def)
      then show ?thesis using w by (simp add: bs)
    next
      case n3: False
      then have f: "0xF0 \<le> a" "a \<le> 0xF4" using assms n1 n2 by (simp_all split: if_splits)
      then obtain b c d r where bs: "bs = b # c # d # r" and w: "cont b" "a = 0xF0 \<longrightarrow> 0x90 \<le> b" "a = 0xF4 \<longrightarrow> b \<le> 0x8F" "cont c" "cont d" "utf8_ok r"
        using assms n1 n2 n3 by (cases bs; cases "tl bs"; cases "tl (tl bs)") simp_all
      have "a \<noteq> 0xE0" "a \<noteq> 0xED" using n3 by auto
      then have "second_ok a b" using w by (simp add: second_ok_def)
      then have "utf8_step a bs = (True, 3)" using n1 n2 n3 f w by (simp add: bs utf8_step_def Let_def)
      then show ?thesis using w by (simp add: bs)
    qed
  qed
qed

lemma utf8_lossy_valid: "utf8_ok bs \<Longrightarrow> utf8_lossy bs = bs"
proof (induction bs rule: utf8_lossy.induct)
  case (2 a bs)
  obtain n where "utf8_step a bs = (True, n)" "utf8_ok (drop n bs)" using utf8_step_valid [OF 2(2)] by blast
  then show ?case using 2(1) by simp
qed simp

text \<open>No bytes are handed out before the page has supplied entropy, and afterwards every request is answered under the supplied seed.\<close>

lemma shim_needs_seed: "getrandom_shim xof len rng_initial = (None, rng_initial)"
  by (simp add: getrandom_shim_def rng_initial_def)

lemma shim_seeded:
  "rg_seeded g \<Longrightarrow> getrandom_shim xof len g =
     (Some (xof (rg_seed g) (rev (to_be_bytes 8 (rg_counter g))) len), g\<lparr>rg_counter := rg_counter g + 1\<rparr>)"
  by (simp add: getrandom_shim_def rng_fill_def)

text \<open>The key seeds of a reset are distinct only among the first 256 replicas.\<close>

lemma replica_seeds_repeat: "replica_seed (i + 256) = replica_seed i"
proof -
  have "(word_of_nat (i + 256) :: byte) = word_of_nat i" by (simp add: word_eq_iff_unsigned unat_of_nat)
  then show ?thesis by (simp only: replica_seed_def)
qed

section \<open>A page\<close>

lemma fresh_core:
  obtains c where "bootstrap_if_needed sample ((core_new mem_new d)\<lparr>chunk_size := 64\<rparr>) = (Inr (), c)" "reached sample {sample_mkdir} c"
    "\<And>k. kv_get c CF_OPLOG k = None" "addressed sample c"
proof -
  let ?c = "(core_new mem_new d)\<lparr>chunk_size := 64\<rparr>"
  have e: "kv_get (core_new mem_new d) cf k = None" "blob_get (stores (core_new mem_new d)) h = None" for cf k h
    by (simp_all add: core_new_def mem_new_def get_kv_def blob_get_def)
  have "imap_ok ?c" "get_head ?c = None" by (simp_all add: imap_ok_def get_head_def read_hash_def e)
  from bootstrap_ok [OF sample_ok(1) this] obtain c where b: "bootstrap_if_needed sample ?c = (Inr (), c)" by metis
  have "keeps (filed sample) (bootstrap_if_needed sample)"
    unfolding bootstrap_if_needed_def stamp_current_format_def set_format_version_def
    by (auto simp: fun_eq_iff intro!: fd.seq fd.records fd.rebuild fd.snapshot filed_kv)
  from keepsD [OF this b] have "addressed sample c" using e(2) by (fastforce simp: filed_def addressed_def)
  moreover have "reached sample {sample_mkdir} c" by (rule reached_bootstrap [OF _ b]) (simp add: core_new_def)
  moreover have "kv_get c CF_OPLOG k = None" for k using bootstrap_oplog [OF b, of k] e(1) by simp
  ultimately show ?thesis using that [OF b] by blast
qed

lemma import_blobs_runs:
  "\<forall>(h, bs) \<in> set blobs. blake3 P bs = h \<Longrightarrow> \<exists>c'. import_blobs P blobs c = (Inr (), c')"
  by (induction P blobs arbitrary: c rule: import_blobs.induct) (auto simp: bindE_def upd_def ret_def)

lemma import_fresh:
  assumes "\<And>k. kv_get c CF_OPLOG k = None" "\<And>k. kv_get b CF_OPLOG k = None" "addressed P b"
  obtains c' where "rp_export P b = Inr ([], all_blobs (stores b))" "rp_import P [] (all_blobs (stores b)) c = (Inr 0, c')"
    "pending_count c' = 0"
proof -
  have none: "kv_scan x CF_OPLOG pre = []" if "\<And>k. kv_get x CF_OPLOG k = None" for x pre
    using that in_kv_scan [of _ _ x CF_OPLOG pre] by (metis list.set_intros(1) neq_Nil_conv option.distinct(1) surj_pair)
  have "rp_export P b = Inr ([], all_blobs (stores b))" using none [OF assms(2)] by (simp add: rp_export_def all_ops_def)
  moreover have "\<forall>(h, bs) \<in> set (all_blobs (stores b)). blake3 P bs = h"
    using assms(3) by (auto simp: all_blobs_def addressed_def blob_get_def)
  then obtain c' where i: "import_blobs P (all_blobs (stores b)) c = (Inr (), c')" using import_blobs_runs by blast
  then have "kv_get c' CF_OPLOG k = None" for k using import_blobs_result(4) [OF i] assms(1) by (simp add: fun_eq_iff)
  then have "kv_scan c' CF_OPLOG pre = []" for pre using none by blast
  then have "rp_import P [] (all_blobs (stores b)) c = (Inr 0, c')" "pending_count c' = 0"
    using i by (simp_all add: rp_import_def bindE_def reads_def ret_def retry_pending_def drain_pending_def pending_count_def count_prefix_eq)
  ultimately show ?thesis using that by blast
qed


end
