(* ===== verification/Admin.thy ===== *)
theory Admin
  imports S3_Laws Energy Repository_Audit Gc State_Root Merkle_Tree
begin

text \<open>
  The admin console: the handlers of \<open>src/crates/admin/src/routes.rs\<close> and the views of \<open>lib.rs\<close>. A response is the record the
  handler serializes; an error is its status with the text the console shows, empty where the handler answers a bare
  status. The sources of peer and energy views are arguments of the state, as in the code. Serving the two embedded assets,
  the router and the socket are framework configuration.
\<close>

section \<open>State\<close>

record peer_view =
  pv_address :: string
  pv_device_id :: "string option"
  pv_last_attempt_ms :: u64
  pv_last_success_ms :: "u64 option"
  pv_last_error :: "string option"
  pv_ops_received :: nat
  pv_blobs_received :: nat
  pv_content_bytes :: u64
  pv_content_deferred :: bool
  pv_syncs :: u64

record energy_view =
  ev_enabled :: bool
  ev_power :: string
  ev_battery_pct :: "byte option"
  ev_temp_c :: "int option"
  ev_cpu_load :: "rat option"
  ev_link :: string
  ev_storage_free_bytes :: "u64 option"
  ev_sampled_unix_ms :: u64
  ev_sync :: bool
  ev_content :: bool
  ev_max_content_bytes :: "u64 option"
  ev_interval_scale :: rat
  ev_reason :: string

text \<open>The core is the state a handler runs on. An energy source may take a reading, which is a change of the environment.\<close>

record 'p admin_state =
  ad_token :: string
  ad_peers :: "('p \<Rightarrow> peer_view list) option"
  ad_energy :: "(core \<Rightarrow> 'p \<Rightarrow> energy_view \<times> 'p) option"
  ad_content :: "(hash list \<Rightarrow> ('p, nat) talk) option"
  ad_node_pubkey :: "hash option"
  ad_node_seal_key :: "hash option"

type_synonym admin_error = "nat \<times> string"
type_synonym ('p, 'a) console = "(admin_error, 'p, 'a) http"

section \<open>Handlers\<close>

definition require_token :: "string option \<Rightarrow> string \<Rightarrow> nat + unit" where
  "require_token header expected =
     (if expected = [] then Inr ()
      else if (case header of None \<Rightarrow> False | Some t \<Rightarrow> constant_time_eq (str_bytes t) (str_bytes expected)) then Inr ()
      else Inl 401)"

text \<open>\<open>map_err\<close> at the two kinds of handler: a bare status, or a status with a text.\<close>

definition bare_auth :: "'p admin_state \<Rightarrow> string option \<Rightarrow> admin_error + unit" where
  "bare_auth st header = (case require_token header (ad_token st) of Inl code \<Rightarrow> Inl (code, []) | Inr u \<Rightarrow> Inr u)"

definition text_auth :: "'p admin_state \<Rightarrow> string option \<Rightarrow> admin_error + unit" where
  "text_auth st header =
     (case require_token header (ad_token st) of Inl code \<Rightarrow> Inl (code, ''unauthorized'') | Inr u \<Rightarrow> Inr u)"

definition server_error :: "rendering \<Rightarrow> error \<Rightarrow> admin_error" where
  "server_error T e = (500, error_text T e)"

definition bare_error :: "error \<Rightarrow> admin_error" where
  "bare_error e = (500, [])"

definition reading :: "(error \<Rightarrow> admin_error) \<Rightarrow> (core \<Rightarrow> 'a result) \<Rightarrow> ('p, 'a) console" where
  "reading err f = from_core err (on_core (reads f))"

definition device_text :: "device_id \<Rightarrow> string" where
  "device_text d = lower_hex (unat d)"

record status_resp =
  sx_head :: "string option"
  sx_state_root :: "string option"
  sx_device_id :: string
  sx_ops :: nat
  sx_applied :: nat
  sx_pending :: nat
  sx_now_ms :: u64
  sx_format_version :: "u32 option"

definition status :: "rendering \<Rightarrow> 'p admin_state \<Rightarrow> u64 \<Rightarrow> string option \<Rightarrow> ('p, status_resp) console" where
  "status T st now header =
     andThen (answer (bare_auth st header)) (\<lambda>_.
     reading bare_error (\<lambda>c.
       rbind (format_version c) (\<lambda>v.
       Inr \<lparr>sx_head = map_option (hex_encode T) (get_head c), sx_state_root = map_option (hex_encode T) (get_state_root c),
            sx_device_id = device_text (core_device c), sx_ops = op_count c, sx_applied = applied_count c,
            sx_pending = pending_count c, sx_now_ms = now, sx_format_version = v\<rparr>)))"

record identity_resp =
  ix_device_id :: string
  ix_pubkey :: "string option"
  ix_seal_key :: "string option"
  ix_format_version :: "u32 option"
  ix_expects_format :: u32
  ix_build_version :: string

definition identity_view :: "rendering \<Rightarrow> 'p admin_state \<Rightarrow> string option \<Rightarrow> ('p, identity_resp) console" where
  "identity_view T st header =
     andThen (answer (text_auth st header)) (\<lambda>_.
     reading (server_error T) (\<lambda>c.
       rbind (format_version c) (\<lambda>v.
       Inr \<lparr>ix_device_id = device_text (core_device c), ix_pubkey = map_option (hex_encode T) (ad_node_pubkey st),
            ix_seal_key = map_option (hex_encode T) (ad_node_seal_key st), ix_format_version = v,
            ix_expects_format = CURRENT_FORMAT_VERSION, ix_build_version = bi_version build_info\<rparr>)))"

record enrolled_peer_resp =
  ex_device_id :: string
  ex_pubkey :: string
  ex_seal_key :: "string option"

definition enrolled_peers_view :: "rendering \<Rightarrow> 'p admin_state \<Rightarrow> string option \<Rightarrow> ('p, enrolled_peer_resp list) console" where
  "enrolled_peers_view T st header =
     andThen (answer (text_auth st header)) (\<lambda>_.
     reading (server_error T) (\<lambda>c.
       rbind (enrolled_peers c) (\<lambda>ps.
       Inr (map (\<lambda>p. \<lparr>ex_device_id = device_text (ep_device_id p), ex_pubkey = hex_encode T (ep_pubkey p),
                      ex_seal_key = map_option (hex_encode T) (ep_seal_key p)\<rparr>) ps))))"

definition MAX_INLINE_BYTES :: nat where "MAX_INLINE_BYTES = 256 * 1024"

record cat_resp =
  cx_path :: string
  cx_size :: u64
  cx_kind :: string
  cx_truncated :: bool
  cx_content :: "bytes option"
  cx_preview :: "bytes option"

text \<open>One request for what the path lacks, whose failure is only logged.\<close>

definition prefetch :: "prims \<Rightarrow> rendering \<Rightarrow> 'p admin_state \<Rightarrow> string \<Rightarrow> ('p, unit) console" where
  "prefetch P T st path s =
     (case ad_content st of
        None \<Rightarrow> (Inr (), s)
      | Some fetch \<Rightarrow>
          andThen (reading (server_error T) (\<lambda>c. missing_chunks_for_path P c path)) (\<lambda>wanted s.
          if wanted = [] then (Inr (), s) else (Inr (), snd (fetch wanted s))) s)"

text \<open>\<open>preview_hex\<close> is the hexadecimal of these bytes.\<close>

definition cat_response :: "string \<Rightarrow> bytes \<Rightarrow> cat_resp" where
  "cat_response path content =
     (let head = take (min (length content) MAX_INLINE_BYTES) content;
          resp = \<lparr>cx_path = path, cx_size = word_of_nat (length content), cx_kind = ''text'',
                  cx_truncated = (length content > MAX_INLINE_BYTES), cx_content = Some head, cx_preview = None\<rparr>
      in if utf8_ok head then resp
         else resp\<lparr>cx_kind := ''binary'', cx_content := None, cx_preview := Some (take (min (length head) 64) head)\<rparr>)"

definition fs_cat :: "prims \<Rightarrow> rendering \<Rightarrow> 'p admin_state \<Rightarrow> string option \<Rightarrow> string \<Rightarrow> ('p, cat_resp) console" where
  "fs_cat P T st header path =
     andThen (answer (text_auth st header)) (\<lambda>_.
     andThen (prefetch P T st path) (\<lambda>_.
     andThen (reading (\<lambda>e. if is_not_a_recipient e then (403, error_text T e) else server_error T e)
                (\<lambda>c. read_file_path P c path)) (\<lambda>content.
     answer (Inr (cat_response path content)))))"

record proof_resp =
  px_path :: string
  px_inode :: string
  px_state_root :: string
  px_value :: string
  px_steps :: nat
  px_proof :: inclusion_proof

definition proof_response :: "prims \<Rightarrow> rendering \<Rightarrow> string \<Rightarrow> core \<Rightarrow> proof_resp option result" where
  "proof_response P T path c =
     rbind (resolve_path P c path) (\<lambda>found.
     case found of
       None \<Rightarrow> Inr None
     | Some (inode, _) \<Rightarrow>
         rbind (core_inclusion_proof P c inode) (\<lambda>pr.
         Inr (case (pr, get_state_root c) of
                (Some p, Some rt) \<Rightarrow>
                  Some \<lparr>px_path = path, px_inode = lower_hex (unat inode), px_state_root = hex_encode T rt,
                        px_value = hex_encode T (ip_value p), px_steps = length (ip_steps p), px_proof = p\<rparr>
              | _ \<Rightarrow> None)))"

definition fs_proof :: "prims \<Rightarrow> rendering \<Rightarrow> 'p admin_state \<Rightarrow> string option \<Rightarrow> string \<Rightarrow> ('p, proof_resp) console" where
  "fs_proof P T st header path =
     andThen (answer (text_auth st header)) (\<lambda>_.
     andThen (reading (server_error T) (proof_response P T path)) (\<lambda>resp.
     answer (case resp of Some r \<Rightarrow> Inr r | None \<Rightarrow> Inl (404, path @ '' is not in the committed state''))))"

definition head_view :: "rendering \<Rightarrow> 'p admin_state \<Rightarrow> string option \<Rightarrow> ('p, string option) console" where
  "head_view T st header =
     andThen (answer (bare_auth st header)) (\<lambda>_.
     reading bare_error (\<lambda>c. Inr (map_option (hex_encode T) (get_head c))))"

definition oplog_summary :: "'p admin_state \<Rightarrow> string option \<Rightarrow> ('p, (string \<times> u64) list) console" where
  "oplog_summary st header =
     andThen (answer (bare_auth st header)) (\<lambda>_.
     reading bare_error (\<lambda>c. Inr (map (\<lambda>(d, n). (device_text d, n)) (cs_entries (clock_summary c)))))"

record security_resp =
  sc_encryption_at_rest :: bool
  sc_proof_policy :: string
  sc_ops_total :: nat
  sc_ops_with_proof :: nat
  sc_ops_without_proof :: nat
  sc_malformed_proofs :: nat
  sc_signature_failures :: nat
  sc_unreadable_files :: "string list"
  sc_healthy :: bool

definition policy_text :: "proof_policy \<Rightarrow> string" where
  "policy_text p =
     (case p of PolicyNone \<Rightarrow> ''none'' | PolicyTransparent \<Rightarrow> ''transparent'' | PolicyRequired \<Rightarrow> ''required'' | PolicyCommit \<Rightarrow> ''commit'')"

definition security :: "prims \<Rightarrow> rendering \<Rightarrow> 'p admin_state \<Rightarrow> string option \<Rightarrow> ('p, security_resp) console" where
  "security P T st header =
     andThen (answer (text_auth st header)) (\<lambda>_.
     reading (server_error T) (\<lambda>c.
       rbind (verify_repository P c) (\<lambda>r.
       Inr \<lparr>sc_encryption_at_rest = encryption_enabled c, sc_proof_policy = policy_text (core_proofs c),
            sc_ops_total = vr_operations r, sc_ops_with_proof = with_proof r, sc_ops_without_proof = without_proof r,
            sc_malformed_proofs = malformed r, sc_signature_failures = signature_failures r,
            sc_unreadable_files = unreadable_files r, sc_healthy = report_ok r\<rparr>)))"

record storage_resp =
  tx_blob_count :: nat
  tx_blob_bytes :: u64
  tx_state_entries :: nat
  tx_op_count :: nat
  tx_applied_count :: nat
  tx_pending_count :: nat

definition storage_stats :: "rendering \<Rightarrow> 'p admin_state \<Rightarrow> string option \<Rightarrow> ('p, storage_resp) console" where
  "storage_stats T st header =
     andThen (answer (text_auth st header)) (\<lambda>_.
     reading (server_error T) (\<lambda>c.
       Inr (case blob_stats_of c of (n, b) \<Rightarrow>
         \<lparr>tx_blob_count = n, tx_blob_bytes = b, tx_state_entries = state_entry_count c, tx_op_count = op_count c,
          tx_applied_count = applied_count c, tx_pending_count = pending_count c\<rparr>)))"

record ls_entry =
  lx_name :: string
  lx_inode :: string
  lx_kind :: string
  lx_size :: u64

definition ls_entry_of :: "prims \<Rightarrow> core \<Rightarrow> dir_entry \<Rightarrow> ls_entry result" where
  "ls_entry_of P c e =
     rbind (case de_entry_type e of
              File \<Rightarrow> rbind (load_inode P c (de_inode_id e)) (\<lambda>r.
                      Inr (case r of None \<Rightarrow> 0 | Some r \<Rightarrow> ct_size (lww_value (ir_content r))))
            | Dir \<Rightarrow> Inr 0) (\<lambda>sz.
     Inr \<lparr>lx_name = de_name e, lx_inode = lower_hex (unat (de_inode_id e)),
          lx_kind = (case de_entry_type e of Dir \<Rightarrow> ''dir'' | File \<Rightarrow> ''file''), lx_size = sz\<rparr>)"

definition fs_ls :: "prims \<Rightarrow> rendering \<Rightarrow> 'p admin_state \<Rightarrow> string option \<Rightarrow> string \<Rightarrow> ('p, string \<times> ls_entry list) console" where
  "fs_ls P T st header path =
     andThen (answer (text_auth st header)) (\<lambda>_.
     reading (server_error T) (\<lambda>c.
       rbind (read_dir_path P c path) (\<lambda>es.
       rbind (rmap (ls_entry_of P c) es) (\<lambda>rows. Inr (path, rows)))))"

record op_summary =
  ox_device_id :: string
  ox_counter :: u64
  ox_time :: u64
  ox_kind :: string
  ox_applied :: bool

definition describe_op :: "fs_op_kind \<Rightarrow> string" where
  "describe_op kind =
     (case kind of
        Mkdir parent name _ \<Rightarrow> ''mkdir '' @ name @ '' in '' @ lower_hex (unat parent)
      | CreateFile parent name _ \<Rightarrow> ''create '' @ name @ '' in '' @ lower_hex (unat parent)
      | Write inode _ chunks new_size _ \<Rightarrow>
          ''write '' @ lower_hex (unat inode) @ '' ('' @ digits (unat new_size) @ '' bytes, '' @ digits (length chunks) @ '' chunks)''
      | Rename _ old_n _ new_n _ \<Rightarrow> ''rename '' @ old_n @ '' -> '' @ new_n
      | Unlink parent name _ \<Rightarrow> ''unlink '' @ name @ '' from '' @ lower_hex (unat parent)
      | SetAttr inode _ _ _ \<Rightarrow> ''setattr '' @ lower_hex (unat inode))"

definition oplog_recent :: "prims \<Rightarrow> rendering \<Rightarrow> 'p admin_state \<Rightarrow> string option \<Rightarrow> nat \<Rightarrow> ('p, op_summary list) console" where
  "oplog_recent P T st header limit =
     andThen (answer (text_auth st header)) (\<lambda>_.
     reading (server_error T) (\<lambda>c.
       rbind (recent_ops P c (min limit 500)) (\<lambda>ops.
       Inr (map (\<lambda>op. \<lparr>ox_device_id = device_text (opid_device (op_id op)), ox_counter = opid_counter (op_id op),
                       ox_time = op_time op, ox_kind = describe_op (op_kind op), ox_applied = is_op_applied c (op_id op)\<rparr>) ops))))"

definition storage_gc :: "prims \<Rightarrow> rendering \<Rightarrow> 'p admin_state \<Rightarrow> string option \<Rightarrow> ('p, gc_report) console" where
  "storage_gc P T st header =
     andThen (answer (text_auth st header)) (\<lambda>_.
     from_core (server_error T) (on_core (collect_garbage P True)))"

definition energy_off :: energy_view where
  "energy_off = \<lparr>ev_enabled = False, ev_power = ''unknown'', ev_battery_pct = None, ev_temp_c = None, ev_cpu_load = None,
     ev_link = ''unknown'', ev_storage_free_bytes = None, ev_sampled_unix_ms = 0, ev_sync = True, ev_content = True,
     ev_max_content_bytes = None, ev_interval_scale = 1, ev_reason = ''energy-aware scheduling is not running''\<rparr>"

definition energy_route :: "'p admin_state \<Rightarrow> string option \<Rightarrow> ('p, energy_view) console" where
  "energy_route st header =
     andThen (answer (text_auth st header)) (\<lambda>_ s.
     case ad_energy st of
       Some source \<Rightarrow> (case source (fst s) (snd s) of (view, p') \<Rightarrow> (Inr view, fst s, p'))
     | None \<Rightarrow> (Inr energy_off, s))"

definition peers_route :: "'p admin_state \<Rightarrow> string option \<Rightarrow> ('p, bool \<times> peer_view list) console" where
  "peers_route st header =
     andThen (answer (text_auth st header)) (\<lambda>_ s.
     (Inr (case ad_peers st of Some source \<Rightarrow> (True, source (snd s)) | None \<Rightarrow> (False, [])), s))"

section \<open>What the console may do\<close>

lemma require_token_iff: "require_token header tok = Inr () \<longleftrightarrow> tok = [] \<or> header = Some tok"
  by (auto simp: require_token_def constant_time_eq_iff str_bytes_inject split: option.split)

definition denied :: "'p admin_state \<Rightarrow> string option \<Rightarrow> bool" where
  "denied st header \<longleftrightarrow> ad_token st \<noteq> [] \<and> header \<noteq> Some (ad_token st)"

lemma auth_denied:
  "denied st header \<Longrightarrow> bare_auth st header = Inl (401, [])" "denied st header \<Longrightarrow> text_auth st header = Inl (401, ''unauthorized'')"
  by (auto simp: denied_def bare_auth_def text_auth_def require_token_def constant_time_eq_iff str_bytes_inject split: option.split)

lemma snd_andThen: "(\<And>x s'. m s = (Inr x, s') \<Longrightarrow> snd (f x s') = s') \<Longrightarrow> snd (andThen m f s) = snd (m s)"
  by (auto simp: andThen_def split: prod.split sum.split)

lemma snd_answer [simp]: "snd (answer r s) = s"
  by (simp add: answer_def)

lemma snd_reading [simp]: "snd (reading err f s) = s"
  by (auto simp: reading_def from_core_def on_core_def reads_def split: prod.split sum.split)

lemma survey_reads: "snd (collect_garbage P True c) = c"
  by (auto simp: collect_garbage_def bindE_def Let_def split: sum.split option.split)

lemma cat_state:
  "snd (fs_cat P T st header path s) = s \<or>
   (\<exists>fetch wanted. ad_content st = Some fetch \<and> missing_chunks_for_path P (fst s) path = Inr wanted \<and> wanted \<noteq> [] \<and>
      snd (fs_cat P T st header path s) = snd (fetch wanted s))"
proof -
  have "snd (prefetch P T st path s) = s \<or>
     (\<exists>fetch wanted. ad_content st = Some fetch \<and> missing_chunks_for_path P (fst s) path = Inr wanted \<and> wanted \<noteq> [] \<and>
        snd (prefetch P T st path s) = snd (fetch wanted s))"
  proof (cases "ad_content st")
    case (Some fetch)
    then show ?thesis
      by (cases s; cases "missing_chunks_for_path P (fst s) path")
        (auto simp: prefetch_def andThen_def reading_def from_core_def on_core_def reads_def)
  qed (simp add: prefetch_def)
  moreover have "snd (fs_cat P T st header path s) = s \<or> snd (fs_cat P T st header path s) = snd (prefetch P T st path s)"
  proof (cases "text_auth st header")
    case (Inr u)
    let ?rest = "\<lambda>_. andThen (reading (\<lambda>e. if is_not_a_recipient e then (403, error_text T e) else server_error T e)
       (\<lambda>c. read_file_path P c path)) (\<lambda>content. answer (Inr (cat_response path content)))"
    have "snd (andThen (prefetch P T st path) ?rest s) = snd (prefetch P T st path s)"
      by (rule snd_andThen) (simp add: snd_andThen)
    then show ?thesis using Inr by (simp add: fs_cat_def andThen_def answer_def)
  qed (simp add: fs_cat_def andThen_def answer_def)
  ultimately show ?thesis by auto
qed

lemma fst_energy: "fst (snd (energy_route st header s)) = fst s"
  by (auto simp: energy_route_def andThen_def answer_def split: prod.split sum.split option.split)

lemmas handlers = status_def identity_view_def enrolled_peers_view_def fs_proof_def head_view_def oplog_summary_def security_def
  storage_stats_def fs_ls_def oplog_recent_def storage_gc_def peers_route_def energy_route_def fs_cat_def

lemma console_looks:
  "snd (status T st now header s) = s" "snd (identity_view T st header s) = s" "snd (enrolled_peers_view T st header s) = s"
  "snd (fs_proof P T st header path s) = s" "snd (head_view T st header s) = s" "snd (oplog_summary st header s) = s"
  "snd (security P T st header s) = s" "snd (storage_stats T st header s) = s" "snd (fs_ls P T st header path s) = s"
  "snd (oplog_recent P T st header limit s) = s" "snd (storage_gc P T st header s) = s" "snd (peers_route st header s) = s"
proof -
  have survey: "snd (from_core (server_error T) (on_core (collect_garbage P True)) s') = s'" for s' :: "core \<times> 'a"
    using survey_reads [of P "fst s'"] by (cases s') (auto simp: from_core_def on_core_def split: prod.split sum.split)
  show "snd (status T st now header s) = s" "snd (identity_view T st header s) = s" "snd (enrolled_peers_view T st header s) = s"
    "snd (fs_proof P T st header path s) = s" "snd (head_view T st header s) = s" "snd (oplog_summary st header s) = s"
    "snd (security P T st header s) = s" "snd (storage_stats T st header s) = s" "snd (fs_ls P T st header path s) = s"
    "snd (oplog_recent P T st header limit s) = s" "snd (storage_gc P T st header s) = s" "snd (peers_route st header s) = s"
    unfolding handlers by (simp_all add: snd_andThen survey)
qed

lemma console_denied:
  assumes "denied st header"
  shows "status T st now header s = (Inl (401, []), s)" "identity_view T st header s = (Inl (401, ''unauthorized''), s)"
    "enrolled_peers_view T st header s = (Inl (401, ''unauthorized''), s)" "fs_cat P T st header path s = (Inl (401, ''unauthorized''), s)"
    "fs_proof P T st header path s = (Inl (401, ''unauthorized''), s)" "head_view T st header s = (Inl (401, []), s)"
    "oplog_summary st header s = (Inl (401, []), s)" "security P T st header s = (Inl (401, ''unauthorized''), s)"
    "storage_stats T st header s = (Inl (401, ''unauthorized''), s)" "fs_ls P T st header path s = (Inl (401, ''unauthorized''), s)"
    "oplog_recent P T st header limit s = (Inl (401, ''unauthorized''), s)" "storage_gc P T st header s = (Inl (401, ''unauthorized''), s)"
    "energy_route st header s = (Inl (401, ''unauthorized''), s)" "peers_route st header s = (Inl (401, ''unauthorized''), s)"
  unfolding handlers using assms by (simp_all add: auth_denied andThen_def answer_def)

text \<open>
  C18. The console only looks. Without the configured token every handler answers 401 and nothing changes. With it, or with no
  token configured, every handler leaves the repository exactly as it was, the survey of unreachable storage and the energy
  view included; the one exception is the display of a file, which may ask once for the content that file lacks and changes
  the state only by what that fetch does.
\<close>

theorem console_read_only:
  "(denied st header \<longrightarrow>
     status T st now header s = (Inl (401, []), s) \<and> identity_view T st header s = (Inl (401, ''unauthorized''), s) \<and>
     enrolled_peers_view T st header s = (Inl (401, ''unauthorized''), s) \<and> fs_cat P T st header path s = (Inl (401, ''unauthorized''), s) \<and>
     fs_proof P T st header path s = (Inl (401, ''unauthorized''), s) \<and> head_view T st header s = (Inl (401, []), s) \<and>
     oplog_summary st header s = (Inl (401, []), s) \<and> security P T st header s = (Inl (401, ''unauthorized''), s) \<and>
     storage_stats T st header s = (Inl (401, ''unauthorized''), s) \<and> fs_ls P T st header path s = (Inl (401, ''unauthorized''), s) \<and>
     oplog_recent P T st header limit s = (Inl (401, ''unauthorized''), s) \<and> storage_gc P T st header s = (Inl (401, ''unauthorized''), s) \<and>
     energy_route st header s = (Inl (401, ''unauthorized''), s) \<and> peers_route st header s = (Inl (401, ''unauthorized''), s)) \<and>
   snd (status T st now header s) = s \<and> snd (identity_view T st header s) = s \<and> snd (enrolled_peers_view T st header s) = s \<and>
   snd (fs_proof P T st header path s) = s \<and> snd (head_view T st header s) = s \<and> snd (oplog_summary st header s) = s \<and>
   snd (security P T st header s) = s \<and> snd (storage_stats T st header s) = s \<and> snd (fs_ls P T st header path s) = s \<and>
   snd (oplog_recent P T st header limit s) = s \<and> snd (storage_gc P T st header s) = s \<and> snd (peers_route st header s) = s \<and>
   fst (snd (energy_route st header s)) = fst s \<and>
   (snd (fs_cat P T st header path s) = s \<or>
    (\<exists>fetch wanted. ad_content st = Some fetch \<and> missing_chunks_for_path P (fst s) path = Inr wanted \<and> wanted \<noteq> [] \<and>
       snd (fs_cat P T st header path s) = snd (fetch wanted s)))"
  using cat_state [of P T st header path s] by (simp add: console_looks console_denied fst_energy)

definition sample_console :: "unit admin_state" where
  "sample_console = \<lparr>ad_token = ''t'', ad_peers = None, ad_energy = None, ad_content = None, ad_node_pubkey = None, ad_node_seal_key = None\<rparr>"

theorem console_read_only_witness:
  "fs_ls sample \<lparr>iso8601 = \<lambda>_. [], hex_encode = \<lambda>_. [], error_text = \<lambda>_. []\<rparr> sample_console None ''/'' (sample_core, ()) =
     (Inl (401, ''unauthorized''), sample_core, ())"
proof -
  have "denied sample_console None" by (simp add: denied_def sample_console_def)
  then show ?thesis using console_read_only by blast
qed

section \<open>The proof the console serves\<close>

text \<open>
  A proof served for a path, on a state whose root is current, is about the inode the path resolves to and checks against
  the root in the same response.
\<close>

theorem console_proof_checks:
  assumes "root_current P c" "inode_map c = Inr m" "length m \<le> 2 ^ 64" "fs_proof P T st header path (c, p) = (Inr resp, s')"
  shows "\<exists>i k. resolve_path P c path = Inr (Some (i, k)) \<and> ip_inode (px_proof resp) = i \<and> (i, ip_value (px_proof resp)) \<in> set m \<and>
     px_state_root resp = hex_encode T (commit (blake3 P) m) \<and> check (blake3 P) (px_proof resp) (commit (blake3 P) m) = Inr ()"
proof -
  have rt: "get_state_root c = Some (commit (blake3 P) m)" using assms(1,2) by (auto elim!: root_currentD)
  have r: "proof_response P T path c = Inr (Some resp)"
    using assms(4) by (auto simp: fs_proof_def andThen_def answer_def reading_def from_core_def on_core_def reads_def
        split: sum.splits prod.splits option.splits)
  then obtain i k where i: "resolve_path P c path = Inr (Some (i, k))"
    by (auto simp: proof_response_def rbind_Inr_iff split: option.splits)
  then obtain q where pr0: "prove (blake3 P) m i = Some q"
    using r assms(2) by (cases "prove (blake3 P) m i") (simp_all add: proof_response_def core_inclusion_proof_def)
  then have sr: "px_state_root resp = hex_encode T (commit (blake3 P) m)" and pr: "prove (blake3 P) m i = Some (px_proof resp)"
    using r i assms(2) rt by (auto simp: proof_response_def core_inclusion_proof_def)
  from pr obtain n where "n < length m" "fst (m ! n) = i" "ip_inode (px_proof resp) = i" "ip_value (px_proof resp) = snd (m ! n)"
    by (rule prove_SomeD)
  moreover from this have "(i, ip_value (px_proof resp)) \<in> set m" by (metis nth_mem prod.collapse)
  ultimately show ?thesis using i sr check_prove [OF pr assms(3)] by blast
qed

text \<open>
  A file whose first write is still parked has a record without content, and displaying it answers an empty text, whether or
  not its chunks were asked for and came: the handler does not look at what is still missing.
\<close>

lemma parked_file_reads_empty:
  assumes "ad_token st = []" "ad_content st = None"
    and "resolve_path P c path = Inr (Some (i, File))" "load_inode P c i = Inr (Some r)" "ir_kind r = File"
    and "ct_node_hash (lww_value (ir_content r)) = None"
  shows "fs_cat P T st header path (c, p) = (Inr (cat_response path []), c, p)"
proof -
  have "read_file_path P c path = Inr []" using assms(3-6) by (simp add: read_file_path_def read_file_def)
  moreover have "text_auth st header = Inr ()" using assms(1) by (simp add: text_auth_def require_token_def)
  ultimately show ?thesis
    using assms(2) by (simp add: fs_cat_def andThen_def answer_def prefetch_def reading_def from_core_def on_core_def)
qed

end
