(* ===== verification/Daemon.thy ===== *)
theory Daemon
  imports Admin Key_Files
begin

text \<open>
  Start-up and the pieces the daemon puts between its components: \<open>src/crates/nexusfs/src/config.rs\<close> and \<open>daemon.rs\<close>. The host's
  readings, the random draws and \<open>$HOME\<close> are arguments, and key files are those of \<open>Key_Files\<close>; parsing TOML and socket addresses,
  spawning tasks and logging are not modelled. \<open>f32\<close> values are rationals, as in \<open>Energy\<close>.
\<close>

section \<open>Configuration\<close>

record energy_config =
  ec_enabled :: bool
  ec_battery_low_pct :: byte
  ec_temp_high_c :: int
  ec_link_cost :: string
  ec_storage_reserve_mb :: u64

record node_config =
  nc_data_dir :: string
  nc_device_name :: string

record net_config =
  nt_listen :: string
  nt_peers :: "string list"
  nt_tofu :: bool
  nt_sync_interval_secs :: u64

record admin_config =
  ac_bind :: string
  ac_token :: string

record s3_config =
  s3_enabled :: bool
  s3_bind :: string
  s3_token :: string

record posix_config =
  px_enabled :: bool
  px_mountpoint :: string

record security_config =
  sy_encrypt_at_rest :: bool
  sy_proof_mode :: string

record config =
  cf_node :: node_config
  cf_net :: net_config
  cf_admin :: admin_config
  cf_s3 :: s3_config
  cf_posix :: posix_config
  cf_security :: security_config
  cf_energy :: energy_config

definition default_sync_interval :: u64 where "default_sync_interval = 15"

definition default_link_cost :: string where "default_link_cost = ''auto''"

definition default_storage_reserve_mb :: u64 where "default_storage_reserve_mb = 1024"

text \<open>\<open>Path::join\<close>: an absolute path replaces, another is appended after one separator.\<close>

definition path_join :: "string \<Rightarrow> string \<Rightarrow> string" where
  "path_join base p =
     (if text_starts ''/'' p then p
      else if base = [] \<or> last base = CHR ''/'' then base @ p
      else base @ ''/'' @ p)"

definition expand_home :: "string option \<Rightarrow> string \<Rightarrow> string" where
  "expand_home home raw =
     (case strip_prefix ''~'' raw of
        None \<Rightarrow> raw
      | Some rest \<Rightarrow>
          (case home of None \<Rightarrow> raw | Some h \<Rightarrow> path_join h (dropWhile (\<lambda>c. c = CHR ''/'') rest)))"

definition data_dir :: "string option \<Rightarrow> config \<Rightarrow> string" where
  "data_dir home cfg = expand_home home (nc_data_dir (cf_node cfg))"

definition policy_from_config :: "string \<Rightarrow> proof_policy" where
  "policy_from_config value =
     (let v = to_ascii_lowercase (trim value) in
      if v = ''transparent'' then PolicyTransparent
      else if v = ''required'' then PolicyRequired
      else if v = ''zk_commit'' \<or> v = ''commit'' then PolicyCommit
      else PolicyNone)"

section \<open>Opening the store\<close>

definition KEY_DEVICE_ID :: bytes where "KEY_DEVICE_ID = str_bytes ''node/device_id''"

definition KEY_ADMIN_TOKEN :: bytes where "KEY_ADMIN_TOKEN = str_bytes ''admin/token''"

definition load_or_create_device_id :: "u128 \<Rightarrow> (mem_store, device_id) comp" where
  "load_or_create_device_id did =
     bindE (reads (\<lambda>st. Inr (get_kv st CF_META KEY_DEVICE_ID))) (\<lambda>v.
     case (case v of Some v \<Rightarrow> if length v = 16 then Some (from_be_bytes v) else None | None \<Rightarrow> None) of
       Some device \<Rightarrow> ret device
     | None \<Rightarrow> bindE (upd (put_kv CF_META KEY_DEVICE_ID (to_be_bytes 16 did))) (\<lambda>_. ret did))"

definition ALPH :: string where
  "ALPH = ''abcdefghijklmnopqrstuvwxyzABCDEFGHIJKLMNOPQRSTUVWXYZ0123456789''"

definition random_token :: "(nat \<Rightarrow> u32) \<Rightarrow> nat \<Rightarrow> string" where
  "random_token draw len = map (\<lambda>k. ALPH ! (unat (draw k) mod length ALPH)) [0..<len]"

definition load_or_create_admin_token :: "(nat \<Rightarrow> u32) \<Rightarrow> (mem_store, string) comp" where
  "load_or_create_admin_token draw =
     bindE (reads (\<lambda>st. Inr (get_kv st CF_META KEY_ADMIN_TOKEN))) (\<lambda>v.
     case (case v of Some v \<Rightarrow> if utf8_ok v \<and> text_of v \<noteq> [] then Some (text_of v) else None | None \<Rightarrow> None) of
       Some token \<Rightarrow> ret token
     | None \<Rightarrow>
         (let token = random_token draw 32 in
          bindE (upd (put_kv CF_META KEY_ADMIN_TOKEN (str_bytes token))) (\<lambda>_. ret token)))"

text \<open>
  \<open>open_core\<close> works on the opened store and on the files of the data directory; the core it gives shares the store. What it may
  draw is an argument. A mode it does not implement is only logged.
\<close>

record entropy =
  en_keys :: "nat \<Rightarrow> key32"
  en_repo :: key32
  en_device :: u128
  en_token :: "nat \<Rightarrow> u32"

definition on_store :: "('s, 'a) comp \<Rightarrow> ('s \<times> 'f, 'a) comp" where
  "on_store m s = (case m (fst s) of (r, st) \<Rightarrow> (r, st, snd s))"

definition on_files :: "('f, 'a) comp \<Rightarrow> ('s \<times> 'f, 'a) comp" where
  "on_files m s = (case m (snd s) of (r, fs) \<Rightarrow> (r, fst s, fs))"

definition repo_cipher :: "crates \<Rightarrow> string option \<Rightarrow> config \<Rightarrow> key32 \<Rightarrow> (files, key32 option) comp" where
  "repo_cipher J home cfg fresh =
     (if sy_encrypt_at_rest (cf_security cfg)
      then bindE (cipher_load_or_create J fresh (path_join (data_dir home cfg) ''repo.key'')) (\<lambda>k. ret (Some k))
      else ret None)"

definition admin_token :: "config \<Rightarrow> (nat \<Rightarrow> u32) \<Rightarrow> (mem_store, string) comp" where
  "admin_token cfg draw =
     (if ac_token (cf_admin cfg) \<noteq> [] then ret (ac_token (cf_admin cfg)) else load_or_create_admin_token draw)"

definition open_core :: "prims \<Rightarrow> crates \<Rightarrow> key_crates \<Rightarrow> string option \<Rightarrow> config \<Rightarrow> entropy \<Rightarrow> (mem_store \<times> files, core \<times> identity \<times> string) comp" where
  "open_core P J K home cfg en =
     bindE (on_files (identity_load_or_create P K (en_keys en) (path_join (data_dir home cfg) ''identity.toml''))) (\<lambda>ident.
     bindE (on_store (load_or_create_device_id (en_device en))) (\<lambda>device.
     bindE (on_files (repo_cipher J home cfg (en_repo en))) (\<lambda>key.
     bindE (on_store (admin_token cfg (en_token en))) (\<lambda>token.
     bindE (reads (\<lambda>s. Inr (fst s))) (\<lambda>st.
     ret ((core_new st device)\<lparr>sealing_secret := Some (id_sealing ident), cipher := key,
            core_proofs := policy_from_config (sy_proof_mode (cf_security cfg))\<rparr>, ident, token))))))"

section \<open>The energy gate\<close>

record host =
  hs_platform :: telemetry
  hs_link :: link_cost
  hs_df :: "string option"
  hs_now :: u64

record energy_gate =
  eg_scheduler :: rule_based_scheduler
  eg_enabled :: bool
  eg_link_override :: "link_cost option"
  eg_last :: "telemetry \<times> sync_budget"

definition configured_scheduler :: "energy_config \<Rightarrow> rule_based_scheduler" where
  "configured_scheduler cfg =
     (if ec_enabled cfg
      then scheduler_new (from_config (ec_battery_low_pct cfg) (ec_temp_high_c cfg) (ec_storage_reserve_mb cfg))
      else scheduler_disabled)"

definition gate_new :: "energy_config \<Rightarrow> energy_gate" where
  "gate_new cfg = \<lparr>eg_scheduler = configured_scheduler cfg, eg_enabled = ec_enabled cfg,
     eg_link_override = parse_config (ec_link_cost cfg), eg_last = (telemetry_default, unlimited)\<rparr>"

definition backlog_of :: "prims \<Rightarrow> core \<Rightarrow> backlog_view" where
  "backlog_of P c = \<lparr>bv_pending_ops = word_of_nat (pending_count c),
     missing_chunks = (case missing_chunk_hashes P c of Inr hs \<Rightarrow> word_of_nat (length hs) | Inl _ \<Rightarrow> 0)\<rparr>"

definition host_sample :: "host \<Rightarrow> link_cost option \<Rightarrow> telemetry" where
  "host_sample h stated = sample_with (hs_platform h) stated (hs_link h) (Some (hs_df h)) (hs_now h)"

definition gate_sample :: "prims \<Rightarrow> host \<Rightarrow> core \<Rightarrow> energy_gate \<Rightarrow> (telemetry \<times> sync_budget) \<times> energy_gate" where
  "gate_sample P h c g =
     (let t = host_sample h (eg_link_override g);
          budget = plan (eg_scheduler g) t (backlog_of P c)
      in ((t, budget), g\<lparr>eg_last := (t, budget)\<rparr>))"

definition STALE_AFTER_MS :: u64 where "STALE_AFTER_MS = 60000"

definition gate_current :: "prims \<Rightarrow> host \<Rightarrow> core \<Rightarrow> energy_gate \<Rightarrow> (telemetry \<times> sync_budget) \<times> energy_gate" where
  "gate_current P h c g =
     (let cached = eg_last g;
          age = saturating_sub (hs_now h) (sampled_unix_ms (fst cached))
      in if sampled_unix_ms (fst cached) \<noteq> 0 \<and> age < STALE_AFTER_MS then (cached, g) else gate_sample P h c g)"

definition gate_decide :: "(reason \<Rightarrow> string) \<Rightarrow> prims \<Rightarrow> host \<Rightarrow> core \<Rightarrow> energy_gate \<Rightarrow> sync_decision \<times> energy_gate" where
  "gate_decide why P h c g =
     (case gate_sample P h c g of ((_, b), g') \<Rightarrow>
        (\<lparr>sd_sync = sb_sync b, sd_limits = \<lparr>sl_content = sb_content b, sl_max_content_bytes = max_content_bytes b\<rparr>,
          sd_interval_scale = interval_scale b, sd_reason = why (sb_reason b)\<rparr>, g'))"

definition power_text :: "power_source \<Rightarrow> string" where
  "power_text p = (case p of Mains \<Rightarrow> ''mains'' | Battery \<Rightarrow> ''battery'' | PowerUnknown \<Rightarrow> ''unknown'')"

definition link_text :: "link_cost \<Rightarrow> string" where
  "link_text l = (case l of Unmetered \<Rightarrow> ''unmetered'' | Metered \<Rightarrow> ''metered'' | LinkUnknown \<Rightarrow> ''unknown'')"

definition gate_energy :: "(reason \<Rightarrow> string) \<Rightarrow> prims \<Rightarrow> host \<Rightarrow> core \<Rightarrow> energy_gate \<Rightarrow> energy_view \<times> energy_gate" where
  "gate_energy why P h c g =
     (case gate_current P h c g of ((t, b), g') \<Rightarrow>
        (\<lparr>ev_enabled = eg_enabled g, ev_power = power_text (power t), ev_battery_pct = battery_pct t, ev_temp_c = temp_c t,
          ev_cpu_load = cpu_load t, ev_link = link_text (Energy.link t), ev_storage_free_bytes = storage_free_bytes t,
          ev_sampled_unix_ms = sampled_unix_ms t, ev_sync = sb_sync b, ev_content = sb_content b,
          ev_max_content_bytes = (if max_content_bytes b \<noteq> - 1 then Some (max_content_bytes b) else None),
          ev_interval_scale = interval_scale b, ev_reason = why (sb_reason b)\<rparr>, g'))"

section \<open>Bridges\<close>

definition peer_view_of :: "rendering \<Rightarrow> peer_status \<Rightarrow> peer_view" where
  "peer_view_of T p =
     \<lparr>pv_address = ps_address p, pv_device_id = map_option device_text (ps_device_id p),
      pv_last_attempt_ms = last_attempt_ms p, pv_last_success_ms = last_success_ms p,
      pv_last_error = map_option (error_text T) (last_error p), pv_ops_received = ps_ops_received p,
      pv_blobs_received = ps_blobs_received p, pv_content_bytes = ps_content_bytes p,
      pv_content_deferred = ps_content_deferred p, pv_syncs = syncs p\<rparr>"

definition bridge_peers :: "rendering \<Rightarrow> peer_registry \<Rightarrow> peer_view list" where
  "bridge_peers T reg = map (peer_view_of T) (registry_snapshot reg)"

definition fetcher :: "prims \<Rightarrow> wire \<Rightarrow> ('a, 'p) network \<Rightarrow> session_ctx \<Rightarrow> string list \<Rightarrow> hash list \<Rightarrow> ('p, nat) talk" where
  "fetcher P W N ctx peers hashes s = (case fetch_from_peers P W N ctx peers hashes s of (n, s') \<Rightarrow> (Inr n, s'))"

section \<open>Announcing local writes\<close>

text \<open>
  \<open>LocalOpChannel\<close> and the task that drains it. The channel holds one message; \<open>applied\<close> is \<open>try_send\<close>, which leaves a full
  channel as it is. The task takes a message, waits \<open>NOTIFY_DEBOUNCE\<close>, empties the channel, and starts a round of
  notifications. \<open>nf_writes\<close> counts the local writes, \<open>nf_seen\<close> those that happened before the last round started, and
  \<open>nf_rounds\<close> the rounds.
\<close>

datatype notify_task = Receiving | Debouncing | Drained | Notifying

record notifier =
  nf_full :: bool
  nf_task :: notify_task
  nf_writes :: nat
  nf_seen :: nat
  nf_rounds :: nat

definition notifier_new :: notifier where
  "notifier_new = \<lparr>nf_full = False, nf_task = Receiving, nf_writes = 0, nf_seen = 0, nf_rounds = 0\<rparr>"

definition sink_applied :: "notifier \<Rightarrow> notifier" where
  "sink_applied n = n\<lparr>nf_full := True, nf_writes := Suc (nf_writes n)\<rparr>"

definition task_step :: "notifier \<Rightarrow> notifier option" where
  "task_step n =
     (case nf_task n of
        Receiving \<Rightarrow> if nf_full n then Some (n\<lparr>nf_full := False, nf_task := Debouncing\<rparr>) else None
      | Debouncing \<Rightarrow> Some (n\<lparr>nf_full := False, nf_task := Drained\<rparr>)
      | Drained \<Rightarrow> Some (n\<lparr>nf_task := Notifying, nf_seen := nf_writes n, nf_rounds := Suc (nf_rounds n)\<rparr>)
      | Notifying \<Rightarrow> Some (n\<lparr>nf_task := Receiving\<rparr>))"

inductive notifier_step :: "notifier \<Rightarrow> notifier \<Rightarrow> bool" where
  local_write: "notifier_step n (sink_applied n)"
| task_runs: "task_step n = Some n' \<Longrightarrow> notifier_step n n'"

section \<open>The status command\<close>

definition power_line :: "telemetry \<Rightarrow> string" where
  "power_line t =
     (case power t of
        Mains \<Rightarrow> ''mains''
      | Battery \<Rightarrow>
          (case battery_pct t of
             Some pct \<Rightarrow> ''battery '' @ digits (unat pct) @ ''%'' | None \<Rightarrow> ''battery (charge unreadable)'')
      | PowerUnknown \<Rightarrow> ''unknown'')"

definition energy_lines :: "(reason \<Rightarrow> string) \<Rightarrow> (u64 \<Rightarrow> string) \<Rightarrow> prims \<Rightarrow> energy_config \<Rightarrow> host \<Rightarrow> core \<Rightarrow> string list" where
  "energy_lines why human P cfg h c =
     (let t = host_sample h (parse_config (ec_link_cost cfg));
          budget = plan (configured_scheduler cfg) t (backlog_of P c);
          allowed =
            (if \<not> sb_sync budget then ''paused''
             else if \<not> sb_content budget then ''operations only''
             else if max_content_bytes budget = - 1 then ''operations and content''
             else ''operations and up to '' @ human (max_content_bytes budget) @ '' of content per pass'')
      in [''power:       '' @ power_line t @ '', link '' @ link_text (Energy.link t),
          ''sync budget: '' @ allowed @ (if ec_enabled cfg then [] else '' (energy-aware scheduling is disabled)''),
          ''             '' @ why (sb_reason budget)])"

definition run_status ::
    "(reason \<Rightarrow> string) \<Rightarrow> (u64 \<Rightarrow> string) \<Rightarrow> prims \<Rightarrow> crates \<Rightarrow> string option \<Rightarrow> config \<Rightarrow> host \<Rightarrow> string \<Rightarrow> unit command" where
  "run_status why human P J home cfg h tok =
     bindE (open_repo P) (\<lambda>_.
     bindE (on_core (reads (\<lambda>c. Inr c))) (\<lambda>c.
     says ([''device_id:   '' @ lower_hex (unat (core_device c)), ''data_dir:    '' @ data_dir home cfg,
            ''head:        '' @ or_none (map_option (hex32 J) (get_head c)),
            ''state_root:  '' @ or_none (map_option (hex32 J) (get_state_root c)),
            ''ops:         '' @ digits (op_count c) @ '' ('' @ digits (applied_count c) @ '' applied)'',
            ''pending:     '' @ digits (pending_count c),
            ''blobs:       '' @ digits (fst (blob_stats_of c)) @ '' ('' @ digits (unat (snd (blob_stats_of c))) @ '' bytes)''] @
           energy_lines why human P (cf_energy cfg) h c @
           [''admin_token: '' @ (if tok = [] then ''(dev mode / empty)'' else tok)])))"

end
