(* ===== verification/Daemon_Laws.thy ===== *)
theory Daemon_Laws
  imports Daemon
begin

text \<open>
  What the daemon's own pieces promise: opening again gives the same identity, the console explains the decision replication
  acted on, and no local write goes unannounced.
\<close>

section \<open>Identity across restarts\<close>

definition device_held :: "mem_store \<Rightarrow> device_id \<Rightarrow> bool" where
  "device_held st d \<longleftrightarrow> (\<exists>v. get_kv st CF_META KEY_DEVICE_ID = Some v \<and> length v = 16 \<and> from_be_bytes v = d)"

definition token_held :: "mem_store \<Rightarrow> string \<Rightarrow> bool" where
  "token_held st tok \<longleftrightarrow> (\<exists>v. get_kv st CF_META KEY_ADMIN_TOKEN = Some v \<and> utf8_ok v \<and> text_of v = tok \<and> tok \<noteq> [])"

lemma random_token_chars: "ch \<in> set (random_token draw n) \<Longrightarrow> ch \<in> set ALPH"
proof -
  assume "ch \<in> set (random_token draw n)"
  then obtain k where "ch = ALPH ! (unat (draw k) mod length ALPH)" by (auto simp: random_token_def)
  moreover have "length ALPH > 0" by (simp add: ALPH_def)
  ultimately show ?thesis by simp
qed

lemma random_token_utf8: "utf8_ok (str_bytes (random_token draw n))"
proof -
  have "list_all (\<lambda>ch. of_char ch \<le> (127 :: nat)) ALPH" by (simp add: ALPH_def)
  then show ?thesis by (intro ascii_utf8) (auto simp: list_all_iff dest: random_token_chars)
qed

lemma device_id_cases:
  "load_or_create_device_id did st = (r, st') \<longleftrightarrow>
     (case get_kv st CF_META KEY_DEVICE_ID of
        Some v \<Rightarrow> if length v = 16 then r = Inr (from_be_bytes v) \<and> st' = st
                  else r = Inr did \<and> st' = put_kv CF_META KEY_DEVICE_ID (to_be_bytes 16 did) st
      | None \<Rightarrow> r = Inr did \<and> st' = put_kv CF_META KEY_DEVICE_ID (to_be_bytes 16 did) st)"
  by (auto simp: load_or_create_device_id_def bindE_def reads_def ret_def upd_def split: option.splits)

lemma admin_token_cases:
  "load_or_create_admin_token draw st = (r, st') \<longleftrightarrow>
     (case get_kv st CF_META KEY_ADMIN_TOKEN of
        Some v \<Rightarrow> if utf8_ok v \<and> text_of v \<noteq> [] then r = Inr (text_of v) \<and> st' = st
                  else r = Inr (random_token draw 32) \<and> st' = put_kv CF_META KEY_ADMIN_TOKEN (str_bytes (random_token draw 32)) st
      | None \<Rightarrow> r = Inr (random_token draw 32) \<and> st' = put_kv CF_META KEY_ADMIN_TOKEN (str_bytes (random_token draw 32)) st)"
  by (auto simp: load_or_create_admin_token_def bindE_def reads_def ret_def upd_def Let_def split: option.splits)

lemma random_token_nonempty: "random_token draw 32 \<noteq> []"
  by (simp add: random_token_def)

interpretation did: persistent True load_or_create_device_id device_held
  by unfold_locales (auto simp: device_id_cases device_held_def mem_kv.get_put split: option.splits if_splits)

interpretation adt: persistent True load_or_create_admin_token token_held
  using random_token_utf8 random_token_nonempty
  by unfold_locales (auto simp: admin_token_cases token_held_def mem_kv.get_put split: option.splits if_splits)

text \<open>Each of the four steps of opening leaves alone what the others hold.\<close>

lemma paths_differ: "path_join dir ''identity.toml'' \<noteq> path_join dir ''repo.key''"
  by (simp add: path_join_def text_starts_def)

lemma token_keeps_device:
  "admin_token cfg draw st = (r, st') \<Longrightarrow> device_held st d \<Longrightarrow> device_held st' d"
  by (auto simp: admin_token_def ret_def admin_token_cases device_held_def mem_kv.get_put KEY_DEVICE_ID_def KEY_ADMIN_TOKEN_def str_bytes_def
      split: if_splits option.splits)

lemma cipher_keeps_identity:
  assumes "repo_cipher J home cfg fresh fs = (r, fs')" "identity_held K (path_join (data_dir home cfg) ''identity.toml'') fs ident"
  shows "identity_held K (path_join (data_dir home cfg) ''identity.toml'') fs' ident"
proof -
  let ?p = "path_join (data_dir home cfg) ''identity.toml''"
  have "fs' ?p = fs ?p"
    using assms(1) paths_differ [of "data_dir home cfg"]
    by (auto simp: repo_cipher_def cipher_load_or_create_def bindE_def reads_def ret_def raise_def write_string_def upd_def
        split: if_splits option.splits sum.splits prod.splits)
  then show ?thesis using assms(2) by (simp add: identity_held_def read_to_string_def)
qed

lemma repo_cipher_again: "hex_ok J \<Longrightarrow> repo_cipher J home cfg fresh fs = (Inr k, fs') \<Longrightarrow> repo_cipher J home cfg fresh' fs' = (Inr k, fs')"
  by (auto simp: repo_cipher_def bindE_eq_Inr ret_def dest: rkf.again [where d' = fresh'] split: if_splits)

lemma admin_token_again:
  "admin_token cfg draw st = (Inr tok, st') \<Longrightarrow> tok \<noteq> [] \<and>
     (get_kv st2 CF_META KEY_ADMIN_TOKEN = get_kv st' CF_META KEY_ADMIN_TOKEN \<longrightarrow> admin_token cfg draw' st2 = (Inr tok, st2))"
  using adt.created [of draw st tok st'] adt.loaded [of st2 tok draw']
  by (auto simp: admin_token_def ret_def token_held_def split: if_splits)

text \<open>
  Opening a store again, with the same configuration and other random draws, after anything that kept the device id and the token,
  gives the same keys, device, policy and token, and writes nothing.
\<close>

lemma open_core_again:
  assumes formats: "key_crates_ok K" "hex_ok J"
    and opened: "open_core P J K home cfg en s = (Inr (c, ident, tok), s')"
    and kept: "\<And>k. k \<in> {KEY_DEVICE_ID, KEY_ADMIN_TOKEN} \<Longrightarrow> get_kv st CF_META k = get_kv (fst s') CF_META k"
  shows "open_core P J K home cfg en' (st, snd s') = (Inr (c\<lparr>stores := st\<rparr>, ident, tok), st, snd s')" "tok \<noteq> []" "stores c = fst s'"
    "sealing_secret c = Some (id_sealing ident)" "cipher c \<noteq> None \<longleftrightarrow> sy_encrypt_at_rest (cf_security cfg)" "draws c = 0"
proof -
  let ?p = "path_join (data_dir home cfg) ''identity.toml''"
  obtain fs1 st1 d fs2 key st2 where steps:
      "identity_load_or_create P K (en_keys en) ?p (snd s) = (Inr ident, fs1)"
      "load_or_create_device_id (en_device en) (fst s) = (Inr d, st1)"
      "repo_cipher J home cfg (en_repo en) fs1 = (Inr key, fs2)"
      "admin_token cfg (en_token en) st1 = (Inr tok, st2)"
    and s': "s' = (st2, fs2)"
    and c: "c = (core_new st2 d)\<lparr>sealing_secret := Some (id_sealing ident), cipher := key,
              core_proofs := policy_from_config (sy_proof_mode (cf_security cfg))\<rparr>"
    using opened by (auto simp: open_core_def bindE_eq_Inr on_files_def on_store_def reads_def ret_def split: prod.splits)
  have "identity_load_or_create P K (en_keys en') ?p fs2 = (Inr ident, fs2)"
    using cipher_keeps_identity [OF steps(3)] idf.created [OF formats(1) steps(1)] by (blast intro: idf.loaded)
  moreover have "load_or_create_device_id (en_device en') st = (Inr d, st)"
    using token_keeps_device [OF steps(4)] did.created [OF TrueI steps(2)] kept [of KEY_DEVICE_ID] s'
    by (intro did.loaded) (auto simp: device_held_def)
  moreover have "admin_token cfg (en_token en') st = (Inr tok, st)" "tok \<noteq> []"
    using admin_token_again [OF steps(4)] kept [of KEY_ADMIN_TOKEN] s' by auto
  moreover show "cipher c \<noteq> None \<longleftrightarrow> sy_encrypt_at_rest (cf_security cfg)"
    using steps(3) by (auto simp: c repo_cipher_def bindE_eq_Inr ret_def split: if_splits)
  ultimately show "open_core P J K home cfg en' (st, snd s') = (Inr (c\<lparr>stores := st\<rparr>, ident, tok), st, snd s')" "tok \<noteq> []"
    using repo_cipher_again [OF formats(2) steps(3), of "en_repo en'"] c s'
    by (simp_all add: open_core_def bindE_def on_files_def on_store_def reads_def ret_def core_new_def)
  show "stores c = fst s'" "sealing_secret c = Some (id_sealing ident)" "draws c = 0" by (simp_all add: c s' core_new_def)
qed

definition sample_config :: config where
  "sample_config = \<lparr>cf_node = \<lparr>nc_data_dir = ''~/nx'', nc_device_name = ''n''\<rparr>,
     cf_net = \<lparr>nt_listen = [], nt_peers = [], nt_tofu = False, nt_sync_interval_secs = default_sync_interval\<rparr>,
     cf_admin = \<lparr>ac_bind = [], ac_token = []\<rparr>, cf_s3 = \<lparr>s3_enabled = False, s3_bind = [], s3_token = []\<rparr>,
     cf_posix = \<lparr>px_enabled = False, px_mountpoint = []\<rparr>,
     cf_security = \<lparr>sy_encrypt_at_rest = True, sy_proof_mode = ''zk_commit''\<rparr>,
     cf_energy = \<lparr>ec_enabled = True, ec_battery_low_pct = 20, ec_temp_high_c = 70, ec_link_cost = default_link_cost,
                  ec_storage_reserve_mb = default_storage_reserve_mb\<rparr>\<rparr>"

definition sample_entropy :: "nat \<Rightarrow> entropy" where
  "sample_entropy n = \<lparr>en_keys = (\<lambda>k. of_nat (n + k)), en_repo = of_nat n, en_device = of_nat n, en_token = (\<lambda>k. of_nat (n + k))\<rparr>"

lemma sample_opens:
  obtains c ident tok s' where
    "open_core sample sample_crates sample_key_crates None sample_config (sample_entropy 7) (mem_new, Map.empty) = (Inr (c, ident, tok), s')"
proof -
  have "\<exists>x s'. open_core sample sample_crates sample_key_crates None sample_config (sample_entropy 7) (mem_new, Map.empty) = (Inr x, s')"
    by (simp add: open_core_def identity_load_or_create_def repo_cipher_def cipher_load_or_create_def admin_token_def
        load_or_create_device_id_def load_or_create_admin_token_def identity_save_def write_string_def bindE_def on_files_def on_store_def
        reads_def ret_def upd_def Let_def sample_config_def path_join_def text_starts_def split: option.splits)
  then show thesis using that by (metis prod_cases3)
qed

section \<open>The console and the gate\<close>

lemma saturating_age:
  assumes "unat later < unat (t :: u64) + unat STALE_AFTER_MS"
  shows "saturating_sub later t < STALE_AFTER_MS"
proof (cases "t \<le> later")
  case True
  then have "unat (later - t) = unat later - unat t" by (rule unat_sub)
  then have "later - t < STALE_AFTER_MS" using assms True by (simp add: word_less_nat_alt word_le_nat_alt)
  then show ?thesis using True by (simp add: saturating_sub_def)
next
  case False
  then show ?thesis by (simp add: saturating_sub_def STALE_AFTER_MS_def)
qed

text \<open>
  C19. The console explains the pass that ran. After replication has taken a decision at a time other than 0, every look at the
  energy view less than a minute later, also one with a clock set back, shows exactly that decision (whether to sync,
  whether to take content, the cap, the pace and the reason) and the reading it was taken on, whatever the host would
  report now, and takes no reading of its own.
\<close>

theorem console_explains_decision:
  assumes "gate_decide why P h c g = (d, g')" "hs_now h \<noteq> 0" "unat (hs_now h2) < unat (hs_now h) + unat STALE_AFTER_MS"
  shows "\<exists>v. gate_energy why P h2 c2 g' = (v, g') \<and> ev_sync v = sd_sync d \<and> ev_content v = sl_content (sd_limits d) \<and>
     ev_max_content_bytes v = (if sl_max_content_bytes (sd_limits d) = - 1 then None else Some (sl_max_content_bytes (sd_limits d))) \<and>
     ev_interval_scale v = sd_interval_scale d \<and> ev_reason v = sd_reason d \<and> ev_sampled_unix_ms v = hs_now h"
proof -
  let ?t = "host_sample h (eg_link_override g)"
  let ?b = "plan (eg_scheduler g) ?t (backlog_of P c)"
  have now: "sampled_unix_ms ?t = hs_now h" by (simp add: host_sample_def sample_with_def)
  have g': "g' = g\<lparr>eg_last := (?t, ?b)\<rparr>"
    and d: "d = \<lparr>sd_sync = sb_sync ?b, sd_limits = \<lparr>sl_content = sb_content ?b, sl_max_content_bytes = max_content_bytes ?b\<rparr>,
          sd_interval_scale = interval_scale ?b, sd_reason = why (sb_reason ?b)\<rparr>"
    using assms(1) by (auto simp: gate_decide_def gate_sample_def Let_def)
  have "gate_current P h2 c2 g' = ((?t, ?b), g')"
    using assms(2) saturating_age [OF assms(3)] by (simp add: gate_current_def g' now Let_def)
  then show ?thesis by (simp add: gate_energy_def d now)
qed

definition sample_host :: "u64 \<Rightarrow> host" where
  "sample_host t = \<lparr>hs_platform = telemetry_default, hs_link = Metered, hs_df = None, hs_now = t\<rparr>"

theorem console_explains_decision_witness:
  "\<exists>d g' v. gate_decide (\<lambda>_. []) sample (sample_host 5000) sample_core (gate_new (cf_energy sample_config)) = (d, g') \<and>
     gate_energy (\<lambda>_. []) sample (sample_host 9000) sample_core g' = (v, g') \<and> ev_sync v = sd_sync d"
proof -
  obtain d g' where g: "gate_decide (\<lambda>_. []) sample (sample_host 5000) sample_core (gate_new (cf_energy sample_config)) = (d, g')"
    by fastforce
  have "hs_now (sample_host 5000) \<noteq> 0" "unat (hs_now (sample_host 9000)) < unat (hs_now (sample_host 5000)) + unat STALE_AFTER_MS"
    by (simp_all add: sample_host_def STALE_AFTER_MS_def)
  from console_explains_decision [OF g this, of sample_core] g show ?thesis by blast
qed

section \<open>No write goes unannounced\<close>

definition in_flight :: "notifier \<Rightarrow> bool" where
  "in_flight n \<longleftrightarrow> nf_task n = Debouncing \<or> nf_task n = Drained"

definition announced :: "notifier \<Rightarrow> bool" where
  "announced n \<longleftrightarrow> (nf_seen n < nf_writes n \<longrightarrow> nf_full n \<or> in_flight n) \<and> nf_seen n \<le> nf_writes n \<and>
     nf_rounds n + of_bool (in_flight n) + of_bool (nf_full n) \<le> nf_writes n"

lemma announced_step: "notifier_step n n' \<Longrightarrow> announced n \<Longrightarrow> announced n'"
  by (cases rule: notifier_step.cases, assumption)
    (auto simp: sink_applied_def task_step_def announced_def in_flight_def split: notify_task.splits if_splits)

lemma announced_reachable: "notifier_step\<^sup>*\<^sup>* notifier_new n \<Longrightarrow> announced n"
proof (induction rule: rtranclp_induct)
  case base
  show ?case by (simp add: notifier_new_def announced_def in_flight_def)
qed (rule announced_step)

definition catches_up :: "notifier \<Rightarrow> bool" where
  "catches_up n \<longleftrightarrow> (\<exists>n'. (\<lambda>a b. task_step a = Some b)\<^sup>*\<^sup>* n n' \<and> nf_seen n' = nf_writes n' \<and> nf_writes n' = nf_writes n)"

lemma catches_up_step: "task_step n = Some m \<Longrightarrow> nf_writes m = nf_writes n \<Longrightarrow> catches_up m \<Longrightarrow> catches_up n"
  unfolding catches_up_def by (metis (mono_tags, lifting) converse_rtranclp_into_rtranclp)

lemma catches_up_now: "nf_seen n = nf_writes n \<Longrightarrow> catches_up n"
  unfolding catches_up_def by blast

lemma task_catches_up:
  assumes "announced n"
  shows "catches_up n"
proof -
  have drained: "catches_up n" if "nf_task n = Drained" for n
  proof -
    have "task_step n = Some (n\<lparr>nf_task := Notifying, nf_seen := nf_writes n, nf_rounds := Suc (nf_rounds n)\<rparr>)"
      using that by (simp add: task_step_def)
    then show ?thesis by (rule catches_up_step) (simp_all add: catches_up_now)
  qed
  have debouncing: "catches_up n" if "nf_task n = Debouncing" for n
  proof -
    have "task_step n = Some (n\<lparr>nf_full := False, nf_task := Drained\<rparr>)" using that by (simp add: task_step_def)
    then show ?thesis by (rule catches_up_step) (simp_all add: drained)
  qed
  have receiving: "catches_up n" if "nf_task n = Receiving" "nf_full n" for n
  proof -
    have "task_step n = Some (n\<lparr>nf_full := False, nf_task := Debouncing\<rparr>)" using that by (simp add: task_step_def)
    then show ?thesis by (rule catches_up_step) (simp_all add: debouncing)
  qed
  have notifying: "catches_up n" if "nf_task n = Notifying" "nf_full n" for n
  proof -
    have "task_step n = Some (n\<lparr>nf_task := Receiving\<rparr>)" using that by (simp add: task_step_def)
    then show ?thesis by (rule catches_up_step) (simp_all add: receiving that)
  qed
  show ?thesis
  proof (cases "nf_seen n = nf_writes n")
    case False
    then have "nf_full n \<or> in_flight n" using assms by (auto simp: announced_def)
    then show ?thesis using drained debouncing receiving notifying by (cases "nf_task n") (auto simp: in_flight_def)
  qed (rule catches_up_now)
qed

text \<open>
  C17. No local write goes unannounced. Over any interleaving of local writes with the steps of the notifying task, a write that
  no round of notifications has started after is still in the channel or in the hands of the task, and the task alone,
  without a further write, gets to a round that covers every write so far; there are never more rounds than writes.
\<close>

theorem no_write_unannounced:
  assumes "notifier_step\<^sup>*\<^sup>* notifier_new n"
  shows "(nf_seen n < nf_writes n \<longrightarrow> nf_full n \<or> nf_task n = Debouncing \<or> nf_task n = Drained) \<and> nf_rounds n \<le> nf_writes n \<and>
     (\<exists>n'. (\<lambda>a b. task_step a = Some b)\<^sup>*\<^sup>* n n' \<and> nf_seen n' = nf_writes n' \<and> nf_writes n' = nf_writes n)"
proof -
  have a: "announced n" using assms by (rule announced_reachable)
  then have "catches_up n" by (rule task_catches_up)
  with a show ?thesis by (auto simp: announced_def in_flight_def catches_up_def)
qed

theorem no_write_unannounced_witness:
  "\<exists>n'. (\<lambda>a b. task_step a = Some b)\<^sup>*\<^sup>* (sink_applied notifier_new) n' \<and> nf_seen n' = 1"
proof -
  have "notifier_step\<^sup>*\<^sup>* notifier_new (sink_applied notifier_new)" using notifier_step.local_write by blast
  from no_write_unannounced [OF this] show ?thesis by (auto simp: sink_applied_def notifier_new_def)
qed

end
