(* ===== verification/Start_Up.thy ===== *)
theory Start_Up
  imports Daemon_Laws Convergence
begin

text \<open>
  Starting the daemon: the part of \<open>run_daemon\<close> in \<open>src/crates/nexusfs/src/daemon.rs\<close> that decides whether a repository is used and
  in which state. It opens the store, attaches the listener, checks the format and creates the repository if there is none; what
  follows only spawns the services modelled elsewhere.
\<close>

section \<open>Starting\<close>

definition ready_core :: "prims \<Rightarrow> (core, unit) comp" where
  "ready_core P = bindE require_current_format (\<lambda>_. bootstrap_if_needed P)"

definition start_node :: "prims \<Rightarrow> crates \<Rightarrow> key_crates \<Rightarrow> string option \<Rightarrow> config \<Rightarrow> entropy \<Rightarrow> (mem_store \<times> files, core \<times> identity \<times> string) comp" where
  "start_node P J K home cfg en =
     bindE (open_core P J K home cfg en) (\<lambda>(c, ident, token) s.
     case ready_core P (c\<lparr>local_ops := Some 0\<rparr>) of
       (Inl e, c') \<Rightarrow> (Inl e, stores c', snd s)
     | (Inr _, c') \<Rightarrow> (Inr (c', ident, token), stores c', snd s))"

section \<open>What checking and creating leave alone\<close>

text \<open>Only the stores change, and in them neither the device id nor the token.\<close>

definition settled :: "core \<Rightarrow> core \<Rightarrow> bool" where
  "settled c c' \<longleftrightarrow>
     c' = c\<lparr>stores := stores c'\<rparr> \<and> (\<forall>k \<in> {KEY_DEVICE_ID, KEY_ADMIN_TOKEN}. kv_get c' CF_META k = kv_get c CF_META k)"

lemma settled_po: "reflp settled" "transp settled"
proof -
  show "reflp settled" by (simp add: reflp_def settled_def)
  have "settled a d" if ab: "settled a b" and bd: "settled b d" for a b d
  proof -
    have "d = b\<lparr>stores := stores d\<rparr>" "b = a\<lparr>stores := stores b\<rparr>" using ab bd by (simp_all only: settled_def)
    then have "d = a\<lparr>stores := stores d\<rparr>" by (metis core.update_convs(1) core.surjective core.select_convs)
    then show ?thesis using ab bd by (simp add: settled_def)
  qed
  then show "transp settled" by (auto simp: transp_def)
qed

lemma settled_writes:
  "settled c (kv_put CF_STATE k v c)" "settled c (kv_del CF_STATE k c)" "settled c (put_blob h b c)"
  "settled c (set_head h c)" "settled c (set_state_root h c)" "settled c (set_format_version n c)"
  by (simp_all add: settled_def kv_put_def kv_del_def put_blob_def set_head_def set_state_root_def set_format_version_def mem_kv.get_put
      mem_kv.get_del KEY_DEVICE_ID_def KEY_ADMIN_TOKEN_def KEY_HEAD_CURRENT_def KEY_STATE_ROOT_def KEY_FORMAT_VERSION_def str_bytes_def)

lemma settled_trans: "settled a b \<Longrightarrow> settled b c \<Longrightarrow> settled a c"
  by (rule transpD [OF settled_po(2)])

lemma settled_grows: "grows c c' \<Longrightarrow> settled c c'"
  by (simp add: grows_def settled_def get_kv_def)

lemma settled_fold: "(\<And>x c. settled c (f x c)) \<Longrightarrow> settled c (fold f xs c)"
  by (induction xs arbitrary: c) (auto intro: settled_trans reflpD [OF settled_po(1)])

lemma settled_rebuild: "keeps settled (rebuild_inode_map P)"
proof (rule keepsI)
  fix c r c'
  assume r: "rebuild_inode_map P c = (r, c')"
  obtain r1 w where w: "walk_root P True c = (r1, w)" by (cases "walk_root P True c")
  have "walk_grows \<lparr>wk_map = fmempty, wk_visited = {||}, wk_core = c\<rparr> w"
    using w unfolding walk_root_def by (rule keepsD [OF keeps_materialize_tree])
  then have "settled c (wk_core w)" by (simp add: settled_grows)
  moreover have "settled a (drop_stale m a)" "settled a (put_fresh m a)" for a m
    unfolding drop_stale_def put_fresh_def put_imap_def
    by (rule settled_fold, auto simp: settled_writes reflpD [OF settled_po(1)] split: option.split)+
  ultimately have "settled c (wk_core w)" "settled c (put_fresh (wk_map w) (drop_stale (wk_map w) (wk_core w)))"
    using settled_trans by blast+
  then show "settled c c'" using r w by (auto simp: rebuild_inode_map_def split: sum.splits)
qed

lemma settled_snapshot: "keeps settled (build_snapshot P)"
proof -
  have "settled c (set_head h c')" if "put_object P ob c = (h, c')" for c ob h c'
    using settled_trans [OF settled_grows [OF grows_put_object [OF that]] settled_writes(4)] .
  then have h: "keeps settled (\<lambda>c. let (head, c') = put_object P (f c) c in (Inr head, set_head head c'))" for f
    by (auto intro!: keepsI split: prod.splits)
  show ?thesis
    unfolding build_snapshot_def
    by (intro keeps_bindE [OF settled_po(2)] keeps_basic [OF settled_po(1)] keeps_upd settled_writes h)
qed

lemma settled_bootstrap: "keeps settled (bootstrap_if_needed P)"
  unfolding bootstrap_if_needed_def stamp_current_format_def store_inode_def store_dir_def
  by (auto intro!: keeps_bindE [OF settled_po(2)] keeps_basic [OF settled_po(1)] keeps_upd settled_writes settled_rebuild settled_snapshot)

lemma settled_stamped: "settled c (stamped c)"
  by (simp add: stamped_def settled_writes reflpD [OF settled_po(1)])

lemma snapshot_head:
  assumes "build_snapshot P c = (Inr h, c')"
  shows "get_head c' = Some h"
proof -
  obtain sr where "compute_state_root P c = Inr sr" using assms by (auto simp: build_snapshot_def bindE_eq_Inr)
  from build_snapshot_ok [OF this] show ?thesis using assms by auto
qed

lemma check_then_create:
  assumes "ready_core P c = (Inr u, c')"
  shows "opened c'" "settled c c'"
proof -
  from assms have f: "effective_version c = CURRENT_FORMAT_VERSION" "isl (format_version c) = False"
    and b: "bootstrap_if_needed P (stamped c) = (Inr u, c')"
    by (auto simp: ready_core_def bindE_eq_Inr require_current_format_def check_format_eq classify_format_def split: sum.splits if_splits)
  show "settled c c'" by (rule settled_trans [OF settled_stamped keepsD [OF settled_bootstrap b]])
  show "opened c'"
  proof (cases "get_head (stamped c)")
    case None
    then obtain c1 h c2 where "build_snapshot P c1 = (Inr h, c2)" "c' = stamp_current_format c2"
      using b by (auto simp: bootstrap_if_needed_def bindE_eq_Inr)
    then show ?thesis using snapshot_head [of P c1 h c2]
      by (simp add: opened_def stamp_current_format_def get_head_def read_hash_def set_format_version_def format_version_def)
  next
    case (Some h)
    then have "c' = stamped c" using b by (simp add: bootstrap_if_needed_def bindE_def)
    then show ?thesis using Some f format_version_stamped [of c] by (cases "format_version c") (simp_all add: opened_def)
  qed
qed

lemma opened_again: "opened c \<Longrightarrow> ready_core P c = (Inr (), c)"
  by (simp add: ready_core_def opened_def bindE_def require_current_format_def check_format_def classify_format_def bootstrap_if_needed_def)

section \<open>What opening leaves alone\<close>

text \<open>Opening writes the device id and the token, and no other row and no blob.\<close>

definition rows_kept :: "mem_store \<Rightarrow> mem_store \<Rightarrow> bool" where
  "rows_kept st st' \<longleftrightarrow> ms_blobs st' = ms_blobs st \<and>
     (\<forall>cf k. (cf, k) \<in> {(CF_META, KEY_DEVICE_ID), (CF_META, KEY_ADMIN_TOKEN)} \<or> get_kv st' cf k = get_kv st cf k)"

lemma rows_kept_put: "k \<in> {KEY_DEVICE_ID, KEY_ADMIN_TOKEN} \<Longrightarrow> rows_kept st (put_kv CF_META k v st)"
  by (auto simp: rows_kept_def mem_kv.get_put) (simp_all add: put_kv_def)

lemma rows_kept_get:
  "rows_kept st st' \<Longrightarrow> (cf, k) \<notin> {(CF_META, KEY_DEVICE_ID), (CF_META, KEY_ADMIN_TOKEN)} \<Longrightarrow> get_kv st' cf k = get_kv st cf k"
  unfolding rows_kept_def by blast

lemma other_rows:
  "(CF_META, KEY_FORMAT_VERSION) \<notin> {(CF_META, KEY_DEVICE_ID), (CF_META, KEY_ADMIN_TOKEN)}"
  "(CF_META, KEY_HEAD_CURRENT) \<notin> {(CF_META, KEY_DEVICE_ID), (CF_META, KEY_ADMIN_TOKEN)}"
  "(CF_STATE, k) \<notin> {(CF_META, KEY_DEVICE_ID), (CF_META, KEY_ADMIN_TOKEN)}"
  by (simp_all add: KEY_DEVICE_ID_def KEY_ADMIN_TOKEN_def KEY_FORMAT_VERSION_def KEY_HEAD_CURRENT_def CF_META_def CF_STATE_def str_bytes_def)

lemma opening_keeps_rows: "open_core P J K home cfg en s = (r, s') \<Longrightarrow> rows_kept (fst s) (fst s')"
proof -
  let ?R = "\<lambda>s s' :: mem_store \<times> files. rows_kept (fst s) (fst s')"
  have po: "reflp ?R" "transp ?R" by (auto simp: reflp_def transp_def rows_kept_def) metis+
  have refl: "rows_kept st st" for st by (simp add: rows_kept_def)
  have files: "keeps ?R (on_files (identity_load_or_create P K x p))" "keeps ?R (on_files (repo_cipher J home cfg y))" for x y p
    by (rule keepsI, auto simp: on_files_def refl split: prod.splits)+
  have store: "keeps ?R (on_store (load_or_create_device_id d))" "keeps ?R (on_store (admin_token cfg t))" for d t
    by (rule keepsI, auto simp: on_store_def device_id_cases admin_token_def ret_def admin_token_cases refl rows_kept_put
        split: prod.splits option.splits if_splits)+
  have "keeps ?R (open_core P J K home cfg en)"
    unfolding open_core_def by (intro keeps_bindE [OF po(2)] files store keeps_basic [OF po(1)])
  then show "open_core P J K home cfg en s = (r, s') \<Longrightarrow> rows_kept (fst s) (fst s')" by (rule keepsD)
qed

section \<open>Restart, refusal and first start\<close>

lemma start_node_eq:
  "open_core P J K home cfg en s = (Inl e, s0) \<Longrightarrow> start_node P J K home cfg en s = (Inl e, s0)"
  "open_core P J K home cfg en s = (Inr (c0, ident, tok), s0) \<Longrightarrow> ready_core P (c0\<lparr>local_ops := Some 0\<rparr>) = (q, c) \<Longrightarrow>
     start_node P J K home cfg en s = ((case q of Inl e \<Rightarrow> Inl e | Inr _ \<Rightarrow> Inr (c, ident, tok)), stores c, snd s0)"
  by (simp_all add: start_node_def bindE_def split: sum.split)

lemma start_node_cases:
  obtains (failed) e s0 where "open_core P J K home cfg en s = (Inl e, s0)"
  | (opened) c0 ident tok s0 q c where "open_core P J K home cfg en s = (Inr (c0, ident, tok), s0)"
      "ready_core P (c0\<lparr>local_ops := Some 0\<rparr>) = (q, c)"
proof -
  obtain r s0 where o: "open_core P J K home cfg en s = (r, s0)" by (cases "open_core P J K home cfg en s")
  show thesis
  proof (cases r)
    case (Inl e)
    then show thesis using o by (intro failed) simp
  next
    case (Inr x)
    obtain c0 ident tok where x: "x = (c0, ident, tok)" by (cases x)
    obtain q c where "ready_core P (c0\<lparr>local_ops := Some 0\<rparr>) = (q, c)" by (cases "ready_core P (c0\<lparr>local_ops := Some 0\<rparr>)")
    then show thesis using o Inr x by (intro opened) simp_all
  qed
qed

lemma opened_stores:
  assumes "open_core P J K home cfg en s = (Inr (c, ident, tok), s')"
  shows "stores c = fst s'" "device_held (fst s') (core_device c)"
proof -
  obtain st1 d fs2 key st2 where "load_or_create_device_id (en_device en) (fst s) = (Inr d, st1)"
      "admin_token cfg (en_token en) st1 = (Inr tok, st2)" and s': "s' = (st2, fs2)"
    and c: "c = (core_new st2 d)\<lparr>sealing_secret := Some (id_sealing ident), cipher := key,
              core_proofs := policy_from_config (sy_proof_mode (cf_security cfg))\<rparr>"
    using assms by (auto simp: open_core_def bindE_eq_Inr on_files_def on_store_def reads_def ret_def split: prod.splits)
  then have "device_held st2 d" using did.created token_keeps_device by blast
  then show "stores c = fst s'" "device_held (fst s') (core_device c)" by (simp_all add: c s' core_new_def)
qed

text \<open>A store whose stamp is of another format is refused as it is after opening.\<close>

lemma start_refused:
  assumes "get_kv (fst s) CF_META KEY_FORMAT_VERSION = Some (to_be_bytes 4 v)" "v \<noteq> CURRENT_FORMAT_VERSION"
    and o: "open_core P J K home cfg en s = (Inr (c, ident, tok), s0)"
  shows "start_node P J K home cfg en s = (Inl (if v < CURRENT_FORMAT_VERSION then NeedsMigrate v else TooNew v), s0)"
proof -
  let ?c = "c\<lparr>local_ops := Some 0\<rparr>"
  note st = opened_stores(1) [OF o]
  have "get_kv (fst s0) CF_META KEY_FORMAT_VERSION = Some (to_be_bytes 4 v)"
    using rows_kept_get [OF opening_keeps_rows [OF o] other_rows(1)] assms(1) by simp
  then have "format_version ?c = Inr (Some v)" using st by (simp add: format_version_def)
  then have "ready_core P ?c = (Inl (if v < CURRENT_FORMAT_VERSION then NeedsMigrate v else TooNew v), ?c)"
    using assms(2) by (simp add: ready_core_def bindE_def require_current_format_def check_format_stamped classify_format_def raise_def)
  from start_node_eq(2) [OF o this] show ?thesis using st by simp
qed

text \<open>
  C15. A node survives a restart. Whatever was in the store and in the files, once the daemon has started, starting it again with the
  same configuration and other random draws gives the same core, that is the same device id, repository key, policy and stores,
  the same signing and sealing keys and the same admin token, and writes nothing. The repository it serves is on the current
  format and has a head; the token is never empty, so the console is not opened to everyone by accident; the core opens envelopes
  with the identity's own sealing key and encrypts exactly when the configuration says so.
\<close>

theorem node_restart:
  assumes formats: "key_crates_ok K" "hex_ok J"
    and started: "start_node P J K home cfg en s = (Inr (c, ident, tok), s')"
  shows "start_node P J K home cfg en' s' = (Inr (c, ident, tok), s') \<and> opened c \<and> tok \<noteq> [] \<and> stores c = fst s' \<and>
     sealing_secret c = Some (id_sealing ident) \<and> (cipher c \<noteq> None \<longleftrightarrow> sy_encrypt_at_rest (cf_security cfg))"
proof -
  obtain c0 s0 u where o: "open_core P J K home cfg en s = (Inr (c0, ident, tok), s0)"
    and b: "ready_core P (c0\<lparr>local_ops := Some 0\<rparr>) = (Inr u, c)" and s': "s' = (stores c, snd s0)"
    using started
  proof (cases rule: start_node_cases [of P J K home cfg en s])
    case (opened c1 i t s1 q c2)
    then show ?thesis using started start_node_eq(2) [OF opened] that by (cases q) auto
  qed (auto dest: start_node_eq(1))
  note st = check_then_create [OF b]
  have "c = c0\<lparr>local_ops := Some 0, stores := stores c\<rparr>" using st(2) by (simp add: settled_def)
  moreover have "c0\<lparr>stores := stores c, local_ops := Some 0\<rparr> = c0\<lparr>local_ops := Some 0, stores := stores c\<rparr>" by simp
  ultimately have c: "c0\<lparr>stores := stores c, local_ops := Some 0\<rparr> = c" by (simp only:)
  have kept: "get_kv (stores c) CF_META k = get_kv (fst s0) CF_META k" if "k \<in> {KEY_DEVICE_ID, KEY_ADMIN_TOKEN}" for k
    using st(2) that opened_stores(1) [OF o] by (auto simp: settled_def)
  note again = open_core_again [OF formats o kept]
  have "ready_core P (c0\<lparr>stores := stores c, local_ops := Some 0\<rparr>) = (Inr (), c)" unfolding c by (rule opened_again [OF st(1)])
  from start_node_eq(2) [OF again(1) this] have "start_node P J K home cfg en' s' = (Inr (c, ident, tok), s')" by (simp add: s')
  moreover have "sealing_secret c = sealing_secret c0" "cipher c = cipher c0" by (subst c [symmetric], simp)+
  ultimately show ?thesis using again(2,4,5) st(1) s' by simp
qed

text \<open>
  C16. A store of another format is left alone. If the stamp of the store is not the current format, the daemon does not start: it
  says that an older store needs migrating and that a newer one cannot be read, unless opening already failed, and no blob and no
  row of the store has changed but the node's device id and admin token.
\<close>

theorem foreign_store_kept:
  assumes "get_kv (fst s) CF_META KEY_FORMAT_VERSION = Some (to_be_bytes 4 v)" "v \<noteq> CURRENT_FORMAT_VERSION"
    and "start_node P J K home cfg en s = (r, s')"
  shows "rows_kept (fst s) (fst s') \<and>
    (case open_core P J K home cfg en s of
       (Inl e, _) \<Rightarrow> r = Inl e
     | (Inr _, _) \<Rightarrow> r = Inl (if v < CURRENT_FORMAT_VERSION then NeedsMigrate v else TooNew v))"
proof (cases rule: start_node_cases [of P J K home cfg en s])
  case (failed e s0)
  then show ?thesis using assms(3) start_node_eq(1) [OF failed] opening_keeps_rows [OF failed] by auto
next
  case (opened c0 ident tok s0 q c)
  then show ?thesis using assms(3) start_refused [OF assms(1,2) opened(1)] opening_keeps_rows [OF opened(1)] by auto
qed

text \<open>On an empty store the first start succeeds as soon as opening does, and serves an empty root directory.\<close>

theorem first_start_usable:
  assumes "codec_ok P" and o: "open_core P J K home cfg en (mem_new, fs) = (Inr (c0, ident, tok), s0)"
  shows "\<exists>c. start_node P J K home cfg en (mem_new, fs) = (Inr (c, ident, tok), stores c, snd s0) \<and> materialize_dir P c ROOT_INODE = Inr []"
proof -
  let ?c = "c0\<lparr>local_ops := Some 0\<rparr>"
  note s = opened_stores(1) [OF o]
  have keys: "kv_get ?c CF_META KEY_FORMAT_VERSION = None" "kv_get ?c CF_META KEY_HEAD_CURRENT = None" "kv_get ?c CF_STATE k = None" for k
    using opening_keeps_rows [OF o, THEN rows_kept_get, OF other_rows(1)] opening_keeps_rows [OF o, THEN rows_kept_get, OF other_rows(2)]
      opening_keeps_rows [OF o, THEN rows_kept_get, OF other_rows(3)]
    by (simp_all add: s mem_new_def get_kv_def)
  have f: "format_version ?c = Inr None" "get_head ?c = None" using keys by (simp_all add: format_version_def get_head_def read_hash_def)
  then have e: "effective_version ?c = CURRENT_FORMAT_VERSION" "stamped ?c = set_format_version CURRENT_FORMAT_VERSION ?c"
    by (simp_all add: effective_version_def stamped_def)
  then have r: "require_current_format ?c = (Inr (), stamped ?c)"
    using f by (simp add: require_current_format_def bindE_def check_format_eq classify_format_def)
  have "imap_ok (stamped ?c)" "get_head (stamped ?c) = None"
    using keys unfolding e(2) by (simp_all add: imap_ok_def get_head_def read_hash_def set_format_version_def)
  from bootstrap_ok [OF assms(1) this] obtain c where
    b: "bootstrap_if_needed P (stamped ?c) = (Inr (), c)" "materialize_dir P c ROOT_INODE = Inr []" by blast
  have "ready_core P ?c = (Inr (), c)" by (simp add: ready_core_def bindE_def r b(1))
  from start_node_eq(2) [OF o this] show ?thesis using b(2) by auto
qed

theorem node_restart_witness:
  "\<exists>c ident tok s'. start_node sample sample_crates sample_key_crates None sample_config (sample_entropy 7) (mem_new, Map.empty) =
       (Inr (c, ident, tok), s') \<and>
     start_node sample sample_crates sample_key_crates None sample_config (sample_entropy 9) s' = (Inr (c, ident, tok), s')"
proof -
  obtain c0 ident tok s0 where
    "open_core sample sample_crates sample_key_crates None sample_config (sample_entropy 7) (mem_new, Map.empty) = (Inr (c0, ident, tok), s0)"
    by (rule sample_opens)
  from first_start_usable [OF sample_ok(1) this] obtain c where o:
    "start_node sample sample_crates sample_key_crates None sample_config (sample_entropy 7) (mem_new, Map.empty) =
       (Inr (c, ident, tok), stores c, snd s0)" by blast
  from node_restart [OF sample_key_crates_ok sample_crates_ok(1) o, of "sample_entropy 9"] o show ?thesis by blast
qed

theorem foreign_store_kept_witness:
  "\<exists>r s'. start_node sample sample_crates sample_key_crates None sample_config (sample_entropy 7)
       (put_kv CF_META KEY_FORMAT_VERSION (to_be_bytes 4 (9 :: u32)) mem_new, Map.empty) = (r, s') \<and>
     rows_kept (put_kv CF_META KEY_FORMAT_VERSION (to_be_bytes 4 (9 :: u32)) mem_new) (fst s')"
proof -
  let ?st = "put_kv CF_META KEY_FORMAT_VERSION (to_be_bytes 4 (9 :: u32)) mem_new"
  let ?go = "start_node sample sample_crates sample_key_crates None sample_config (sample_entropy 7) (?st, Map.empty)"
  obtain r s' where g: "?go = (r, s')" by (cases ?go)
  have "get_kv (fst (?st, Map.empty :: files)) CF_META KEY_FORMAT_VERSION = Some (to_be_bytes 4 (9 :: u32))" by (simp add: mem_kv.get_put)
  from foreign_store_kept [OF this _ g] g show ?thesis by (auto simp: CURRENT_FORMAT_VERSION_def)
qed

text \<open>
  The comment at the check says it comes before anything is written. Opening comes first, so a store of a later format has a device
  id written into it by the build that then refuses it.
\<close>

theorem refused_store_written:
  assumes "get_kv (fst s) CF_META KEY_FORMAT_VERSION = Some (to_be_bytes 4 v)" "v \<noteq> CURRENT_FORMAT_VERSION"
    and "open_core P J K home cfg en s = (Inr (c, ident, tok), s0)"
  shows "\<exists>e s'. start_node P J K home cfg en s = (Inl e, s') \<and> device_held (fst s') (core_device c)"
  using start_refused [OF assms] opened_stores(2) [OF assms(3)] by blast

end
