(* ===== verification/Command_Line.thy ===== *)
theory Command_Line
  imports Daemon
begin

text \<open>
  The verbs of \<open>src/crates/nexusfs/src/cli.rs\<close> and their dispatch in \<open>main.rs\<close>. Parsing the arguments is the \<open>clap\<close> crate's; the daemon, which runs
  until it is interrupted, is an argument. Every other verb is the command modelled in \<open>Commands\<close>, \<open>Portable_Proofs\<close> or
  \<open>Daemon\<close>, on the repository its configuration names.
\<close>

section \<open>Dispatch\<close>

datatype cli_command =
    CmdDaemon
  | CmdStatus
  | CmdMkdir string bool
  | CmdPut string string
  | CmdCat string
  | CmdLs string
  | CmdRm string
  | CmdVerify
  | CmdGc bool
  | CmdMigrate
  | CmdProve "string option" "string option" "string option"
  | CmdCheckProof string "string option"
  | CmdPeer peer_action
  | CmdShare bool
  | CmdRotate "string option" bool
  | CmdMv string string

definition on_terminal :: "(terminal, 'a) comp \<Rightarrow> 'a command" where
  "on_terminal m s = (case m (snd s) of (r, t) \<Rightarrow> (r, fst s, t))"

definition run_cli :: "unit command \<Rightarrow> unit command \<Rightarrow> prims \<Rightarrow> crates \<Rightarrow> identity \<Rightarrow> u64 \<Rightarrow> cli_command \<Rightarrow> unit command" where
  "run_cli daemon status_cmd P J ident now cmd =
     (case cmd of
        CmdDaemon \<Rightarrow> daemon
      | CmdStatus \<Rightarrow> status_cmd
      | CmdMkdir path parents \<Rightarrow> run_mkdir P ident now path parents
      | CmdPut source dest \<Rightarrow> run_put P ident now source dest
      | CmdCat path \<Rightarrow> run_cat P path
      | CmdLs path \<Rightarrow> run_ls P path
      | CmdRm path \<Rightarrow> run_rm P ident now path
      | CmdMv from_path to_path \<Rightarrow> run_mv P ident now from_path to_path
      | CmdVerify \<Rightarrow> run_verify P J
      | CmdGc do_apply \<Rightarrow> run_gc P J do_apply
      | CmdMigrate \<Rightarrow> run_migrate P
      | CmdPeer action \<Rightarrow> run_peer P J ident action
      | CmdShare do_apply \<Rightarrow> run_share P ident now do_apply
      | CmdRotate path do_apply \<Rightarrow> run_rotate P J ident now path do_apply
      | CmdProve path inode_arg out \<Rightarrow> run_prove P J path inode_arg out
      | CmdCheckProof f root_arg \<Rightarrow> on_terminal (run_check_proof P J f root_arg))"

section \<open>Looking changes nothing\<close>

text \<open>The verbs that inspect, and those that survey because \<open>--apply\<close> was not given.\<close>

fun inspects :: "cli_command \<Rightarrow> bool" where
  "inspects CmdStatus = True"
| "inspects (CmdCat _) = True"
| "inspects (CmdLs _) = True"
| "inspects CmdVerify = True"
| "inspects (CmdGc do_apply) = (\<not> do_apply)"
| "inspects (CmdProve _ _ _) = True"
| "inspects (CmdCheckProof _ _) = True"
| "inspects (CmdPeer action) = (action = PeerIdentity \<or> action = PeerList)"
| "inspects (CmdShare do_apply) = (\<not> do_apply)"
| "inspects (CmdRotate _ do_apply) = (\<not> do_apply)"
| "inspects _ = False"

definition untouched :: "core \<times> terminal \<Rightarrow> core \<times> terminal \<Rightarrow> bool" where
  "untouched s s' \<longleftrightarrow> (opened (fst s) \<longrightarrow> fst s' = fst s)"

lemma untouched_po: "reflp untouched" "transp untouched"
  by (auto simp: reflp_def transp_def untouched_def)

lemma keeps_same: "(\<And>c. snd (m c) = c) \<Longrightarrow> keeps untouched (on_core m)"
  by (auto simp: keeps_def untouched_def on_core_def split: prod.split) (metis snd_conv)

lemmas looking = keeps_bindE [OF untouched_po(2)] keeps_basic [OF untouched_po(1)]

lemma looking_steps:
  "keeps untouched (open_repo P)" "keeps untouched (says ls)" "keeps untouched (prints ps)" "keeps untouched (on_core (reads f))"
  "keeps untouched (lift_result x)" "keeps untouched (write_text file_name content)" "keeps untouched (on_terminal m)"
  by (auto simp: keeps_def untouched_def open_repo_opened says_def prints_def on_core_def lift_result_def write_text_def on_terminal_def
      split: prod.split)

lemma equals_po: "reflp (\<lambda>c c'. c' = (c :: core))" "transp (\<lambda>c c'. c' = (c :: core))"
  by (auto simp: reflp_def transp_def)

lemmas reading_only = keeps_bindE [OF equals_po(2)] keeps_basic [OF equals_po(1)]

lemma keeps_if: "keeps R m \<Longrightarrow> keeps R n \<Longrightarrow> keeps R (if b then m else n)"
  by simp

lemma keeps_equal: "keeps (\<lambda>c c'. c' = c) m \<Longrightarrow> snd (m c) = c"
  by (simp add: keeps_def)

lemma survey_reseal: "snd (reseal_to_recipients P ident now True c) = c"
proof -
  have "keeps (\<lambda>c c'. c' = c) (reseal_file P ident now True recips f report)" for recips f report
    unfolding reseal_file_def reseal_info_def Let_def
    by (auto intro!: reading_only split: option.split object.split sum.split)
  then have "keeps (\<lambda>c c'. c' = c) (reseal_loop P ident now True recips fs report)" for recips fs report
    by (induction fs arbitrary: report) (auto intro!: reading_only)
  then show ?thesis unfolding reseal_to_recipients_def by (intro keeps_equal keeps_if reading_only)
qed

lemma survey_rotate: "snd (rotate_content P ident path now True c) = c"
proof -
  have "keeps (\<lambda>c c'. c' = c) (rotate_file P ident now True target f report)" for target f report
    unfolding rotate_file_def rotate_node_def Let_def
    by (auto intro!: reading_only split: option.split object.split sum.split)
  then have "keeps (\<lambda>c c'. c' = c) (rotate_loop P ident now True target fs report)" for target fs report
    by (induction fs arbitrary: report) (auto intro!: reading_only)
  then show ?thesis unfolding rotate_content_def by (intro keeps_equal keeps_if reading_only)
qed

lemma keeps_ls: "keeps untouched (ls_loop P es)"
  by (induction es) (auto intro!: looking looking_steps split: entry_type.split)

text \<open>
  On an opened repository, whatever a verb that inspects or surveys prints and whether or not it fails, the repository is
  afterwards exactly as it was: the status, reading and listing, the audit, proving and checking proofs, the survey of garbage, and
  re-sealing and rotation without \<open>--apply\<close>.
\<close>

theorem inspecting_writes_nothing:
  assumes "opened c" "inspects cmd"
    and "run_cli daemon (run_status why human P J home cfg h tok) P J ident now cmd (c, t) = (r, c', t')"
  shows "c' = c"
proof -
  note steps = looking looking_steps keeps_ls keeps_same survey_reads survey_reseal survey_rotate
  have "keeps untouched (run_status why human P J home cfg h tok)" unfolding run_status_def by (intro steps)
  moreover have "keeps untouched (run_cat P p)" "keeps untouched (run_ls P p)" for p
    unfolding run_cat_def run_ls_def by (intro steps)+
  moreover have "keeps untouched (run_verify P J)" unfolding run_verify_def by (intro looking looking_steps) (auto intro!: steps)
  moreover have "keeps untouched (run_gc P J False)" unfolding run_gc_def by (intro looking looking_steps) (auto intro!: steps)
  moreover have "keeps untouched (run_share P ident now False)" unfolding run_share_def
    by (intro looking looking_steps) (auto intro!: steps)
  moreover have "keeps untouched (run_rotate P J ident now p False)" for p unfolding run_rotate_def
    by (intro looking looking_steps) (auto intro!: steps)
  moreover have "keeps untouched (run_prove P J p i out)" for p i out
    unfolding run_prove_def Let_def by (intro looking looking_steps) (auto intro!: steps split: option.split)
  moreover have "keeps untouched (run_peer P J ident PeerIdentity)" "keeps untouched (run_peer P J ident PeerList)"
    unfolding run_peer_def by (auto intro!: steps)
  ultimately have "keeps untouched (run_cli daemon (run_status why human P J home cfg h tok) P J ident now cmd)"
    using assms(2) by (cases cmd) (auto simp: run_cli_def intro: looking_steps)
  from keepsD [OF this assms(3)] show ?thesis using assms(1) by (simp add: untouched_def)
qed

end
