(* ===== verification/Spec2Isabelle.thy ===== *)
theory Spec2Isabelle
  imports Crdt Merkle_Tree Clock Peers Convergence Energy Gc_Laws Catch_Up Repository_Audit Share_Laws S3_Laws Padding Transparent
    State_Root Sled_Store Chunk_Reader Browser_Laws Start_Up Command_Line
begin

text \<open>
  A verification development for NexusFS, an offline-first replicated filesystem written in Rust (\<open>src/crates\<close>).

  \<^bold>\<open>The program.\<close> A node keeps a log of signed operations and a namespace computed from it. An operation (create, make a
  directory, write, rename, unlink, set attributes) is made locally or pulled from a peer, verified, appended to the log and
  applied to conflict-free replicated records: a directory is an observed-remove map from names to entries, the content and the
  attributes of an inode are last-writer-wins registers. What cannot be applied yet is parked and retried. File content is
  chunked, addressed by hash and, when encryption is on, sealed under a fresh key that is itself sealed to every enrolled
  peer. The inode map is committed to by a Merkle tree whose root operations can carry as evidence. Nodes exchange clock
  summaries, operations and chunks in short authenticated sessions, as often as a scheduler that watches power, heat and link
  allows. A facade serves the tree as S3 buckets, a console shows the node's state, a command line works on the repository, and a
  browser build runs several replicas in one page.

  \<^bold>\<open>How the theories follow the sources.\<close> Paths are under \<open>src/crates\<close>.

  \<^item> \<open>Prelude\<close>: errors as the sum \<open>error + 'a\<close>, state-passing computations (\<open>comp\<close>, \<open>bindE\<close>), what a computation keeps of the state
    (\<open>keeps\<close>), byte encodings of words, finite maps with the order of a \<open>BTreeMap\<close>. \<open>Text\<close>: the string methods of the standard
    library. \<open>Sample\<close>: a concrete choice of the primitives, for the examples.
  \<^item> \<open>Crdt\<close>: \<open>crdt/src\<close>. \<open>Merkle\<close>, \<open>Merkle_Tree\<close>: \<open>zk/src/merkle.rs\<close>. \<open>Transparent\<close>: \<open>zk/src/lib.rs\<close> and \<open>transparent.rs\<close>.
  \<^item> \<open>Proto\<close>, \<open>Wire\<close>: \<open>proto/src\<close>, \<open>net/src/codec.rs\<close> and \<open>replication.rs\<close>. \<open>Storage\<close>, \<open>Sled_Store\<close>: \<open>storage/src\<close>. \<open>Crypto\<close>: \<open>crypto/src\<close>.
  \<^item> \<open>Keys\<close>, \<open>Object\<close>, \<open>State\<close>, \<open>Clock\<close>, \<open>Content\<close>, \<open>Chunk_Reader\<close>: \<open>core/src/state.rs\<close>, \<open>object.rs\<close>, \<open>inode.rs\<close>, \<open>chunker.rs\<close>, \<open>codec.rs\<close>, \<open>hash.rs\<close>.
  \<^item> \<open>Namespace\<close>: \<open>core/src/namespace.rs\<close>. \<open>Snapshot\<close>: \<open>snapshot.rs\<close>. \<open>Evidence\<close>, \<open>Repository_Audit\<close>: \<open>proof.rs\<close>. \<open>Format\<close>: \<open>format.rs\<close>.
  \<^item> \<open>Apply\<close>: \<open>core/src/apply.rs\<close>, with its lemmas in \<open>Core_Rel\<close>, \<open>Apply_Frame\<close>, \<open>Drain\<close> and \<open>Convergence\<close>.
  \<^item> \<open>Ops\<close>, \<open>Ops_Laws\<close>: \<open>core/src/ops.rs\<close>. \<open>Gc\<close>, \<open>Gc_Laws\<close>: \<open>gc.rs\<close>. \<open>Share\<close>, \<open>Share_Laws\<close>: \<open>share.rs\<close>.
  \<^item> \<open>Peers\<close>: \<open>core/src/peers.rs\<close> and \<open>net/src/trust.rs\<close>. \<open>Session\<close>, \<open>Session_Laws\<close>, \<open>Catch_Up\<close>: \<open>net/src/session.rs\<close>. \<open>Sync\<close>:
    \<open>net/src/peers.rs\<close>, \<open>core/src/fetch.rs\<close> and \<open>access.rs\<close>.
  \<^item> \<open>Energy\<close>: \<open>energy/src\<close>. \<open>S3\<close>, \<open>S3_Laws\<close>: \<open>s3/src\<close>. \<open>Padding\<close>: \<open>privacy/src\<close>. \<open>Admin\<close>: \<open>admin/src\<close>.
  \<^item> \<open>Commands\<close>, \<open>Portable_Proofs\<close>: \<open>nexusfs/src/fsops.rs\<close>. \<open>Command_Line\<close>: \<open>cli.rs\<close> and \<open>main.rs\<close>. \<open>Key_Files\<close>: the key files of
    \<open>crypto/src/identity.rs\<close> and \<open>repo.rs\<close>. \<open>Daemon\<close>, \<open>Daemon_Laws\<close>, \<open>Start_Up\<close>: \<open>nexusfs/src/config.rs\<close> and \<open>daemon.rs\<close>.
  \<^item> \<open>Browser\<close>, \<open>Browser_Laws\<close>: \<open>wasm/src\<close>. \<open>State_Root\<close> and \<open>Log_Laws\<close>: what every operation of the core keeps of the root, the log
    and the queue.

  \<^bold>\<open>State and effects.\<close> \<open>CoreState\<close> is the record \<open>core\<close>: its stores (a \<open>mem_store\<close>), device, key material and policies, and two
  counters that stand for effects, the calls of the listener of local operations and the values drawn from the random source.
  A method that reads is a function of the state into a result; one that writes returns the state it leaves, also when it
  fails half way. A session runs on the state and on an arbitrary stream, the sync loop on the state and on an arbitrary
  network. Hashing, signatures, authenticated encryption, key agreement, the random source and the postcard encoding are the
  fields of the record \<open>prims\<close>, with named hypotheses where a theorem needs them: \<open>codec_ok\<close> (decoding undoes encoding),
  \<open>aead_ok\<close>, \<open>aead_tagged\<close>, \<open>aead_binding\<close> (authenticated encryption), \<open>dh_ok\<close> (both sides agree), and that the hash does not
  collide on the strings at hand. \<open>Sample\<close> has primitives that satisfy them.

  \<^bold>\<open>Interfaces.\<close> \<open>Storage\<close> states what the core relies on in a store as the locales \<open>kv_store\<close> and \<open>blob_store\<close>, \<open>Crdt\<close> what
  replication relies on in a merge as \<open>merge_laws\<close>; both are interpreted on the model's own operations. \<open>Core_Rel\<close> states when a
  relation between states is kept by writing records (\<open>record_rel\<close>), by maintaining the map (\<open>imap_rel\<close>, \<open>write_rel\<close>) and by the
  whole of applying (\<open>op_rel\<close>, \<open>apply_rel\<close>), \<open>Session_Laws\<close> by every session (\<open>session_rel\<close>), and \<open>Sync\<close> carries it through the
  loop; the interpretations give the frame lemmas, the invariants of \<open>State_Root\<close> and \<open>Log_Laws\<close> and the safety properties
  against peers. \<open>Key_Files\<close> states what a \<open>load_or_create\<close> promises as \<open>persistent\<close>, interpreted on the identity, the
  repository key, the device id and the admin token, and \<open>Chunk_Reader\<close> what a reader of bytes promises as \<open>byte_source\<close>.

  \<^bold>\<open>What is shown.\<close>

  \<^item> Replication: replicas that applied the same operations hold the same state, applying refines an abstract history, refused
    operations change nothing, applying twice is applying once, and the parked queue settles (\<open>Convergence\<close>, \<open>Apply_Frame\<close>,
    \<open>Drain\<close>); merges of maps and registers agree (\<open>Crdt\<close>). The bookkeeping of a reachable replica is well-formed and no accepted
    operation is lost (\<open>Log_Laws\<close>); two browser replicas that exchange their exports agree (\<open>Browser_Laws\<close>).
  \<^item> Sessions: a completed pull from an honest node catches up, no peer can corrupt the log, the store or the pinned keys, in one
    session or over the whole loop, a pull knows whom it talked to, summaries neither hide nor invent operations (\<open>Catch_Up\<close>,
    \<open>Session_Laws\<close>, \<open>Sync\<close>, \<open>Clock\<close>), notifications are throttled, and an on-demand read reports exactly what is missing.
  \<^item> Commitment: inclusion and absence proofs are sound and complete and the root binds the map (\<open>Merkle_Tree\<close>); the audit passes
    exactly on sound repositories (\<open>Repository_Audit\<close>); the stored root is the commitment of the stored map after any completed
    operations (\<open>State_Root\<close>); an exported proof is accepted and the checker is not fooled by an edited file (\<open>Portable_Proofs\<close>).
  \<^item> Content: what is written reads back, encrypted or not, by node and by path; collection keeps what is live and a second pass finds
    nothing; the sled backend refines the store the core is modelled on (\<open>Sled_Store\<close>); re-sealing reaches every recipient; rotation keeps the bytes, and what it does without a repository cipher.
  \<^item> Bounds and errors: the scheduler stays within the free space and never gives a worse reading more, format stamps and migration,
    the S3 facade's authentication and paging, padding.
  \<^item> The node: a restart gives the same node and writes nothing, a store of another format is refused and left alone, the console needs the token, changes nothing and explains the decision replication
    acted on, every local write is announced, and the verbs that inspect leave the repository alone (\<open>Admin\<close>, \<open>Start_Up\<close>,
    \<open>Daemon_Laws\<close>, \<open>Command_Line\<close>).

  \<^bold>\<open>Bounds and fuel.\<close> Loops over a worklist terminate by a measure on the inodes not yet seen. The walk of the tree and the listing
  recurse with fuel one above the bound the code itself imposes on nodes and entries, and the retry of parked operations with one
  more than the rows of the queue; \<open>survey_walk_agrees\<close>, \<open>walk_never_out_of_fuel\<close> and \<open>drain_pending_settles\<close> show that the fuel
  never runs out. The loops of a session have none: a round of operations that goes on uses up the session's limit, a round of
  content that goes on stores a chunk that was lacking. The listing of the browser page recurses on the depth the code allows. The search for a power of two and
  reading a reader to its end are partial functions whose value \<open>None\<close> is not returning.

  \<^bold>\<open>Abstractions.\<close> Error messages are kept without the interpolated values. Counts in \<open>usize\<close> are natural numbers; 64- and 128-bit
  integers are words that wrap. The \<open>sled\<close> crate is an argument with the laws \<open>sled_ok\<close>. The texts of \<open>hex\<close>, \<open>base64\<close>, \<open>toml\<close> and \<open>serde_json\<close> are arguments with the law that reading undoes
  writing; \<open>human_bytes\<close>, which formats floating-point numbers, is an argument too. Interval scales and times of the sync loop are rationals, without the rounding of \<open>f32\<close>. White
  space is ASCII white space. Mutexes are not modelled, since every call of the in-memory store takes and releases one.

  \<^bold>\<open>Not modelled.\<close> The QUIC endpoint, which maps each call to one of a third-party crate; opening a sled database; the accept loop and the
  rest of the daemon's start-up, which spawn one task per stream or service; parsing of arguments, TOML and socket addresses; the modes of
  key files; routing, static assets and server sockets; the buffers of the browser exports; the FUSE and RocksDB stubs.
\<close>

end
